(* ===== verification/Mux_Prelude.thy ===== *)
theory Mux_Prelude
  imports Main "HOL-Library.Word"
begin

unbundle bit_operations_syntax

text \<open>
  Shared vocabulary of the development: wire bytes, little-endian fields, time spans and
  the errors the sources raise, with the generic lemmas the component theories rest on.

  \<^item> A byte string (\<open>Bytes\<close> in the Crystal sources, \<open>bytes\<close> in the Python scripts) is a list
    of 8-bit words. Indexing with \<open>!\<close> is only used where the source has already checked
    the length; elsewhere the out-of-range case is an explicit error.
  \<^item> A \<open>Time::Span\<close> is an integer number of nanoseconds, the resolution of Crystal's type.
  \<^item> Every \<open>raise\<close> is a value of \<open>mux_error\<close> (Crystal) or \<open>py_error\<close> (Python). The text
    carried by an error is the constant part of the source's message.
\<close>

named_theorems wire_simps \<open>definitions that evaluate wire payloads\<close>
named_theorems bounds_simps \<open>length and range facts of wire payloads\<close>

type_synonym byte = "8 word"
type_synonym bytes = "byte list"
type_synonym u32 = "32 word"
type_synonym span = int

datatype mux_error =
    ArgumentError string
  | InvalidStateError string
  | ProtocolError string
  | MalformedFrameError string
  | FrameDeadlineExceededError
  | TruncatedFrameError
  | StartupError string
  | OverflowError
  | NilAssertionError
  | OutOfBoundsError
  | MissingKeyError

datatype py_error =
    AssertionError string
  | ValueError string
  | IndexError
  | KeyError
  | PyOverflowError
  | PyTimeoutError
  | IncompleteReadError
  | SystemExit string
  | ClientError string
  | OutOfFuel

definition milliseconds :: "int \<Rightarrow> span" where
  "milliseconds n = n * 1000000"

definition seconds :: "int \<Rightarrow> span" where
  "seconds n = n * 1000000000"

lemma milliseconds_mono [simp]: "milliseconds a \<le> milliseconds b \<longleftrightarrow> a \<le> b"
  by (simp add: milliseconds_def)

lemma milliseconds_less [simp]: "milliseconds a < milliseconds b \<longleftrightarrow> a < b"
  by (simp add: milliseconds_def)

section \<open>Little-endian fields\<close>

text \<open>\<open>int.to_bytes(k, "little")\<close> and \<open>int.from_bytes(b, "little")\<close> on in-range values.\<close>

fun le_bytes :: "nat \<Rightarrow> nat \<Rightarrow> bytes" where
  "le_bytes 0 n = []"
| "le_bytes (Suc k) n = of_nat (n mod 256) # le_bytes k (n div 256)"

fun le_val :: "bytes \<Rightarrow> nat" where
  "le_val [] = 0"
| "le_val (b # bs) = unat b + 256 * le_val bs"

lemma length_le_bytes [simp]: "length (le_bytes k n) = k"
  by (induction k arbitrary: n) auto

lemma byte_of_nat_unat [simp]: "of_nat (unat (b :: byte)) = b"
  by simp

lemma unat_byte_mod [simp]: "unat (of_nat (n mod 256) :: byte) = n mod 256"
  by (simp add: unat_of_nat)

lemma unat_byte_less: "unat (b :: byte) < 256"
  using unsigned_less [of b] by simp

lemma le_val_le_bytes: "le_val (le_bytes k n) = n mod 256 ^ k"
proof (induction k arbitrary: n)
  case (Suc k)
  have "n mod 256 + 256 * (n div 256 mod 256 ^ k) = n mod (256 * 256 ^ k)"
    by (simp add: mod_mult2_eq)
  with Suc show ?case by (simp add: unat_of_nat)
qed simp

lemma le_val_bound: "le_val bs < 256 ^ length bs"
proof (induction bs)
  case (Cons b bs)
  have "unat b < 256" by (rule unat_byte_less)
  moreover have "256 * Suc (le_val bs) \<le> 256 * 256 ^ length bs"
    using Cons by (intro mult_le_mono) auto
  ultimately show ?case by simp
qed simp

lemma le_bytes_le_val [simp]: "le_bytes (length bs) (le_val bs) = bs"
proof (induction bs)
  case (Cons b bs)
  have "unat b < 256" by (rule unat_byte_less)
  then have "(unat b + 256 * le_val bs) mod 256 = unat b"
    and "(unat b + 256 * le_val bs) div 256 = le_val bs" by auto
  with Cons show ?case by simp
qed simp

lemma le_bytes_2: "le_bytes 2 n = [of_nat (n mod 256), of_nat (n div 256 mod 256)]"
  by (simp add: numeral_2_eq_2)

lemma le_bytes_4:
  "le_bytes 4 n = [of_nat (n mod 256), of_nat (n div 256 mod 256),
     of_nat (n div 65536 mod 256), of_nat (n div 16777216 mod 256)]"
proof -
  have four: "(4::nat) = Suc (Suc (Suc (Suc 0)))" by simp
  have "n div 256 div 256 = n div 65536" and "n div 65536 div 256 = n div 16777216"
    by (simp_all add: div_mult2_eq [symmetric])
  then show ?thesis by (simp only: four le_bytes.simps)
qed

lemma le_val_le_bytes_2 [simp]: "n < 65536 \<Longrightarrow> le_val (le_bytes 2 n) = n"
  by (simp add: le_val_le_bytes)

lemma le_val_le_bytes_4 [simp]: "n < 4294967296 \<Longrightarrow> le_val (le_bytes 4 n) = n"
  by (simp add: le_val_le_bytes)

text \<open>
  The Crystal sources assemble a 32-bit field with shifts and bitwise or; the Python side
  uses arithmetic. \<open>u32_at\<close> is the bitwise form on four bytes the caller knows to exist.
\<close>

definition u32_at :: "bytes \<Rightarrow> nat \<Rightarrow> u32" where
  "u32_at p i = ucast (p ! i) OR push_bit 8 (ucast (p ! (i + 1)))
     OR push_bit 16 (ucast (p ! (i + 2))) OR push_bit 24 (ucast (p ! (i + 3)))"

lemma or_byte_fields:
  fixes a b c d :: byte
  shows "((ucast a :: u32) OR push_bit 8 (ucast b) OR push_bit 16 (ucast c) OR push_bit 24 (ucast d))
    = ucast a + (push_bit 8 (ucast b) + (push_bit 16 (ucast c) + push_bit 24 (ucast d)))"
proof -
  have bit_byte: "bit (x :: byte) n \<Longrightarrow> n < 8" for x n
    using bit_imp_le_length [of x n] by simp
  have 1: "push_bit 16 (ucast c) + push_bit 24 (ucast d) = (push_bit 16 (ucast c) OR push_bit 24 (ucast d) :: u32)"
    by (rule disjunctive_add) (auto simp: bit_simps dest: bit_byte)
  have 2: "push_bit 8 (ucast b) + (push_bit 16 (ucast c) OR push_bit 24 (ucast d)) = (push_bit 8 (ucast b) OR (push_bit 16 (ucast c) OR push_bit 24 (ucast d)) :: u32)"
    by (rule disjunctive_add) (auto simp: bit_simps dest: bit_byte)
  have 3: "ucast a + (push_bit 8 (ucast b) OR (push_bit 16 (ucast c) OR push_bit 24 (ucast d))) = (ucast a OR (push_bit 8 (ucast b) OR (push_bit 16 (ucast c) OR push_bit 24 (ucast d))) :: u32)"
    by (rule disjunctive_add) (auto simp: bit_simps dest: bit_byte)
  show ?thesis unfolding 1 2 3 by (simp add: or.assoc)
qed
lemma unat_u32_at_sum: "unat (u32_at p i) = unat (p!i) + 256 * unat (p!(i+1)) + 65536 * unat (p!(i+2)) + 16777216 * unat (p!(i+3))"
proof -
  have "u32_at p i = of_nat (unat (p!i) + 256 * unat (p!(i+1)) + 65536 * unat (p!(i+2)) + 16777216 * unat (p!(i+3)))"
    unfolding u32_at_def or_byte_fields by (simp add: push_bit_eq_mult algebra_simps)
  moreover have "unat (p!i) + 256 * unat (p!(i+1)) + 65536 * unat (p!(i+2)) + 16777216 * unat (p!(i+3)) < 2^32"
    using unat_byte_less [of "p!i"] unat_byte_less [of "p!(i+1)"] unat_byte_less [of "p!(i+2)"] unat_byte_less [of "p!(i+3)"] by simp
  ultimately show ?thesis by (simp only: unat_of_nat) simp
qed
lemma unat_u32_at: "i + 4 \<le> length p \<Longrightarrow> unat (u32_at p i) = le_val (take 4 (drop i p))"
proof -
  assume a: "i + 4 \<le> length p"
  have "take 4 (drop i p) = [p!i, p!(i+1), p!(i+2), p!(i+3)]"
    using a by (simp add: numeral_eq_Suc take_Suc_conv_app_nth)
  then show ?thesis by (simp add: unat_u32_at_sum)
qed

text \<open>What a bounded \<open>deque(maxlen=n)\<close> still holds of everything appended to it.\<close>

definition keep_last :: "nat \<Rightarrow> 'a list \<Rightarrow> 'a list" where
  "keep_last n xs = drop (length xs - n) xs"

lemma keep_last_keep_last: "keep_last n (keep_last n xs @ ys) = keep_last n (xs @ ys)"
  by (cases "length xs \<le> n") (auto simp: keep_last_def add.commute)

lemma length_keep_last: "length (keep_last n xs) \<le> n"
  by (simp add: keep_last_def)

lemma keep_last_short: "length xs \<le> n \<Longrightarrow> keep_last n xs = xs"
  by (simp add: keep_last_def)

end
