(* ===== verification/Frame_Codec.thy ===== *)
theory Frame_Codec
  imports Mux_Prelude
begin

text \<open>
  The TCP envelope of the companion protocol (\<open>src/meshcore_tcp_mux/frame_codec.cr\<close>): one
  direction byte, a little-endian 16-bit payload length and the payload.

  The decoder record keeps the header bytes written so far (\<open>@header\<close> up to \<open>@header_size\<close>),
  the allocated payload as the bytes already filled together with the number still needed
  (\<open>@payload\<close>, \<open>@payload_size\<close>) and the time the current frame started. \<open>feed_step\<close> is one
  iteration of the loop of \<open>Decoder#feed\<close> and \<open>feed_loop\<close> the loop; the payloads yielded before
  an exception are part of the result. \<open>parse_stream\<close> is the specification: it reads a whole
  byte stream at once. The locale \<open>stream_decoder\<close> states what an incremental decoder owes to
  such a specification and proves that the cutting of the stream into chunks is irrelevant.
\<close>

section \<open>The code\<close>

definition MAX_PAYLOAD_SIZE :: nat where
  "MAX_PAYLOAD_SIZE = 176"

definition CLIENT_TO_COMPANION_MARKER :: byte where
  "CLIENT_TO_COMPANION_MARKER = 0x3C"

definition COMPANION_TO_CLIENT_MARKER :: byte where
  "COMPANION_TO_CLIENT_MARKER = 0x3E"

definition validate_marker :: "byte \<Rightarrow> mux_error + unit" where
  "validate_marker m =
     (if m = CLIENT_TO_COMPANION_MARKER \<or> m = COMPANION_TO_CLIENT_MARKER then Inr ()
      else Inl (ArgumentError ''frame marker must be < or >''))"

definition encode :: "bytes \<Rightarrow> byte \<Rightarrow> mux_error + bytes" where
  "encode payload marker = (case validate_marker marker of Inl e \<Rightarrow> Inl e | Inr _ \<Rightarrow>
     (let size = length payload in
      if \<not> (1 \<le> size \<and> size \<le> MAX_PAYLOAD_SIZE)
      then Inl (ArgumentError ''payload length is outside 1..176'')
      else Inr (marker # of_nat (size AND 0xff) # of_nat (drop_bit 8 size AND 0xff) # payload)))"

record decoder =
  dec_marker :: byte
  dec_timeout :: span
  dec_header :: bytes
  dec_payload :: "(bytes \<times> nat) option"
  dec_started :: "span option"

definition new_decoder :: "byte \<Rightarrow> span \<Rightarrow> mux_error + decoder" where
  "new_decoder m timeout = (case validate_marker m of Inl e \<Rightarrow> Inl e | Inr _ \<Rightarrow>
     if \<not> 0 < timeout then Inl (ArgumentError ''assembly timeout must be positive'')
     else Inr \<lparr>dec_marker = m, dec_timeout = timeout, dec_header = [], dec_payload = None,
               dec_started = None\<rparr>)"

definition decoder_check_deadline :: "decoder \<Rightarrow> span \<Rightarrow> mux_error + unit" where
  "decoder_check_deadline d now = (case dec_started d of None \<Rightarrow> Inr ()
     | Some t \<Rightarrow> if now - t \<ge> dec_timeout d then Inl FrameDeadlineExceededError else Inr ())"

definition is_partial :: "decoder \<Rightarrow> bool" where
  "is_partial d \<longleftrightarrow> dec_header d \<noteq> [] \<or> dec_payload d \<noteq> None"

definition decoder_finish :: "decoder \<Rightarrow> mux_error + unit" where
  "decoder_finish d = (if \<not> is_partial d then Inr () else Inl TruncatedFrameError)"

definition header_size :: "bytes \<Rightarrow> nat" where
  "header_size h = unat (h ! 1) OR push_bit 8 (unat (h ! 2))"

definition start_frame :: "decoder \<Rightarrow> span \<Rightarrow> decoder" where
  "start_frame d now = d\<lparr>dec_started := Some now\<rparr>"

definition validate_header_marker :: "decoder \<Rightarrow> mux_error + unit" where
  "validate_header_marker d =
     (if dec_header d ! 0 = dec_marker d then Inr ()
      else Inl (MalformedFrameError ''wrong frame marker''))"

definition allocate_payload :: "decoder \<Rightarrow> mux_error + decoder" where
  "allocate_payload d = (let size = header_size (dec_header d) in
     if \<not> (1 \<le> size \<and> size \<le> MAX_PAYLOAD_SIZE)
     then Inl (MalformedFrameError ''payload length is outside 1..176'')
     else Inr (d\<lparr>dec_payload := Some ([], size)\<rparr>))"

definition decoder_reset :: "decoder \<Rightarrow> decoder" where
  "decoder_reset d = d\<lparr>dec_header := [], dec_payload := None, dec_started := None\<rparr>"

definition take_header :: "decoder \<Rightarrow> byte \<Rightarrow> mux_error + decoder" where
  "take_header d b =
     (let d1 = d\<lparr>dec_header := dec_header d @ [b]\<rparr> in
      case (if length (dec_header d1) = 1 then validate_header_marker d1 else Inr ()) of
        Inl e \<Rightarrow> Inl e
      | Inr _ \<Rightarrow> if length (dec_header d1) = 3 then allocate_payload d1 else Inr d1)"

definition take_payload :: "decoder \<Rightarrow> bytes \<Rightarrow> mux_error + (decoder \<times> bytes)" where
  "take_payload d bs = (case dec_payload d of None \<Rightarrow> Inl NilAssertionError
     | Some (filled, needed) \<Rightarrow>
         (let count = min (length bs) needed in
          Inr (d\<lparr>dec_payload := Some (filled @ take count bs, needed - count)\<rparr>, drop count bs)))"

definition complete_payload :: "decoder \<Rightarrow> bytes option \<times> decoder" where
  "complete_payload d = (case dec_payload d of
       Some (filled, 0) \<Rightarrow> (Some filled, decoder_reset d)
     | _ \<Rightarrow> (None, d))"

definition feed_step :: "span \<Rightarrow> decoder \<Rightarrow> bytes \<Rightarrow> mux_error + (bytes option \<times> decoder \<times> bytes)" where
  "feed_step now d0 bs =
     (let d = (if dec_header d0 = [] \<and> dec_payload d0 = None then start_frame d0 now else d0) in
      case (if length (dec_header d) < 3
            then (case take_header d (hd bs) of Inl e \<Rightarrow> Inl e | Inr d1 \<Rightarrow> Inr (d1, tl bs))
            else take_payload d bs) of
        Inl e \<Rightarrow> Inl e
      | Inr (d2, rest) \<Rightarrow> (case complete_payload d2 of (out, d3) \<Rightarrow> Inr (out, d3, rest)))"

definition emit_payload :: "'a option \<Rightarrow> 'a list \<times> 'r \<Rightarrow> 'a list \<times> 'r" where
  "emit_payload out r = (case out of None \<Rightarrow> fst r | Some p \<Rightarrow> p # fst r, snd r)"

function feed_loop :: "span \<Rightarrow> decoder \<Rightarrow> bytes \<Rightarrow> bytes list \<times> (mux_error + decoder)" where
  "feed_loop now d bs =
     (if bs = [] then ([], Inr d)
      else case feed_step now d bs of
          Inl e \<Rightarrow> ([], Inl e)
        | Inr (out, d', rest) \<Rightarrow> emit_payload out (feed_loop now d' rest))"
  by pat_completeness auto
termination
proof (relation "measure (\<lambda>(now, d, bs). 2 * length bs + (if dec_payload d = None then 0 else 1))",
    goal_cases)
  case 1
  then show ?case by simp
next
  case (2 now d bs x out y d' rest)
  then show ?case
    by (cases bs)
      (auto simp: feed_step_def take_header_def take_payload_def complete_payload_def
        allocate_payload_def decoder_reset_def start_frame_def Let_def split: if_splits sum.splits option.splits nat.splits)
qed

declare feed_loop.simps [simp del]

definition decoder_feed :: "decoder \<Rightarrow> bytes \<Rightarrow> span \<Rightarrow> bytes list \<times> (mux_error + decoder)" where
  "decoder_feed d bs now = (case decoder_check_deadline d now of Inl e \<Rightarrow> ([], Inl e) | Inr _ \<Rightarrow> feed_loop now d bs)"

text \<open>One read of the transport's reader fiber: the arrival time and the bytes read.\<close>

definition feed_timed :: "decoder \<Rightarrow> span \<times> bytes \<Rightarrow> bytes list \<times> (mux_error + decoder)" where
  "feed_timed d c = decoder_feed d (snd c) (fst c)"

section \<open>The specification: reading a whole stream\<close>

function parse_stream :: "byte \<Rightarrow> bytes \<Rightarrow> bytes list \<times> (mux_error + bytes)" where
  "parse_stream m bs =
     (if bs = [] then ([], Inr [])
      else if bs ! 0 \<noteq> m then ([], Inl (MalformedFrameError ''wrong frame marker''))
      else if length bs < 3 then ([], Inr bs)
      else let n = header_size bs in
        if \<not> (1 \<le> n \<and> n \<le> MAX_PAYLOAD_SIZE)
        then ([], Inl (MalformedFrameError ''payload length is outside 1..176''))
        else if length bs < 3 + n then ([], Inr bs)
        else emit_payload (Some (take n (drop 3 bs))) (parse_stream m (drop (3 + n) bs)))"
  by pat_completeness auto
termination
  by (relation "measure (\<lambda>(m, bs). length bs)") auto

declare parse_stream.simps [simp del]

text \<open>Continuing a parse with more bytes, and the bytes a decoder still holds.\<close>

definition continue_parse ::
  "(bytes \<Rightarrow> 'o list \<times> ('e + bytes)) \<Rightarrow> 'o list \<times> ('e + bytes) \<Rightarrow> bytes \<Rightarrow> 'o list \<times> ('e + bytes)" where
  "continue_parse parse r ys = (case snd r of Inl e \<Rightarrow> (fst r, Inl e)
     | Inr rest \<Rightarrow> (fst r @ fst (parse (rest @ ys)), snd (parse (rest @ ys))))"

definition decoder_pending :: "decoder \<Rightarrow> bytes" where
  "decoder_pending d = dec_header d @ (case dec_payload d of None \<Rightarrow> [] | Some (filled, _) \<Rightarrow> filled)"

definition abs_result :: "('s \<Rightarrow> bytes) \<Rightarrow> 'o list \<times> ('e + 's) \<Rightarrow> 'o list \<times> ('e + bytes)" where
  "abs_result pending r = (fst r, case snd r of Inl e \<Rightarrow> Inl e | Inr s \<Rightarrow> Inr (pending s))"

definition decoder_ok :: "decoder \<Rightarrow> bool" where
  "decoder_ok d \<longleftrightarrow>
     (dec_header d \<noteq> [] \<longrightarrow> dec_header d ! 0 = dec_marker d) \<and>
     (dec_started d = None \<longleftrightarrow> dec_header d = []) \<and>
     (case dec_payload d of None \<Rightarrow> length (dec_header d) < 3
      | Some (filled, needed) \<Rightarrow> length (dec_header d) = 3 \<and> 0 < needed
          \<and> length filled + needed = header_size (dec_header d)
          \<and> header_size (dec_header d) \<le> MAX_PAYLOAD_SIZE)"

section \<open>Decoding is insensitive to chunking\<close>

fun run_chunks :: "('s \<Rightarrow> 'c \<Rightarrow> 'o list \<times> ('e + 's)) \<Rightarrow> 's \<Rightarrow> 'c list \<Rightarrow> 'o list \<times> ('e + 's)" where
  "run_chunks step s [] = ([], Inr s)"
| "run_chunks step s (c # cs) = (case step s c of
      (ps, Inl e) \<Rightarrow> (ps, Inl e)
    | (ps, Inr s') \<Rightarrow> (case run_chunks step s' cs of (qs, r) \<Rightarrow> (ps @ qs, r)))"

locale stream_decoder =
  fixes parse :: "bytes \<Rightarrow> 'o list \<times> ('e + bytes)"
    and step :: "'s \<Rightarrow> 'c \<Rightarrow> 'o list \<times> ('e + 's)"
    and data :: "'c \<Rightarrow> bytes"
    and pending :: "'s \<Rightarrow> bytes"
    and ok :: "'s \<Rightarrow> bool"
  assumes parse_append: "parse (xs @ ys) = continue_parse parse (parse xs) ys"
    and parse_pending: "ok s \<Longrightarrow> parse (pending s) = ([], Inr (pending s))"
    and step_refines: "ok s \<Longrightarrow> abs_result pending (step s c) = parse (pending s @ data c)"
    and step_ok: "ok s \<Longrightarrow> step s c = (ps, Inr s') \<Longrightarrow> ok s'"
begin

lemma run_chunks_parse:
  "ok s \<Longrightarrow> abs_result pending (run_chunks step s cs) = parse (pending s @ concat (map data cs))"
proof (induction cs arbitrary: s)
  case Nil
  then show ?case by (simp add: abs_result_def parse_pending)
next
  case (Cons c cs)
  obtain ps r where st: "step s c = (ps, r)" by (cases "step s c")
  have whole: "parse (pending s @ concat (map data (c # cs)))
      = continue_parse parse (abs_result pending (ps, r)) (concat (map data cs))"
    using step_refines [OF Cons.prems, of c] parse_append [of "pending s @ data c"] st by simp
  show ?case
  proof (cases r)
    case (Inl e)
    with whole st show ?thesis by (simp add: abs_result_def continue_parse_def)
  next
    case (Inr s')
    with step_ok [OF Cons.prems] st have "ok s'" by simp
    from Cons.IH [OF this, symmetric] whole st Inr show ?thesis
      by (auto simp: abs_result_def continue_parse_def split: prod.splits)
  qed
qed

lemma run_chunks_ok:
  "ok s \<Longrightarrow> run_chunks step s cs = (ps, Inr s') \<Longrightarrow> ok s'"
  by (induction cs arbitrary: s ps) (auto split: prod.splits sum.splits dest: step_ok)

lemma run_chunks_same_stream:
  "ok s \<Longrightarrow> concat (map data cs) = concat (map data ds) \<Longrightarrow>
    abs_result pending (run_chunks step s cs) = abs_result pending (run_chunks step s ds)"
  by (simp add: run_chunks_parse)

end

section \<open>The decoder refines the specification\<close>

lemma header_size_sum: "header_size h = unat (h ! 1) + 256 * unat (h ! 2)"
proof -
  have "\<not> bit (unat (h ! 1)) n \<or> \<not> bit (push_bit 8 (unat (h ! 2))) n" for n
    using bit_imp_le_length [of "h ! 1" n] by (auto simp: bit_simps)
  then have "unat (h ! 1) + push_bit 8 (unat (h ! 2)) = header_size h"
    unfolding header_size_def by (rule disjunctive_add)
  then show ?thesis by (simp add: push_bit_eq_mult)
qed

lemma header_size_append [simp]: "3 \<le> length h \<Longrightarrow> header_size (h @ xs) = header_size h"
  by (simp add: header_size_def nth_append)

lemma encode_eq:
  assumes "m = CLIENT_TO_COMPANION_MARKER \<or> m = COMPANION_TO_CLIENT_MARKER"
    and "1 \<le> length p" and "length p \<le> MAX_PAYLOAD_SIZE"
  shows "encode p m = Inr (m # le_bytes 2 (length p) @ p)"
proof -
  have "n AND 0xff = n mod 256" for n :: nat
    using take_bit_eq_mask [of 8 n] by (simp add: take_bit_eq_mod mask_eq_exp_minus_1)
  with assms show ?thesis
    by (simp add: encode_def validate_marker_def le_bytes_2 drop_bit_eq_div Let_def)
qed

lemma parse_stream_append:
  "parse_stream m (xs @ ys) = continue_parse (parse_stream m) (parse_stream m xs) ys"
proof (induction m xs rule: parse_stream.induct)
  case (1 m xs)
  consider "xs = []" | "xs \<noteq> []" "xs ! 0 \<noteq> m" | "xs \<noteq> []" "xs ! 0 = m" "length xs < 3"
    | "3 \<le> length xs" "xs ! 0 = m" "\<not> (1 \<le> header_size xs \<and> header_size xs \<le> MAX_PAYLOAD_SIZE)"
    | "3 \<le> length xs" "xs ! 0 = m" "1 \<le> header_size xs" "header_size xs \<le> MAX_PAYLOAD_SIZE"
       "length xs < 3 + header_size xs"
    | "3 \<le> length xs" "xs ! 0 = m" "1 \<le> header_size xs" "header_size xs \<le> MAX_PAYLOAD_SIZE"
       "3 + header_size xs \<le> length xs"
    by linarith
  then show ?case
  proof cases
    case 6
    let ?n = "header_size xs"
    have xs: "xs \<noteq> []" using 6 by auto
    have "parse_stream m xs = emit_payload (Some (take ?n (drop 3 xs))) (parse_stream m (drop (3 + ?n) xs))"
      using 6 xs by (subst parse_stream.simps) (simp add: Let_def)
    moreover have "parse_stream m (xs @ ys) =
        emit_payload (Some (take ?n (drop 3 xs))) (parse_stream m (drop (3 + ?n) xs @ ys))"
      using 6 xs by (subst parse_stream.simps) (simp add: Let_def nth_append)
    moreover have "parse_stream m (drop (3 + ?n) xs @ ys) =
        continue_parse (parse_stream m) (parse_stream m (drop (3 + ?n) xs)) ys"
      using 6 xs by (intro "1.IH") auto
    ultimately show ?thesis
      by (auto simp: continue_parse_def emit_payload_def split: sum.splits)
  qed (auto simp: parse_stream.simps [of m xs] parse_stream.simps [of m "xs @ ys"] parse_stream.simps [of m "[]"]
      continue_parse_def Let_def nth_append)
qed

lemma parse_stream_pending:
  assumes "decoder_ok d" "dec_marker d = m"
  shows "parse_stream m (decoder_pending d) = ([], Inr (decoder_pending d))"
  using assms
  by (subst parse_stream.simps)
     (auto simp: decoder_pending_def decoder_ok_def Let_def nth_append split: option.splits prod.splits)


lemma feed_step_header:
  assumes "decoder_ok d" "dec_payload d = None"
  shows "case feed_step now d (b # bs) of
      Inl e \<Rightarrow> parse_stream (dec_marker d) (decoder_pending d @ b # bs) = ([], Inl e)
    | Inr (out, d', rest) \<Rightarrow> decoder_ok d' \<and> dec_marker d' = dec_marker d \<and> out = None
        \<and> decoder_pending d' @ rest = decoder_pending d @ b # bs"
proof -
  have len: "length (dec_header d) < 3" using assms by (simp add: decoder_ok_def)
  then consider "dec_header d = []" | "\<exists>x. dec_header d = [x]" | "\<exists>x y. dec_header d = [x, y]"
    by (cases "dec_header d"; cases "tl (dec_header d)") auto
  then show ?thesis
  proof cases
    case 1
    with assms show ?thesis
      by (auto simp: feed_step_def take_header_def validate_header_marker_def start_frame_def
        complete_payload_def decoder_ok_def decoder_pending_def parse_stream.simps [of _ "b # bs"])
  next
    case 2
    with assms show ?thesis
      by (auto simp: feed_step_def take_header_def complete_payload_def decoder_ok_def
        decoder_pending_def)
  next
    case 3
    then obtain x y where h: "dec_header d = [x, y]" by blast
    have "header_size (x # y # b # bs) = header_size [x, y, b]"
      by (simp add: header_size_def)
    with assms h show ?thesis
      by (auto simp: feed_step_def take_header_def allocate_payload_def complete_payload_def
        decoder_ok_def decoder_pending_def Let_def
        parse_stream.simps [of "dec_marker d" "dec_marker d # y # b # bs"] split: nat.splits)
  qed
qed

lemma feed_step_payload:
  assumes "decoder_ok d" "dec_payload d = Some (filled, needed)"
  shows "feed_step now d bs =
    (if length bs < needed
     then Inr (None, d\<lparr>dec_payload := Some (filled @ bs, needed - length bs)\<rparr>, [])
     else Inr (Some (filled @ take needed bs), decoder_reset d, drop needed bs))"
  using assms
  by (auto simp: feed_step_def take_payload_def complete_payload_def decoder_reset_def decoder_ok_def
      Let_def min_def split: nat.splits)

lemma decoder_ok_fill:
  "decoder_ok d \<Longrightarrow> dec_payload d = Some (filled, needed) \<Longrightarrow> length bs < needed \<Longrightarrow>
    decoder_ok (d\<lparr>dec_payload := Some (filled @ bs, needed - length bs)\<rparr>)"
  by (auto simp: decoder_ok_def)

lemma decoder_ok_reset [simp]: "decoder_ok (decoder_reset d)"
  by (simp add: decoder_ok_def decoder_reset_def)

lemma pending_reset [simp]: "decoder_pending (decoder_reset d) = []"
  by (simp add: decoder_pending_def decoder_reset_def)

lemma marker_reset [simp]: "dec_marker (decoder_reset d) = dec_marker d"
  by (simp add: decoder_reset_def)

lemma parse_stream_complete:
  assumes ok: "decoder_ok d" and p: "dec_payload d = Some (filled, needed)" and len: "needed \<le> length bs"
  shows "parse_stream (dec_marker d) (decoder_pending d @ bs)
    = emit_payload (Some (filled @ take needed bs)) (parse_stream (dec_marker d) (drop needed bs))"
proof -
  have h: "length (dec_header d) = 3" "dec_header d \<noteq> []" "dec_header d ! 0 = dec_marker d"
    "header_size (dec_header d) = length filled + needed" "0 < needed"
    "length filled + needed \<le> MAX_PAYLOAD_SIZE"
    using ok p by (auto simp: decoder_ok_def)
  show ?thesis
    by (subst parse_stream.simps)
       (use h len in \<open>simp add: decoder_pending_def p Let_def nth_append\<close>)
qed

lemma feed_step_parse:
  assumes ok: "decoder_ok d" and ne: "bs \<noteq> []"
  shows "case feed_step now d bs of
      Inl e \<Rightarrow> parse_stream (dec_marker d) (decoder_pending d @ bs) = ([], Inl e)
    | Inr (out, d', rest) \<Rightarrow> decoder_ok d' \<and> dec_marker d' = dec_marker d \<and>
        parse_stream (dec_marker d) (decoder_pending d @ bs)
          = emit_payload out (parse_stream (dec_marker d) (decoder_pending d' @ rest))"
proof (cases "dec_payload d")
  case None
  obtain b bs' where "bs = b # bs'" using ne by (cases bs) auto
  with feed_step_header [OF ok None, where now = now and b = b and bs = bs'] show ?thesis
    by (auto simp: emit_payload_def split: sum.splits)
next
  case (Some fk)
  obtain filled needed where p: "dec_payload d = Some (filled, needed)" using Some by (cases fk) auto
  show ?thesis
  proof (cases "length bs < needed")
    case True
    with decoder_ok_fill [OF ok p True] p show ?thesis
      by (simp add: feed_step_payload [OF ok p] emit_payload_def decoder_pending_def)
  next
    case False
    with parse_stream_complete [OF ok p] show ?thesis
      by (simp add: feed_step_payload [OF ok p])
  qed
qed

lemma abs_result_emit_payload:
  "abs_result pending (emit_payload out r) = emit_payload out (abs_result pending r)"
  by (simp add: abs_result_def emit_payload_def split: option.splits)

lemma feed_loop_parse:
  "decoder_ok d \<Longrightarrow> abs_result decoder_pending (feed_loop now d bs)
     = parse_stream (dec_marker d) (decoder_pending d @ bs)
   \<and> (\<forall>d'. snd (feed_loop now d bs) = Inr d' \<longrightarrow> decoder_ok d' \<and> dec_marker d' = dec_marker d)"
proof (induction now d bs rule: feed_loop.induct)
  case (1 now d bs)
  show ?case
  proof (cases "bs = []")
    case True
    with "1.prems" show ?thesis
      by (simp add: feed_loop.simps [of now d "[]"] abs_result_def parse_stream_pending)
  next
    case False
    note step = feed_step_parse [OF "1.prems" False, of now]
    show ?thesis
    proof (cases "feed_step now d bs")
      case (Inl e)
      with False step show ?thesis
        by (simp add: feed_loop.simps [of now d bs] abs_result_def)
    next
      case (Inr r)
      obtain out d' rest where r: "r = (out, d', rest)" by (cases r)
      with Inr step have d': "decoder_ok d'" "dec_marker d' = dec_marker d"
        and parse: "parse_stream (dec_marker d) (decoder_pending d @ bs)
          = emit_payload out (parse_stream (dec_marker d) (decoder_pending d' @ rest))" by auto
      have loop: "feed_loop now d bs = emit_payload out (feed_loop now d' rest)"
        using False Inr r by (simp add: feed_loop.simps [of now d bs])
      note IH = "1.IH" [OF False Inr r [symmetric] refl d'(1), unfolded d'(2)]
      show ?thesis
      proof
        show "abs_result decoder_pending (feed_loop now d bs)
          = parse_stream (dec_marker d) (decoder_pending d @ bs)"
          by (simp only: loop parse abs_result_emit_payload conjunct1 [OF IH])
        show "\<forall>d'. snd (feed_loop now d bs) = Inr d' \<longrightarrow> decoder_ok d' \<and> dec_marker d' = dec_marker d"
          using conjunct2 [OF IH] by (simp only: loop emit_payload_def snd_conv)
      qed
    qed
  qed
qed

interpretation codec_stream: stream_decoder "parse_stream m" "\<lambda>d c. feed_loop (fst c) d (snd c)" snd
  decoder_pending "\<lambda>d. decoder_ok d \<and> dec_marker d = m" for m
proof (unfold_locales, goal_cases)
  case 1
  show ?case by (rule parse_stream_append)
next
  case (2 s)
  then show ?case by (simp add: parse_stream_pending)
next
  case (3 s c)
  then show ?case using feed_loop_parse by blast
next
  case (4 s c ps s')
  then show ?case using feed_loop_parse [of s "fst c" "snd c"] by auto
qed

lemma parse_stream_lengths:
  "p \<in> set (fst (parse_stream m bs)) \<Longrightarrow> 1 \<le> length p \<and> length p \<le> MAX_PAYLOAD_SIZE"
proof (induction m bs rule: parse_stream.induct)
  case (1 m bs)
  from "1.prems" have "p \<in> set (fst (parse_stream m bs))" .
  then show ?case
    unfolding parse_stream.simps [of m bs]
    using "1.IH" by (auto simp: Let_def emit_payload_def split: if_splits)
qed

lemma parse_stream_no_deadline: "snd (parse_stream m bs) \<noteq> Inl FrameDeadlineExceededError"
proof (induction m bs rule: parse_stream.induct)
  case (1 m bs)
  then show ?case
    unfolding parse_stream.simps [of m bs]
    by (auto simp: Let_def emit_payload_def)
qed

lemma parse_stream_encoded:
  "list_all (\<lambda>p. 1 \<le> length p \<and> length p \<le> MAX_PAYLOAD_SIZE) ps \<Longrightarrow>
    parse_stream m (concat (map (\<lambda>p. m # le_bytes 2 (length p) @ p) ps)) = (ps, Inr [])"
proof (induction ps)
  case Nil
  then show ?case by (simp add: parse_stream.simps)
next
  case (Cons p ps)
  let ?f = "\<lambda>p. m # le_bytes 2 (length p) @ p"
  have len: "1 \<le> length p" "length p \<le> MAX_PAYLOAD_SIZE" using Cons.prems by auto
  have le: "le_val (le_bytes 2 (length p)) = length p"
    using len by (simp add: MAX_PAYLOAD_SIZE_def)
  have "header_size (?f p @ concat (map ?f ps)) = length p"
    using le by (simp add: header_size_sum le_bytes_2 unat_of_nat)
  moreover have "drop (3 + length p) (?f p @ concat (map ?f ps)) = concat (map ?f ps)"
    by (simp add: le_bytes_2 numeral_3_eq_3)
  ultimately have "parse_stream m (?f p @ concat (map ?f ps))
      = emit_payload (Some p) (parse_stream m (concat (map ?f ps)))"
    using len by (subst parse_stream.simps) (simp add: Let_def)
  with Cons show ?case by (simp add: emit_payload_def)
qed

lemma feed_timed_cases:
  "feed_timed d c = ([], Inl FrameDeadlineExceededError) \<or> feed_timed d c = feed_loop (fst c) d (snd c)"
  by (auto simp: feed_timed_def decoder_feed_def decoder_check_deadline_def split: option.splits)

lemma run_feed_timed_cases:
  "snd (run_chunks feed_timed d cs) = Inl FrameDeadlineExceededError
   \<or> run_chunks feed_timed d cs = run_chunks (\<lambda>d c. feed_loop (fst c) d (snd c)) d cs"
proof (induction cs arbitrary: d)
  case (Cons c cs)
  show ?case
  proof (cases "feed_timed d c = feed_loop (fst c) d (snd c)")
    case True
    obtain ps r where "feed_loop (fst c) d (snd c) = (ps, r)" by fastforce
    with True Cons.IH [of "projr r"] show ?thesis by (cases r) (auto split: prod.splits)
  next
    case False
    with feed_timed_cases [of d c] show ?thesis by simp
  qed
qed simp

lemma new_decoder_ok:
  "new_decoder m timeout = Inr d \<Longrightarrow> decoder_ok d \<and> dec_marker d = m \<and> decoder_pending d = []
     \<and> dec_timeout d = timeout \<and> 0 < timeout"
  by (auto simp: new_decoder_def decoder_ok_def decoder_pending_def split: sum.splits if_splits)

lemma not_partial_iff: "decoder_ok d \<Longrightarrow> \<not> is_partial d \<longleftrightarrow> decoder_pending d = []"
  by (auto simp: is_partial_def decoder_ok_def decoder_pending_def split: option.splits)

text \<open>The start time of a frame is never refreshed while the frame is incomplete.\<close>

lemma feed_step_started:
  "decoder_ok d \<Longrightarrow> bs \<noteq> [] \<Longrightarrow> feed_step now d bs = Inr (None, d', rest) \<Longrightarrow>
    dec_timeout d' = dec_timeout d \<and> dec_started d' = Some (case dec_started d of None \<Rightarrow> now | Some t \<Rightarrow> t)"
  by (auto simp: feed_step_def take_header_def take_payload_def complete_payload_def allocate_payload_def
      validate_header_marker_def start_frame_def decoder_ok_def Let_def
      split: if_splits sum.splits option.splits nat.splits)


lemma feed_loop_started:
  "decoder_ok d \<Longrightarrow> feed_loop now d bs = ([], Inr d') \<Longrightarrow> dec_started d = Some t \<Longrightarrow>
    dec_started d' = Some t \<and> dec_timeout d' = dec_timeout d"
proof (induction now d bs rule: feed_loop.induct)
  case (1 now d bs)
  show ?case
  proof (cases "bs = []")
    case True
    with "1.prems" show ?thesis by (simp add: feed_loop.simps)
  next
    case False
    with "1.prems"(2) obtain out e rest where st: "feed_step now d bs = Inr (out, e, rest)"
      and loop: "emit_payload out (feed_loop now e rest) = ([], Inr d')"
      by (auto simp: feed_loop.simps [of now d bs] split: sum.splits)
    then have "out = None" and rest: "feed_loop now e rest = ([], Inr d')"
      by (auto simp: emit_payload_def prod_eq_iff split: option.splits)
    with st have st: "feed_step now d bs = Inr (None, e, rest)" by simp
    have "decoder_ok e" using feed_step_parse [OF "1.prems"(1) False, of now] st by auto
    moreover have "dec_started e = Some t \<and> dec_timeout e = dec_timeout d"
      using feed_step_started [OF "1.prems"(1) False st] "1.prems"(3) by simp
    ultimately show ?thesis using "1.IH" [OF False st refl refl _ rest] by auto
  qed
qed

lemma feed_timed_ok:
  assumes "decoder_ok d" and "feed_timed d c = (ps, Inr d')"
  shows "decoder_ok d' \<and> dec_marker d' = dec_marker d"
proof -
  have "feed_loop (fst c) d (snd c) = (ps, Inr d')" using feed_timed_cases [of d c] assms(2) by auto
  with feed_loop_parse [OF assms(1), of "fst c" "snd c"] show ?thesis by auto
qed

lemma feed_timed_started:
  assumes ok: "decoder_ok d" and ft: "feed_timed d c = ([], Inr d')" and t: "dec_started d = Some t"
  shows "dec_started d' = Some t \<and> dec_timeout d' = dec_timeout d \<and> decoder_ok d'"
proof -
  have fl: "feed_loop (fst c) d (snd c) = ([], Inr d')" using feed_timed_cases [of d c] ft by auto
  with feed_loop_started [OF ok fl t] feed_timed_ok [OF ok ft] show ?thesis by simp
qed

lemma run_feed_timed_started:
  "decoder_ok d \<Longrightarrow> run_chunks feed_timed d cs = ([], Inr d') \<Longrightarrow> dec_started d = Some t \<Longrightarrow>
    dec_started d' = Some t \<and> dec_timeout d' = dec_timeout d"
proof (induction cs arbitrary: d)
  case (Cons c cs)
  obtain d1 where d1: "feed_timed d c = ([], Inr d1)" "run_chunks feed_timed d1 cs = ([], Inr d')"
    using Cons.prems(2) by (auto split: prod.splits sum.splits)
  with feed_timed_started [OF Cons.prems(1) d1(1) Cons.prems(3)] Cons.IH [of d1] show ?case by auto
qed auto

text \<open>Within a window shorter than the assembly timeout no deadline is ever reported.\<close>

definition started_from :: "span \<Rightarrow> decoder \<Rightarrow> bool" where
  "started_from t d \<longleftrightarrow> (case dec_started d of None \<Rightarrow> True | Some s \<Rightarrow> t \<le> s)"

lemma feed_step_started_from:
  "feed_step now d bs = Inr (out, d', rest) \<Longrightarrow> started_from t d \<Longrightarrow> t \<le> now \<Longrightarrow>
    started_from t d' \<and> dec_timeout d' = dec_timeout d"
  by (auto simp: feed_step_def take_header_def take_payload_def complete_payload_def allocate_payload_def
      validate_header_marker_def start_frame_def decoder_reset_def started_from_def Let_def
      split: if_splits sum.splits option.splits nat.splits)

lemma feed_loop_started_from:
  "feed_loop now d bs = (ps, Inr d') \<Longrightarrow> started_from t d \<Longrightarrow> t \<le> now \<Longrightarrow>
    started_from t d' \<and> dec_timeout d' = dec_timeout d"
proof (induction now d bs arbitrary: ps rule: feed_loop.induct)
  case (1 now d bs)
  show ?case
  proof (cases "bs = []")
    case True
    with "1.prems" show ?thesis by (simp add: feed_loop.simps)
  next
    case False
    with "1.prems"(1) obtain out e rest where st: "feed_step now d bs = Inr (out, e, rest)"
      and loop: "snd (feed_loop now e rest) = Inr d'"
      by (auto simp: feed_loop.simps [of now d bs] emit_payload_def split: sum.splits)
    obtain qs where "feed_loop now e rest = (qs, Inr d')" using loop by (metis prod.collapse)
    with "1.IH" [OF False st refl refl] feed_step_started_from [OF st "1.prems"(2,3)] "1.prems"(3)
    show ?thesis by auto
  qed
qed

lemma run_feed_timed_window:
  "started_from t d \<Longrightarrow> dec_timeout d = timeout \<Longrightarrow>
    list_all (\<lambda>c. t \<le> fst c \<and> fst c < t + timeout) cs \<Longrightarrow>
    run_chunks feed_timed d cs = run_chunks (\<lambda>d c. feed_loop (fst c) d (snd c)) d cs"
proof (induction cs arbitrary: d)
  case (Cons c cs)
  have "feed_timed d c = feed_loop (fst c) d (snd c)"
    using Cons.prems by (auto simp: feed_timed_def decoder_feed_def decoder_check_deadline_def
        started_from_def split: option.splits)
  moreover have "run_chunks feed_timed d' cs = run_chunks (\<lambda>d c. feed_loop (fst c) d (snd c)) d' cs"
    if "feed_loop (fst c) d (snd c) = (ps, Inr d')" for ps d'
    using feed_loop_started_from [OF that Cons.prems(1)] Cons by auto
  ultimately show ?case by (auto split: prod.splits sum.splits)
qed simp


lemma run_feed_timed_lengths:
  "decoder_ok d \<Longrightarrow> p \<in> set (fst (run_chunks feed_timed d cs)) \<Longrightarrow>
    1 \<le> length p \<and> length p \<le> MAX_PAYLOAD_SIZE"
proof (induction cs arbitrary: d)
  case (Cons c cs)
  obtain ps r where ft: "feed_timed d c = (ps, r)" by fastforce
  have here: "1 \<le> length q \<and> length q \<le> MAX_PAYLOAD_SIZE" if "q \<in> set ps" for q
    using that ft feed_timed_cases [of d c] feed_loop_parse [OF Cons.prems(1), of "fst c" "snd c"]
      parse_stream_lengths [of q "dec_marker d" "decoder_pending d @ snd c"]
    by (auto simp: abs_result_def) (metis fst_conv)+
  show ?case
  proof (cases r)
    case (Inl e)
    with Cons.prems ft here show ?thesis by auto
  next
    case (Inr d')
    with ft feed_timed_ok [OF Cons.prems(1)] have "decoder_ok d'" by auto
    with Cons ft Inr here show ?thesis by (auto split: prod.splits) 
  qed
qed simp

lemma encode_all_eq:
  "map (\<lambda>p. encode p m) ps = map Inr fs \<Longrightarrow> fs = map (\<lambda>p. m # le_bytes 2 (length p) @ p) ps
    \<and> list_all (\<lambda>p. 1 \<le> length p \<and> length p \<le> MAX_PAYLOAD_SIZE) ps"
proof (induction ps arbitrary: fs)
  case (Cons p ps)
  then obtain f gs where fs: "fs = f # gs" "encode p m = Inr f" "map (\<lambda>p. encode p m) ps = map Inr gs"
    by (auto simp: Cons_eq_map_conv)
  have p: "1 \<le> length p" "length p \<le> MAX_PAYLOAD_SIZE"
    "m = CLIENT_TO_COMPANION_MARKER \<or> m = COMPANION_TO_CLIENT_MARKER"
    using fs(2) by (auto simp: encode_def validate_marker_def Let_def split: if_splits)
  with encode_eq [OF p(3) p(1,2)] Cons.IH [OF fs(3)] fs show ?case by simp
qed simp

section \<open>Properties\<close>

text \<open>C4. Whatever the cutting of the TCP stream into reads, frames produced by \<open>encode\<close> are
  decoded to exactly the encoded payloads, in order, and the decoder ends on a frame boundary,
  provided the reads arrive within one assembly timeout.\<close>

theorem codec_roundtrip:
  assumes "new_decoder m timeout = Inr d"
    and "map (\<lambda>p. encode p m) ps = map Inr fs"
    and "concat (map snd cs) = concat fs"
    and "list_all (\<lambda>c. t \<le> fst c \<and> fst c < t + timeout) cs"
  shows "\<exists>d'. run_chunks feed_timed d cs = (ps, Inr d') \<and> decoder_finish d' = Inr ()"
proof -
  note d = new_decoder_ok [OF assms(1)]
  note enc = encode_all_eq [OF assms(2)]
  let ?run = "run_chunks (\<lambda>d c. feed_loop (fst c) d (snd c)) d cs"
  have "started_from t d" using assms(1)
    by (auto simp: new_decoder_def started_from_def split: sum.splits if_splits)
  then have run: "run_chunks feed_timed d cs = ?run"
    using assms(4) d by (intro run_feed_timed_window) auto
  have "abs_result decoder_pending ?run = (ps, Inr [])"
    using codec_stream.run_chunks_parse [of d m cs] d enc parse_stream_encoded [of ps m] assms(3)
    by simp
  then obtain d' where d': "?run = (ps, Inr d')" "decoder_pending d' = []"
    by (cases ?run) (auto simp: abs_result_def split: sum.splits)
  have "decoder_ok d'" using codec_stream.run_chunks_ok d d'(1) by blast
  with d' not_partial_iff [of d'] have "decoder_finish d' = Inr ()"
    by (simp add: decoder_finish_def)
  with run d' show ?thesis by auto
qed

theorem codec_roundtrip_witness:
  "\<exists>d d'. new_decoder 0x3E 5000000000 = Inr d \<and>
     run_chunks feed_timed d [(7, [0x3E]), (8, [1, 0, 0x83, 0x3E, 1, 0]), (9, [10])]
       = ([[0x83], [10]], Inr d') \<and> decoder_finish d' = Inr ()"
proof -
  obtain d where d: "new_decoder 0x3E 5000000000 = Inr d"
    by (simp add: new_decoder_def validate_marker_def COMPANION_TO_CLIENT_MARKER_def)
  have "\<exists>d'. run_chunks feed_timed d [(7, [0x3E]), (8, [1, 0, 0x83, 0x3E, 1, 0]), (9, [10])]
      = ([[0x83], [10]], Inr d') \<and> decoder_finish d' = Inr ()"
    by (rule codec_roundtrip [OF d, where t = 7 and fs = "[[0x3E, 1, 0, 0x83], [0x3E, 1, 0, 10]]"])
      (simp_all add: encode_def validate_marker_def COMPANION_TO_CLIENT_MARKER_def MAX_PAYLOAD_SIZE_def Let_def)
  with d show ?thesis by blast
qed

text \<open>C11. The incremental decoder refines the specification: unless a read arrives after the
  assembly deadline, the payloads yielded, the error reported and the bytes still held are those
  of \<open>parse_stream\<close> on the concatenated stream.\<close>

theorem decoder_refines_parse:
  assumes "new_decoder m timeout = Inr d"
    and "snd (run_chunks feed_timed d cs) \<noteq> Inl FrameDeadlineExceededError"
  shows "abs_result decoder_pending (run_chunks feed_timed d cs) = parse_stream m (concat (map snd cs))"
  using run_feed_timed_cases [of d cs] assms(2) codec_stream.run_chunks_parse [of d m cs]
    new_decoder_ok [OF assms(1)] by auto

theorem decoder_refines_parse_witness:
  "\<exists>d. new_decoder 0x3C 1 = Inr d \<and>
     abs_result decoder_pending (run_chunks feed_timed d [(0, [0x3C, 0xB1]), (0, [0])])
       = ([], Inl (MalformedFrameError ''payload length is outside 1..176''))"
proof -
  obtain d where d: "new_decoder 0x3C 1 = Inr d"
    by (simp add: new_decoder_def validate_marker_def CLIENT_TO_COMPANION_MARKER_def)
  have "started_from 0 d" using d
    by (auto simp: new_decoder_def started_from_def split: sum.splits if_splits)
  then have "run_chunks feed_timed d [(0, [0x3C, 0xB1]), (0, [0])]
      = run_chunks (\<lambda>d c. feed_loop (fst c) d (snd c)) d [(0, [0x3C, 0xB1]), (0, [0])]"
    using new_decoder_ok [OF d] by (intro run_feed_timed_window) auto
  moreover have "parse_stream 0x3C [0x3C, 0xB1, 0]
      = ([], Inl (MalformedFrameError ''payload length is outside 1..176''))"
    by (simp add: parse_stream.simps header_size_sum MAX_PAYLOAD_SIZE_def)
  moreover have "snd (run_chunks feed_timed d [(0, [0x3C, 0xB1]), (0, [0])]) \<noteq> Inl FrameDeadlineExceededError"
    using calculation codec_stream.run_chunks_parse [of d "0x3C" "[(0, [0x3C, 0xB1]), (0, [0])]"]
      new_decoder_ok [OF d] by (auto simp: abs_result_def split: sum.splits)
  ultimately show ?thesis using d decoder_refines_parse [OF d, of "[(0, [0x3C, 0xB1]), (0, [0])]"] by auto
qed

text \<open>Every payload a decoder hands on, whatever bytes a peer sends and even when the stream
  later fails, has between 1 and 176 bytes.\<close>

theorem decoder_payload_bounds:
  assumes "new_decoder m timeout = Inr d" and "p \<in> set (fst (run_chunks feed_timed d cs))"
  shows "1 \<le> length p \<and> length p \<le> 176"
  using run_feed_timed_lengths [of d p cs] new_decoder_ok [OF assms(1)] assms(2)
  by (simp add: MAX_PAYLOAD_SIZE_def)

theorem decoder_payload_bounds_witness:
  "\<exists>d. new_decoder 0x3C 5 = Inr d \<and> [7] \<in> set (fst (run_chunks feed_timed d [(0, [0x3C, 1, 0, 7, 9])]))
     \<and> 1 \<le> length [7 :: byte] \<and> length [7 :: byte] \<le> 176"
proof -
  obtain d where d: "new_decoder 0x3C 5 = Inr d"
    by (simp add: new_decoder_def validate_marker_def CLIENT_TO_COMPANION_MARKER_def)
  then have "[7] \<in> set (fst (run_chunks feed_timed d [(0, [0x3C, 1, 0, 7, 9])]))"
    by (auto simp: new_decoder_def validate_marker_def CLIENT_TO_COMPANION_MARKER_def
      feed_timed_def decoder_feed_def decoder_check_deadline_def feed_loop.simps feed_step_def take_header_def
      validate_header_marker_def start_frame_def allocate_payload_def complete_payload_def
      take_payload_def emit_payload_def decoder_reset_def header_size_sum MAX_PAYLOAD_SIZE_def Let_def)
  with d decoder_payload_bounds [OF d this] show ?thesis by blast
qed

text \<open>The assembly deadline is absolute: bytes that do not complete the frame never postpone
  it, so a peer that dribbles bytes is cut off once the timeout has passed since the first byte.\<close>

theorem slow_frame_rejected:
  assumes "decoder_ok d" and "dec_started d = Some t0"
    and "run_chunks feed_timed d cs = ([], Inr d')"
    and "now - t0 \<ge> dec_timeout d"
  shows "decoder_feed d' bs now = ([], Inl FrameDeadlineExceededError)"
  using run_feed_timed_started [OF assms(1,3,2)] assms(4)
  by (simp add: decoder_feed_def decoder_check_deadline_def)

theorem slow_frame_rejected_witness:
  "let d = \<lparr>dec_marker = 0x3C, dec_timeout = 5, dec_header = [0x3C], dec_payload = None,
            dec_started = Some 10\<rparr>;
       d' = d\<lparr>dec_header := [0x3C, 2, 0], dec_payload := Some ([7], 1)\<rparr>
   in decoder_ok d \<and> run_chunks feed_timed d [(12, [2, 0]), (14, [7])] = ([], Inr d')
      \<and> decoder_feed d' [8] 15 = ([], Inl FrameDeadlineExceededError)"
proof -
  define d where "d = \<lparr>dec_marker = 0x3C, dec_timeout = 5, dec_header = [0x3C], dec_payload = None,
    dec_started = Some 10\<rparr>"
  define d' where "d' = d\<lparr>dec_header := [0x3C, 2, 0], dec_payload := Some ([7], 1)\<rparr>"
  have ok: "decoder_ok d" by (simp add: d_def decoder_ok_def)
  have run: "run_chunks feed_timed d [(12, [2, 0]), (14, [7])] = ([], Inr d')"
    by (simp add: d_def d'_def feed_timed_def decoder_feed_def decoder_check_deadline_def
      feed_loop.simps feed_step_def take_header_def allocate_payload_def complete_payload_def
      take_payload_def emit_payload_def header_size_sum MAX_PAYLOAD_SIZE_def Let_def)
  have "dec_started d = Some 10" "(15::int) - 10 \<ge> dec_timeout d" by (simp_all add: d_def)
  then have "decoder_feed d' [8] 15 = ([], Inl FrameDeadlineExceededError)"
    by (intro slow_frame_rejected [OF ok _ run])
  with ok run show ?thesis unfolding Let_def d_def [symmetric] d'_def [symmetric] by blast
qed

end
