(* ===== verification/Protocol.thy ===== *)
theory Protocol
  imports Mux_Prelude
begin

unbundle bit_operations_syntax

text \<open>
  The companion wire protocol (\<open>src/meshcore_tcp_mux/protocol.cr\<close>): opcodes, the command
  descriptor table, the validators of commands and of upstream frames, the inbox dialect
  conversion, the startup payload builders and the identity of a received text message.

  A payload excludes the TCP envelope. Opcodes are abbreviations of byte numerals, so the
  validators compute on concrete payloads. The rendering of payloads for log lines
  (\<open>describe_command\<close>, \<open>describe_response\<close> and their helpers) is not modelled: no decision
  depends on it.
\<close>

section \<open>Constants\<close>

abbreviation MAX_PAYLOAD :: nat where "MAX_PAYLOAD \<equiv> 176"
abbreviation DEVICE_INFO_SIZE :: nat where "DEVICE_INFO_SIZE \<equiv> 82"
abbreviation MAX_PATH_SIZE :: nat where "MAX_PATH_SIZE \<equiv> 64"

abbreviation UPSTREAM_APP_TARGET :: byte where "UPSTREAM_APP_TARGET \<equiv> 14"
abbreviation MAX_EXPOSED_PROTOCOL_LEVEL :: byte where "MAX_EXPOSED_PROTOCOL_LEVEL \<equiv> 14"
abbreviation MIN_SUPPORTED_UPSTREAM_PROTOCOL_LEVEL :: byte where "MIN_SUPPORTED_UPSTREAM_PROTOCOL_LEVEL \<equiv> 13"
abbreviation NO_PATH_ENCODING :: byte where "NO_PATH_ENCODING \<equiv> 0xFF"
abbreviation PATH_COUNT_MASK :: byte where "PATH_COUNT_MASK \<equiv> 0x3F"
abbreviation PATH_WIDTH_SHIFT_MASK :: byte where "PATH_WIDTH_SHIFT_MASK \<equiv> 0x3"
abbreviation ERR_UNSUPPORTED_CMD :: byte where "ERR_UNSUPPORTED_CMD \<equiv> 1"
abbreviation ERR_TABLE_FULL :: byte where "ERR_TABLE_FULL \<equiv> 3"
abbreviation ERR_BAD_STATE :: byte where "ERR_BAD_STATE \<equiv> 4"
abbreviation ERR_ILLEGAL_ARG :: byte where "ERR_ILLEGAL_ARG \<equiv> 6"
abbreviation STATS_TYPE_CORE :: byte where "STATS_TYPE_CORE \<equiv> 0"
abbreviation STATS_TYPE_RADIO :: byte where "STATS_TYPE_RADIO \<equiv> 1"
abbreviation STATS_TYPE_PACKET :: byte where "STATS_TYPE_PACKET \<equiv> 2"
abbreviation CMD_APP_START :: byte where "CMD_APP_START \<equiv> 1"
abbreviation CMD_SEND_TXT_MSG :: byte where "CMD_SEND_TXT_MSG \<equiv> 2"
abbreviation CMD_SEND_CHANNEL_TXT_MSG :: byte where "CMD_SEND_CHANNEL_TXT_MSG \<equiv> 3"
abbreviation CMD_GET_CONTACTS :: byte where "CMD_GET_CONTACTS \<equiv> 4"
abbreviation CMD_GET_DEVICE_TIME :: byte where "CMD_GET_DEVICE_TIME \<equiv> 5"
abbreviation CMD_SET_DEVICE_TIME :: byte where "CMD_SET_DEVICE_TIME \<equiv> 6"
abbreviation CMD_SEND_SELF_ADVERT :: byte where "CMD_SEND_SELF_ADVERT \<equiv> 7"
abbreviation CMD_SET_ADVERT_NAME :: byte where "CMD_SET_ADVERT_NAME \<equiv> 8"
abbreviation CMD_ADD_UPDATE_CONTACT :: byte where "CMD_ADD_UPDATE_CONTACT \<equiv> 9"
abbreviation CMD_SYNC_NEXT_MESSAGE :: byte where "CMD_SYNC_NEXT_MESSAGE \<equiv> 10"
abbreviation CMD_SET_RADIO_PARAMS :: byte where "CMD_SET_RADIO_PARAMS \<equiv> 11"
abbreviation CMD_SET_RADIO_TX_POWER :: byte where "CMD_SET_RADIO_TX_POWER \<equiv> 12"
abbreviation CMD_RESET_PATH :: byte where "CMD_RESET_PATH \<equiv> 13"
abbreviation CMD_SET_ADVERT_LATLON :: byte where "CMD_SET_ADVERT_LATLON \<equiv> 14"
abbreviation CMD_REMOVE_CONTACT :: byte where "CMD_REMOVE_CONTACT \<equiv> 15"
abbreviation CMD_SHARE_CONTACT :: byte where "CMD_SHARE_CONTACT \<equiv> 16"
abbreviation CMD_EXPORT_CONTACT :: byte where "CMD_EXPORT_CONTACT \<equiv> 17"
abbreviation CMD_IMPORT_CONTACT :: byte where "CMD_IMPORT_CONTACT \<equiv> 18"
abbreviation CMD_REBOOT :: byte where "CMD_REBOOT \<equiv> 19"
abbreviation CMD_GET_BATT_AND_STORAGE :: byte where "CMD_GET_BATT_AND_STORAGE \<equiv> 20"
abbreviation CMD_SET_TUNING_PARAMS :: byte where "CMD_SET_TUNING_PARAMS \<equiv> 21"
abbreviation CMD_DEVICE_QUERY :: byte where "CMD_DEVICE_QUERY \<equiv> 22"
abbreviation CMD_EXPORT_PRIVATE_KEY :: byte where "CMD_EXPORT_PRIVATE_KEY \<equiv> 23"
abbreviation CMD_IMPORT_PRIVATE_KEY :: byte where "CMD_IMPORT_PRIVATE_KEY \<equiv> 24"
abbreviation CMD_SEND_RAW_DATA :: byte where "CMD_SEND_RAW_DATA \<equiv> 25"
abbreviation CMD_SEND_LOGIN :: byte where "CMD_SEND_LOGIN \<equiv> 26"
abbreviation CMD_SEND_STATUS_REQ :: byte where "CMD_SEND_STATUS_REQ \<equiv> 27"
abbreviation CMD_HAS_CONNECTION :: byte where "CMD_HAS_CONNECTION \<equiv> 28"
abbreviation CMD_LOGOUT :: byte where "CMD_LOGOUT \<equiv> 29"
abbreviation CMD_GET_CONTACT_BY_KEY :: byte where "CMD_GET_CONTACT_BY_KEY \<equiv> 30"
abbreviation CMD_GET_CHANNEL :: byte where "CMD_GET_CHANNEL \<equiv> 31"
abbreviation CMD_SET_CHANNEL :: byte where "CMD_SET_CHANNEL \<equiv> 32"
abbreviation CMD_SIGN_START :: byte where "CMD_SIGN_START \<equiv> 33"
abbreviation CMD_SIGN_DATA :: byte where "CMD_SIGN_DATA \<equiv> 34"
abbreviation CMD_SIGN_FINISH :: byte where "CMD_SIGN_FINISH \<equiv> 35"
abbreviation CMD_SEND_TRACE_PATH :: byte where "CMD_SEND_TRACE_PATH \<equiv> 36"
abbreviation CMD_SET_DEVICE_PIN :: byte where "CMD_SET_DEVICE_PIN \<equiv> 37"
abbreviation CMD_SET_OTHER_PARAMS :: byte where "CMD_SET_OTHER_PARAMS \<equiv> 38"
abbreviation CMD_SEND_TELEMETRY_REQ :: byte where "CMD_SEND_TELEMETRY_REQ \<equiv> 39"
abbreviation CMD_GET_CUSTOM_VARS :: byte where "CMD_GET_CUSTOM_VARS \<equiv> 40"
abbreviation CMD_SET_CUSTOM_VAR :: byte where "CMD_SET_CUSTOM_VAR \<equiv> 41"
abbreviation CMD_GET_ADVERT_PATH :: byte where "CMD_GET_ADVERT_PATH \<equiv> 42"
abbreviation CMD_GET_TUNING_PARAMS :: byte where "CMD_GET_TUNING_PARAMS \<equiv> 43"
abbreviation CMD_SEND_BINARY_REQ :: byte where "CMD_SEND_BINARY_REQ \<equiv> 50"
abbreviation CMD_FACTORY_RESET :: byte where "CMD_FACTORY_RESET \<equiv> 51"
abbreviation CMD_SEND_PATH_DISCOVERY_REQ :: byte where "CMD_SEND_PATH_DISCOVERY_REQ \<equiv> 52"
abbreviation CMD_SET_FLOOD_SCOPE_KEY :: byte where "CMD_SET_FLOOD_SCOPE_KEY \<equiv> 54"
abbreviation CMD_SEND_CONTROL_DATA :: byte where "CMD_SEND_CONTROL_DATA \<equiv> 55"
abbreviation CMD_GET_STATS :: byte where "CMD_GET_STATS \<equiv> 56"
abbreviation CMD_SEND_ANON_REQ :: byte where "CMD_SEND_ANON_REQ \<equiv> 57"
abbreviation CMD_SET_AUTOADD_CONFIG :: byte where "CMD_SET_AUTOADD_CONFIG \<equiv> 58"
abbreviation CMD_GET_AUTOADD_CONFIG :: byte where "CMD_GET_AUTOADD_CONFIG \<equiv> 59"
abbreviation CMD_GET_ALLOWED_REPEAT_FREQ :: byte where "CMD_GET_ALLOWED_REPEAT_FREQ \<equiv> 60"
abbreviation CMD_SET_PATH_HASH_MODE :: byte where "CMD_SET_PATH_HASH_MODE \<equiv> 61"
abbreviation CMD_SEND_CHANNEL_DATA :: byte where "CMD_SEND_CHANNEL_DATA \<equiv> 62"
abbreviation CMD_SET_DEFAULT_FLOOD_SCOPE :: byte where "CMD_SET_DEFAULT_FLOOD_SCOPE \<equiv> 63"
abbreviation CMD_GET_DEFAULT_FLOOD_SCOPE :: byte where "CMD_GET_DEFAULT_FLOOD_SCOPE \<equiv> 64"
abbreviation CMD_SEND_RAW_PACKET :: byte where "CMD_SEND_RAW_PACKET \<equiv> 65"
abbreviation CMD_RUN_CLI_COMMAND :: byte where "CMD_RUN_CLI_COMMAND \<equiv> 66"
abbreviation RESP_OK :: byte where "RESP_OK \<equiv> 0"
abbreviation RESP_ERR :: byte where "RESP_ERR \<equiv> 1"
abbreviation RESP_CONTACTS_START :: byte where "RESP_CONTACTS_START \<equiv> 0x2"
abbreviation RESP_CONTACT :: byte where "RESP_CONTACT \<equiv> 0x3"
abbreviation RESP_END_OF_CONTACTS :: byte where "RESP_END_OF_CONTACTS \<equiv> 0x4"
abbreviation RESP_SELF_INFO :: byte where "RESP_SELF_INFO \<equiv> 0x5"
abbreviation RESP_SENT :: byte where "RESP_SENT \<equiv> 0x6"
abbreviation RESP_CONTACT_MESSAGE :: byte where "RESP_CONTACT_MESSAGE \<equiv> 0x7"
abbreviation RESP_CHANNEL_MESSAGE :: byte where "RESP_CHANNEL_MESSAGE \<equiv> 0x8"
abbreviation RESP_CURRENT_TIME :: byte where "RESP_CURRENT_TIME \<equiv> 0x9"
abbreviation RESP_NO_MORE_MESSAGES :: byte where "RESP_NO_MORE_MESSAGES \<equiv> 0xA"
abbreviation RESP_EXPORT_CONTACT :: byte where "RESP_EXPORT_CONTACT \<equiv> 0xB"
abbreviation RESP_BATTERY_AND_STORAGE :: byte where "RESP_BATTERY_AND_STORAGE \<equiv> 0xC"
abbreviation RESP_DEVICE_INFO :: byte where "RESP_DEVICE_INFO \<equiv> 0xD"
abbreviation RESP_PRIVATE_KEY :: byte where "RESP_PRIVATE_KEY \<equiv> 0xE"
abbreviation RESP_DISABLED :: byte where "RESP_DISABLED \<equiv> 0xF"
abbreviation RESP_CONTACT_MESSAGE_V3 :: byte where "RESP_CONTACT_MESSAGE_V3 \<equiv> 0x10"
abbreviation RESP_CHANNEL_MESSAGE_V3 :: byte where "RESP_CHANNEL_MESSAGE_V3 \<equiv> 0x11"
abbreviation RESP_CHANNEL_INFO :: byte where "RESP_CHANNEL_INFO \<equiv> 0x12"
abbreviation RESP_SIGN_START :: byte where "RESP_SIGN_START \<equiv> 0x13"
abbreviation RESP_SIGNATURE :: byte where "RESP_SIGNATURE \<equiv> 0x14"
abbreviation RESP_CUSTOM_VARS :: byte where "RESP_CUSTOM_VARS \<equiv> 0x15"
abbreviation RESP_ADVERT_PATH :: byte where "RESP_ADVERT_PATH \<equiv> 0x16"
abbreviation RESP_TUNING_PARAMS :: byte where "RESP_TUNING_PARAMS \<equiv> 0x17"
abbreviation RESP_STATS :: byte where "RESP_STATS \<equiv> 0x18"
abbreviation RESP_AUTOADD_CONFIG :: byte where "RESP_AUTOADD_CONFIG \<equiv> 0x19"
abbreviation RESP_ALLOWED_REPEAT_FREQ :: byte where "RESP_ALLOWED_REPEAT_FREQ \<equiv> 0x1A"
abbreviation RESP_CHANNEL_DATA :: byte where "RESP_CHANNEL_DATA \<equiv> 0x1B"
abbreviation RESP_DEFAULT_FLOOD_SCOPE :: byte where "RESP_DEFAULT_FLOOD_SCOPE \<equiv> 0x1C"
abbreviation RESP_CLI_REPLY :: byte where "RESP_CLI_REPLY \<equiv> 0x1D"
abbreviation PUSH_ADVERT :: byte where "PUSH_ADVERT \<equiv> 0x80"
abbreviation PUSH_PATH_UPDATED :: byte where "PUSH_PATH_UPDATED \<equiv> 0x81"
abbreviation PUSH_SEND_CONFIRMED :: byte where "PUSH_SEND_CONFIRMED \<equiv> 0x82"
abbreviation PUSH_MSG_WAITING :: byte where "PUSH_MSG_WAITING \<equiv> 0x83"
abbreviation PUSH_RAW_DATA :: byte where "PUSH_RAW_DATA \<equiv> 0x84"
abbreviation PUSH_LOGIN_SUCCESS :: byte where "PUSH_LOGIN_SUCCESS \<equiv> 0x85"
abbreviation PUSH_LOGIN_FAILURE :: byte where "PUSH_LOGIN_FAILURE \<equiv> 0x86"
abbreviation PUSH_STATUS_RESPONSE :: byte where "PUSH_STATUS_RESPONSE \<equiv> 0x87"
abbreviation PUSH_LOG_RX_DATA :: byte where "PUSH_LOG_RX_DATA \<equiv> 0x88"
abbreviation PUSH_TRACE_DATA :: byte where "PUSH_TRACE_DATA \<equiv> 0x89"
abbreviation PUSH_NEW_ADVERT :: byte where "PUSH_NEW_ADVERT \<equiv> 0x8A"
abbreviation PUSH_TELEMETRY_RESPONSE :: byte where "PUSH_TELEMETRY_RESPONSE \<equiv> 0x8B"
abbreviation PUSH_BINARY_RESPONSE :: byte where "PUSH_BINARY_RESPONSE \<equiv> 0x8C"
abbreviation PUSH_PATH_DISCOVERY_RESPONSE :: byte where "PUSH_PATH_DISCOVERY_RESPONSE \<equiv> 0x8D"
abbreviation PUSH_CONTROL_DATA :: byte where "PUSH_CONTROL_DATA \<equiv> 0x8E"
abbreviation PUSH_CONTACT_DELETED :: byte where "PUSH_CONTACT_DELETED \<equiv> 0x8F"
abbreviation PUSH_CONTACTS_FULL :: byte where "PUSH_CONTACTS_FULL \<equiv> 0x90"

section \<open>Descriptors\<close>

datatype grammar = Single | Contacts | Inbox | SelfTelemetry | Disconnecting

datatype command_flag = ScopeSend | RemoteLease | Signing | Maintenance | VerifyIndex | VerifySubtype

record command_descriptor =
  desc_opcode :: byte
  desc_name :: string
  desc_grammar :: grammar
  desc_success :: "byte list"
  desc_flags :: "command_flag list"

definition descr :: "byte \<Rightarrow> string \<Rightarrow> grammar \<Rightarrow> byte list \<Rightarrow> command_flag list \<Rightarrow> command_descriptor" where
  "descr opcode name g success flags = \<lparr>desc_opcode = opcode, desc_name = name, desc_grammar = g,
     desc_success = success, desc_flags = flags\<rparr>"

definition DESCRIPTORS :: "(byte \<times> command_descriptor) list" where
 "DESCRIPTORS = [
  (CMD_APP_START, descr CMD_APP_START ''app_start'' Single [RESP_SELF_INFO] []),
  (CMD_SEND_TXT_MSG, descr CMD_SEND_TXT_MSG ''send_txt_msg'' Single [RESP_SENT] [ScopeSend]),
  (CMD_SEND_CHANNEL_TXT_MSG, descr CMD_SEND_CHANNEL_TXT_MSG ''send_channel_txt_msg'' Single [RESP_OK] [ScopeSend]),
  (CMD_GET_CONTACTS, descr CMD_GET_CONTACTS ''get_contacts'' Contacts [RESP_CONTACTS_START, RESP_CONTACT, RESP_END_OF_CONTACTS] []),
  (CMD_GET_DEVICE_TIME, descr CMD_GET_DEVICE_TIME ''get_device_time'' Single [RESP_CURRENT_TIME] []),
  (CMD_SET_DEVICE_TIME, descr CMD_SET_DEVICE_TIME ''set_device_time'' Single [RESP_OK] []),
  (CMD_SEND_SELF_ADVERT, descr CMD_SEND_SELF_ADVERT ''send_self_advert'' Single [RESP_OK] []),
  (CMD_SET_ADVERT_NAME, descr CMD_SET_ADVERT_NAME ''set_advert_name'' Single [RESP_OK] []),
  (CMD_ADD_UPDATE_CONTACT, descr CMD_ADD_UPDATE_CONTACT ''add_update_contact'' Single [RESP_OK] []),
  (CMD_SYNC_NEXT_MESSAGE, descr CMD_SYNC_NEXT_MESSAGE ''sync_next_message'' Inbox [RESP_CONTACT_MESSAGE, RESP_CHANNEL_MESSAGE, RESP_NO_MORE_MESSAGES, RESP_CONTACT_MESSAGE_V3, RESP_CHANNEL_MESSAGE_V3, RESP_CHANNEL_DATA] []),
  (CMD_SET_RADIO_PARAMS, descr CMD_SET_RADIO_PARAMS ''set_radio_params'' Single [RESP_OK] []),
  (CMD_SET_RADIO_TX_POWER, descr CMD_SET_RADIO_TX_POWER ''set_radio_tx_power'' Single [RESP_OK] []),
  (CMD_RESET_PATH, descr CMD_RESET_PATH ''reset_path'' Single [RESP_OK] []),
  (CMD_SET_ADVERT_LATLON, descr CMD_SET_ADVERT_LATLON ''set_advert_latlon'' Single [RESP_OK] []),
  (CMD_REMOVE_CONTACT, descr CMD_REMOVE_CONTACT ''remove_contact'' Single [RESP_OK] []),
  (CMD_SHARE_CONTACT, descr CMD_SHARE_CONTACT ''share_contact'' Single [RESP_OK] []),
  (CMD_EXPORT_CONTACT, descr CMD_EXPORT_CONTACT ''export_contact'' Single [RESP_EXPORT_CONTACT] []),
  (CMD_IMPORT_CONTACT, descr CMD_IMPORT_CONTACT ''import_contact'' Single [RESP_OK] []),
  (CMD_REBOOT, descr CMD_REBOOT ''reboot'' Disconnecting [] [Maintenance]),
  (CMD_GET_BATT_AND_STORAGE, descr CMD_GET_BATT_AND_STORAGE ''get_batt_and_storage'' Single [RESP_BATTERY_AND_STORAGE] []),
  (CMD_SET_TUNING_PARAMS, descr CMD_SET_TUNING_PARAMS ''set_tuning_params'' Single [RESP_OK] []),
  (CMD_DEVICE_QUERY, descr CMD_DEVICE_QUERY ''device_query'' Single [RESP_DEVICE_INFO] []),
  (CMD_EXPORT_PRIVATE_KEY, descr CMD_EXPORT_PRIVATE_KEY ''export_private_key'' Single [RESP_PRIVATE_KEY, RESP_DISABLED] []),
  (CMD_IMPORT_PRIVATE_KEY, descr CMD_IMPORT_PRIVATE_KEY ''import_private_key'' Single [RESP_OK, RESP_DISABLED] [Maintenance]),
  (CMD_SEND_RAW_DATA, descr CMD_SEND_RAW_DATA ''send_raw_data'' Single [RESP_OK] []),
  (CMD_SEND_LOGIN, descr CMD_SEND_LOGIN ''send_login'' Single [RESP_SENT] [RemoteLease, ScopeSend]),
  (CMD_SEND_STATUS_REQ, descr CMD_SEND_STATUS_REQ ''send_status_req'' Single [RESP_SENT] [RemoteLease, ScopeSend]),
  (CMD_HAS_CONNECTION, descr CMD_HAS_CONNECTION ''has_connection'' Single [RESP_OK] []),
  (CMD_LOGOUT, descr CMD_LOGOUT ''logout'' Single [RESP_OK] []),
  (CMD_GET_CONTACT_BY_KEY, descr CMD_GET_CONTACT_BY_KEY ''get_contact_by_key'' Single [RESP_CONTACT] []),
  (CMD_GET_CHANNEL, descr CMD_GET_CHANNEL ''get_channel'' Single [RESP_CHANNEL_INFO] [VerifyIndex]),
  (CMD_SET_CHANNEL, descr CMD_SET_CHANNEL ''set_channel'' Single [RESP_OK] []),
  (CMD_SIGN_START, descr CMD_SIGN_START ''sign_start'' Single [RESP_SIGN_START] [Signing]),
  (CMD_SIGN_DATA, descr CMD_SIGN_DATA ''sign_data'' Single [RESP_OK] [Signing]),
  (CMD_SIGN_FINISH, descr CMD_SIGN_FINISH ''sign_finish'' Single [RESP_SIGNATURE] [Signing]),
  (CMD_SEND_TRACE_PATH, descr CMD_SEND_TRACE_PATH ''send_trace_path'' Single [RESP_SENT] [RemoteLease]),
  (CMD_SET_DEVICE_PIN, descr CMD_SET_DEVICE_PIN ''set_device_pin'' Single [RESP_OK] []),
  (CMD_SET_OTHER_PARAMS, descr CMD_SET_OTHER_PARAMS ''set_other_params'' Single [RESP_OK] []),
  (CMD_SEND_TELEMETRY_REQ, descr CMD_SEND_TELEMETRY_REQ ''send_telemetry_req'' SelfTelemetry [PUSH_TELEMETRY_RESPONSE] []),
  (CMD_GET_CUSTOM_VARS, descr CMD_GET_CUSTOM_VARS ''get_custom_vars'' Single [RESP_CUSTOM_VARS] []),
  (CMD_SET_CUSTOM_VAR, descr CMD_SET_CUSTOM_VAR ''set_custom_var'' Single [RESP_OK] []),
  (CMD_GET_ADVERT_PATH, descr CMD_GET_ADVERT_PATH ''get_advert_path'' Single [RESP_ADVERT_PATH] []),
  (CMD_GET_TUNING_PARAMS, descr CMD_GET_TUNING_PARAMS ''get_tuning_params'' Single [RESP_TUNING_PARAMS] []),
  (CMD_SEND_BINARY_REQ, descr CMD_SEND_BINARY_REQ ''send_binary_req'' Single [RESP_SENT] [RemoteLease, ScopeSend]),
  (CMD_FACTORY_RESET, descr CMD_FACTORY_RESET ''factory_reset'' Disconnecting [RESP_OK] [Maintenance]),
  (CMD_SEND_PATH_DISCOVERY_REQ, descr CMD_SEND_PATH_DISCOVERY_REQ ''send_path_discovery_req'' Single [RESP_SENT] [RemoteLease, ScopeSend]),
  (CMD_SET_FLOOD_SCOPE_KEY, descr CMD_SET_FLOOD_SCOPE_KEY ''set_flood_scope_key'' Single [RESP_OK] []),
  (CMD_SEND_CONTROL_DATA, descr CMD_SEND_CONTROL_DATA ''send_control_data'' Single [RESP_OK] []),
  (CMD_GET_STATS, descr CMD_GET_STATS ''get_stats'' Single [RESP_STATS] [VerifySubtype]),
  (CMD_SEND_ANON_REQ, descr CMD_SEND_ANON_REQ ''send_anon_req'' Single [RESP_SENT] [RemoteLease, ScopeSend]),
  (CMD_SET_AUTOADD_CONFIG, descr CMD_SET_AUTOADD_CONFIG ''set_autoadd_config'' Single [RESP_OK] []),
  (CMD_GET_AUTOADD_CONFIG, descr CMD_GET_AUTOADD_CONFIG ''get_autoadd_config'' Single [RESP_AUTOADD_CONFIG] []),
  (CMD_GET_ALLOWED_REPEAT_FREQ, descr CMD_GET_ALLOWED_REPEAT_FREQ ''get_allowed_repeat_freq'' Single [RESP_ALLOWED_REPEAT_FREQ] []),
  (CMD_SET_PATH_HASH_MODE, descr CMD_SET_PATH_HASH_MODE ''set_path_hash_mode'' Single [RESP_OK] []),
  (CMD_SEND_CHANNEL_DATA, descr CMD_SEND_CHANNEL_DATA ''send_channel_data'' Single [RESP_OK] [ScopeSend]),
  (CMD_SET_DEFAULT_FLOOD_SCOPE, descr CMD_SET_DEFAULT_FLOOD_SCOPE ''set_default_flood_scope'' Single [RESP_OK] []),
  (CMD_GET_DEFAULT_FLOOD_SCOPE, descr CMD_GET_DEFAULT_FLOOD_SCOPE ''get_default_flood_scope'' Single [RESP_DEFAULT_FLOOD_SCOPE] []),
  (CMD_SEND_RAW_PACKET, descr CMD_SEND_RAW_PACKET ''send_raw_packet'' Single [RESP_OK] []),
  (CMD_RUN_CLI_COMMAND, descr CMD_RUN_CLI_COMMAND ''run_cli_command'' Single [RESP_CLI_REPLY] [])]"

definition descriptor :: "bytes \<Rightarrow> command_descriptor option" where
  "descriptor payload =
     (if payload = [] then None
      else case map_of DESCRIPTORS (payload ! 0) of
        None \<Rightarrow> None
      | Some desc \<Rightarrow>
          if \<not> (payload ! 0 = CMD_SEND_TELEMETRY_REQ \<and> length payload \<noteq> 4) then Some desc
          else Some (descr CMD_SEND_TELEMETRY_REQ ''send_telemetry_req'' Single [RESP_SENT]
                       [RemoteLease, ScopeSend]))"

section \<open>Commands\<close>

definition ascii :: "string \<Rightarrow> bytes" where
  "ascii s = map of_char s"

text \<open>Ordinary encoded paths: hop count in the low six bits, hash width minus one above.\<close>

definition normal_encoded_path_bytes :: "byte \<Rightarrow> nat option" where
  "normal_encoded_path_bytes encoded =
     (let count = unat (encoded AND PATH_COUNT_MASK);
          width = unat (drop_bit 6 encoded) + 1
      in if width = 4 then None
         else let n = count * width in if n \<le> MAX_PATH_SIZE then Some n else None)"

definition channel_data_command_valid :: "bytes \<Rightarrow> bool" where
  "channel_data_command_valid p =
     (if length p < 5 then False
      else let encoded = p ! 2 in
        case (if encoded = NO_PATH_ENCODING then Some 0 else normal_encoded_path_bytes encoded) of
          None \<Rightarrow> False
        | Some path_bytes \<Rightarrow> 3 + path_bytes + 2 \<le> length p)"

definition index_of :: "'a \<Rightarrow> 'a list \<Rightarrow> nat option" where
  "index_of x xs = (let k = length (takeWhile (\<lambda>y. y \<noteq> x) xs) in if k < length xs then Some k else None)"

definition default_scope_command_valid :: "bytes \<Rightarrow> bool" where
  "default_scope_command_valid p =
     (if length p = 1 then True
      else if length p \<noteq> 48 then False
      else case index_of 0 (take 31 (drop 1 p)) of
          None \<Rightarrow> False
        | Some nul \<Rightarrow> 0 < nul \<and> nul < 31)"

definition command_shape_valid :: "bytes \<Rightarrow> bool" where
  "command_shape_valid p =
     (if p = [] \<or> length p > MAX_PAYLOAD then False
      else let n = length p; c = p ! 0 in
      if c = CMD_APP_START then n \<ge> 8
      else if c = CMD_SEND_TXT_MSG then n \<ge> 14
      else if c = CMD_SEND_CHANNEL_TXT_MSG then n \<ge> 7
      else if c = CMD_GET_CONTACTS then n = 1 \<or> n \<ge> 5
      else if c \<in> {CMD_GET_DEVICE_TIME, CMD_SYNC_NEXT_MESSAGE, CMD_GET_BATT_AND_STORAGE,
                   CMD_EXPORT_PRIVATE_KEY, CMD_SIGN_START, CMD_SIGN_FINISH,
                   CMD_GET_CUSTOM_VARS, CMD_GET_TUNING_PARAMS, CMD_GET_AUTOADD_CONFIG,
                   CMD_GET_ALLOWED_REPEAT_FREQ, CMD_GET_DEFAULT_FLOOD_SCOPE} then n \<ge> 1
      else if c = CMD_SET_DEVICE_TIME then n \<ge> 5
      else if c = CMD_SEND_SELF_ADVERT then n \<ge> 1
      else if c = CMD_RUN_CLI_COMMAND then n \<ge> 2
      else if c = CMD_SET_ADVERT_NAME then n \<ge> 2
      else if c = CMD_ADD_UPDATE_CONTACT then
        (if \<not> (n = 136 \<or> n = 144 \<or> n = 147 \<or> n \<ge> 148) then False
         else p ! 35 = NO_PATH_ENCODING \<or> normal_encoded_path_bytes (p ! 35) \<noteq> None)
      else if c = CMD_SET_RADIO_PARAMS then n \<ge> 11
      else if c = CMD_SET_RADIO_TX_POWER then n \<ge> 2
      else if c \<in> {CMD_RESET_PATH, CMD_REMOVE_CONTACT, CMD_SHARE_CONTACT, CMD_SEND_STATUS_REQ,
                   CMD_HAS_CONNECTION, CMD_LOGOUT, CMD_GET_CONTACT_BY_KEY} then n \<ge> 33
      else if c = CMD_SET_ADVERT_LATLON then n = 9 \<or> n \<ge> 13
      else if c = CMD_EXPORT_CONTACT then n = 1 \<or> n \<ge> 33
      else if c = CMD_IMPORT_CONTACT then n \<ge> 99
      else if c = CMD_REBOOT then n = 7 \<and> take 6 (drop 1 p) = ascii ''reboot''
      else if c = CMD_SET_TUNING_PARAMS then n \<ge> 9
      else if c = CMD_DEVICE_QUERY then n \<ge> 2
      else if c = CMD_IMPORT_PRIVATE_KEY then n \<ge> 65
      else if c = CMD_SEND_RAW_DATA then
        (if n < 6 then False else if p ! 1 \<ge> 0x40 then False else 2 + unat (p ! 1) + 4 \<le> n)
      else if c = CMD_SEND_LOGIN then n \<ge> 33
      else if c = CMD_GET_CHANNEL then n \<ge> 2
      else if c = CMD_SET_CHANNEL then n \<ge> 50 \<and> n < 66
      else if c = CMD_SIGN_DATA then n \<ge> 2
      else if c = CMD_SEND_TRACE_PATH then
        (if \<not> (n > 10 \<and> n - 10 < 171) then False
         else let width_shift = unat (p ! 9 AND PATH_WIDTH_SHIFT_MASK); path_bytes = n - 10
              in path_bytes mod 2 ^ width_shift = 0 \<and> drop_bit width_shift path_bytes \<le> MAX_PATH_SIZE)
      else if c = CMD_SET_DEVICE_PIN then n \<ge> 5
      else if c = CMD_SET_OTHER_PARAMS then n \<ge> 2
      else if c = CMD_SEND_TELEMETRY_REQ then n = 4 \<or> n \<ge> 36
      else if c = CMD_SET_CUSTOM_VAR then n \<ge> 4 \<and> 0x3A \<in> set (drop 1 p)
      else if c = CMD_GET_ADVERT_PATH then n \<ge> 34
      else if c = CMD_SEND_BINARY_REQ \<or> c = CMD_SEND_ANON_REQ then n \<ge> 34
      else if c = CMD_FACTORY_RESET then n = 6 \<and> take 5 (drop 1 p) = ascii ''reset''
      else if c = CMD_SEND_PATH_DISCOVERY_REQ then n \<ge> 34 \<and> p ! 1 = 0
      else if c = CMD_SET_FLOOD_SCOPE_KEY then
        (n = 2 \<and> (p ! 1 = 0 \<or> p ! 1 = 1)) \<or> (n = 18 \<and> p ! 1 = 0)
      else if c = CMD_SEND_CONTROL_DATA then n \<ge> 2 \<and> (p ! 1 AND 0x80) \<noteq> 0
      else if c = CMD_GET_STATS then n \<ge> 2 \<and> p ! 1 \<le> 2
      else if c = CMD_SET_AUTOADD_CONFIG then n \<ge> 2
      else if c = CMD_SET_PATH_HASH_MODE then n \<ge> 3 \<and> p ! 1 = 0 \<and> p ! 2 < 3
      else if c = CMD_SEND_CHANNEL_DATA then channel_data_command_valid p
      else if c = CMD_SET_DEFAULT_FLOOD_SCOPE then default_scope_command_valid p
      else if c = CMD_SEND_RAW_PACKET then n \<ge> 4
      else False)"

text \<open>\<open>ValidationResult\<close>: the descriptor found, and the native error reason if the command is refused.\<close>

definition validate_command :: "bytes \<Rightarrow> command_descriptor option \<times> byte option" where
  "validate_command payload = (case descriptor payload of
       None \<Rightarrow> (None, Some ERR_UNSUPPORTED_CMD)
     | Some desc \<Rightarrow> if \<not> command_shape_valid payload then (Some desc, Some ERR_ILLEGAL_ARG)
                    else (Some desc, None))"

section \<open>Upstream frames\<close>

datatype disposition = Progress | Complete

definition stats_response_valid :: "bytes \<Rightarrow> bool" where
  "stats_response_valid p =
     (if length p < 2 then False
      else if p ! 1 = STATS_TYPE_CORE then length p = 11
      else if p ! 1 = STATS_TYPE_RADIO then length p = 14
      else if p ! 1 = STATS_TYPE_PACKET then length p = 30
      else False)"

definition trace_response_valid :: "bytes \<Rightarrow> bool" where
  "trace_response_valid p =
     (if length p < 13 then False
      else let path_bytes = unat (p ! 2); shift = unat (p ! 3 AND PATH_WIDTH_SHIFT_MASK);
               hash_width = 2 ^ shift
           in if path_bytes mod hash_width \<noteq> 0 then False
              else let hop_count = path_bytes div hash_width
                   in hop_count \<le> MAX_PATH_SIZE \<and> length p = 12 + path_bytes + hop_count + 1)"

definition advert_path_response_valid :: "bytes \<Rightarrow> bool" where
  "advert_path_response_valid p =
     (if length p < 6 then False
      else case normal_encoded_path_bytes (p ! 5) of None \<Rightarrow> False
        | Some path_size \<Rightarrow> length p = 6 + path_size)"

definition path_discovery_response_valid :: "bytes \<Rightarrow> bool" where
  "path_discovery_response_valid p =
     (if length p < 10 then False
      else case normal_encoded_path_bytes (p ! 8) of None \<Rightarrow> False
        | Some out_size \<Rightarrow>
            (let cursor = 8 + 1 + out_size in
             if cursor \<ge> length p then False
             else case normal_encoded_path_bytes (p ! cursor) of None \<Rightarrow> False
               | Some in_size \<Rightarrow> cursor + 1 + in_size = length p))"

definition contact_text_response_valid :: "bytes \<Rightarrow> nat \<Rightarrow> nat \<Rightarrow> bool" where
  "contact_text_response_valid p base_size type_offset =
     (if length p < base_size then False
      else p ! type_offset \<noteq> 2 \<or> length p \<ge> base_size + 4)"

definition response_shape_ok :: "bytes \<Rightarrow> bool" where
  "response_shape_ok p =
     (let n = length p; c = p ! 0 in
      if c \<in> {RESP_OK, RESP_NO_MORE_MESSAGES, RESP_DISABLED} then n = 1
      else if c = RESP_ERR then n = 2
      else if c \<in> {RESP_CONTACTS_START, RESP_END_OF_CONTACTS, RESP_CURRENT_TIME} then n = 5
      else if c \<in> {RESP_CONTACT, PUSH_NEW_ADVERT} then n = 148
      else if c = RESP_SELF_INFO then n \<ge> 58
      else if c = RESP_SENT then n = 10
      else if c = RESP_CONTACT_MESSAGE then contact_text_response_valid p 13 8
      else if c = RESP_CHANNEL_MESSAGE then n \<ge> 8
      else if c = RESP_EXPORT_CONTACT then n \<ge> 2
      else if c = RESP_BATTERY_AND_STORAGE then n = 11
      else if c = RESP_DEVICE_INFO then n \<ge> DEVICE_INFO_SIZE \<and> p ! 1 \<ge> MIN_SUPPORTED_UPSTREAM_PROTOCOL_LEVEL
      else if c = RESP_CLI_REPLY then n \<ge> 1
      else if c \<in> {RESP_PRIVATE_KEY, RESP_SIGNATURE} then n = 65
      else if c = RESP_CONTACT_MESSAGE_V3 then contact_text_response_valid p 16 11
      else if c = RESP_CHANNEL_MESSAGE_V3 then n \<ge> 11
      else if c = RESP_CHANNEL_INFO then n = 50
      else if c = RESP_SIGN_START then n = 6
      else if c = RESP_CUSTOM_VARS then n \<ge> 1
      else if c = RESP_ADVERT_PATH then advert_path_response_valid p
      else if c = RESP_TUNING_PARAMS then n = 9
      else if c = RESP_STATS then stats_response_valid p
      else if c = RESP_AUTOADD_CONFIG then n = 3
      else if c = RESP_ALLOWED_REPEAT_FREQ then n \<ge> 1 \<and> (n - 1) mod 8 = 0
      else if c = RESP_CHANNEL_DATA then n \<ge> 9 \<and> n = 9 + unat (p ! 8)
      else if c = RESP_DEFAULT_FLOOD_SCOPE then n = 1 \<or> n = 48
      else if c \<in> {PUSH_ADVERT, PUSH_PATH_UPDATED} then n = 33
      else if c = PUSH_SEND_CONFIRMED then n = 9
      else if c \<in> {PUSH_RAW_DATA, PUSH_CONTROL_DATA} then n \<ge> 4
      else if c = PUSH_LOG_RX_DATA then n \<ge> 3
      else if c \<in> {PUSH_MSG_WAITING, PUSH_CONTACTS_FULL} then n = 1
      else if c = PUSH_CONTACT_DELETED then n = 33
      else if c = PUSH_LOGIN_SUCCESS then n = 8 \<or> n \<ge> 14
      else if c \<in> {PUSH_LOGIN_FAILURE, PUSH_TELEMETRY_RESPONSE} then n \<ge> 8
      else if c = PUSH_STATUS_RESPONSE then n \<ge> 9
      else if c = PUSH_PATH_DISCOVERY_RESPONSE then path_discovery_response_valid p
      else if c = PUSH_TRACE_DATA then trace_response_valid p
      else if c = PUSH_BINARY_RESPONSE then n \<ge> 6
      else c \<ge> PUSH_ADVERT)"

definition validate_response_shape :: "bytes \<Rightarrow> mux_error + unit" where
  "validate_response_shape p =
     (if p = [] then Inl (ProtocolError ''empty upstream payload'')
      else if length p > MAX_PAYLOAD then Inl (ProtocolError ''oversized upstream payload'')
      else if \<not> response_shape_ok p then Inl (ProtocolError ''malformed response'')
      else Inr ())"

definition contacts_code_expected :: "byte \<Rightarrow> nat \<Rightarrow> bool" where
  "contacts_code_expected code phase =
     (if phase = 0 then code = RESP_CONTACTS_START
      else phase = 1 \<and> (code = RESP_CONTACT \<or> code = RESP_END_OF_CONTACTS))"

definition echo_mismatch :: "command_descriptor \<Rightarrow> bytes \<Rightarrow> bytes \<Rightarrow> string option" where
  "echo_mismatch desc payload command =
     (let code = payload ! 0 in
      if code = RESP_CHANNEL_INFO \<and> VerifyIndex \<in> set (desc_flags desc)
      then (if payload ! 1 = command ! 1 then None else Some ''channel response index mismatch'')
      else if code = RESP_STATS \<and> VerifySubtype \<in> set (desc_flags desc)
      then (if payload ! 1 = command ! 1 then None else Some ''stats response subtype mismatch'')
      else None)"

definition validate_response :: "command_descriptor \<Rightarrow> bytes \<Rightarrow> bytes option \<Rightarrow> nat \<Rightarrow> mux_error + disposition" where
  "validate_response desc payload command phase =
     (if payload = [] then Inl (ProtocolError ''empty upstream payload'')
      else if length payload > MAX_PAYLOAD then Inl (ProtocolError ''oversized upstream payload'')
      else let code = payload ! 0 in
      if code = RESP_ERR then
        (if length payload \<noteq> 2 then Inl (ProtocolError ''malformed ERR response'') else Inr Complete)
      else if code \<notin> set (desc_success desc) then Inl (ProtocolError ''unexpected response'')
      else case validate_response_shape payload of Inl e \<Rightarrow> Inl e | Inr _ \<Rightarrow>
      if desc_grammar desc = Contacts \<and> \<not> contacts_code_expected code phase
      then Inl (ProtocolError ''out-of-order contacts response'')
      else case (case command of None \<Rightarrow> None | Some c \<Rightarrow> echo_mismatch desc payload c) of
          Some msg \<Rightarrow> Inl (ProtocolError msg)
        | None \<Rightarrow> Inr (if desc_grammar desc = Contacts \<and> code \<noteq> RESP_END_OF_CONTACTS
                      then Progress else Complete))"

section \<open>Inbox dialect, startup payloads, device information\<close>

definition downgrade_inbox :: "bytes \<Rightarrow> byte \<Rightarrow> mux_error + bytes" where
  "downgrade_inbox payload target_version =
     (case validate_response_shape payload of Inl e \<Rightarrow> Inl e | Inr _ \<Rightarrow>
      if target_version \<ge> 3 then Inr payload
      else if payload ! 0 = RESP_CONTACT_MESSAGE_V3 then
        Inr (map (\<lambda>i. if i = 0 then RESP_CONTACT_MESSAGE else payload ! (i + 3)) [0..<length payload - 3])
      else if payload ! 0 = RESP_CHANNEL_MESSAGE_V3 then
        Inr (map (\<lambda>i. if i = 0 then RESP_CHANNEL_MESSAGE else payload ! (i + 3)) [0..<length payload - 3])
      else Inr payload)"

definition plain_dm :: "bytes \<Rightarrow> bool" where
  "plain_dm payload \<longleftrightarrow> 2 \<le> length payload \<and> payload ! 0 = CMD_SEND_TXT_MSG \<and> payload ! 1 = 0"

definition app_start_payload :: "bytes \<Rightarrow> bytes \<Rightarrow> mux_error + bytes" where
  "app_start_payload name reserved =
     (if length reserved \<noteq> 7 then Inl (ArgumentError ''APP_START reserved field must be seven bytes'')
      else if 8 + length name > MAX_PAYLOAD then Inl (ArgumentError ''APP_START payload exceeds native profile'')
      else Inr (map (\<lambda>i. if i = 0 then CMD_APP_START else if i < 8 then reserved ! (i - 1) else name ! (i - 8))
                 [0..<8 + length name]))"

definition device_query_payload :: "byte \<Rightarrow> bytes" where
  "device_query_payload target = [CMD_DEVICE_QUERY, target]"

definition normalize_device_query :: "bytes \<Rightarrow> byte \<Rightarrow> mux_error + bytes" where
  "normalize_device_query payload target =
     (case validate_command payload of (desc, reason) \<Rightarrow>
      if \<not> (desc \<noteq> None \<and> reason = None \<and> payload ! 0 = CMD_DEVICE_QUERY)
      then Inl (ArgumentError ''malformed DEVICE_QUERY'')
      else Inr (payload[1 := target]))"

definition validate_self_info :: "bytes \<Rightarrow> mux_error + bytes" where
  "validate_self_info payload =
     (if \<not> (length payload \<ge> 58 \<and> payload ! 0 = RESP_SELF_INFO)
      then Inl (ProtocolError ''malformed SELF_INFO'')
      else Inr (take 32 (drop 4 payload)))"

definition validate_device_info :: "bytes \<Rightarrow> mux_error + byte" where
  "validate_device_info payload =
     (if \<not> (length payload \<ge> DEVICE_INFO_SIZE \<and> length payload \<le> MAX_PAYLOAD \<and> payload ! 0 = RESP_DEVICE_INFO)
      then Inl (ProtocolError ''malformed DEVICE_INFO'')
      else if payload ! 1 < MIN_SUPPORTED_UPSTREAM_PROTOCOL_LEVEL
      then Inl (ProtocolError ''unsupported firmware protocol level'')
      else Inr (payload ! 1))"

definition downstream_device_info :: "bytes \<Rightarrow> mux_error + bytes" where
  "downstream_device_info payload =
     (case validate_device_info payload of Inl e \<Rightarrow> Inl e | Inr actual \<Rightarrow>
      Inr ((take DEVICE_INFO_SIZE payload)[1 := min actual MAX_EXPOSED_PROTOCOL_LEVEL]))"

section \<open>The identity of a received text message\<close>

definition hex_digit :: "nat \<Rightarrow> char" where
  "hex_digit n = ''0123456789abcdef'' ! n"

definition hex :: "bytes \<Rightarrow> string" where
  "hex bs = concat (map (\<lambda>b. [hex_digit (unat b div 16), hex_digit (unat b mod 16)]) bs)"

text \<open>Decimal rendering of an unsigned integer in a Crystal string interpolation.\<close>

fun decimal :: "nat \<Rightarrow> string" where
  "decimal n = (if n < 10 then [hex_digit n] else decimal (n div 10) @ [hex_digit (n mod 10)])"

declare decimal.simps [simp del]

definition received_contact_message_identity :: "bytes \<Rightarrow> nat \<Rightarrow> nat \<Rightarrow> nat \<Rightarrow> nat \<Rightarrow> string option" where
  "received_contact_message_identity payload sender_offset type_offset timestamp_offset body_offset =
     (if length payload < body_offset then None
      else Some (''direct:'' @ hex (take 6 (drop sender_offset payload)) @ '':''
        @ decimal (unat (payload ! type_offset)) @ '':''
        @ decimal (unat (u32_at payload timestamp_offset)) @ '':'' @ hex (drop body_offset payload)))"

definition received_channel_message_identity :: "bytes \<Rightarrow> nat \<Rightarrow> nat \<Rightarrow> nat \<Rightarrow> nat \<Rightarrow> string option" where
  "received_channel_message_identity payload channel_offset type_offset timestamp_offset body_offset =
     (if length payload < body_offset then None
      else Some (''channel:'' @ decimal (unat (payload ! channel_offset)) @ '':''
        @ decimal (unat (payload ! type_offset)) @ '':''
        @ decimal (unat (u32_at payload timestamp_offset)) @ '':'' @ hex (drop body_offset payload)))"

definition received_text_message_identity :: "bytes \<Rightarrow> string option" where
  "received_text_message_identity payload =
     (if payload = [] then None
      else if payload ! 0 = RESP_CONTACT_MESSAGE then received_contact_message_identity payload 1 8 9 13
      else if payload ! 0 = RESP_CONTACT_MESSAGE_V3 then received_contact_message_identity payload 4 11 12 16
      else if payload ! 0 = RESP_CHANNEL_MESSAGE then received_channel_message_identity payload 1 3 4 8
      else if payload ! 0 = RESP_CHANNEL_MESSAGE_V3 then received_channel_message_identity payload 4 6 7 11
      else None)"

text \<open>The logical fields an identity is meant to stand for.\<close>

datatype message_fields =
    DirectKey bytes byte u32 bytes
  | ChannelKey byte byte u32 bytes

definition message_key :: "bytes \<Rightarrow> message_fields option" where
  "message_key p =
     (if p = [] then None
      else if p ! 0 = RESP_CONTACT_MESSAGE \<and> 13 \<le> length p
        then Some (DirectKey (take 6 (drop 1 p)) (p ! 8) (u32_at p 9) (drop 13 p))
      else if p ! 0 = RESP_CONTACT_MESSAGE_V3 \<and> 16 \<le> length p
        then Some (DirectKey (take 6 (drop 4 p)) (p ! 11) (u32_at p 12) (drop 16 p))
      else if p ! 0 = RESP_CHANNEL_MESSAGE \<and> 8 \<le> length p
        then Some (ChannelKey (p ! 1) (p ! 3) (u32_at p 4) (drop 8 p))
      else if p ! 0 = RESP_CHANNEL_MESSAGE_V3 \<and> 11 \<le> length p
        then Some (ChannelKey (p ! 4) (p ! 6) (u32_at p 7) (drop 11 p))
      else None)"

fun render_key :: "message_fields \<Rightarrow> string" where
  "render_key (DirectKey sender ty ts body) = ''direct:'' @ hex sender @ '':'' @ decimal (unat ty)
     @ '':'' @ decimal (unat ts) @ '':'' @ hex body"
| "render_key (ChannelKey channel ty ts body) = ''channel:'' @ decimal (unat channel) @ '':''
     @ decimal (unat ty) @ '':'' @ decimal (unat ts) @ '':'' @ hex body"

section \<open>Rendering is injective\<close>

lemma hex_digit_inj: "m < 16 \<Longrightarrow> n < 16 \<Longrightarrow> hex_digit m = hex_digit n \<longleftrightarrow> m = n"
proof -
  have "distinct ''0123456789abcdef''" by simp
  moreover assume "m < 16" "n < 16"
  ultimately show ?thesis unfolding hex_digit_def by (intro nth_eq_iff_index_eq) auto
qed

lemma hex_digit_no_colon: "n < 16 \<Longrightarrow> hex_digit n \<noteq> CHR '':''"
proof
  assume n: "n < 16" and eq: "hex_digit n = CHR '':''"
  have "n < length ''0123456789abcdef''" using n by simp
  then have "''0123456789abcdef'' ! n \<in> set ''0123456789abcdef''" by (rule nth_mem)
  with eq show False unfolding hex_digit_def by simp
qed

lemma byte_eq_nibbles: "unat (a :: byte) div 16 = unat b div 16 \<Longrightarrow> unat a mod 16 = unat b mod 16 \<Longrightarrow> a = b"
  by (metis div_mult_mod_eq word_unat_eq_iff)

lemma hex_inj: "hex xs = hex ys \<Longrightarrow> xs = ys"
proof (induction xs arbitrary: ys)
  case Nil
  then show ?case by (cases ys) (auto simp: hex_def)
next
  case (Cons x xs)
  then obtain y ys' where ys: "ys = y # ys'" by (cases ys) (auto simp: hex_def)
  have "unat x div 16 < 16" "unat y div 16 < 16" using unat_byte_less [of x] unat_byte_less [of y] by auto
  with Cons.prems ys have "x = y" by (auto simp: hex_def hex_digit_inj intro: byte_eq_nibbles)
  moreover have "hex xs = hex ys'" using Cons.prems ys by (auto simp: hex_def)
  ultimately show ?case using Cons.IH ys by simp
qed

lemma hex_no_colon: "CHR '':'' \<notin> set (hex xs)"
proof -
  have "hex_digit (unat x div 16) \<noteq> CHR '':''" for x :: byte
    by (rule hex_digit_no_colon) (use unat_byte_less [of x] in auto)
  moreover have "hex_digit (unat x mod 16) \<noteq> CHR '':''" for x :: byte
    by (rule hex_digit_no_colon) simp
  ultimately show ?thesis by (auto simp: hex_def dest: sym)
qed

lemma decimal_no_colon: "CHR '':'' \<notin> set (decimal n)"
proof (induction n rule: decimal.induct)
  case (1 n)
  have "hex_digit (n mod 10) \<noteq> CHR '':''" by (rule hex_digit_no_colon) (simp add: order_less_trans [OF mod_less_divisor])
  with 1 hex_digit_no_colon [of n] show ?case by (auto simp: decimal.simps [of n])
qed

lemma decimal_nonempty: "decimal n \<noteq> []"
  by (subst decimal.simps) simp

lemma decimal_inj: "decimal m = decimal n \<Longrightarrow> m = n"
proof (induction m arbitrary: n rule: decimal.induct)
  case (1 m)
  have digit: "hex_digit (m mod 10) = hex_digit (n mod 10) \<longleftrightarrow> m mod 10 = n mod 10"
    by (rule hex_digit_inj) (simp_all add: order_less_trans [OF mod_less_divisor])
  have nonempty: "decimal k \<noteq> []" for k by (rule decimal_nonempty)
  show ?case
  proof (cases "m < 10")
    case True
    with "1.prems" nonempty [of "n div 10"] have "n < 10"
      by (auto simp: decimal.simps [of m] decimal.simps [of n] split: if_splits)
    with True "1.prems" digit show ?thesis by (simp add: decimal.simps [of m] decimal.simps [of n])
  next
    case False
    with "1.prems" nonempty [of "m div 10"] have n: "\<not> n < 10"
      by (auto simp: decimal.simps [of m] decimal.simps [of n] split: if_splits)
    with False "1.prems" have "decimal (m div 10) = decimal (n div 10)" "m mod 10 = n mod 10"
      using digit by (auto simp: decimal.simps [of m] decimal.simps [of n])
    with "1.IH" [OF False] show ?thesis by (metis div_mult_mod_eq)
  qed
qed

lemma split_at_colon:
  assumes "CHR '':'' \<notin> set xs" "CHR '':'' \<notin> set ys" "xs @ CHR '':'' # us = ys @ CHR '':'' # vs"
  shows "xs = ys \<and> us = vs"
  using assms
proof (induction xs arbitrary: ys)
  case Nil
  then show ?case by (cases ys) auto
next
  case (Cons x xs)
  then show ?case by (cases ys) auto
qed

lemma decimal_unat_inj: "decimal (unat a) = decimal (unat b) \<Longrightarrow> a = b"
  using decimal_inj word_unat_eq_iff by blast

lemma render_key_inj: "render_key k = render_key l \<Longrightarrow> k = l"
  by (cases k; cases l)
    (auto dest!: split_at_colon [OF hex_no_colon hex_no_colon]
      split_at_colon [OF decimal_no_colon decimal_no_colon] hex_inj decimal_unat_inj)

lemma identity_render: "received_text_message_identity p = map_option render_key (message_key p)"
  by (auto simp: received_text_message_identity_def message_key_def received_contact_message_identity_def
      received_channel_message_identity_def)

section \<open>The descriptor table and the shape checks agree\<close>

lemma descriptor_opcode: "descriptor p = Some d \<Longrightarrow> p \<noteq> [] \<and> desc_opcode d = p ! 0"
proof -
  assume d: "descriptor p = Some d"
  then obtain d' where m: "p \<noteq> []" "map_of DESCRIPTORS (p ! 0) = Some d'"
    by (auto simp: descriptor_def split: if_splits option.splits)
  have "\<forall>(k, e) \<in> set DESCRIPTORS. desc_opcode e = k" by (simp add: DESCRIPTORS_def descr_def)
  with map_of_SomeD [OF m(2)] have "desc_opcode d' = p ! 0" by auto
  with d m show ?thesis by (auto simp: descriptor_def descr_def split: if_splits)
qed

lemma shape_valid_bounds: "command_shape_valid p \<Longrightarrow> p \<noteq> [] \<and> length p \<le> MAX_PAYLOAD"
  by (auto simp: command_shape_valid_def split: if_splits)

lemma shape_valid_in_table: "command_shape_valid p \<Longrightarrow> map_of DESCRIPTORS (p ! 0) \<noteq> None"
proof (rule ccontr)
  assume v: "command_shape_valid p" and "\<not> map_of DESCRIPTORS (p ! 0) \<noteq> None"
  then have "p ! 0 \<notin> fst ` set DESCRIPTORS" by (simp add: map_of_eq_None_iff)
  then have "\<not> command_shape_valid p"
    unfolding command_shape_valid_def Let_def by (simp add: DESCRIPTORS_def)
  with v show False by simp
qed

lemma shape_valid_descriptor: "command_shape_valid p \<Longrightarrow> \<exists>d. descriptor p = Some d"
  using shape_valid_in_table [of p] shape_valid_bounds [of p] by (auto simp: descriptor_def)

section \<open>Inbox conversion\<close>

lemma shift_three:
  "3 < length p \<Longrightarrow> map (\<lambda>i. if i = 0 then c else p ! (i + 3)) [0..<length p - 3] = c # drop 4 p"
  by (rule nth_equalityI) (auto simp: nth_Cons split: nat.splits)

lemma valid_shape_iff:
  "validate_response_shape p = Inr u \<longleftrightarrow> p \<noteq> [] \<and> length p \<le> MAX_PAYLOAD \<and> response_shape_ok p"
  by (auto simp: validate_response_shape_def)

lemma contact_v3_shape: "response_shape_ok p \<Longrightarrow> p ! 0 = RESP_CONTACT_MESSAGE_V3 \<Longrightarrow> contact_text_response_valid p 16 11"
  by (simp add: response_shape_ok_def)

lemma channel_v3_shape: "response_shape_ok p \<Longrightarrow> p ! 0 = RESP_CHANNEL_MESSAGE_V3 \<Longrightarrow> 11 \<le> length p"
  by (simp add: response_shape_ok_def)

text \<open>The three cases of a conversion for a client of the legacy dialect.\<close>

lemma downgrade_cases:
  assumes "downgrade_inbox p t = Inr q" "t < 3"
  obtains (contact) "p ! 0 = RESP_CONTACT_MESSAGE_V3" "q = RESP_CONTACT_MESSAGE # drop 4 p"
      "16 \<le> length p" "contact_text_response_valid p 16 11"
    | (channel) "p ! 0 = RESP_CHANNEL_MESSAGE_V3" "q = RESP_CHANNEL_MESSAGE # drop 4 p" "11 \<le> length p"
    | (same) "p ! 0 \<noteq> RESP_CONTACT_MESSAGE_V3" "p ! 0 \<noteq> RESP_CHANNEL_MESSAGE_V3" "q = p"
proof -
  have ok: "response_shape_ok p" using assms
    by (auto simp: downgrade_inbox_def validate_response_shape_def split: if_splits sum.splits)
  have "\<not> 3 \<le> t" using assms(2) by simp
  with assms(1) have q: "q = (if p ! 0 = RESP_CONTACT_MESSAGE_V3 then map (\<lambda>i. if i = 0 then RESP_CONTACT_MESSAGE else p ! (i + 3)) [0..<length p - 3]
      else if p ! 0 = RESP_CHANNEL_MESSAGE_V3 then map (\<lambda>i. if i = 0 then RESP_CHANNEL_MESSAGE else p ! (i + 3)) [0..<length p - 3] else p)"
    by (simp add: downgrade_inbox_def split: if_splits sum.splits)
  show thesis
  proof (cases "p ! 0 = RESP_CONTACT_MESSAGE_V3")
    case True
    have v: "contact_text_response_valid p 16 11" by (rule contact_v3_shape [OF ok True])
    then have n: "16 \<le> length p" by (auto simp: contact_text_response_valid_def split: if_splits)
    with q True shift_three [of p RESP_CONTACT_MESSAGE] have "q = RESP_CONTACT_MESSAGE # drop 4 p" by simp
    with True v n show thesis by (intro contact)
  next
    case notc: False
    show thesis
    proof (cases "p ! 0 = RESP_CHANNEL_MESSAGE_V3")
      case True
      have n: "11 \<le> length p" by (rule channel_v3_shape [OF ok True])
      with q True notc shift_three [of p RESP_CHANNEL_MESSAGE] have "q = RESP_CHANNEL_MESSAGE # drop 4 p" by simp
      with True n show thesis by (intro channel)
    next
      case False
      with notc q show thesis by (intro same) auto
    qed
  qed
qed

lemma downgrade_contact_v3:
  assumes "validate_response_shape p = Inr ()" "p ! 0 = RESP_CONTACT_MESSAGE_V3" "t < 3"
  shows "downgrade_inbox p t = Inr (RESP_CONTACT_MESSAGE # drop 4 p)"
proof -
  have "contact_text_response_valid p 16 11" using assms by (simp add: valid_shape_iff contact_v3_shape)
  then have "3 < length p" by (auto simp: contact_text_response_valid_def split: if_splits)
  with assms shift_three [of p RESP_CONTACT_MESSAGE] show ?thesis by (auto simp: downgrade_inbox_def)
qed

lemma downgrade_channel_v3:
  assumes "validate_response_shape p = Inr ()" "p ! 0 = RESP_CHANNEL_MESSAGE_V3" "t < 3"
  shows "downgrade_inbox p t = Inr (RESP_CHANNEL_MESSAGE # drop 4 p)"
proof -
  have "11 \<le> length p" using assms by (simp add: valid_shape_iff channel_v3_shape)
  with assms shift_three [of p RESP_CHANNEL_MESSAGE] show ?thesis by (auto simp: downgrade_inbox_def)
qed

lemma message_key_contact:
  "16 \<le> length p \<Longrightarrow> p ! 0 = RESP_CONTACT_MESSAGE_V3 \<Longrightarrow> message_key (RESP_CONTACT_MESSAGE # drop 4 p) = message_key p"
  by (cases p) (auto simp: message_key_def u32_at_def nth_Cons')

lemma message_key_channel:
  "11 \<le> length p \<Longrightarrow> p ! 0 = RESP_CHANNEL_MESSAGE_V3 \<Longrightarrow> message_key (RESP_CHANNEL_MESSAGE # drop 4 p) = message_key p"
  by (cases p) (auto simp: message_key_def u32_at_def nth_Cons')

lemma identity_eq_iff_key: "received_text_message_identity p = received_text_message_identity q \<longleftrightarrow> message_key p = message_key q"
  by (cases "message_key p"; cases "message_key q") (auto simp: identity_render dest: render_key_inj)

lemma downgrade_key: "downgrade_inbox p t = Inr q \<Longrightarrow> message_key q = message_key p"
proof (cases "t < 3")
  case True
  assume "downgrade_inbox p t = Inr q"
  from this True show ?thesis
    by (cases rule: downgrade_cases) (simp_all add: message_key_contact message_key_channel)
next
  case False
  assume "downgrade_inbox p t = Inr q"
  with False show ?thesis by (simp add: downgrade_inbox_def not_less split: sum.splits)
qed

lemma downgrade_shape:
  assumes "downgrade_inbox p t = Inr q"
  shows "validate_response_shape q = Inr ()"
proof -
  have p: "validate_response_shape p = Inr ()"
    using assms by (auto simp: downgrade_inbox_def split: sum.splits)
  show ?thesis
  proof (cases "t < 3")
    case True
    from assms True show ?thesis
    proof (cases rule: downgrade_cases)
      case contact
      with p show ?thesis
        by (auto simp: valid_shape_iff response_shape_ok_def contact_text_response_valid_def split: if_splits)
    next
      case channel
      with p show ?thesis by (auto simp: valid_shape_iff response_shape_ok_def)
    next
      case same
      with p show ?thesis by simp
    qed
  next
    case False
    with assms p show ?thesis by (simp add: downgrade_inbox_def not_less split: sum.splits)
  qed
qed

section \<open>Properties\<close>

text \<open>The command validator and the descriptor table agree: a command is accepted exactly
  when its shape is valid, an accepted command is non-empty, fits the native payload and carries
  the descriptor of its own opcode, and the native reason is "unsupported" exactly for an opcode
  outside the table and "illegal argument" exactly for a known opcode with a bad shape.\<close>

theorem validate_command_sound:
  "(snd (validate_command p) = None \<longleftrightarrow> command_shape_valid p)
   \<and> (command_shape_valid p \<longrightarrow> p \<noteq> [] \<and> length p \<le> MAX_PAYLOAD
        \<and> (\<exists>d. fst (validate_command p) = Some d \<and> desc_opcode d = p ! 0))
   \<and> (snd (validate_command p) = Some ERR_UNSUPPORTED_CMD \<longleftrightarrow> p = [] \<or> p ! 0 \<notin> fst ` set DESCRIPTORS)
   \<and> (snd (validate_command p) = Some ERR_ILLEGAL_ARG
        \<longleftrightarrow> p \<noteq> [] \<and> p ! 0 \<in> fst ` set DESCRIPTORS \<and> \<not> command_shape_valid p)"
proof -
  have none: "descriptor p = None \<longleftrightarrow> p = [] \<or> p ! 0 \<notin> fst ` set DESCRIPTORS"
    using map_of_eq_None_iff [of DESCRIPTORS "p ! 0"]
    by (cases "map_of DESCRIPTORS (p ! 0)") (auto simp: descriptor_def)
  show ?thesis
  proof (cases "descriptor p")
    case None
    with none shape_valid_descriptor [of p] show ?thesis by (auto simp: validate_command_def)
  next
    case (Some d)
    with none descriptor_opcode [OF Some] shape_valid_bounds [of p] show ?thesis
      by (auto simp: validate_command_def)
  qed
qed

theorem validate_command_sound_witness:
  "fst (validate_command [CMD_GET_CHANNEL, 3]) \<noteq> None \<and> snd (validate_command [CMD_GET_CHANNEL, 3]) = None"
proof -
  have "command_shape_valid [CMD_GET_CHANNEL, 3]" by (simp add: command_shape_valid_def)
  with validate_command_sound [of "[CMD_GET_CHANNEL, 3]"] show ?thesis by auto
qed

text \<open>C29. The inbox conversion for a client that did not ask for the version 3 dialect: every
  well-formed upstream frame has a converted form, which is again well formed, is never a
  version 3 message, is not longer, and is a fixed point of the conversion.\<close>

theorem downgrade_inbox_legacy:
  assumes "validate_response_shape p = Inr ()" "t < 3"
  shows "\<exists>q. downgrade_inbox p t = Inr q \<and> validate_response_shape q = Inr ()
    \<and> q ! 0 \<noteq> RESP_CONTACT_MESSAGE_V3 \<and> q ! 0 \<noteq> RESP_CHANNEL_MESSAGE_V3
    \<and> length q \<le> length p \<and> downgrade_inbox q t = Inr q"
proof -
  have "\<not> 3 \<le> t" using assms(2) by simp
  then obtain q where q: "downgrade_inbox p t = Inr q"
    using assms(1) by (cases "downgrade_inbox p t") (simp_all add: downgrade_inbox_def split: if_splits)
  have shape: "validate_response_shape q = Inr ()" by (rule downgrade_shape [OF q])
  from q assms(2) have "q ! 0 \<noteq> RESP_CONTACT_MESSAGE_V3 \<and> q ! 0 \<noteq> RESP_CHANNEL_MESSAGE_V3 \<and> length q \<le> length p"
    by (cases rule: downgrade_cases) auto
  moreover from this shape \<open>\<not> 3 \<le> t\<close> have "downgrade_inbox q t = Inr q" by (simp add: downgrade_inbox_def)
  ultimately show ?thesis using q shape by blast
qed

theorem downgrade_inbox_legacy_witness:
  "\<exists>q. downgrade_inbox ([RESP_CHANNEL_MESSAGE_V3, 1, 0, 0, 2, 0, 0, 5, 6, 7, 8] @ ascii ''hi'') 2 = Inr q
     \<and> length q \<le> 13"
  using downgrade_inbox_legacy [of "[RESP_CHANNEL_MESSAGE_V3, 1, 0, 0, 2, 0, 0, 5, 6, 7, 8] @ ascii ''hi''" 2]
  by (auto simp: validate_response_shape_def response_shape_ok_def ascii_def)

text \<open>C20. The rendered identity string of a received text message is a faithful key: two payloads
  have the same identity exactly when they are both messages of the same kind with the same
  sender prefix or channel, text type, timestamp and body (or neither is a text message).\<close>

theorem received_identity_faithful:
  "received_text_message_identity p = received_text_message_identity q \<longleftrightarrow> message_key p = message_key q"
  by (rule identity_eq_iff_key)

text \<open>The identity does not depend on the dialect a frame is rendered in: converting an inbox
  frame for any client target leaves its identity unchanged.\<close>

theorem downgrade_preserves_identity:
  assumes "downgrade_inbox p t = Inr q"
  shows "received_text_message_identity q = received_text_message_identity p"
  using downgrade_key [OF assms] by (simp add: identity_eq_iff_key)

theorem downgrade_preserves_identity_witness:
  "received_text_message_identity ([RESP_CHANNEL_MESSAGE, 2, 0, 0, 5, 6, 7, 8] @ ascii ''hi'')
    = received_text_message_identity ([RESP_CHANNEL_MESSAGE_V3, 1, 0, 0, 2, 0, 0, 5, 6, 7, 8] @ ascii ''hi'')"
  by (rule downgrade_preserves_identity [where t = 0])
    (simp add: downgrade_inbox_def validate_response_shape_def response_shape_ok_def ascii_def upt_rec)

text \<open>Device information shown to clients: any accepted upstream record, whatever its level
  and however long a future tail it has, is cut to the known 82-byte layout, advertises a level
  between 13 and 14, keeps every other byte, and is itself an accepted record that the
  conversion leaves alone.\<close>

theorem downstream_device_info_layout:
  assumes "validate_device_info p = Inr level"
  shows "\<exists>q. downstream_device_info p = Inr q \<and> length q = DEVICE_INFO_SIZE
    \<and> MIN_SUPPORTED_UPSTREAM_PROTOCOL_LEVEL \<le> q ! 1 \<and> q ! 1 \<le> MAX_EXPOSED_PROTOCOL_LEVEL \<and> q ! 1 \<le> level
    \<and> (\<forall>i < DEVICE_INFO_SIZE. i \<noteq> 1 \<longrightarrow> q ! i = p ! i)
    \<and> validate_device_info q = Inr (q ! 1) \<and> downstream_device_info q = Inr q"
proof -
  let ?q = "(take DEVICE_INFO_SIZE p)[1 := min level MAX_EXPOSED_PROTOCOL_LEVEL]"
  have p: "82 \<le> length p" "p ! 0 = RESP_DEVICE_INFO" "13 \<le> level"
    using assms by (auto simp: validate_device_info_def not_less split: if_splits)
  have q: "downstream_device_info p = Inr ?q" using assms by (simp add: downstream_device_info_def)
  have len: "length ?q = 82" using p by simp
  have q1: "?q ! 1 = min level 14" using p by simp
  have lvl: "13 \<le> min level (14 :: byte)" "min level (14 :: byte) \<le> 14" using p by simp_all
  have vq: "validate_device_info ?q = Inr (?q ! 1)"
    using p lvl len by (simp add: validate_device_info_def not_less)
  have "downstream_device_info ?q = Inr ?q"
    using vq len q1 by (simp add: downstream_device_info_def)
  moreover have "\<forall>i < DEVICE_INFO_SIZE. i \<noteq> 1 \<longrightarrow> ?q ! i = p ! i" by simp
  ultimately show ?thesis using q len q1 lvl vq by (intro exI [of _ ?q]) simp
qed

theorem downstream_device_info_layout_witness:
  "\<exists>q. downstream_device_info (RESP_DEVICE_INFO # 200 # replicate 100 7) = Inr q \<and> q ! 1 \<le> 14"
  using downstream_device_info_layout [of "RESP_DEVICE_INFO # 200 # replicate 100 7" 200]
  by (auto simp: validate_device_info_def)

end
