(* ===== verification/Startup.thy ===== *)
theory Startup
  imports Protocol
begin

text \<open>
  Synchronisation with a newly connected companion (\<open>src/meshcore_tcp_mux/startup.cr\<close>): five
  \<open>APP_START\<close> probes and a \<open>DEVICE_QUERY\<close> fence off at most four stale frames, the device profile is
  verified and the temporary flood scope reset before any client is admitted.

  \<open>startup_receive\<close> is \<open>Startup#receive\<close>; the outcome is the next internal command, if any, or the
  error, and a \<open>ProtocolError\<close> becomes a \<open>StartupError\<close> as in the \<open>rescue\<close> clause. The rendering
  \<open>identification\<close> for the log is not modelled.
\<close>

section \<open>The code\<close>

record startup =
  self_key :: "bytes option"
  device_info_record :: "bytes option"
  upstream_protocol_level :: "byte option"
  exposed_protocol_level :: "byte option"
  downstream_info :: "bytes option"
  startup_deadline :: span
  self_run :: nat
  awaiting_scope :: bool
  startup_ready :: bool

definition new_startup :: "span \<Rightarrow> span \<Rightarrow> startup" where
  "new_startup now timeout = \<lparr>self_key = None, device_info_record = None, upstream_protocol_level = None,
     exposed_protocol_level = None, downstream_info = None, startup_deadline = now + timeout, self_run = 0,
     awaiting_scope = False, startup_ready = False\<rparr>"

definition startup_app_start :: "mux_error + bytes" where
  "startup_app_start = app_start_payload (ascii ''meshcore-tcp-mux'') (replicate 7 0)"

definition startup_probes :: "(mux_error + bytes) list" where
  "startup_probes = replicate 5 startup_app_start @ [Inr (device_query_payload UPSTREAM_APP_TARGET)]"

definition startup_check_deadline :: "span \<Rightarrow> startup \<Rightarrow> mux_error + unit" where
  "startup_check_deadline now s =
     (if \<not> startup_ready s \<and> startup_deadline s \<le> now
      then Inl (StartupError ''startup synchronization timeout'') else Inr ())"

text \<open>The \<open>rescue\<close> clause.\<close>

definition startup_rescue :: "mux_error \<Rightarrow> mux_error" where
  "startup_rescue e = (case e of ProtocolError m \<Rightarrow> StartupError m | _ \<Rightarrow> e)"

definition startup_receive :: "bytes \<Rightarrow> span \<Rightarrow> startup \<Rightarrow> (mux_error + bytes option) \<times> startup" where
  "startup_receive payload now s =
     (case startup_check_deadline now s of Inl e \<Rightarrow> (Inl e, s) | Inr _ \<Rightarrow>
      if payload = [] then (Inl (StartupError ''empty startup response''), s)
      else if PUSH_ADVERT \<le> payload ! 0 then (Inr None, s)
      else if startup_ready s then (Inl (StartupError ''ordinary response after startup boundary''), s)
      else if awaiting_scope s then
        (if payload \<noteq> [RESP_OK] then (Inl (StartupError ''startup scope reset rejected''), s)
         else (Inr None, s\<lparr>startup_ready := True\<rparr>))
      else if payload ! 0 = RESP_SELF_INFO then
        (case validate_self_info payload of Inl e \<Rightarrow> (Inl (startup_rescue e), s)
         | Inr key \<Rightarrow> (Inr None, s\<lparr>self_key := Some key, self_run := self_run s + 1\<rparr>))
      else if payload ! 0 = RESP_DEVICE_INFO \<and> 5 \<le> self_run s then
        (case validate_device_info payload of Inl e \<Rightarrow> (Inl (startup_rescue e), s)
         | Inr level \<Rightarrow> (case downstream_device_info payload of
             Inl e \<Rightarrow> (Inl (startup_rescue e), s\<lparr>upstream_protocol_level := Some level\<rparr>)
           | Inr info \<Rightarrow> (Inr (Some [CMD_SET_FLOOD_SCOPE_KEY, 0]),
               s\<lparr>upstream_protocol_level := Some level, downstream_info := Some info,
                 exposed_protocol_level := Some (info ! 1), device_info_record := Some payload,
                 awaiting_scope := True\<rparr>)))
      else (Inr None, s\<lparr>self_run := 0, self_key := None\<rparr>))"

text \<open>A whole conversation: the frames received with their arrival times, the commands issued.\<close>

fun startup_run :: "startup \<Rightarrow> (bytes \<times> span) list \<Rightarrow> bytes list \<times> (mux_error + startup)" where
  "startup_run s [] = ([], Inr s)"
| "startup_run s ((payload, now) # rest) = (case startup_receive payload now s of
      (Inl e, s') \<Rightarrow> ([], Inl e)
    | (Inr out, s') \<Rightarrow> (case startup_run s' rest of (outs, r) \<Rightarrow> (case out of None \<Rightarrow> outs | Some c \<Rightarrow> c # outs, r)))"

section \<open>Lemmas\<close>

lemma startup_run_append:
  "startup_run s (xs @ ys) = (case startup_run s xs of
      (outs, Inl e) \<Rightarrow> (outs, Inl e)
    | (outs, Inr s') \<Rightarrow> (case startup_run s' ys of (outs', r) \<Rightarrow> (outs @ outs', r)))"
  by (induction s xs rule: startup_run.induct) (auto split: prod.splits sum.splits option.splits)

text \<open>A stale ordinary frame is harmless when it is not a malformed \<open>SELF_INFO\<close>.\<close>

definition tolerable :: "bytes \<Rightarrow> bool" where
  "tolerable p \<longleftrightarrow> p \<noteq> [] \<and> (p ! 0 = RESP_SELF_INFO \<longrightarrow> 58 \<le> length p)"

lemma receive_self_info:
  assumes "now < startup_deadline s" "\<not> startup_ready s" "\<not> awaiting_scope s" "p ! 0 = RESP_SELF_INFO" "58 \<le> length p"
  shows "startup_receive p now s = (Inr None, s\<lparr>self_key := Some (take 32 (drop 4 p)), self_run := self_run s + 1\<rparr>)"
proof -
  have "p \<noteq> []" using assms(5) by auto
  with assms show ?thesis by (simp add: startup_receive_def startup_check_deadline_def validate_self_info_def)
qed

lemma receive_stale:
  assumes "now < startup_deadline s" "\<not> startup_ready s" "\<not> awaiting_scope s" "tolerable p" "self_run s < 5"
  shows "\<exists>s'. startup_receive p now s = (Inr None, s') \<and> \<not> startup_ready s' \<and> \<not> awaiting_scope s'
    \<and> startup_deadline s' = startup_deadline s \<and> self_run s' \<le> self_run s + 1"
proof (cases "p ! 0 = RESP_SELF_INFO")
  case True
  with assms receive_self_info [OF assms(1-3) True] show ?thesis by (simp add: tolerable_def)
next
  case False
  with assms show ?thesis
    by (auto simp: startup_receive_def startup_check_deadline_def tolerable_def)
qed

lemma run_stale:
  assumes "list_all (\<lambda>x. tolerable (fst x) \<and> snd x < startup_deadline s) xs" "\<not> startup_ready s" "\<not> awaiting_scope s"
    "self_run s + length xs < 5"
  shows "\<exists>s'. startup_run s xs = ([], Inr s') \<and> \<not> startup_ready s' \<and> \<not> awaiting_scope s'
    \<and> startup_deadline s' = startup_deadline s"
  using assms
proof (induction xs arbitrary: s)
  case (Cons x xs)
  obtain p now where x: "x = (p, now)" by fastforce
  from Cons.prems x receive_stale [of now s p] obtain s1 where
    s1: "startup_receive p now s = (Inr None, s1)" "\<not> startup_ready s1" "\<not> awaiting_scope s1"
      "startup_deadline s1 = startup_deadline s" "self_run s1 \<le> self_run s + 1"
    by auto
  from Cons.IH [of s1] Cons.prems s1 obtain s' where "startup_run s1 xs = ([], Inr s')" "\<not> startup_ready s'"
      "\<not> awaiting_scope s'" "startup_deadline s' = startup_deadline s" by auto
  with s1 x show ?case by simp
qed simp

lemma run_self_infos:
  assumes "list_all (\<lambda>x. snd x < startup_deadline s \<and> fst x ! 0 = RESP_SELF_INFO \<and> 58 \<le> length (fst x) \<and> take 32 (drop 4 (fst x)) = key) xs"
    "\<not> startup_ready s" "\<not> awaiting_scope s" "xs \<noteq> []"
  shows "startup_run s xs = ([], Inr (s\<lparr>self_key := Some key, self_run := self_run s + length xs\<rparr>))"
  using assms
proof (induction xs arbitrary: s)
  case (Cons x xs)
  obtain p now where x: "x = (p, now)" by fastforce
  let ?s = "s\<lparr>self_key := Some key, self_run := self_run s + 1\<rparr>"
  have first: "startup_receive p now s = (Inr None, ?s)"
    using Cons.prems x receive_self_info [of now s p] by simp
  show ?case
  proof (cases "xs = []")
    case True
    with first x show ?thesis by simp
  next
    case False
    with Cons.IH [of ?s] Cons.prems first x show ?thesis by simp
  qed
qed simp

lemma run_device_scope:
  assumes "validate_device_info dev = Inr level" "\<not> startup_ready s" "\<not> awaiting_scope s" "5 \<le> self_run s"
    "t < startup_deadline s" "t' < startup_deadline s"
  shows "\<exists>s'. startup_run s [(dev, t), ([RESP_OK], t')] = ([[CMD_SET_FLOOD_SCOPE_KEY, 0]], Inr s')
      \<and> startup_ready s' \<and> self_key s' = self_key s \<and> device_info_record s' = Some dev
      \<and> upstream_protocol_level s' = Some level \<and> exposed_protocol_level s' = Some (min level MAX_EXPOSED_PROTOCOL_LEVEL)"
proof -
  have "dev \<noteq> []" "dev ! 0 = RESP_DEVICE_INFO" "82 \<le> length dev"
    using assms(1) by (auto simp: validate_device_info_def split: if_splits)
  with assms show ?thesis
    by (simp add: startup_receive_def startup_check_deadline_def downstream_device_info_def)
qed

lemma startup_run_crosses:
  assumes "list_all (\<lambda>x. tolerable (fst x)) stale" "length stale \<le> 4"
    and "validate_self_info info = Inr key" "validate_device_info dev = Inr level"
    and "list_all (\<lambda>x. snd x < t0 + timeout) (stale @ genuine)"
    and "map fst genuine = replicate 5 info @ [dev, [RESP_OK]]"
  shows "\<exists>s. startup_run (new_startup t0 timeout) (stale @ genuine) = ([[CMD_SET_FLOOD_SCOPE_KEY, 0]], Inr s)
    \<and> startup_ready s \<and> self_key s = Some key \<and> device_info_record s = Some dev
    \<and> upstream_protocol_level s = Some level \<and> exposed_protocol_level s = Some (min level MAX_EXPOSED_PROTOCOL_LEVEL)"
proof -
  let ?s0 = "new_startup t0 timeout"
  have "list_all (\<lambda>x. tolerable (fst x) \<and> snd x < startup_deadline ?s0) stale"
    using assms(1,5) by (auto simp: list_all_iff new_startup_def)
  then obtain s1 where s1: "startup_run ?s0 stale = ([], Inr s1)" "\<not> startup_ready s1" "\<not> awaiting_scope s1"
      "startup_deadline s1 = t0 + timeout"
    using run_stale [of ?s0 stale] assms(2) by (auto simp: new_startup_def)
  obtain selfs t6 t7 where g: "genuine = selfs @ [(dev, t6), ([RESP_OK], t7)]" "map fst selfs = replicate 5 info"
    using assms(6) by (auto simp: map_eq_append_conv Cons_eq_map_conv)
  have info: "58 \<le> length info" "info ! 0 = RESP_SELF_INFO" "take 32 (drop 4 info) = key"
    using assms(3) by (auto simp: validate_self_info_def split: if_splits)
  have "fst x = info" if "x \<in> set selfs" for x
    using that g(2) by (metis in_set_replicate image_eqI set_map)
  then have "list_all (\<lambda>x. snd x < startup_deadline s1 \<and> fst x ! 0 = RESP_SELF_INFO \<and> 58 \<le> length (fst x) \<and> take 32 (drop 4 (fst x)) = key) selfs"
    using assms(5) g(1) s1(4) info by (auto simp: list_all_iff)
  moreover have len: "length selfs = 5" using g(2) by (metis length_map length_replicate)
  ultimately have selfs: "startup_run s1 selfs = ([], Inr (s1\<lparr>self_key := Some key, self_run := self_run s1 + 5\<rparr>))"
    using run_self_infos [of s1 key selfs] s1 by fastforce
  let ?s2 = "s1\<lparr>self_key := Some key, self_run := self_run s1 + 5\<rparr>"
  have t: "t6 < t0 + timeout" "t7 < t0 + timeout" using assms(5) g(1) by auto
  obtain s where "startup_run ?s2 [(dev, t6), ([RESP_OK], t7)] = ([[CMD_SET_FLOOD_SCOPE_KEY, 0]], Inr s)
      \<and> startup_ready s \<and> self_key s = Some key \<and> device_info_record s = Some dev
      \<and> upstream_protocol_level s = Some level \<and> exposed_protocol_level s = Some (min level MAX_EXPOSED_PROTOCOL_LEVEL)"
    using run_device_scope [of dev level ?s2 t6 t7] assms(4) s1 t by auto
  with s1(1) selfs g(1) show ?thesis by (auto simp: startup_run_append)
qed

section \<open>Properties\<close>

text \<open>Startup crosses stale output: whatever ordinary frames a previous connection left in the
  companion's queue, up to four of them, five genuine \<open>SELF_INFO\<close> replies, a \<open>DEVICE_INFO\<close> reply and the
  acknowledged scope reset bring the mux to readiness with the genuine identity, the genuine device
  record and exactly one scope-reset command. Stale frames may be anything but a malformed
  \<open>SELF_INFO\<close>, which aborts the attempt.\<close>

theorem startup_crosses_stale:
  assumes "list_all (\<lambda>x. tolerable (fst x)) stale" "length stale \<le> 4"
    and "validate_self_info info = Inr key" "validate_device_info dev = Inr level"
    and "list_all (\<lambda>x. snd x < t0 + timeout) (stale @ genuine)"
    and "map fst genuine = replicate 5 info @ [dev, [RESP_OK]]"
  shows "\<exists>s. startup_run (new_startup t0 timeout) (stale @ genuine) = ([[CMD_SET_FLOOD_SCOPE_KEY, 0]], Inr s)
    \<and> startup_ready s \<and> self_key s = Some key \<and> device_info_record s = Some dev
    \<and> upstream_protocol_level s = Some level \<and> exposed_protocol_level s = Some (min level MAX_EXPOSED_PROTOCOL_LEVEL)"
  by (rule startup_run_crosses [OF assms])

definition startup_example_info :: bytes where
  "startup_example_info = RESP_SELF_INFO # replicate 57 1"

definition startup_example_device :: bytes where
  "startup_example_device = RESP_DEVICE_INFO # 15 # replicate 80 0"

theorem startup_crosses_stale_witness:
  "\<exists>s. startup_run (new_startup 0 100) (map (\<lambda>p. (p, 5)) ([[RESP_OK], startup_example_device, [RESP_ERR, 1], [RESP_CURRENT_TIME]]
       @ replicate 5 startup_example_info @ [startup_example_device, [RESP_OK]])) = ([[CMD_SET_FLOOD_SCOPE_KEY, 0]], Inr s)
     \<and> exposed_protocol_level s = Some 14"
proof -
  let ?stale = "map (\<lambda>p. (p, 5 :: span)) [[RESP_OK], startup_example_device, [RESP_ERR, 1], [RESP_CURRENT_TIME]]"
  let ?genuine = "map (\<lambda>p. (p, 5 :: span)) (replicate 5 startup_example_info @ [startup_example_device, [RESP_OK]])"
  have info: "validate_self_info startup_example_info = Inr (replicate 32 1)"
    by (simp add: validate_self_info_def startup_example_info_def drop_Cons')
  have dev: "validate_device_info startup_example_device = Inr 15"
    by (simp add: validate_device_info_def startup_example_device_def)
  have "\<exists>s. startup_run (new_startup 0 100) (?stale @ ?genuine) = ([[CMD_SET_FLOOD_SCOPE_KEY, 0]], Inr s)
    \<and> startup_ready s \<and> self_key s = Some (replicate 32 1) \<and> device_info_record s = Some startup_example_device
    \<and> upstream_protocol_level s = Some 15 \<and> exposed_protocol_level s = Some (min 15 MAX_EXPOSED_PROTOCOL_LEVEL)"
    by (rule startup_crosses_stale [OF _ _ info dev])
      (simp_all add: tolerable_def startup_example_device_def o_def list_all_iff)
  moreover have "?stale @ ?genuine = map (\<lambda>p. (p, 5)) ([[RESP_OK], startup_example_device, [RESP_ERR, 1], [RESP_CURRENT_TIME]]
       @ replicate 5 startup_example_info @ [startup_example_device, [RESP_OK]])" by simp
  moreover have "min 15 MAX_EXPOSED_PROTOCOL_LEVEL = 14" by simp
  ultimately show ?thesis by metis
qed

section \<open>What readiness proves\<close>

abbreviation ordinary :: "(bytes \<times> span) list \<Rightarrow> bytes list" where
  "ordinary xs \<equiv> filter (\<lambda>p. p ! 0 < PUSH_ADVERT) (map fst xs)"

definition genuine_self :: "bytes \<Rightarrow> bool" where
  "genuine_self p \<longleftrightarrow> p ! 0 = RESP_SELF_INFO \<and> 58 \<le> length p"

text \<open>The ordinary frames so far and the commands issued, in each phase.\<close>

definition fence_inv :: "bytes list \<Rightarrow> bytes list \<Rightarrow> startup \<Rightarrow> bool" where
  "fence_inv frames outs s \<longleftrightarrow> (\<exists>pre selfs. list_all genuine_self selfs
     \<and> (selfs \<noteq> [] \<longrightarrow> self_key s = Some (take 32 (drop 4 (last selfs))))
     \<and> (if \<not> awaiting_scope s then \<not> startup_ready s \<and> frames = pre @ selfs \<and> length selfs = self_run s \<and> outs = []
        else outs = [[CMD_SET_FLOOD_SCOPE_KEY, 0]] \<and> 5 \<le> length selfs
          \<and> (\<exists>dev level. device_info_record s = Some dev \<and> validate_device_info dev = Inr level
               \<and> frames = pre @ selfs @ dev # (if startup_ready s then [[RESP_OK]] else []))))"

lemma fence_inv_step:
  assumes "fence_inv frames outs s" "startup_receive p now s = (Inr out, s')"
  shows "fence_inv (frames @ (if p ! 0 < PUSH_ADVERT then [p] else [])) (outs @ (case out of None \<Rightarrow> [] | Some c \<Rightarrow> [c])) s'"
proof -
  have no_timeout: "startup_check_deadline now s = Inr ()" and ne: "p \<noteq> []"
    using assms(2) by (auto simp: startup_receive_def split: sum.splits if_splits)
  show ?thesis
  proof (cases "PUSH_ADVERT \<le> p ! 0")
    case True
    with assms no_timeout ne show ?thesis by (auto simp: startup_receive_def)
  next
    case push: False
    have nready: "\<not> startup_ready s" using assms(2) no_timeout ne push by (auto simp: startup_receive_def)
    obtain pre selfs where inv: "list_all genuine_self selfs"
        "selfs \<noteq> [] \<longrightarrow> self_key s = Some (take 32 (drop 4 (last selfs)))"
        "if \<not> awaiting_scope s then \<not> startup_ready s \<and> frames = pre @ selfs \<and> length selfs = self_run s \<and> outs = []
         else outs = [[CMD_SET_FLOOD_SCOPE_KEY, 0]] \<and> 5 \<le> length selfs
          \<and> (\<exists>dev level. device_info_record s = Some dev \<and> validate_device_info dev = Inr level
               \<and> frames = pre @ selfs @ dev # (if startup_ready s then [[RESP_OK]] else []))"
      using assms(1) unfolding fence_inv_def by auto
    consider (scope) "awaiting_scope s" | (self) "\<not> awaiting_scope s" "p ! 0 = RESP_SELF_INFO"
      | (dev) "\<not> awaiting_scope s" "p ! 0 = RESP_DEVICE_INFO" "5 \<le> self_run s"
      | (other) "\<not> awaiting_scope s" "p ! 0 \<noteq> RESP_SELF_INFO" "\<not> (p ! 0 = RESP_DEVICE_INFO \<and> 5 \<le> self_run s)"
      by blast
    then show ?thesis
    proof cases
      case scope
      with assms(2) no_timeout ne push nready have "p = [RESP_OK]" "out = None" "s' = s\<lparr>startup_ready := True\<rparr>"
        by (auto simp: startup_receive_def split: if_splits)
      with inv scope nready push show ?thesis unfolding fence_inv_def by (intro exI [of _ pre] exI [of _ selfs]) auto
    next
      case self
      then have "58 \<le> length p" "out = None" "s' = s\<lparr>self_key := Some (take 32 (drop 4 p)), self_run := self_run s + 1\<rparr>"
        using assms(2) no_timeout ne push nready
        by (auto simp: startup_receive_def validate_self_info_def split: if_splits)
      with self inv push show ?thesis unfolding fence_inv_def
        by (intro exI [of _ pre] exI [of _ "selfs @ [p]"]) (auto simp: genuine_self_def)
    next
      case dev
      then obtain level info where d: "validate_device_info p = Inr level" "out = Some [CMD_SET_FLOOD_SCOPE_KEY, 0]"
          "s' = s\<lparr>upstream_protocol_level := Some level, downstream_info := Some info,
                 exposed_protocol_level := Some (info ! 1), device_info_record := Some p, awaiting_scope := True\<rparr>"
        using assms(2) no_timeout ne push nready by (auto simp: startup_receive_def split: if_splits sum.splits)
      with dev inv push nready show ?thesis unfolding fence_inv_def
        by (intro exI [of _ pre] exI [of _ selfs]) auto
    next
      case other
      then have "out = None" "s' = s\<lparr>self_run := 0, self_key := None\<rparr>"
        using assms(2) no_timeout ne push nready by (auto simp: startup_receive_def split: if_splits)
      with other inv push show ?thesis unfolding fence_inv_def
        by (intro exI [of _ "frames @ [p]"] exI [of _ "[]"]) auto
    qed
  qed
qed

lemma fence_inv_run:
  "startup_run (new_startup t0 timeout) xs = (outs, Inr s) \<Longrightarrow> fence_inv (ordinary xs) outs s"
proof (induction xs arbitrary: outs s rule: rev_induct)
  case Nil
  then show ?case by (auto simp: fence_inv_def new_startup_def intro: exI [of _ "[]"])
next
  case (snoc x xs)
  obtain p now where x: "x = (p, now)" by fastforce
  from snoc.prems obtain outs1 s1 where 1: "startup_run (new_startup t0 timeout) xs = (outs1, Inr s1)"
    by (auto simp: startup_run_append split: prod.splits sum.splits)
  with snoc.prems x obtain out where 2: "startup_receive p now s1 = (Inr out, s)"
      "outs = outs1 @ (case out of None \<Rightarrow> [] | Some c \<Rightarrow> [c])"
    by (auto simp: startup_run_append split: prod.splits sum.splits option.splits)
  from fence_inv_step [OF snoc.IH [OF 1] 2(1)] 2(2) x show ?case by (simp split: if_splits)
qed

text \<open>C17. Readiness is evidence: whenever a startup conversation ends ready, the ordinary replies received
  end in at least five consecutive well-formed \<open>SELF_INFO\<close> frames, a valid \<open>DEVICE_INFO\<close> frame and the
  acknowledgement of the scope reset, nothing but the one scope reset was sent, and the recorded
  identity is that of the last \<open>SELF_INFO\<close>. With at most four stale frames the identity is
  therefore a fresh one.\<close>

theorem startup_ready_means_fenced:
  assumes "startup_run (new_startup t0 timeout) xs = (outs, Inr s)" "startup_ready s"
  shows "outs = [[CMD_SET_FLOOD_SCOPE_KEY, 0]] \<and> (\<exists>pre selfs dev level.
    filter (\<lambda>p. p ! 0 < PUSH_ADVERT) (map fst xs) = pre @ selfs @ [dev, [RESP_OK]]
    \<and> 5 \<le> length selfs \<and> list_all (\<lambda>p. p ! 0 = RESP_SELF_INFO \<and> 58 \<le> length p) selfs
    \<and> validate_device_info dev = Inr level \<and> device_info_record s = Some dev
    \<and> self_key s = Some (take 32 (drop 4 (last selfs))))"
proof -
  from fence_inv_run [OF assms(1)] obtain pre selfs where inv: "list_all genuine_self selfs"
        "selfs \<noteq> [] \<longrightarrow> self_key s = Some (take 32 (drop 4 (last selfs)))"
        "if \<not> awaiting_scope s then \<not> startup_ready s \<and> ordinary xs = pre @ selfs \<and> length selfs = self_run s \<and> outs = []
         else outs = [[CMD_SET_FLOOD_SCOPE_KEY, 0]] \<and> 5 \<le> length selfs
          \<and> (\<exists>dev level. device_info_record s = Some dev \<and> validate_device_info dev = Inr level
               \<and> ordinary xs = pre @ selfs @ dev # (if startup_ready s then [[RESP_OK]] else []))"
    unfolding fence_inv_def by auto
  with assms(2) have "awaiting_scope s" by (auto split: if_splits)
  with inv assms(2) obtain dev level where o: "outs = [[CMD_SET_FLOOD_SCOPE_KEY, 0]]" "5 \<le> length selfs"
      "device_info_record s = Some dev" "validate_device_info dev = Inr level"
      "ordinary xs = pre @ selfs @ [dev, [RESP_OK]]" by auto
  moreover from o(2) inv(2) have "self_key s = Some (take 32 (drop 4 (last selfs)))" by auto
  ultimately show ?thesis using inv(1) unfolding genuine_self_def by blast
qed

lemma startup_example_run:
  "\<exists>s. startup_run (new_startup 0 100) (map (\<lambda>p. (p, 5)) (replicate 5 startup_example_info @ [startup_example_device, [RESP_OK]]))
     = ([[CMD_SET_FLOOD_SCOPE_KEY, 0]], Inr s) \<and> startup_ready s"
proof -
  let ?selfs = "map (\<lambda>p. (p, 5 :: span)) (replicate 5 startup_example_info)"
  let ?s = "(new_startup 0 100)\<lparr>self_key := Some (replicate 32 1), self_run := 5\<rparr>"
  have "startup_run (new_startup 0 100) ?selfs = ([], Inr ?s)"
    using run_self_infos [of "new_startup 0 100" "replicate 32 1" ?selfs]
    by (simp add: new_startup_def startup_example_info_def drop_Cons' list_all_iff)
  moreover have "validate_device_info startup_example_device = Inr 15"
    by (simp add: validate_device_info_def startup_example_device_def)
  then obtain s where "startup_run ?s [(startup_example_device, 5), ([RESP_OK], 5)] = ([[CMD_SET_FLOOD_SCOPE_KEY, 0]], Inr s)" "startup_ready s"
    using run_device_scope [of startup_example_device 15 ?s 5 5] by (auto simp: new_startup_def)
  ultimately have "startup_run (new_startup 0 100) (?selfs @ [(startup_example_device, 5), ([RESP_OK], 5)])
      = ([[CMD_SET_FLOOD_SCOPE_KEY, 0]], Inr s)" "startup_ready s"
    by (simp_all add: startup_run_append del: startup_run.simps)
  moreover have "?selfs @ [(startup_example_device, 5), ([RESP_OK], 5)]
      = map (\<lambda>p. (p, 5)) (replicate 5 startup_example_info @ [startup_example_device, [RESP_OK]])" by simp
  ultimately show ?thesis by metis
qed

theorem startup_ready_means_fenced_witness:
  "\<exists>s. startup_run (new_startup 0 100) (map (\<lambda>p. (p, 5)) (replicate 5 startup_example_info @ [startup_example_device, [RESP_OK]]))
     = ([[CMD_SET_FLOOD_SCOPE_KEY, 0]], Inr s) \<and> device_info_record s \<noteq> None"
proof -
  obtain s where s: "startup_run (new_startup 0 100) (map (\<lambda>p. (p, 5)) (replicate 5 startup_example_info @ [startup_example_device, [RESP_OK]]))
     = ([[CMD_SET_FLOOD_SCOPE_KEY, 0]], Inr s)" "startup_ready s"
    using startup_example_run by blast
  from startup_ready_means_fenced [OF s] s show ?thesis by auto
qed

end
