(* ===== verification/Inbox_Store.thy ===== *)
theory Inbox_Store
  imports Protocol "HOL-Library.Sublist"
begin

text \<open>
  The volatile stores of received messages: the offline queue of a dedicated client slot
  (\<open>src/meshcore_tcp_mux/dedicated_client_slot.cr\<close>) and the bounded history of message identities
  (\<open>src/meshcore_tcp_mux/received_message_deduplicator.cr\<close>).

  A \<open>Deque\<close> is a list, oldest first. The counters of a slot are diagnostics; they are natural
  numbers here (the source has 64-bit ones).
\<close>

section \<open>Dedicated client slot\<close>

datatype enqueue_result = Added | ChannelEvicted | NewMessageDiscarded

record dedicated_slot =
  dedicated_slot_id :: int
  slot_listen_port :: int
  slot_queue :: "bytes list"
  slot_session :: "int option"
  slot_enqueued :: nat
  slot_delivered :: nat
  channel_evictions :: nat
  new_message_discards :: nat
  high_water :: nat

definition new_slot :: "int \<Rightarrow> int \<Rightarrow> dedicated_slot" where
  "new_slot i port = \<lparr>dedicated_slot_id = i, slot_listen_port = port, slot_queue = [], slot_session = None,
     slot_enqueued = 0, slot_delivered = 0, channel_evictions = 0, new_message_discards = 0, high_water = 0\<rparr>"

definition channel_message_class :: "bytes \<Rightarrow> bool" where
  "channel_message_class p \<longleftrightarrow> p \<noteq> [] \<and> p ! 0 \<in> {0x08, 0x11, 0x1b}"

fun delete_first :: "('a \<Rightarrow> bool) \<Rightarrow> 'a list \<Rightarrow> 'a list option" where
  "delete_first P [] = None"
| "delete_first P (x # xs) = (if P x then Some xs else map_option ((#) x) (delete_first P xs))"

definition push_offline :: "bytes \<Rightarrow> dedicated_slot \<Rightarrow> dedicated_slot" where
  "push_offline p s = s\<lparr>slot_queue := slot_queue s @ [p], slot_enqueued := slot_enqueued s + 1,
     high_water := max (high_water s) (length (slot_queue s) + 1)\<rparr>"

definition enqueue_offline :: "bytes \<Rightarrow> nat \<Rightarrow> dedicated_slot \<Rightarrow> enqueue_result \<times> dedicated_slot" where
  "enqueue_offline p limit s =
     (if limit \<le> length (slot_queue s) then
        (case delete_first channel_message_class (slot_queue s) of
           None \<Rightarrow> (NewMessageDiscarded, s\<lparr>new_message_discards := new_message_discards s + 1\<rparr>)
         | Some rest \<Rightarrow> (ChannelEvicted,
             push_offline p (s\<lparr>slot_queue := rest, channel_evictions := channel_evictions s + 1\<rparr>)))
      else (Added, push_offline p s))"

definition record_delivery :: "dedicated_slot \<Rightarrow> dedicated_slot" where
  "record_delivery s = s\<lparr>slot_delivered := slot_delivered s + 1\<rparr>"

definition slot_clear :: "dedicated_slot \<Rightarrow> nat \<times> dedicated_slot" where
  "slot_clear s = (length (slot_queue s), s\<lparr>slot_queue := [], slot_session := None\<rparr>)"

definition enqueue_all :: "bytes list \<Rightarrow> nat \<Rightarrow> dedicated_slot \<Rightarrow> dedicated_slot" where
  "enqueue_all ps limit s = fold (\<lambda>p s. snd (enqueue_offline p limit s)) ps s"

section \<open>Received-message history\<close>

abbreviation DEDUP_CAPACITY :: nat where "DEDUP_CAPACITY \<equiv> 1024"

record dedup =
  seen :: "string set"
  order :: "string list"

definition new_dedup :: dedup where
  "new_dedup = \<lparr>seen = {}, order = []\<rparr>"

definition is_duplicate :: "bytes \<Rightarrow> dedup \<Rightarrow> bool \<times> dedup" where
  "is_duplicate payload d = (case received_text_message_identity payload of
       None \<Rightarrow> (False, d)
     | Some identity \<Rightarrow>
         if identity \<in> seen d then (True, d)
         else
           let d1 = (if DEDUP_CAPACITY \<le> length (order d)
                     then d\<lparr>seen := seen d - {hd (order d)}, order := tl (order d)\<rparr> else d)
           in (False, d1\<lparr>order := order d1 @ [identity], seen := insert identity (seen d1)\<rparr>))"

fun dedup_flags :: "dedup \<Rightarrow> bytes list \<Rightarrow> bool list" where
  "dedup_flags d [] = []"
| "dedup_flags d (p # ps) = (case is_duplicate p d of (b, d') \<Rightarrow> b # dedup_flags d' ps)"

fun dedup_after :: "dedup \<Rightarrow> bytes list \<Rightarrow> dedup" where
  "dedup_after d [] = d"
| "dedup_after d (p # ps) = dedup_after (snd (is_duplicate p d)) ps"

section \<open>Lemmas on the queue\<close>

lemma delete_first_None: "delete_first P xs = None \<longleftrightarrow> (\<forall>x \<in> set xs. \<not> P x)"
  by (induction xs) auto

lemma delete_first_Some:
  "delete_first P xs = Some ys \<Longrightarrow> \<exists>us x vs. xs = us @ x # vs \<and> P x \<and> (\<forall>u \<in> set us. \<not> P u) \<and> ys = us @ vs"
proof (induction xs arbitrary: ys)
  case (Cons x xs)
  show ?case
  proof (cases "P x")
    case True
    with Cons.prems show ?thesis by (intro exI [of _ "[]"]) auto
  next
    case False
    with Cons.prems obtain zs where zs: "delete_first P xs = Some zs" "ys = x # zs" by auto
    from Cons.IH [OF zs(1)] obtain us y vs where
      "xs = us @ y # vs" "P y" "\<forall>u \<in> set us. \<not> P u" "zs = us @ vs" by blast
    with False zs(2) show ?thesis by (intro exI [of _ "x # us"] exI [of _ y] exI [of _ vs]) simp
  qed
qed simp

lemma delete_first_filter: "delete_first P xs = Some ys \<Longrightarrow> filter (\<lambda>x. \<not> P x) ys = filter (\<lambda>x. \<not> P x) xs"
  by (drule delete_first_Some) auto

lemma delete_first_length: "delete_first P xs = Some ys \<Longrightarrow> length xs = Suc (length ys)"
  by (drule delete_first_Some) auto

lemma delete_first_subseq: "delete_first P xs = Some ys \<Longrightarrow> subseq ys xs"
  by (drule delete_first_Some) (auto intro: list_emb_append_mono)

abbreviation direct_frames :: "bytes list \<Rightarrow> bytes list" where
  "direct_frames \<equiv> filter (\<lambda>p. \<not> channel_message_class p)"

lemma enqueue_queue:
  "slot_queue (snd (enqueue_offline p limit s)) =
     (if limit \<le> length (slot_queue s) then
        (case delete_first channel_message_class (slot_queue s) of None \<Rightarrow> slot_queue s | Some rest \<Rightarrow> rest @ [p])
      else slot_queue s @ [p])"
  by (simp add: enqueue_offline_def push_offline_def split: option.splits)

lemma enqueue_bound:
  "length (slot_queue s) \<le> limit \<Longrightarrow> length (slot_queue (snd (enqueue_offline p limit s))) \<le> limit"
  by (auto simp: enqueue_queue dest: delete_first_length split: option.splits)

lemma enqueue_all_Cons: "enqueue_all (p # ps) limit s = enqueue_all ps limit (snd (enqueue_offline p limit s))"
  by (simp add: enqueue_all_def)

lemma enqueue_direct:
  assumes "length (slot_queue s) \<le> limit"
  shows "direct_frames (slot_queue (snd (enqueue_offline p limit s))) = take limit (direct_frames (slot_queue s @ [p]))"
proof -
  have le: "length (direct_frames (slot_queue s)) \<le> limit" using assms length_filter_le le_trans by blast
  show ?thesis
  proof (cases "limit \<le> length (slot_queue s)")
    case False
    then have "length (direct_frames (slot_queue s)) < limit"
      by (meson le_less_trans length_filter_le not_le)
    then have "length (direct_frames (slot_queue s @ [p])) \<le> limit" by simp
    with False show ?thesis by (simp add: enqueue_queue)
  next
    case full: True
    show ?thesis
    proof (cases "delete_first channel_message_class (slot_queue s)")
      case None
      then have "direct_frames (slot_queue s) = slot_queue s" by (simp add: delete_first_None filter_id_conv)
      with None full le assms show ?thesis by (simp add: enqueue_queue)
    next
      case (Some rest)
      have "length (direct_frames (slot_queue s)) = length (direct_frames rest)"
        using delete_first_filter [OF Some] by simp
      also have "\<dots> \<le> length rest" by (rule length_filter_le)
      finally have "Suc (length (direct_frames (slot_queue s))) \<le> limit"
        using delete_first_length [OF Some] assms by simp
      with Some full delete_first_filter [OF Some] show ?thesis by (simp add: enqueue_queue)
    qed
  qed
qed

lemma enqueue_subseq: "subseq (slot_queue (snd (enqueue_offline p limit s))) (slot_queue s @ [p])"
  by (auto simp: enqueue_queue subseq_append_iff dest: delete_first_subseq split: option.splits)

lemma take_take_append: "take n (take n xs @ ys) = take n (xs @ ys)"
  by (cases "length xs \<le> n") auto

lemma enqueue_all_spec:
  assumes "length (slot_queue s) \<le> limit"
  shows "length (slot_queue (enqueue_all ps limit s)) \<le> limit
    \<and> direct_frames (slot_queue (enqueue_all ps limit s)) = take limit (direct_frames (slot_queue s @ ps))
    \<and> subseq (slot_queue (enqueue_all ps limit s)) (slot_queue s @ ps)"
  using assms
proof (induction ps arbitrary: s)
  case Nil
  have "length (direct_frames (slot_queue s)) \<le> limit" using Nil length_filter_le le_trans by blast
  with Nil show ?case by (simp add: enqueue_all_def)
next
  case (Cons p ps)
  let ?s = "snd (enqueue_offline p limit s)"
  note IH = Cons.IH [OF enqueue_bound [OF Cons.prems, of p]]
  have "take limit (direct_frames (slot_queue ?s @ ps)) = take limit (direct_frames (slot_queue s @ p # ps))"
  proof -
    have "direct_frames (slot_queue s @ p # ps) = direct_frames (slot_queue s @ [p]) @ direct_frames ps" by simp
    then show ?thesis
      unfolding filter_append [of _ "slot_queue ?s"] enqueue_direct [OF Cons.prems] by (simp only: take_take_append)
  qed
  moreover have "subseq (slot_queue ?s @ ps) ((slot_queue s @ [p]) @ ps)"
    by (intro list_emb_append_mono enqueue_subseq) simp
  ultimately show ?case using IH unfolding enqueue_all_Cons
    by (auto intro: subseq_order.trans)
qed

section \<open>Lemmas on the history\<close>

definition dedup_ok :: "dedup \<Rightarrow> bool" where
  "dedup_ok d \<longleftrightarrow> seen d = set (order d) \<and> distinct (order d) \<and> length (order d) \<le> DEDUP_CAPACITY"

lemma dedup_ok_new: "dedup_ok new_dedup"
  by (simp add: dedup_ok_def new_dedup_def)

lemma is_duplicate_ok: "dedup_ok d \<Longrightarrow> dedup_ok (snd (is_duplicate p d))"
  by (cases "order d")
    (auto simp: dedup_ok_def is_duplicate_def Let_def split: option.splits)

lemma is_duplicate_flag:
  "fst (is_duplicate p d) \<longleftrightarrow> (\<exists>i. received_text_message_identity p = Some i \<and> i \<in> seen d)"
  by (auto simp: is_duplicate_def Let_def split: option.splits)

lemma is_duplicate_seen:
  "seen (snd (is_duplicate p d)) \<subseteq> seen d \<union> set_option (received_text_message_identity p)"
  by (auto simp: is_duplicate_def Let_def split: option.splits)

text \<open>While there is room nothing is forgotten.\<close>

lemma is_duplicate_room:
  assumes "dedup_ok d" "finite A" "seen d \<union> set_option (received_text_message_identity p) \<subseteq> A" "card A \<le> DEDUP_CAPACITY"
  shows "seen (snd (is_duplicate p d)) = seen d \<union> set_option (received_text_message_identity p)"
proof (cases "received_text_message_identity p")
  case None
  then show ?thesis by (simp add: is_duplicate_def)
next
  case (Some i)
  show ?thesis
  proof (cases "i \<in> seen d")
    case True
    with Some show ?thesis by (auto simp: is_duplicate_def)
  next
    case False
    have "card (insert i (seen d)) \<le> card A" using assms Some by (intro card_mono) auto
    moreover have "card (insert i (seen d)) = Suc (length (order d))"
      using False assms(1) by (simp add: dedup_ok_def distinct_card)
    ultimately have "\<not> DEDUP_CAPACITY \<le> length (order d)" using assms(4) by simp
    with Some False show ?thesis by (auto simp: is_duplicate_def Let_def)
  qed
qed

definition identities :: "bytes list \<Rightarrow> string set" where
  "identities ps = (\<Union>p \<in> set ps. set_option (received_text_message_identity p))"

lemma identities_simps [simp]:
  "identities [] = {}" "identities (p # ps) = set_option (received_text_message_identity p) \<union> identities ps"
  "identities (ps @ qs) = identities ps \<union> identities qs"
  by (auto simp: identities_def)

lemma finite_identities [simp]: "finite (identities ps)"
  by (simp add: identities_def)

lemma dedup_after_append: "dedup_after d (ps @ [p]) = snd (is_duplicate p (dedup_after d ps))"
  by (induction ps arbitrary: d) auto

lemma dedup_flags_nth: "i < length ps \<Longrightarrow> dedup_flags d ps ! i = fst (is_duplicate (ps ! i) (dedup_after d (take i ps)))"
  by (induction ps arbitrary: d i) (auto simp: nth_Cons take_Cons split: nat.splits prod.splits)

lemma length_dedup_flags [simp]: "length (dedup_flags d ps) = length ps"
  by (induction ps arbitrary: d) (auto split: prod.splits)

lemma dedup_after_ok: "dedup_ok d \<Longrightarrow> dedup_ok (dedup_after d ps)"
  by (induction ps arbitrary: d) (auto intro: is_duplicate_ok)

lemma dedup_after_seen_subset: "seen (dedup_after d ps) \<subseteq> seen d \<union> identities ps"
proof (induction ps arbitrary: d)
  case (Cons p ps)
  have "seen (dedup_after (snd (is_duplicate p d)) ps) \<subseteq> seen (snd (is_duplicate p d)) \<union> identities ps"
    by (rule Cons.IH)
  with is_duplicate_seen [of p d] show ?case by auto
qed simp

lemma dedup_after_seen:
  assumes "dedup_ok d" "finite A" "seen d \<union> identities ps \<subseteq> A" "card A \<le> DEDUP_CAPACITY"
  shows "seen (dedup_after d ps) = seen d \<union> identities ps"
  using assms(1,3)
proof (induction ps arbitrary: d)
  case (Cons p ps)
  have "seen (snd (is_duplicate p d)) = seen d \<union> set_option (received_text_message_identity p)"
    using Cons.prems assms(2,4) by (intro is_duplicate_room [of d A]) auto
  with Cons.IH [OF is_duplicate_ok [OF Cons.prems(1), of p]] Cons.prems show ?case by auto
qed simp

lemma same_identity:
  "(\<exists>x. received_text_message_identity p = Some x \<and> received_text_message_identity q = Some x)
    \<longleftrightarrow> message_key p = message_key q \<and> message_key q \<noteq> None"
proof -
  have "(\<exists>x. received_text_message_identity p = Some x \<and> received_text_message_identity q = Some x)
      \<longleftrightarrow> received_text_message_identity p = received_text_message_identity q \<and> received_text_message_identity q \<noteq> None"
    by auto
  also have "\<dots> \<longleftrightarrow> message_key p = message_key q \<and> message_key q \<noteq> None"
    by (simp add: identity_eq_iff_key) (simp add: identity_render)
  finally show ?thesis .
qed

lemma identity_in_take:
  "x \<in> identities (take i ps) \<longleftrightarrow> (\<exists>j < i. j < length ps \<and> received_text_message_identity (ps ! j) = Some x)"
proof -
  have "set (take i ps) = {ps ! j |j. j < i \<and> j < length ps}" by (force simp: in_set_conv_nth)
  then show ?thesis by (auto simp: identities_def)
qed

section \<open>Properties\<close>

text \<open>C23. The offline queue of a dedicated client: after any arrivals on an empty slot the queue holds at
  most the limit, is a subsequence of the arrivals in their order, and contains exactly the first
  messages that are not channel traffic, up to the limit: direct messages are never evicted for
  later traffic, and one is refused only when the queue is full of direct messages.\<close>

theorem offline_queue_keeps_direct:
  "length (slot_queue (enqueue_all ps limit (new_slot i port))) \<le> limit
   \<and> subseq (slot_queue (enqueue_all ps limit (new_slot i port))) ps
   \<and> filter (\<lambda>p. \<not> channel_message_class p) (slot_queue (enqueue_all ps limit (new_slot i port)))
       = take limit (filter (\<lambda>p. \<not> channel_message_class p) ps)"
  using enqueue_all_spec [of "new_slot i port" limit ps] by (simp add: new_slot_def)

text \<open>What one arrival does to a queue within its limit: below the limit it is appended; at the limit
  it replaces the oldest channel-class frame; with no such frame it is discarded and the queue is
  unchanged. The reported result says which.\<close>

theorem enqueue_offline_cases:
  assumes "length (slot_queue s) \<le> limit" "enqueue_offline p limit s = (r, s')"
  shows "(r = Added \<and> length (slot_queue s) < limit \<and> slot_queue s' = slot_queue s @ [p])
    \<or> (r = ChannelEvicted \<and> length (slot_queue s) = limit
         \<and> (\<exists>us c vs. slot_queue s = us @ c # vs \<and> channel_message_class c
              \<and> (\<forall>u \<in> set us. \<not> channel_message_class u) \<and> slot_queue s' = us @ vs @ [p]))
    \<or> (r = NewMessageDiscarded \<and> length (slot_queue s) = limit
         \<and> (\<forall>q \<in> set (slot_queue s). \<not> channel_message_class q) \<and> slot_queue s' = slot_queue s)"
proof (cases "limit \<le> length (slot_queue s)")
  case False
  with assms(2) show ?thesis by (auto simp: enqueue_offline_def push_offline_def)
next
  case full: True
  show ?thesis
  proof (cases "delete_first channel_message_class (slot_queue s)")
    case None
    with full assms show ?thesis by (auto simp: enqueue_offline_def delete_first_None)
  next
    case (Some rest)
    from delete_first_Some [OF Some] obtain us c vs where
      "slot_queue s = us @ c # vs" "channel_message_class c" "\<forall>u \<in> set us. \<not> channel_message_class u" "rest = us @ vs"
      by blast
    moreover have "r = ChannelEvicted" "slot_queue s' = rest @ [p]"
      using full assms(2) Some by (auto simp: enqueue_offline_def push_offline_def)
    ultimately show ?thesis using full assms(1) by fastforce
  qed
qed

theorem enqueue_offline_cases_witness:
  "fst (enqueue_offline [7] 1 (push_offline [8, 1] (new_slot 1 5002))) \<noteq> Added"
proof -
  let ?s = "push_offline [8, 1] (new_slot 1 5002)"
  have "length (slot_queue ?s) \<le> 1" by (simp add: push_offline_def new_slot_def)
  from enqueue_offline_cases [OF this, of "[7]" "fst (enqueue_offline [7] 1 ?s)" "snd (enqueue_offline [7] 1 ?s)"]
  show ?thesis by (auto simp: push_offline_def new_slot_def)
qed

text \<open>The history is sound: a message is dropped as a duplicate only if an earlier arrival was a text
  message with the same sender or channel, type, timestamp and body.\<close>

theorem duplicate_has_original:
  assumes "i < length ps" "dedup_flags new_dedup ps ! i"
  shows "\<exists>j < i. message_key (ps ! j) = message_key (ps ! i) \<and> message_key (ps ! i) \<noteq> None"
proof -
  from assms obtain x where x: "received_text_message_identity (ps ! i) = Some x" "x \<in> seen (dedup_after new_dedup (take i ps))"
    by (auto simp: dedup_flags_nth is_duplicate_flag)
  with dedup_after_seen_subset [of new_dedup "take i ps"] have "x \<in> identities (take i ps)"
    by (auto simp: new_dedup_def)
  then obtain j where "j < i" "received_text_message_identity (ps ! j) = Some x"
    by (auto simp: identity_in_take)
  with x(1) identity_eq_iff_key [of "ps ! j" "ps ! i"] show ?thesis by (auto simp: identity_render)
qed

definition duplicate_example :: "bytes list" where
  "duplicate_example = [[8, 1, 0, 0, 5, 0, 0, 0, 65], [17, 9, 0, 0, 1, 0, 0, 5, 0, 0, 0, 65]]"

theorem duplicate_has_original_witness:
  "\<exists>j < 1. message_key (duplicate_example ! j) = message_key (duplicate_example ! 1)"
proof -
  have "message_key (duplicate_example ! 0) = message_key (duplicate_example ! 1)"
    by (simp add: duplicate_example_def message_key_def u32_at_def)
  then have "received_text_message_identity (duplicate_example ! 0) = received_text_message_identity (duplicate_example ! 1)"
    by (simp add: identity_eq_iff_key)
  moreover have "\<exists>x. received_text_message_identity (duplicate_example ! 1) = Some x"
    by (simp add: duplicate_example_def received_text_message_identity_def received_channel_message_identity_def)
  ultimately have "dedup_flags new_dedup duplicate_example ! 1"
    by (auto simp: duplicate_example_def is_duplicate_def new_dedup_def Let_def)
  then show ?thesis using duplicate_has_original [of 1 duplicate_example] by (auto simp: duplicate_example_def)
qed

text \<open>C26. The history is complete up to its capacity: as long as at most 1,024 different identities have
  occurred, a text message is dropped exactly when the same message occurred before.\<close>

theorem duplicates_exact_within_capacity:
  assumes "card (identities ps) \<le> DEDUP_CAPACITY" "i < length ps"
  shows "dedup_flags new_dedup ps ! i \<longleftrightarrow>
    (\<exists>j < i. message_key (ps ! j) = message_key (ps ! i)) \<and> message_key (ps ! i) \<noteq> None"
proof -
  have "identities (take i ps) \<subseteq> identities ps"
    by (metis append_take_drop_id identities_simps(3) Un_upper1)
  then have "seen (dedup_after new_dedup (take i ps)) = identities (take i ps)"
    using dedup_after_seen [OF dedup_ok_new, of "identities ps" "take i ps"] assms(1)
    by (simp add: new_dedup_def)
  then have "dedup_flags new_dedup ps ! i \<longleftrightarrow>
      (\<exists>x j. received_text_message_identity (ps ! i) = Some x \<and> j < i \<and> received_text_message_identity (ps ! j) = Some x)"
    using assms(2) by (auto simp: dedup_flags_nth is_duplicate_flag identity_in_take)
  also have "\<dots> \<longleftrightarrow> (\<exists>j < i. message_key (ps ! j) = message_key (ps ! i)) \<and> message_key (ps ! i) \<noteq> None"
    using same_identity [of _ "ps ! i"] by blast
  finally show ?thesis .
qed

theorem duplicates_exact_within_capacity_witness:
  "\<not> dedup_flags new_dedup [[10]] ! 0"
  using duplicates_exact_within_capacity [of "[[10]]" 0]
  by (simp add: received_text_message_identity_def message_key_def)

end
