(* ===== verification/Leases.thy ===== *)
theory Leases
  imports Protocol
begin

text \<open>
  The companion's shared resources (\<open>src/meshcore_tcp_mux/leases.cr\<close>): the acknowledgement ring of
  plain direct messages, the lease of the one remote request, the quarantine after an unknown
  acceptance, and the lease of the one incremental signing operation.

  Each class is a record of its instance variables and each method a function that returns its
  value or exception and the object afterwards. A session number is an \<open>Int64\<close>, here an integer.
  Byte counts and limits of the signing lease are \<open>UInt64\<close> values far below overflow; the one
  subtraction that could underflow is checked as Crystal checks it.
\<close>

section \<open>Wire fields and time\<close>

definition lease_read_u32 :: "bytes \<Rightarrow> nat \<Rightarrow> mux_error + u32" where
  "lease_read_u32 payload offset =
     (if length payload < offset + 4 then Inl (ArgumentError ''payload too short'')
      else Inr (u32_at payload offset))"

definition require_payload :: "bytes \<Rightarrow> byte \<Rightarrow> nat \<Rightarrow> mux_error + unit" where
  "require_payload payload opcode n =
     (if \<not> (length payload = n \<and> payload ! 0 = opcode) then Inl (ArgumentError ''unexpected payload'') else Inr ())"

definition require_command :: "bytes \<Rightarrow> byte \<Rightarrow> nat \<Rightarrow> mux_error + unit" where
  "require_command command opcode minimum_size =
     (if length command < minimum_size \<or> command ! 0 \<noteq> opcode then Inl (ArgumentError ''invalid command'') else Inr ())"

definition lease_deadline :: "span \<Rightarrow> u32 \<Rightarrow> span" where
  "lease_deadline now suggested_timeout_ms =
     (let retained_ms = int (unat suggested_timeout_ms) * 5 div 4 + 1000
      in now + milliseconds (max 5000 retained_ms))"

section \<open>DmRing\<close>

abbreviation RING_CAPACITY :: nat where "RING_CAPACITY \<equiv> 8"

record ring_entry =
  ring_token :: u32
  ring_deadline :: span
  ring_settled :: bool

record dm_ring =
  ring_slots :: "ring_entry option list"
  next_slot :: nat

definition new_ring :: dm_ring where
  "new_ring = \<lparr>ring_slots = replicate RING_CAPACITY None, next_slot = 0\<rparr>"

definition entry_free :: "span \<Rightarrow> ring_entry option \<Rightarrow> bool" where
  "entry_free now entry = (case entry of None \<Rightarrow> True | Some e \<Rightarrow> ring_settled e \<or> ring_deadline e \<le> now)"

definition ring_available :: "span \<Rightarrow> dm_ring \<Rightarrow> bool" where
  "ring_available now r = entry_free now (ring_slots r ! next_slot r)"

definition ring_accepted :: "bytes \<Rightarrow> span \<Rightarrow> dm_ring \<Rightarrow> (mux_error + unit) \<times> dm_ring" where
  "ring_accepted sent now r =
     (case require_payload sent RESP_SENT 10 of Inl e \<Rightarrow> (Inl e, r) | Inr _ \<Rightarrow>
      case lease_read_u32 sent 2 of Inl e \<Rightarrow> (Inl e, r) | Inr token \<Rightarrow>
      if token = 0 then (Inr (), r)
      else if \<not> ring_available now r then (Inl (InvalidStateError ''next DM acknowledgement slot is occupied''), r)
      else case lease_read_u32 sent 6 of Inl e \<Rightarrow> (Inl e, r) | Inr timeout_ms \<Rightarrow>
        (Inr (), r\<lparr>ring_slots := (ring_slots r)[next_slot r :=
             Some \<lparr>ring_token = token, ring_deadline = lease_deadline now timeout_ms, ring_settled = False\<rparr>],
           next_slot := (next_slot r + 1) mod RING_CAPACITY\<rparr>))"

definition settles :: "u32 \<Rightarrow> ring_entry option \<Rightarrow> bool" where
  "settles token entry = (case entry of None \<Rightarrow> False | Some e \<Rightarrow> \<not> ring_settled e \<and> ring_token e = token)"

definition ring_confirm :: "bytes \<Rightarrow> dm_ring \<Rightarrow> (mux_error + bool) \<times> dm_ring" where
  "ring_confirm push r =
     (case require_payload push PUSH_SEND_CONFIRMED 9 of Inl e \<Rightarrow> (Inl e, r) | Inr _ \<Rightarrow>
      case lease_read_u32 push 1 of Inl e \<Rightarrow> (Inl e, r) | Inr token \<Rightarrow>
      (Inr (list_ex (settles token) (ring_slots r)),
       r\<lparr>ring_slots := map (\<lambda>entry. if settles token entry then map_option (\<lambda>e. e\<lparr>ring_settled := True\<rparr>) entry else entry)
           (ring_slots r)\<rparr>))"

definition pending_count :: "span \<Rightarrow> dm_ring \<Rightarrow> nat" where
  "pending_count now r = length (filter (\<lambda>entry. case entry of None \<Rightarrow> False
     | Some e \<Rightarrow> \<not> ring_settled e \<and> now < ring_deadline e) (ring_slots r))"

section \<open>RemoteLease\<close>

datatype lease_kind = Login | Status | Trace | Telemetry | Binary | PathDiscovery | Anonymous

record remote_lease =
  rl_owner :: "int option"
  rl_kind :: "lease_kind option"
  rl_command :: "bytes option"
  rl_deadline :: "span option"
  rl_peer :: "bytes option"
  rl_tag :: "u32 option"
  rl_trace_auth :: "u32 option"
  rl_tentative :: bool

definition lease_clear :: remote_lease where
  "lease_clear = \<lparr>rl_owner = None, rl_kind = None, rl_command = None, rl_deadline = None, rl_peer = None,
     rl_tag = None, rl_trace_auth = None, rl_tentative = False\<rparr>"

definition lease_expire :: "span \<Rightarrow> remote_lease \<Rightarrow> remote_lease" where
  "lease_expire now l = (case rl_deadline l of Some d \<Rightarrow> if d \<le> now then lease_clear else l | None \<Rightarrow> l)"

definition lease_occupied :: "span \<Rightarrow> remote_lease \<Rightarrow> bool \<times> remote_lease" where
  "lease_occupied now l = (let l' = lease_expire now l in (rl_kind l' \<noteq> None, l'))"

definition peer_at :: "bytes \<Rightarrow> nat \<Rightarrow> mux_error + bytes" where
  "peer_at command offset =
     (if length command < offset + 6 then Inl (ArgumentError ''short remote command'')
      else Inr (take 6 (drop offset command)))"

definition peer_class :: "lease_kind \<Rightarrow> bytes \<Rightarrow> nat \<Rightarrow> mux_error + (lease_kind \<times> bytes option \<times> u32 option \<times> u32 option)" where
  "peer_class kind command offset = (case peer_at command offset of Inl e \<Rightarrow> Inl e
     | Inr peer \<Rightarrow> Inr (kind, Some peer, None, None))"

definition classify :: "bytes \<Rightarrow> mux_error + (lease_kind \<times> bytes option \<times> u32 option \<times> u32 option)" where
  "classify command =
     (let c = command ! 0 in
      if c = CMD_SEND_LOGIN then peer_class Login command 1
      else if c = CMD_SEND_STATUS_REQ then peer_class Status command 1
      else if c = CMD_SEND_TRACE_PATH then
        (if length command < 11 then Inl (ArgumentError ''short trace command'')
         else case lease_read_u32 command 1 of Inl e \<Rightarrow> Inl e | Inr tag \<Rightarrow>
           case lease_read_u32 command 5 of Inl e \<Rightarrow> Inl e | Inr auth \<Rightarrow> Inr (Trace, None, Some tag, Some auth))
      else if c = CMD_SEND_TELEMETRY_REQ then
        (if length command = 4 then Inl (ArgumentError ''self telemetry does not use a remote lease'')
         else peer_class Telemetry command 4)
      else if c = CMD_SEND_BINARY_REQ then peer_class Binary command 1
      else if c = CMD_SEND_PATH_DISCOVERY_REQ then peer_class PathDiscovery command 2
      else if c = CMD_SEND_ANON_REQ then peer_class Anonymous command 1
      else Inl (ArgumentError ''command does not use the remote lease''))"

definition lease_reserve :: "int \<Rightarrow> bytes \<Rightarrow> span \<Rightarrow> remote_lease \<Rightarrow> (mux_error + bool) \<times> remote_lease" where
  "lease_reserve owner command now l =
     (case lease_occupied now l of (occupied, l1) \<Rightarrow>
      if occupied then (Inr False, l1)
      else if command = [] then (Inl (ArgumentError ''empty remote command''), l1)
      else case classify command of Inl e \<Rightarrow> (Inl e, l1)
        | Inr (kind, peer, tag, auth) \<Rightarrow> (Inr True,
            \<lparr>rl_owner = Some owner, rl_kind = Some kind, rl_command = Some command, rl_deadline = None,
             rl_peer = peer, rl_tag = tag, rl_trace_auth = auth, rl_tentative = True\<rparr>))"

definition lease_accepted :: "bytes \<Rightarrow> span \<Rightarrow> remote_lease \<Rightarrow> (mux_error + unit) \<times> remote_lease" where
  "lease_accepted sent now l =
     (if \<not> (rl_kind l \<noteq> None \<and> rl_tentative l) then (Inl (InvalidStateError ''no tentative remote reservation''), l)
      else case require_payload sent RESP_SENT 10 of Inl e \<Rightarrow> (Inl e, l) | Inr _ \<Rightarrow>
      case lease_read_u32 sent 2 of Inl e \<Rightarrow> (Inl e, l) | Inr tag \<Rightarrow>
      let l1 = (if rl_kind l = Some Trace then l else l\<lparr>rl_tag := Some tag\<rparr>) in
      case lease_read_u32 sent 6 of Inl e \<Rightarrow> (Inl e, l1) | Inr timeout_ms \<Rightarrow>
      (Inr (), l1\<lparr>rl_deadline := Some (lease_deadline now timeout_ms), rl_tentative := False\<rparr>))"

definition lease_rejected :: "remote_lease \<Rightarrow> remote_lease" where
  "lease_rejected l = lease_clear"

definition acceptance_unknown :: "span \<Rightarrow> remote_lease \<Rightarrow> (mux_error + unit) \<times> remote_lease" where
  "acceptance_unknown deadline l =
     (if \<not> (rl_kind l \<noteq> None \<and> rl_tentative l) then (Inl (InvalidStateError ''remote reservation is not tentative''), l)
      else (Inr (), l\<lparr>rl_owner := None, rl_deadline := Some deadline, rl_tentative := False\<rparr>))"

definition first_is :: "bytes \<Rightarrow> byte \<Rightarrow> bool" where
  "first_is push code \<longleftrightarrow> push \<noteq> [] \<and> push ! 0 = code"

definition matching_peer :: "bytes \<Rightarrow> remote_lease \<Rightarrow> mux_error + bool" where
  "matching_peer push l =
     (if length push < 8 then Inl (ArgumentError ''short peer response'')
      else Inr (Some (take 6 (drop 2 push)) = rl_peer l))"

definition lease_matches :: "lease_kind \<Rightarrow> bytes \<Rightarrow> remote_lease \<Rightarrow> mux_error + bool" where
  "lease_matches kind push l = (case kind of
       Login \<Rightarrow> if \<not> (first_is push PUSH_LOGIN_SUCCESS \<or> first_is push PUSH_LOGIN_FAILURE) then Inr False else matching_peer push l
     | Status \<Rightarrow> if \<not> first_is push PUSH_STATUS_RESPONSE then Inr False else matching_peer push l
     | Telemetry \<Rightarrow> if \<not> first_is push PUSH_TELEMETRY_RESPONSE then Inr False else matching_peer push l
     | PathDiscovery \<Rightarrow> if \<not> first_is push PUSH_PATH_DISCOVERY_RESPONSE then Inr False else matching_peer push l
     | Trace \<Rightarrow> if \<not> first_is push PUSH_TRACE_DATA then Inr False
         else if length push < 12 then Inl (ArgumentError ''short trace response'')
         else Inr (Some (u32_at push 4) = rl_tag l \<and> Some (u32_at push 8) = rl_trace_auth l)
     | _ \<Rightarrow> if \<not> first_is push PUSH_BINARY_RESPONSE then Inr False
         else if length push < 6 then Inl (ArgumentError ''short binary response'')
         else Inr (Some (u32_at push 2) = rl_tag l))"

definition lease_match :: "bytes \<Rightarrow> span \<Rightarrow> remote_lease \<Rightarrow> (mux_error + int option) \<times> remote_lease" where
  "lease_match push now l =
     (let l1 = lease_expire now l in
      case rl_kind l1 of None \<Rightarrow> (Inr None, l1)
      | Some kind \<Rightarrow>
          if rl_tentative l1 then (Inr None, l1)
          else case lease_matches kind push l1 of
              Inl e \<Rightarrow> (Inl e, l1)
            | Inr m \<Rightarrow> if \<not> m then (Inr None, l1) else (Inr (rl_owner l1), lease_clear))"

definition lease_owner_gone :: "int \<Rightarrow> remote_lease \<Rightarrow> remote_lease" where
  "lease_owner_gone owner l = (if rl_owner l = Some owner then l\<lparr>rl_owner := None\<rparr> else l)"

section \<open>CompanionRadioState\<close>

record radio_state =
  radio_ring :: dm_ring
  radio_remote :: remote_lease
  uncertain_until :: "span option"
  dm_cursor_uncertain :: bool

definition new_radio_state :: radio_state where
  "new_radio_state = \<lparr>radio_ring = new_ring, radio_remote = lease_clear, uncertain_until = None, dm_cursor_uncertain = False\<rparr>"

definition quarantined :: "span \<Rightarrow> radio_state \<Rightarrow> bool \<times> radio_state" where
  "quarantined now s = (case uncertain_until s of None \<Rightarrow> (False, s)
     | Some deadline \<Rightarrow>
         if now < deadline then (True, s)
         else if dm_cursor_uncertain s \<and> 0 < pending_count now (radio_ring s) then (True, s)
         else (False, s\<lparr>uncertain_until := None, dm_cursor_uncertain := False\<rparr>))"

definition quarantine :: "span \<Rightarrow> span \<Rightarrow> bool \<Rightarrow> radio_state \<Rightarrow> span \<times> radio_state" where
  "quarantine now duration cursor_uncertain s =
     (let deadline = now + duration;
          new_until = (case uncertain_until s of None \<Rightarrow> deadline | Some current \<Rightarrow> if current < deadline then deadline else current)
      in (new_until, s\<lparr>uncertain_until := Some new_until,
            dm_cursor_uncertain := dm_cursor_uncertain s \<or> cursor_uncertain\<rparr>))"

section \<open>SigningLease\<close>

abbreviation INACTIVITY_TIMEOUT :: span where "INACTIVITY_TIMEOUT \<equiv> seconds 30"

datatype admission = Allowed | BadState | TableFull

record signing_lease =
  sl_owner :: "int option"
  sl_limit :: "nat option"
  sl_accepted :: nat
  sl_tentative :: bool
  sl_last_activity :: "span option"
  sl_pending_data :: "nat option"
  sl_finish_pending :: bool
  sl_timeout :: span

definition signing_clear :: "signing_lease \<Rightarrow> signing_lease" where
  "signing_clear s = s\<lparr>sl_owner := None, sl_limit := None, sl_accepted := 0, sl_tentative := False,
     sl_last_activity := None, sl_pending_data := None, sl_finish_pending := False\<rparr>"

definition new_signing :: "span \<Rightarrow> signing_lease" where
  "new_signing timeout = \<lparr>sl_owner = None, sl_limit = None, sl_accepted = 0, sl_tentative = False,
     sl_last_activity = None, sl_pending_data = None, sl_finish_pending = False, sl_timeout = timeout\<rparr>"

definition signing_expire :: "span \<Rightarrow> signing_lease \<Rightarrow> signing_lease" where
  "signing_expire now s = (case (sl_owner s, sl_last_activity s) of
       (Some _, Some last_at) \<Rightarrow> if last_at + sl_timeout s \<le> now then signing_clear s else s
     | _ \<Rightarrow> s)"

definition signing_occupied :: "span \<Rightarrow> signing_lease \<Rightarrow> bool \<times> signing_lease" where
  "signing_occupied now s = (let s' = signing_expire now s in (sl_owner s' \<noteq> None, s'))"

definition signing_start :: "int \<Rightarrow> bytes \<Rightarrow> span \<Rightarrow> signing_lease \<Rightarrow> (mux_error + bool) \<times> signing_lease" where
  "signing_start owner command now s =
     (case require_command command CMD_SIGN_START 1 of Inl e \<Rightarrow> (Inl e, s) | Inr _ \<Rightarrow>
      let s1 = signing_expire now s in
      if sl_owner s1 \<noteq> None \<and> sl_owner s1 \<noteq> Some owner then (Inr False, s1)
      else (Inr True, s1\<lparr>sl_owner := Some owner, sl_limit := None, sl_accepted := 0, sl_pending_data := None,
             sl_finish_pending := False, sl_tentative := True, sl_last_activity := Some now\<rparr>))"

definition accepted_start :: "bytes \<Rightarrow> span \<Rightarrow> signing_lease \<Rightarrow> (mux_error + unit) \<times> signing_lease" where
  "accepted_start response now s =
     (if \<not> (sl_owner s \<noteq> None \<and> sl_tentative s) then (Inl (InvalidStateError ''no tentative signing start''), s)
      else case require_payload response RESP_SIGN_START 6 of Inl e \<Rightarrow> (Inl e, s) | Inr _ \<Rightarrow>
      case lease_read_u32 response 2 of Inl e \<Rightarrow> (Inl e, s) | Inr limit \<Rightarrow>
      (Inr (), s\<lparr>sl_limit := Some (unat limit), sl_tentative := False, sl_last_activity := Some now\<rparr>))"

definition rejected_start :: "signing_lease \<Rightarrow> signing_lease" where
  "rejected_start s = signing_clear s"

definition usable_by :: "int \<Rightarrow> signing_lease \<Rightarrow> bool" where
  "usable_by owner s \<longleftrightarrow> sl_owner s = Some owner \<and> \<not> sl_tentative s \<and> sl_limit s \<noteq> None
     \<and> sl_pending_data s = None \<and> \<not> sl_finish_pending s"

definition begin_data :: "int \<Rightarrow> bytes \<Rightarrow> span \<Rightarrow> signing_lease \<Rightarrow> (mux_error + admission) \<times> signing_lease" where
  "begin_data owner command now s =
     (if length command < 2 \<or> command ! 0 \<noteq> CMD_SIGN_DATA then (Inl (ArgumentError ''SIGN_DATA must contain data''), s)
      else let s1 = signing_expire now s in
      if \<not> usable_by owner s1 then (Inr BadState, s1)
      else case sl_limit s1 of None \<Rightarrow> (Inl NilAssertionError, s1)
      | Some maximum \<Rightarrow>
          let n = length command - 1 in
          if maximum < sl_accepted s1 then (Inl OverflowError, s1)
          else if maximum - sl_accepted s1 < n then (Inr TableFull, s1)
          else (Inr Allowed, s1\<lparr>sl_pending_data := Some n, sl_last_activity := Some now\<rparr>))"

definition validate_ok_or_err :: "bytes \<Rightarrow> bool \<Rightarrow> mux_error + unit" where
  "validate_ok_or_err response allow_ok =
     (if response = [] then Inl (ArgumentError ''empty signing response'')
      else if allow_ok \<and> length response = 1 \<and> response ! 0 = RESP_OK then Inr ()
      else if length response = 2 \<and> response ! 0 = RESP_ERR then Inr ()
      else Inl (ArgumentError ''unexpected signing response''))"

definition data_response :: "bytes \<Rightarrow> span \<Rightarrow> signing_lease \<Rightarrow> (mux_error + unit) \<times> signing_lease" where
  "data_response response now s = (case sl_pending_data s of
       None \<Rightarrow> (Inl (InvalidStateError ''no pending signing data''), s)
     | Some n \<Rightarrow> (case validate_ok_or_err response True of Inl e \<Rightarrow> (Inl e, s) | Inr _ \<Rightarrow>
         let s1 = s\<lparr>sl_pending_data := None\<rparr> in
         if response ! 0 = RESP_OK then (Inr (), s1\<lparr>sl_accepted := sl_accepted s1 + n, sl_last_activity := Some now\<rparr>)
         else if response ! 1 = ERR_BAD_STATE then (Inr (), signing_clear s1)
         else (Inr (), s1\<lparr>sl_last_activity := Some now\<rparr>)))"

definition begin_finish :: "int \<Rightarrow> bytes \<Rightarrow> span \<Rightarrow> signing_lease \<Rightarrow> (mux_error + admission) \<times> signing_lease" where
  "begin_finish owner command now s =
     (case require_command command CMD_SIGN_FINISH 1 of Inl e \<Rightarrow> (Inl e, s) | Inr _ \<Rightarrow>
      let s1 = signing_expire now s in
      if \<not> usable_by owner s1 then (Inr BadState, s1)
      else (Inr Allowed, s1\<lparr>sl_finish_pending := True, sl_last_activity := Some now\<rparr>))"

definition finish_response :: "bytes \<Rightarrow> span \<Rightarrow> signing_lease \<Rightarrow> (mux_error + unit) \<times> signing_lease" where
  "finish_response response now s =
     (if \<not> sl_finish_pending s then (Inl (InvalidStateError ''no pending signing finish''), s)
      else if first_is response RESP_SIGNATURE then
        (case require_payload response RESP_SIGNATURE 65 of Inl e \<Rightarrow> (Inl e, s) | Inr _ \<Rightarrow> (Inr (), signing_clear s))
      else case validate_ok_or_err response False of Inl e \<Rightarrow> (Inl e, s) | Inr _ \<Rightarrow>
        let s1 = s\<lparr>sl_finish_pending := False\<rparr> in
        if response ! 1 = ERR_BAD_STATE then (Inr (), signing_clear s1)
        else (Inr (), s1\<lparr>sl_last_activity := Some now\<rparr>))"

definition signing_owner_gone :: "int \<Rightarrow> signing_lease \<Rightarrow> signing_lease" where
  "signing_owner_gone owner s = (if sl_owner s = Some owner then signing_clear s else s)"

text \<open>The operations of the broker on the signing lease, in any order.\<close>

inductive signing_step :: "signing_lease \<Rightarrow> signing_lease \<Rightarrow> bool" where
  occupied_step: "signing_occupied now s = (b, s') \<Longrightarrow> signing_step s s'"
| start_step: "signing_start owner command now s = (r, s') \<Longrightarrow> signing_step s s'"
| accepted_start_step: "accepted_start response now s = (r, s') \<Longrightarrow> signing_step s s'"
| rejected_start_step: "signing_step s (rejected_start s)"
| begin_data_step: "begin_data owner command now s = (r, s') \<Longrightarrow> signing_step s s'"
| data_response_step: "data_response response now s = (r, s') \<Longrightarrow> signing_step s s'"
| begin_finish_step: "begin_finish owner command now s = (r, s') \<Longrightarrow> signing_step s s'"
| finish_response_step: "finish_response response now s = (r, s') \<Longrightarrow> signing_step s s'"
| owner_gone_step: "signing_step s (signing_owner_gone owner s)"

section \<open>Signing invariant\<close>

definition signing_inv :: "signing_lease \<Rightarrow> bool" where
  "signing_inv s \<longleftrightarrow>
     (case sl_limit s of
        Some limit \<Rightarrow> \<not> sl_tentative s \<and> sl_owner s \<noteq> None
          \<and> sl_accepted s + (case sl_pending_data s of None \<Rightarrow> 0 | Some n \<Rightarrow> n) \<le> limit
      | None \<Rightarrow> sl_pending_data s = None \<and> \<not> sl_finish_pending s \<and> sl_accepted s = 0)
     \<and> (sl_owner s = None \<longrightarrow> sl_limit s = None \<and> \<not> sl_tentative s \<and> sl_last_activity s = None)
     \<and> (sl_owner s \<noteq> None \<longrightarrow> sl_last_activity s \<noteq> None \<and> (sl_tentative s \<or> sl_limit s \<noteq> None))
     \<and> \<not> (sl_pending_data s \<noteq> None \<and> sl_finish_pending s)"

lemma signing_inv_clear [simp]: "signing_inv (signing_clear s)"
  by (simp add: signing_inv_def signing_clear_def)

lemma signing_inv_new: "signing_inv (new_signing t)"
  by (simp add: signing_inv_def new_signing_def)

lemma signing_inv_expire: "signing_inv s \<Longrightarrow> signing_inv (signing_expire now s)"
  by (auto simp: signing_expire_def split: option.splits)

lemma signing_inv_pending:
  "signing_inv e \<Longrightarrow> usable_by owner e \<Longrightarrow> sl_limit e = Some m \<Longrightarrow> sl_accepted e \<le> m \<Longrightarrow> n \<le> m - sl_accepted e \<Longrightarrow>
    signing_inv (e\<lparr>sl_pending_data := Some n, sl_last_activity := Some now\<rparr>)"
  by (auto simp: signing_inv_def usable_by_def)

lemma begin_data_inv:
  assumes "signing_inv s"
  shows "signing_inv (snd (begin_data owner command now s))"
proof -
  have e: "signing_inv (signing_expire now s)" using assms by (rule signing_inv_expire)
  then show ?thesis using assms signing_inv_pending [OF e]
    by (auto simp: begin_data_def Let_def not_less split: option.splits)
qed

lemma data_response_inv:
  assumes "signing_inv s"
  shows "signing_inv (snd (data_response response now s))"
proof (cases "sl_pending_data s")
  case None
  with assms show ?thesis by (simp add: data_response_def)
next
  case (Some n)
  have "signing_inv (s\<lparr>sl_pending_data := None, sl_accepted := sl_accepted s + n, sl_last_activity := Some now\<rparr>)"
    "signing_inv (s\<lparr>sl_pending_data := None, sl_last_activity := Some now\<rparr>)"
    using assms Some by (auto simp: signing_inv_def split: option.splits)
  with assms Some show ?thesis by (auto simp: data_response_def Let_def split: sum.splits)
qed

lemma begin_finish_inv:
  assumes "signing_inv s"
  shows "signing_inv (snd (begin_finish owner command now s))"
proof -
  have e: "signing_inv (signing_expire now s)" using assms by (rule signing_inv_expire)
  have "signing_inv (e\<lparr>sl_finish_pending := True, sl_last_activity := Some now\<rparr>)"
    if "signing_inv e" "usable_by owner e" for e :: signing_lease
    using that by (auto simp: signing_inv_def usable_by_def)
  with e assms show ?thesis by (auto simp: begin_finish_def Let_def split: sum.splits)
qed

lemma finish_response_inv: "signing_inv s \<Longrightarrow> signing_inv (snd (finish_response response now s))"
  by (cases "sl_limit s")
    (auto simp: finish_response_def Let_def signing_inv_def signing_clear_def split: sum.splits)

lemma accepted_start_inv: "signing_inv s \<Longrightarrow> signing_inv (snd (accepted_start response now s))"
  by (cases "sl_limit s") (auto simp: accepted_start_def signing_inv_def split: sum.splits)

lemma signing_start_inv:
  assumes "signing_inv s"
  shows "signing_inv (snd (signing_start owner command now s))"
proof -
  have e: "signing_inv (signing_expire now s)" using assms by (rule signing_inv_expire)
  have "signing_inv (e\<lparr>sl_owner := Some owner, sl_limit := None, sl_accepted := 0, sl_pending_data := None,
             sl_finish_pending := False, sl_tentative := True, sl_last_activity := Some now\<rparr>)" for e :: signing_lease
    by (simp add: signing_inv_def)
  with e assms show ?thesis by (auto simp: signing_start_def Let_def split: sum.splits)
qed

lemma signing_step_inv: "signing_step s s' \<Longrightarrow> signing_inv s \<Longrightarrow> signing_inv s'"
proof (induction rule: signing_step.induct)
  case (occupied_step now s b s')
  then show ?case by (auto simp: signing_occupied_def Let_def signing_inv_expire)
next
  case (start_step owner command now s r s')
  then show ?case using signing_start_inv by (metis snd_conv)
next
  case (accepted_start_step response now s r s')
  then show ?case using accepted_start_inv by (metis snd_conv)
next
  case (begin_data_step owner command now s r s')
  then show ?case using begin_data_inv by (metis snd_conv)
next
  case (data_response_step response now s r s')
  then show ?case using data_response_inv by (metis snd_conv)
next
  case (begin_finish_step owner command now s r s')
  then show ?case using begin_finish_inv by (metis snd_conv)
next
  case (finish_response_step response now s r s')
  then show ?case using finish_response_inv by (metis snd_conv)
qed (auto simp: rejected_start_def signing_owner_gone_def)

lemma signing_reachable_inv: "signing_step\<^sup>*\<^sup>* (new_signing t) s \<Longrightarrow> signing_inv s"
  by (induction rule: rtranclp_induct) (auto intro: signing_inv_new signing_step_inv)

section \<open>Remote lease histories\<close>

datatype lease_op =
    Reserve int bytes span | Accepted bytes span | Rejected | Unknown span | Match bytes span | OwnerGone int | Occupied span

fun lease_apply :: "lease_op \<Rightarrow> remote_lease \<Rightarrow> remote_lease" where
  "lease_apply (Reserve owner command now) l = snd (lease_reserve owner command now l)"
| "lease_apply (Accepted sent now) l = snd (lease_accepted sent now l)"
| "lease_apply Rejected l = lease_rejected l"
| "lease_apply (Unknown deadline) l = snd (acceptance_unknown deadline l)"
| "lease_apply (Match push now) l = snd (lease_match push now l)"
| "lease_apply (OwnerGone owner) l = lease_owner_gone owner l"
| "lease_apply (Occupied now) l = snd (lease_occupied now l)"

lemma lease_expire_owner: "rl_owner (lease_expire now l) = Some o' \<Longrightarrow> rl_owner l = Some o'"
  by (auto simp: lease_expire_def lease_clear_def split: option.splits if_splits)

lemma lease_apply_owner:
  assumes "rl_owner (lease_apply op l) = Some o'"
  shows "(\<exists>command now. op = Reserve o' command now) \<or> (rl_owner l = Some o' \<and> op \<noteq> OwnerGone o' \<and> op \<noteq> Rejected)"
proof (cases op)
  case (Reserve owner command now)
  with assms show ?thesis
    by (auto simp: lease_reserve_def lease_occupied_def Let_def dest: lease_expire_owner split: if_splits sum.splits)
next
  case (Accepted sent now)
  with assms show ?thesis by (auto simp: lease_accepted_def Let_def split: if_splits sum.splits)
next
  case Rejected
  with assms show ?thesis by (simp add: lease_rejected_def lease_clear_def)
next
  case (Unknown deadline)
  with assms show ?thesis by (auto simp: acceptance_unknown_def split: if_splits)
next
  case (Match push now)
  with assms show ?thesis
    by (auto simp: lease_match_def Let_def lease_clear_def dest: lease_expire_owner split: if_splits sum.splits option.splits)
next
  case (OwnerGone owner)
  with assms show ?thesis by (auto simp: lease_owner_gone_def split: if_splits)
next
  case (Occupied now)
  with assms show ?thesis by (auto simp: lease_occupied_def Let_def dest: lease_expire_owner)
qed

lemma lease_history:
  "rl_owner (fold lease_apply ops lease_clear) = Some o' \<Longrightarrow>
    \<exists>pre command now post. ops = pre @ Reserve o' command now # post \<and> OwnerGone o' \<notin> set post \<and> Rejected \<notin> set post"
proof (induction ops rule: rev_induct)
  case Nil
  then show ?case by (simp add: lease_clear_def)
next
  case (snoc op ops)
  then have "rl_owner (lease_apply op (fold lease_apply ops lease_clear)) = Some o'" by simp
  from lease_apply_owner [OF this] show ?case
  proof
    assume "\<exists>command now. op = Reserve o' command now"
    then show ?thesis by (metis empty_iff empty_set)
  next
    assume o: "rl_owner (fold lease_apply ops lease_clear) = Some o' \<and> op \<noteq> OwnerGone o' \<and> op \<noteq> Rejected"
    with snoc.IH obtain pre command now post where
      "ops = pre @ Reserve o' command now # post" "OwnerGone o' \<notin> set post" "Rejected \<notin> set post" by blast
    with o show ?thesis by (intro exI [of _ pre] exI [of _ command] exI [of _ now] exI [of _ "post @ [op]"]) auto
  qed
qed

section \<open>Ring lemmas\<close>

definition ring_ok :: "dm_ring \<Rightarrow> bool" where
  "ring_ok r \<longleftrightarrow> length (ring_slots r) = RING_CAPACITY \<and> next_slot r < RING_CAPACITY"

lemma ring_ok_new: "ring_ok new_ring"
  by (simp add: ring_ok_def new_ring_def)

lemma sent_fields: "length sent = 10 \<Longrightarrow> lease_read_u32 sent 2 = Inr (u32_at sent 2) \<and> lease_read_u32 sent 6 = Inr (u32_at sent 6)"
  by (simp add: lease_read_u32_def)

section \<open>Properties\<close>

text \<open>C27. The acknowledgement ring never overwrites a live reservation: recording an accepted direct
  message keeps every entry that is neither confirmed nor expired, moves the insertion position by
  one modulo eight exactly when the companion's token is not zero, and is refused with an error
  when the next physical slot is still in use.\<close>

theorem dm_ring_never_overwrites:
  assumes "ring_ok r" "length sent = 10" "sent ! 0 = RESP_SENT" "ring_accepted sent now r = (res, r')"
  shows "ring_ok r'
    \<and> (\<forall>i < RING_CAPACITY. \<not> entry_free now (ring_slots r ! i) \<longrightarrow> ring_slots r' ! i = ring_slots r ! i)
    \<and> (u32_at sent 2 = 0 \<longrightarrow> res = Inr () \<and> r' = r)
    \<and> (u32_at sent 2 \<noteq> 0 \<and> ring_available now r \<longrightarrow> res = Inr () \<and> next_slot r' = (next_slot r + 1) mod RING_CAPACITY
         \<and> ring_slots r' ! next_slot r = Some \<lparr>ring_token = u32_at sent 2,
              ring_deadline = lease_deadline now (u32_at sent 6), ring_settled = False\<rparr>)
    \<and> (u32_at sent 2 \<noteq> 0 \<and> \<not> ring_available now r \<longrightarrow> (\<exists>m. res = Inl (InvalidStateError m)) \<and> r' = r)"
proof -
  have p: "require_payload sent RESP_SENT 10 = Inr ()" using assms(2,3) by (simp add: require_payload_def)
  note f = sent_fields [OF assms(2)]
  consider "u32_at sent 2 = 0" | "u32_at sent 2 \<noteq> 0" "ring_available now r" | "u32_at sent 2 \<noteq> 0" "\<not> ring_available now r"
    by blast
  then show ?thesis
  proof cases
    case 2
    let ?e = "Some \<lparr>ring_token = u32_at sent 2, ring_deadline = lease_deadline now (u32_at sent 6), ring_settled = False\<rparr>"
    have r': "res = Inr ()" "r' = r\<lparr>ring_slots := (ring_slots r)[next_slot r := ?e], next_slot := (next_slot r + 1) mod RING_CAPACITY\<rparr>"
      using 2 assms(4) p f by (simp_all add: ring_accepted_def)
    have "\<not> entry_free now (ring_slots r ! i) \<longrightarrow> i \<noteq> next_slot r" for i
      using 2(2) by (auto simp: ring_available_def)
    with 2 r' assms(1) show ?thesis by (auto simp: ring_ok_def nth_list_update)
  qed (use assms p f in \<open>auto simp: ring_accepted_def\<close>)
qed

theorem dm_ring_never_overwrites_witness:
  "fst (ring_accepted [6, 0, 1, 0, 0, 0, 232, 3, 0, 0] 0 new_ring) = Inr ()"
proof -
  have "u32_at [6, 0, 1, 0, 0, 0, 232, 3, 0, 0] 2 \<noteq> 0" by (simp add: u32_at_def)
  moreover have "ring_available 0 new_ring" by (simp add: ring_available_def new_ring_def entry_free_def)
  ultimately show ?thesis
    using dm_ring_never_overwrites [OF ring_ok_new, of "[6, 0, 1, 0, 0, 0, 232, 3, 0, 0]" 0
        "fst (ring_accepted [6, 0, 1, 0, 0, 0, 232, 3, 0, 0] 0 new_ring)"
        "snd (ring_accepted [6, 0, 1, 0, 0, 0, 232, 3, 0, 0] 0 new_ring)"] by simp
qed


definition remote_example :: "lease_op list" where
  "remote_example = [Reserve 7 [CMD_SEND_STATUS_REQ, 5, 5, 5, 5, 5, 5, 5, 5, 5, 5, 5, 5, 5, 5, 5, 5, 5, 5, 5, 5, 5, 5, 5, 5, 5, 5, 5, 5, 5, 5, 5, 5] 0, Accepted [6, 0, 1, 0, 0, 0, 232, 3, 0, 0] 1]"




text \<open>The time a radio reservation is kept: never less than five seconds, never less than the
  companion's suggested timeout plus a second, and never more than the suggested timeout and a
  quarter plus one second, or the five-second floor.\<close>

theorem lease_deadline_bounds:
  "now + seconds 5 \<le> lease_deadline now t
   \<and> now + milliseconds (int (unat t)) + seconds 1 \<le> lease_deadline now t
   \<and> 4 * (lease_deadline now t - now) \<le> max (4 * seconds 5) (5 * milliseconds (int (unat t)) + 4 * seconds 1)"
proof -
  let ?n = "int (unat t)"
  have "?n \<le> ?n * 5 div 4" "4 * (?n * 5 div 4) \<le> 5 * ?n" by linarith+
  then show ?thesis
    by (auto simp: lease_deadline_def milliseconds_def seconds_def Let_def max_def)
qed

end
