(* ===== verification/Py_Effects.thy ===== *)
theory Py_Effects
  imports Mux_Prelude
begin

text \<open>
  Effects of the Python check scripts. A coroutine or function that mutates objects, talks to a
  client and may raise is a function from the world before to the outcome and the world after:
  \<open>Inl\<close> the exception that escapes, \<open>Inr\<close> the value. Sequencing stops at the first exception,
  \<open>py_finally\<close> is \<open>try/finally\<close> (an exception of the clean-up replaces the outcome),
  \<open>py_catch\<close> is \<open>try/except\<close>, \<open>py_for\<close> a \<open>for\<close> loop that collects the values of its body.
\<close>

type_synonym ('w, 'a) py = "'w \<Rightarrow> (py_error + 'a) \<times> 'w"

definition py_return :: "'a \<Rightarrow> ('w, 'a) py" where
  "py_return x w = (Inr x, w)"

definition py_raise :: "py_error \<Rightarrow> ('w, 'a) py" where
  "py_raise e w = (Inl e, w)"

definition py_bind :: "('w, 'a) py \<Rightarrow> ('a \<Rightarrow> ('w, 'b) py) \<Rightarrow> ('w, 'b) py" where
  "py_bind m f w = (case m w of (Inl e, w') \<Rightarrow> (Inl e, w') | (Inr x, w') \<Rightarrow> f x w')"

definition py_then :: "('w, 'a) py \<Rightarrow> ('w, 'b) py \<Rightarrow> ('w, 'b) py" where
  "py_then m n = py_bind m (\<lambda>_. n)"

definition py_assert :: "bool \<Rightarrow> string \<Rightarrow> ('w, unit) py" where
  "py_assert b msg = (if b then py_return () else py_raise (AssertionError msg))"

definition py_get :: "('w \<Rightarrow> 'a) \<Rightarrow> ('w, 'a) py" where
  "py_get f w = (Inr (f w), w)"

definition py_modify :: "('w \<Rightarrow> 'w) \<Rightarrow> ('w, unit) py" where
  "py_modify f w = (Inr (), f w)"

definition py_lift :: "py_error + 'a \<Rightarrow> ('w, 'a) py" where
  "py_lift r w = (r, w)"

definition py_finally :: "('w, 'a) py \<Rightarrow> ('w, unit) py \<Rightarrow> ('w, 'a) py" where
  "py_finally body cleanup w = (case body w of (r, w') \<Rightarrow>
     (case cleanup w' of (Inl e, w'') \<Rightarrow> (Inl e, w'') | (Inr _, w'') \<Rightarrow> (r, w'')))"

definition py_catch :: "('w, 'a) py \<Rightarrow> (py_error \<Rightarrow> ('w, 'a) py) \<Rightarrow> ('w, 'a) py" where
  "py_catch body handler w = (case body w of (Inl e, w') \<Rightarrow> handler e w' | (Inr x, w') \<Rightarrow> (Inr x, w'))"

fun py_for :: "'i list \<Rightarrow> ('i \<Rightarrow> ('w, 'a) py) \<Rightarrow> ('w, 'a list) py" where
  "py_for [] body = py_return []"
| "py_for (i # is) body = py_bind (body i) (\<lambda>x. py_bind (py_for is body) (\<lambda>xs. py_return (x # xs)))"

text \<open>
  \<open>asyncio.gather\<close>: every awaitable runs, in the order of the arguments, and an exception of one of
  them is raised only after all have run. With \<open>return_exceptions=True\<close> and the results ignored,
  nothing is raised. Other interleavings of the awaitables are not modelled.
\<close>

fun py_gather :: "('w, 'a) py list \<Rightarrow> ('w, 'a list) py" where
  "py_gather [] = py_return []"
| "py_gather (m # ms) = (\<lambda>w. case m w of (r, w1) \<Rightarrow> case py_gather ms w1 of (rs, w2) \<Rightarrow>
     ((case r of Inl e \<Rightarrow> Inl e | Inr x \<Rightarrow> (case rs of Inl e \<Rightarrow> Inl e | Inr xs \<Rightarrow> Inr (x # xs))), w2))"

fun py_gather_quiet :: "('w, 'a) py list \<Rightarrow> ('w, unit) py" where
  "py_gather_quiet [] = py_return ()"
| "py_gather_quiet (m # ms) = (\<lambda>w. py_gather_quiet ms (snd (m w)))"

definition py_when :: "bool \<Rightarrow> ('w, unit) py \<Rightarrow> ('w, unit) py" where
  "py_when b m = (if b then m else py_return ())"

text \<open>The range check of \<open>int.to_bytes(k, "little")\<close> for an unsigned value.\<close>

definition py_to_bytes :: "nat \<Rightarrow> nat \<Rightarrow> py_error + bytes" where
  "py_to_bytes n k = (if n < 256 ^ k then Inr (le_bytes k n) else Inl PyOverflowError)"

definition py_byte :: "nat \<Rightarrow> py_error + byte" where
  "py_byte n = (if n < 256 then Inr (of_nat n) else Inl (ValueError ''bytes must be in range(0, 256)''))"

lemmas py_defs = py_return_def py_raise_def py_bind_def py_then_def py_assert_def py_get_def
  py_modify_def py_lift_def py_finally_def py_catch_def py_when_def

section \<open>Invariants of a computation\<close>

text \<open>A relation between worlds that every run of a computation keeps, whatever the outcome.\<close>

definition py_keeps :: "('w \<Rightarrow> 'w \<Rightarrow> bool) \<Rightarrow> ('w, 'a) py \<Rightarrow> bool" where
  "py_keeps R m \<longleftrightarrow> (\<forall>w. R w (snd (m w)))"

lemma py_keepsD: "py_keeps R m \<Longrightarrow> R w (snd (m w))"
  by (simp add: py_keeps_def)

text \<open>A preorder on worlds is kept by a composed program when its parts keep it.\<close>

locale world_order =
  fixes R :: "'w \<Rightarrow> 'w \<Rightarrow> bool"
  assumes refl: "R w w" and trans: "R u v \<Longrightarrow> R v w \<Longrightarrow> R u w"
begin

lemma keeps_return: "py_keeps R (py_return x)"
  by (simp add: py_keeps_def py_return_def refl)

lemma keeps_raise: "py_keeps R (py_raise e)"
  by (simp add: py_keeps_def py_raise_def refl)

lemma keeps_get: "py_keeps R (py_get f)"
  by (simp add: py_keeps_def py_get_def refl)

lemma keeps_lift: "py_keeps R (py_lift r)"
  by (simp add: py_keeps_def py_lift_def refl)

lemma keeps_assert: "py_keeps R (py_assert b msg)"
  by (simp add: py_assert_def keeps_return keeps_raise)

lemma keeps_bind:
  assumes "py_keeps R m" "\<And>x. py_keeps R (f x)"
  shows "py_keeps R (py_bind m f)"
  unfolding py_keeps_def
proof
  fix w
  obtain r w' where m: "m w = (r, w')" by fastforce
  have "R w w'" using assms(1) m unfolding py_keeps_def by (metis snd_conv)
  moreover have "R w' (snd (f x w'))" for x using assms(2) unfolding py_keeps_def by blast
  ultimately show "R w (snd (py_bind m f w))"
    by (cases r) (auto simp: py_bind_def m intro: trans)
qed

lemma keeps_then: "py_keeps R m \<Longrightarrow> py_keeps R n \<Longrightarrow> py_keeps R (py_then m n)"
  by (simp add: py_then_def keeps_bind)

lemma keeps_when: "py_keeps R m \<Longrightarrow> py_keeps R (py_when b m)"
  by (simp add: py_when_def keeps_return)

lemma keeps_for: "(\<And>i. i \<in> set is \<Longrightarrow> py_keeps R (body i)) \<Longrightarrow> py_keeps R (py_for is body)"
  by (induction "is") (auto intro!: keeps_bind keeps_return)

lemma keeps_finally:
  assumes "py_keeps R m" "py_keeps R n"
  shows "py_keeps R (py_finally m n)"
  unfolding py_keeps_def
proof
  fix w
  obtain r w' where m: "m w = (r, w')" by fastforce
  obtain r' w'' where n: "n w' = (r', w'')" by fastforce
  have "R w w'" "R w' w''" using assms m n unfolding py_keeps_def by (metis snd_conv)+
  then show "R w (snd (py_finally m n w))"
    by (cases r') (auto simp: py_finally_def m n intro: trans)
qed

lemma keeps_catch:
  assumes "py_keeps R m" "\<And>e. py_keeps R (h e)"
  shows "py_keeps R (py_catch m h)"
  unfolding py_keeps_def
proof
  fix w
  obtain r w' where m: "m w = (r, w')" by fastforce
  have "R w w'" using assms(1) m unfolding py_keeps_def by (metis snd_conv)
  moreover have "R w' (snd (h e w'))" for e using assms(2) unfolding py_keeps_def by blast
  ultimately show "R w (snd (py_catch m h w))"
    by (cases r) (auto simp: py_catch_def m intro: trans refl)
qed

lemma keeps_gather: "(\<And>m. m \<in> set ms \<Longrightarrow> py_keeps R m) \<Longrightarrow> py_keeps R (py_gather ms)"
proof (induction ms)
  case Nil
  show ?case by (simp add: keeps_return)
next
  case (Cons m ms)
  have "R w (snd (m w))" "R (snd (m w)) (snd (py_gather ms (snd (m w))))" for w
    using Cons by (simp_all add: py_keeps_def)
  then have "R w (snd (py_gather ms (snd (m w))))" for w by (rule trans)
  then show ?case by (auto simp: py_keeps_def split: prod.splits) (metis snd_conv)
qed

lemma keeps_gather_quiet: "(\<And>m. m \<in> set ms \<Longrightarrow> py_keeps R m) \<Longrightarrow> py_keeps R (py_gather_quiet ms)"
proof (induction ms)
  case Nil
  show ?case by (simp add: keeps_return)
next
  case (Cons m ms)
  have "R w (snd (m w))" "R (snd (m w)) (snd (py_gather_quiet ms (snd (m w))))" for w
    using Cons by (simp_all add: py_keeps_def)
  then have "R w (snd (py_gather_quiet ms (snd (m w))))" for w by (rule trans)
  then show ?case by (simp add: py_keeps_def)
qed

lemma keeps_if: "py_keeps R m \<Longrightarrow> py_keeps R n \<Longrightarrow> py_keeps R (if b then m else n)"
  by simp

lemma keeps_option: "py_keeps R m \<Longrightarrow> (\<And>x. py_keeps R (f x)) \<Longrightarrow> py_keeps R (case x of None \<Rightarrow> m | Some y \<Rightarrow> f y)"
  by (cases x) auto

lemma keeps_sum: "(\<And>e. py_keeps R (f e)) \<Longrightarrow> (\<And>x. py_keeps R (g x)) \<Longrightarrow> py_keeps R (case x of Inl e \<Rightarrow> f e | Inr y \<Rightarrow> g y)"
  by (cases x) auto

lemma keeps_prod: "(\<And>a b. py_keeps R (f a b)) \<Longrightarrow> py_keeps R (case x of (a, b) \<Rightarrow> f a b)"
  by (cases x) auto

lemmas keeps = keeps_if keeps_option keeps_sum keeps_prod keeps_gather keeps_gather_quiet keeps_return keeps_raise keeps_get keeps_lift keeps_assert keeps_bind keeps_then
  keeps_when keeps_for keeps_finally keeps_catch

end

lemma py_finally_runs_cleanup: "snd (py_finally m n w) = snd (n (snd (m w)))"
  by (auto simp: py_finally_def split: prod.splits sum.splits)

lemma py_for_length: "py_for xs body w = (Inr ys, w') \<Longrightarrow> length ys = length xs"
  by (induction xs arbitrary: w ys) (auto simp: py_return_def py_bind_def split: prod.splits sum.splits)

lemma py_bind_Inr: "py_bind m f s = (Inr y, t) \<longleftrightarrow> (\<exists>x u. m s = (Inr x, u) \<and> f x u = (Inr y, t))"
  by (auto simp: py_bind_def split: prod.splits sum.splits)

lemma py_then_returns: "m s = (Inr x, s') \<Longrightarrow> py_then m n s = n s'"
  by (simp add: py_then_def py_bind_def)

lemma py_bind_then: "m s = (Inr x, s') \<Longrightarrow> py_bind (py_then m n) f s = py_bind n f s'"
  by (simp add: py_then_def py_bind_def)

lemma py_then_Inr: "py_then m n s = (Inr y, t) \<longleftrightarrow> (\<exists>x u. m s = (Inr x, u) \<and> n u = (Inr y, t))"
  by (auto simp: py_then_def py_bind_Inr)

lemma fst_bind: "fst (m s) = Inr v \<Longrightarrow> fst (py_bind m f s) = fst (f v (snd (m s)))"
  by (cases "m s") (simp add: py_bind_def)

lemma fst_for: "(\<And>i s. i \<in> set is \<Longrightarrow> fst (body i s) = Inr (g i)) \<Longrightarrow> fst (py_for is body s) = Inr (map g is)"
proof (induction "is" arbitrary: s)
  case (Cons i "is")
  then show ?case by (simp add: fst_bind [of _ _ "g i"] fst_bind [of _ _ "map g is"] py_return_def)
qed (simp add: py_return_def)

end
