(* ===== verification/Fake_Companion.thy ===== *)
theory Fake_Companion
  imports Frame_Codec Protocol Py_Effects
begin

text \<open>
  The loopback companion of \<open>scripts/check_fake_clients.py\<close>: the synthetic payload builders and
  the class \<open>FakeCompanion\<close>, which answers the mux's upstream commands.

  The record \<open>fake_companion\<close> keeps the attributes of the class; \<open>self.writer\<close> is the number of
  the connection that owns it, \<open>fake_written\<close> the bytes written to that stream and \<open>fake_slept\<close>
  the milliseconds awaited in \<open>asyncio.sleep\<close>. One handler runs at a time: a command is answered
  before the next header is read, which is how \<open>handle\<close> awaits \<open>command\<close>. A text argument is
  given as its UTF-8 encoding.
\<close>

section \<open>Payload builders\<close>

definition frame :: "bytes \<Rightarrow> py_error + bytes" where
  "frame payload = (case py_to_bytes (length payload) 2 of Inl e \<Rightarrow> Inl e
     | Inr sz \<Rightarrow> Inr (0x3E # sz @ payload))"

definition ljust :: "bytes \<Rightarrow> nat \<Rightarrow> bytes" where
  "ljust b width = b @ replicate (width - length b) 0"

definition self_info :: "py_error + bytes" where
  "self_info = (let key = map of_nat [0..<32];
       fixed = [5, 1, 10, 22] @ key @ le_bytes 4 0 @ le_bytes 4 0 @ [1, 0, 0, 0]
         @ le_bytes 4 915000 @ le_bytes 4 250000 @ [9, 5]
     in if length fixed \<noteq> 58 then Inl (AssertionError '''') else Inr (fixed @ ascii ''fake-companion''))"

definition device_info_field :: "bytes \<Rightarrow> nat \<Rightarrow> bytes" where
  "device_info_field value width = ljust (take (width - 1) value) width"

definition device_info :: "nat \<Rightarrow> bytes \<Rightarrow> py_error + bytes" where
  "device_info firmware_level future_tail = (case py_byte firmware_level of Inl e \<Rightarrow> Inl e
     | Inr level \<Rightarrow>
       (let payload = [13, level, 16, 8] @ le_bytes 4 123456
              @ device_info_field (ascii ''2026-09-13'') 12
              @ device_info_field (ascii ''stdlib-fake'') 40
              @ device_info_field (ascii ''v1.17.1-fake'') 20 @ [0, 0]
        in if length payload \<noteq> 82 then Inl (AssertionError '''') else Inr (payload @ future_tail)))"

definition contact_record :: "nat \<Rightarrow> py_error + bytes" where
  "contact_record seed = (case py_byte seed of Inl e \<Rightarrow> Inl e | Inr s \<Rightarrow>
     (let name = ljust (ascii (''fake-'' @ decimal seed)) 32 in
      case py_to_bytes (100 + seed) 4 of Inl e \<Rightarrow> Inl e | Inr advert \<Rightarrow>
      case py_to_bytes (200 + seed) 4 of Inl e \<Rightarrow> Inl e | Inr lastmod \<Rightarrow>
      let payload = [3] @ replicate 32 s @ [1, 0, 0] @ replicate 64 0 @ name
            @ advert @ le_bytes 4 0 @ le_bytes 4 0 @ lastmod
      in if length payload \<noteq> 148 then Inl (AssertionError '''') else Inr payload))"

definition contact_message :: "bytes \<Rightarrow> nat \<Rightarrow> py_error + bytes" where
  "contact_message text timestamp = (case py_to_bytes timestamp 4 of Inl e \<Rightarrow> Inl e
     | Inr ts \<Rightarrow> Inr ([0x10, 8, 0, 0] @ ascii ''PEER01'' @ [0xFF, 0] @ ts @ text))"

definition legacy_contact_message :: "bytes \<Rightarrow> nat \<Rightarrow> py_error + bytes" where
  "legacy_contact_message text timestamp = (case py_to_bytes timestamp 4 of Inl e \<Rightarrow> Inl e
     | Inr ts \<Rightarrow> Inr ([0x07] @ ascii ''OLD001'' @ [0xFF, 0] @ ts @ text))"

definition channel_message :: "bytes \<Rightarrow> nat \<Rightarrow> py_error + bytes" where
  "channel_message text timestamp = (case py_to_bytes timestamp 4 of Inl e \<Rightarrow> Inl e
     | Inr ts \<Rightarrow> Inr ([0x11, 12, 0, 0, 1, 0xFF, 0] @ ts @ text))"

section \<open>The companion\<close>

record fake_companion =
  firmware_level :: nat
  future_tail :: bytes
  fake_writer :: "nat option"
  offline :: "bytes list"
  fake_commands :: "byte \<Rightarrow> nat"
  query_targets :: "byte list"
  time_value :: nat
  contact_delays :: "nat list"
  fake_written :: bytes
  fake_slept :: nat

definition FakeCompanion_init :: "nat \<Rightarrow> bytes \<Rightarrow> fake_companion" where
  "FakeCompanion_init level tail =
     \<lparr>firmware_level = level, future_tail = tail, fake_writer = None, offline = [],
      fake_commands = (\<lambda>_. 0), query_targets = [], time_value = 1700000000,
      contact_delays = [0, 20], fake_written = [], fake_slept = 0\<rparr>"

definition fake_send :: "bytes \<Rightarrow> (fake_companion, unit) py" where
  "fake_send payload = py_bind (py_get fake_writer) (\<lambda>w. case w of
       None \<Rightarrow> py_raise (AssertionError ''fake companion has no upstream connection'')
     | Some _ \<Rightarrow> py_bind (py_lift (frame payload)) (\<lambda>f.
         py_modify (\<lambda>c. c\<lparr>fake_written := fake_written c @ f\<rparr>)))"

definition fake_send_built :: "py_error + bytes \<Rightarrow> (fake_companion, unit) py" where
  "fake_send_built r = py_bind (py_lift r) fake_send"

definition fake_enqueue :: "bytes list \<Rightarrow> (fake_companion, unit) py" where
  "fake_enqueue payloads = py_then (py_modify (\<lambda>c. c\<lparr>offline := offline c @ payloads\<rparr>))
     (fake_send [0x83])"

definition fake_pop_offline :: "(fake_companion, bytes) py" where
  "fake_pop_offline c = (case offline c of [] \<Rightarrow> (Inr [10], c) | p # ps \<Rightarrow> (Inr p, c\<lparr>offline := ps\<rparr>))"

definition fake_pop_delay :: "(fake_companion, nat) py" where
  "fake_pop_delay c = (case contact_delays c of [] \<Rightarrow> (Inr 0, c)
     | d # ds \<Rightarrow> (Inr d, c\<lparr>contact_delays := ds\<rparr>))"

definition fake_sleep :: "nat \<Rightarrow> (fake_companion, unit) py" where
  "fake_sleep ms = py_modify (\<lambda>c. c\<lparr>fake_slept := fake_slept c + ms\<rparr>)"

text \<open>\<open>command\<close>: the emptiness check, the count of the opcode, and the dispatch on the opcode.\<close>

definition count_command :: "byte \<Rightarrow> fake_companion \<Rightarrow> fake_companion" where
  "count_command opcode c = c\<lparr>fake_commands := (fake_commands c)(opcode := fake_commands c opcode + 1)\<rparr>"

definition fake_answer :: "bytes \<Rightarrow> (fake_companion, unit) py" where
  "fake_answer payload = (let opcode = payload ! 0 in
        if opcode = 1 then fake_send_built self_info
        else if opcode = 22 then
          (if length payload < 2 then py_raise (AssertionError ''truncated DEVICE_QUERY'')
           else py_then (py_modify (\<lambda>c. c\<lparr>query_targets := query_targets c @ [payload ! 1]\<rparr>))
             (py_bind (py_get (\<lambda>c. device_info (firmware_level c) (future_tail c))) fake_send_built))
        else if opcode = 66 then
          py_bind (py_get firmware_level) (\<lambda>level.
            if level < 14 then fake_send [1, 1] else fake_send (29 # ascii ''synthetic-version''))
        else if opcode = 54 then fake_send [0]
        else if opcode = 10 then py_bind fake_pop_offline fake_send
        else if opcode = 4 then
          py_bind fake_pop_delay (\<lambda>delay.
            py_then (py_when (delay \<noteq> 0) (fake_sleep delay))
            (py_then (fake_send (2 # le_bytes 4 2))
            (py_then (fake_send_built (contact_record 1))
            (py_then (fake_send_built (contact_record 2))
             (fake_send (4 # le_bytes 4 202))))))
        else if opcode = 5 then
          py_then (py_modify (\<lambda>c. c\<lparr>time_value := time_value c + 1\<rparr>))
          (py_bind (py_get time_value) (\<lambda>t.
            py_bind (py_lift (py_to_bytes t 4)) (\<lambda>b. fake_send (9 # b))))
        else fake_send [1, 1])"

definition fake_command :: "bytes \<Rightarrow> (fake_companion, unit) py" where
  "fake_command payload =
     (if payload = [] then py_raise (AssertionError ''mux sent an empty command'')
      else py_then (py_modify (count_command (payload ! 0))) (fake_answer payload))"

text \<open>
  The read loop of \<open>handle\<close> on the bytes the mux sends before it closes the connection.
  \<open>readexactly\<close> at the end of the stream raises \<open>IncompleteReadError\<close>, which ends the handler
  quietly.
\<close>

function fake_handle_loop :: "bytes \<Rightarrow> (fake_companion, unit) py" where
  "fake_handle_loop input =
     (if length input < 3 then py_return ()
      else if input ! 0 \<noteq> 0x3C then py_raise (AssertionError ''wrong request marker'')
      else let size = le_val (take 2 (drop 1 input)) in
        if length input < 3 + size then py_return ()
        else py_then (fake_command (take size (drop 3 input)))
               (fake_handle_loop (drop (3 + size) input)))"
  by pat_completeness auto
termination
  by (relation "measure length") auto

declare fake_handle_loop.simps [simp del]

definition fake_handle :: "nat \<Rightarrow> bytes \<Rightarrow> (fake_companion, unit) py" where
  "fake_handle connection input =
     py_then (py_modify (\<lambda>c. c\<lparr>fake_writer := Some connection\<rparr>))
       (py_finally (fake_handle_loop input)
         (py_modify (\<lambda>c. if fake_writer c = Some connection then c\<lparr>fake_writer := None\<rparr> else c)))"

section \<open>What the mux accepts as the answer to a command\<close>

text \<open>
  The responses to one command, seen by the mux in order: every frame but the last makes
  progress, the last completes, and the contacts phase advances at \<open>CONTACTS_START\<close>.
\<close>

fun response_stream_ok :: "command_descriptor \<Rightarrow> bytes \<Rightarrow> nat \<Rightarrow> bytes list \<Rightarrow> bool" where
  "response_stream_ok d command phase [] \<longleftrightarrow> False"
| "response_stream_ok d command phase (f # fs) \<longleftrightarrow> (case validate_response d f (Some command) phase of
      Inl _ \<Rightarrow> False
    | Inr Complete \<Rightarrow> fs = []
    | Inr Progress \<Rightarrow> response_stream_ok d command (if f ! 0 = RESP_CONTACTS_START then 1 else phase) fs)"

definition inbox_codes :: "byte list" where
  "inbox_codes = [RESP_CONTACT_MESSAGE, RESP_CHANNEL_MESSAGE, RESP_CONTACT_MESSAGE_V3, RESP_CHANNEL_MESSAGE_V3]"

definition offline_ok :: "bytes \<Rightarrow> bool" where
  "offline_ok p \<longleftrightarrow> validate_response_shape p = Inr () \<and> p ! 0 \<in> set inbox_codes"

definition fake_ok :: "fake_companion \<Rightarrow> bool" where
  "fake_ok c \<longleftrightarrow> fake_writer c \<noteq> None \<and> 13 \<le> firmware_level c \<and> firmware_level c < 256
     \<and> length (future_tail c) \<le> 94 \<and> list_all offline_ok (offline c)"

definition envelope :: "byte \<Rightarrow> bytes \<Rightarrow> bytes" where
  "envelope m p = m # le_bytes 2 (length p) @ p"

section \<open>Lemmas\<close>

lemma parse_envelopes:
  "list_all (\<lambda>p. 1 \<le> length p \<and> length p \<le> MAX_PAYLOAD_SIZE) ps \<Longrightarrow>
    parse_stream m (concat (map (envelope m) ps)) = (ps, Inr [])"
  using parse_stream_encoded [of ps m] by (simp only: envelope_def [abs_def])

lemma length_ljust [simp]: "length (ljust b n) = max n (length b)"
  by (simp add: ljust_def max_def)

lemma nth_ljust: "i < length b \<Longrightarrow> ljust b n ! i = b ! i"
  by (simp add: ljust_def nth_append)

lemma length_ascii [simp]: "length (ascii s) = length s"
  by (simp add: ascii_def)

lemma self_info_ok: "\<exists>p. self_info = Inr p \<and> length p = 72 \<and> p ! 0 = 5"
  by (simp add: self_info_def Let_def)

lemma device_info_ok:
  "level < 256 \<Longrightarrow> \<exists>p. device_info level tail = Inr p \<and> length p = 82 + length tail \<and> p ! 0 = 13 \<and> p ! 1 = of_nat level"
  by (simp add: device_info_def py_byte_def device_info_field_def Let_def)

lemma contact_record_ok: "s \<in> {1, 2} \<Longrightarrow> \<exists>p. contact_record s = Inr p \<and> length p = 148 \<and> p ! 0 = 3"
  by (auto simp: contact_record_def py_byte_def py_to_bytes_def Let_def decimal.simps)

lemma frame_envelope: "length p < 65536 \<Longrightarrow> frame p = Inr (envelope 0x3E p)"
  by (simp add: frame_def py_to_bytes_def envelope_def)

lemma fake_send_connected:
  "fake_writer c \<noteq> None \<Longrightarrow> length p < 65536 \<Longrightarrow>
    fake_send p c = (Inr (), c\<lparr>fake_written := fake_written c @ envelope 0x3E p\<rparr>)"
  by (auto simp: fake_send_def py_defs frame_envelope)

lemma fake_send_built_Inr [simp]: "fake_send_built (Inr p) = fake_send p"
  by (simp add: fake_send_built_def fun_eq_iff py_defs)

lemma offline_ok_length: "offline_ok p \<Longrightarrow> p \<noteq> [] \<and> length p \<le> 176"
  by (simp add: offline_ok_def valid_shape_iff)

definition answers :: "bytes \<Rightarrow> command_descriptor \<Rightarrow> fake_companion \<Rightarrow> (py_error + unit) \<times> fake_companion \<Rightarrow> bytes list \<Rightarrow> bool" where
  "answers p d c r fs \<longleftrightarrow> fst r = Inr () \<and> fake_ok (snd r)
     \<and> fake_written (snd r) = fake_written c @ concat (map (envelope 0x3E) fs)
     \<and> list_all (\<lambda>f. 1 \<le> length f \<and> length f \<le> MAX_PAYLOAD_SIZE) fs \<and> response_stream_ok d p 0 fs"

lemma err_completes: "response_stream_ok d p phase [[1, 1]]"
  by (simp add: validate_response_def)

lemma single_completes:
  assumes "f \<noteq> []" "length f \<le> MAX_PAYLOAD" "f ! 0 \<noteq> RESP_ERR" "f ! 0 \<in> set (desc_success d)"
    "response_shape_ok f" "desc_grammar d \<noteq> Contacts"
    "f ! 0 \<noteq> RESP_CHANNEL_INFO" "f ! 0 \<noteq> RESP_STATS"
  shows "response_stream_ok d p phase [f]"
  using assms by (simp add: validate_response_def validate_response_shape_def echo_mismatch_def Let_def)

lemma descriptor_table: "validate_command p = (Some d, None) \<Longrightarrow>
    p \<noteq> [] \<and> command_shape_valid p \<and> (p ! 0 \<noteq> CMD_SEND_TELEMETRY_REQ \<longrightarrow> map_of DESCRIPTORS (p ! 0) = Some d)"
  by (auto simp: validate_command_def descriptor_def split: option.splits if_splits)

lemma sent_answers:
  assumes "fake_ok c" "1 \<le> length f" "length f \<le> 176" "response_stream_ok d p 0 [f]"
  shows "answers p d c (fake_send f c) [f]"
  using assms by (auto simp: answers_def fake_send_connected fake_ok_def MAX_PAYLOAD_SIZE_def)

lemma answers_cong:
  "fake_written c = fake_written c' \<Longrightarrow> answers p d c' r fs \<Longrightarrow> answers p d c r fs"
  by (simp add: answers_def)

text \<open>The contacts stream: a start, two records and the end.\<close>

definition fake_contacts_answer :: "(fake_companion, unit) py" where
  "fake_contacts_answer = py_then (fake_send (2 # le_bytes 4 2))
            (py_then (fake_send_built (contact_record 1))
            (py_then (fake_send_built (contact_record 2))
             (fake_send (4 # le_bytes 4 202))))"

lemma contacts_answers:
  assumes "fake_ok c" "desc_grammar d = Contacts" "set (desc_success d) \<supseteq> {2, 3, 4}"
  shows "\<exists>fs. answers p d c (fake_contacts_answer c) fs"
proof -
  obtain r1 r2 where r: "contact_record 1 = Inr r1" "contact_record 2 = Inr r2"
    and len: "length r1 = 148" "length r2 = 148" "r1 ! 0 = 3" "r2 ! 0 = 3"
    using contact_record_ok [of 1] contact_record_ok [of 2] by auto
  let ?fs = "[2 # le_bytes 4 2, r1, r2, 4 # le_bytes 4 202]"
  have ne: "r1 \<noteq> []" "r2 \<noteq> []" using len by auto
  have w: "fake_writer c \<noteq> None" using assms(1) by (simp add: fake_ok_def)
  have "response_stream_ok d p 0 ?fs"
    using assms(2,3) len ne
    by (simp add: validate_response_def validate_response_shape_def response_shape_ok_def
        contacts_code_expected_def echo_mismatch_def Let_def)
  moreover have "list_all (\<lambda>f. 1 \<le> length f \<and> length f \<le> MAX_PAYLOAD_SIZE) ?fs"
    using len by (simp add: MAX_PAYLOAD_SIZE_def)
  moreover have "fake_contacts_answer c = (Inr (), c\<lparr>fake_written := fake_written c @ concat (map (envelope 0x3E) ?fs)\<rparr>)"
    using w len r by (simp add: fake_contacts_answer_def py_then_def py_bind_def fake_send_connected)
  ultimately show ?thesis using assms(1) by (intro exI [of _ ?fs]) (simp add: answers_def fake_ok_def)
qed

lemma sync_answers:
  assumes "fake_ok c" "map_of DESCRIPTORS 10 = Some d"
  shows "\<exists>fs. answers p d c (py_bind fake_pop_offline fake_send c) fs"
proof (cases "offline c")
  case Nil
  then have "py_bind fake_pop_offline fake_send c = fake_send [10] c"
    by (simp add: py_bind_def fake_pop_offline_def)
  moreover have "response_stream_ok d p 0 [[10]]"
    using assms(2) by (intro single_completes) (auto simp: DESCRIPTORS_def descr_def response_shape_ok_def)
  ultimately show ?thesis using sent_answers [OF assms(1), of "[10]" d p] by auto
next
  case (Cons f fs)
  let ?c = "c\<lparr>offline := fs\<rparr>"
  have run: "py_bind fake_pop_offline fake_send c = fake_send f ?c"
    using Cons by (simp add: py_bind_def fake_pop_offline_def)
  have f: "offline_ok f" and c: "fake_ok ?c" using assms(1) Cons by (simp_all add: fake_ok_def)
  have "response_stream_ok d p 0 [f]"
    using f assms(2) by (intro single_completes)
      (auto simp: offline_ok_def valid_shape_iff inbox_codes_def DESCRIPTORS_def descr_def)
  with f c have "answers p d ?c (fake_send f ?c) [f]"
    using offline_ok_length [OF f] by (intro sent_answers) (auto simp: Suc_leI)
  then show ?thesis unfolding run by (intro exI [of _ "[f]"], rule answers_cong [rotated]) simp_all
qed

lemma fake_answer_answers:
  assumes c: "fake_ok c" and time: "time_value c + 1 < 4294967296" and p: "validate_command p = (Some d, None)"
  shows "\<exists>fs. answers p d c (fake_answer p c) fs"
proof -
  let ?op = "p ! 0"
  have shape: "command_shape_valid p" using descriptor_table [OF p] by auto
  have d: "map_of DESCRIPTORS ?op = Some d" if "?op \<noteq> CMD_SEND_TELEMETRY_REQ"
    using descriptor_table [OF p] that by auto
  note run = fake_answer_def Let_def
  consider "?op = 1" | "?op = 22" | "?op = 66" | "?op = 54" | "?op = 10" | "?op = 4" | "?op = 5"
    | (other) "?op \<notin> {1, 22, 66, 54, 10, 4, 5}" by auto
  then show ?thesis
  proof cases
    case 1
    obtain s where s: "self_info = Inr s" "length s = 72" "s ! 0 = 5" using self_info_ok by auto
    have "response_stream_ok d p 0 [s]" using s d 1
      by (intro single_completes) (auto simp: DESCRIPTORS_def descr_def response_shape_ok_def)
    moreover have "fake_answer p c = fake_send s c" using 1 by (simp add: run s(1))
    ultimately show ?thesis using sent_answers [OF c, of s d p] s by auto
  next
    case 2
    have len: "2 \<le> length p" using shape 2 by (simp add: command_shape_valid_def Let_def split: if_splits)
    let ?c2 = "c\<lparr>query_targets := query_targets c @ [p ! 1]\<rparr>"
    obtain s where s: "device_info (firmware_level c) (future_tail c) = Inr s"
        "length s = 82 + length (future_tail c)" "s ! 0 = 13" "s ! 1 = of_nat (firmware_level c)"
      using device_info_ok [of "firmware_level c" "future_tail c"] c by (auto simp: fake_ok_def)
    have lvl: "13 \<le> (of_nat (firmware_level c) :: byte)"
      using c by (simp add: fake_ok_def word_le_nat_alt unat_of_nat)
    have small: "length s \<le> 176" using s c by (simp add: fake_ok_def)
    have "response_stream_ok d p 0 [s]" using s d 2 lvl small
      by (intro single_completes) (auto simp: DESCRIPTORS_def descr_def response_shape_ok_def)
    then have "answers p d ?c2 (fake_send s ?c2) [s]"
      using s small c by (intro sent_answers) (auto simp: fake_ok_def)
    then have "answers p d c (fake_send s ?c2) [s]" by (rule answers_cong [rotated]) simp
    with 2 len s show ?thesis
      by (auto simp del: response_stream_ok.simps simp: run py_then_def py_bind_def py_get_def py_modify_def)
  next
    case 3
    show ?thesis
    proof (cases "firmware_level c < 14")
      case True
      with 3 c show ?thesis
        by (auto simp del: response_stream_ok.simps simp: run py_bind_def py_get_def intro!: exI [of _ "[[1, 1]]"] sent_answers err_completes)
    next
      case False
      let ?f = "29 # ascii ''synthetic-version''"
      have "response_stream_ok d p 0 [?f]" using d 3
        by (intro single_completes) (auto simp: DESCRIPTORS_def descr_def response_shape_ok_def)
      with False 3 c show ?thesis
        by (auto simp del: response_stream_ok.simps simp: run py_bind_def py_get_def intro!: exI [of _ "[?f]"] sent_answers)
    qed
  next
    case 4
    have "response_stream_ok d p 0 [[0]]" using d 4
      by (intro single_completes) (auto simp: DESCRIPTORS_def descr_def response_shape_ok_def)
    with 4 c show ?thesis by (auto simp del: response_stream_ok.simps simp: run intro!: exI [of _ "[[0]]"] sent_answers)
  next
    case 5
    with sync_answers [OF c, of d p] d show ?thesis by (simp add: run)
  next
    case 6
    have grammar: "desc_grammar d = Contacts" "{2, 3, 4} \<subseteq> set (desc_success d)"
      using d 6 by (auto simp: DESCRIPTORS_def descr_def)
    define c2 where "c2 = snd (py_then (py_modify id) (py_bind fake_pop_delay (\<lambda>delay. py_when (delay \<noteq> 0) (fake_sleep delay))) c)"
    have c2: "fake_ok c2" "fake_written c2 = fake_written c"
      and eq: "fake_answer p c = fake_contacts_answer c2"
      using 6 c unfolding c2_def
      by (auto simp del: response_stream_ok.simps simp: run py_defs fake_pop_delay_def fake_sleep_def fake_ok_def fake_contacts_answer_def split: list.splits)
    obtain fs where "answers p d c2 (fake_contacts_answer c2) fs"
      using contacts_answers [OF c2(1) grammar] by blast
    then show ?thesis unfolding eq using answers_cong [OF c2(2) [symmetric]] by blast
  next
    case 7
    let ?c2 = "c\<lparr>time_value := Suc (time_value c)\<rparr>"
    let ?f = "9 # le_bytes 4 (Suc (time_value c))"
    have "response_stream_ok d p 0 [?f]" using d 7
      by (intro single_completes) (auto simp: DESCRIPTORS_def descr_def response_shape_ok_def)
    then have "answers p d ?c2 (fake_send ?f ?c2) [?f]"
      using c by (intro sent_answers) (auto simp: fake_ok_def)
    then have "answers p d c (fake_send ?f ?c2) [?f]" by (rule answers_cong [rotated]) simp
    with 7 time show ?thesis
      by (auto simp del: response_stream_ok.simps simp: run py_then_def py_bind_def py_get_def py_modify_def py_lift_def py_to_bytes_def)
  next
    case other
    with c show ?thesis
      by (auto simp del: response_stream_ok.simps simp: run intro!: exI [of _ "[[1, 1]]"] sent_answers err_completes)
  qed
qed

lemma fake_command_answers:
  assumes "fake_ok c" "time_value c + 1 < 4294967296" "validate_command p = (Some d, None)"
  shows "\<exists>fs. answers p d c (fake_command p c) fs"
proof -
  let ?c = "count_command (p ! 0) c"
  have ne: "p \<noteq> []" using descriptor_table [OF assms(3)] by simp
  have "fake_ok ?c" "time_value ?c + 1 < 4294967296" and w: "fake_written c = fake_written ?c"
    using assms by (simp_all add: fake_ok_def count_command_def)
  then obtain fs where "answers p d ?c (fake_answer p ?c) fs"
    using fake_answer_answers assms(3) by blast
  then have "answers p d c (fake_answer p ?c) fs" by (rule answers_cong [OF w])
  with ne show ?thesis by (auto simp: fake_command_def py_defs)
qed

section \<open>Reading the mux's stream\<close>

lemma handle_loop_envelope:
  assumes "length p < 65536"
  shows "fake_handle_loop (envelope 0x3C p @ rest) = py_then (fake_command p) (fake_handle_loop rest)"
proof -
  have "le_val (take 2 (drop 1 (envelope 0x3C p @ rest))) = length p"
    using assms by (simp add: envelope_def)
  moreover have "drop (3 + length p) (envelope 0x3C p @ rest) = rest"
    by (simp add: envelope_def drop_Cons')
  ultimately show ?thesis by (subst fake_handle_loop.simps) (simp add: envelope_def Let_def)
qed

lemma handle_loop_commands:
  assumes "list_all (\<lambda>p. length p < 65536) ps" "length rest < 3"
  shows "fake_handle_loop (concat (map (envelope 0x3C) ps) @ rest) c
    = (case py_for ps fake_command c of (Inl e, c') \<Rightarrow> (Inl e, c') | (Inr _, c') \<Rightarrow> (Inr (), c'))"
  using assms(1)
proof (induction ps arbitrary: c)
  case Nil
  then show ?case using assms(2) by (subst fake_handle_loop.simps) (simp add: py_return_def)
next
  case (Cons p ps)
  then show ?case
    by (auto simp: handle_loop_envelope py_then_def py_bind_def py_return_def split: prod.splits sum.splits)
qed

text \<open>The clock replies of consecutive time requests.\<close>

lemma time_command:
  assumes "fake_writer c \<noteq> None" "time_value c + 1 < 4294967296"
  shows "fake_command [5] c = (Inr (), (count_command 5 c)\<lparr>time_value := time_value c + 1,
     fake_written := fake_written c @ envelope 0x3E (9 # le_bytes 4 (time_value c + 1))\<rparr>)"
  using assms by (simp add: fake_command_def fake_answer_def py_then_def py_bind_def py_get_def
      py_modify_def py_lift_def py_to_bytes_def fake_send_connected count_command_def)

lemma time_commands:
  assumes "fake_writer c \<noteq> None" "time_value c + n < 4294967296"
  shows "\<exists>c'. py_for (replicate n [5]) fake_command c = (Inr (replicate n ()), c')
    \<and> fake_written c' = fake_written c @ concat (map (\<lambda>i. envelope 0x3E (9 # le_bytes 4 (time_value c + i))) [1..<n + 1])"
  using assms
proof (induction n arbitrary: c)
  case 0
  then show ?case by (simp add: py_return_def)
next
  case (Suc n)
  let ?c = "(count_command 5 c)\<lparr>time_value := time_value c + 1,
     fake_written := fake_written c @ envelope 0x3E (9 # le_bytes 4 (time_value c + 1))\<rparr>"
  have "fake_writer ?c \<noteq> None" "time_value ?c + n < 4294967296"
    using Suc.prems by (simp_all add: count_command_def)
  from Suc.IH [OF this] obtain c' where c': "py_for (replicate n [5]) fake_command ?c = (Inr (replicate n ()), c')"
    "fake_written c' = fake_written ?c @ concat (map (\<lambda>i. envelope 0x3E (9 # le_bytes 4 (time_value ?c + i))) [1..<n + 1])"
    by blast
  have "[Suc 0..<Suc (Suc n)] = Suc 0 # map Suc [Suc 0..<Suc n]"
    by (simp only: map_Suc_upt) (simp add: upt_rec)
  then have shift: "map (\<lambda>i. envelope 0x3E (9 # le_bytes 4 (time_value c + i))) [Suc 0..<Suc (Suc n)]
     = envelope 0x3E (9 # le_bytes 4 (Suc (time_value c)))
         # map (\<lambda>i. envelope 0x3E (9 # le_bytes 4 (Suc (time_value c + i)))) [Suc 0..<Suc n]"
    by (simp only: list.map map_map o_def) simp
  have "time_value c + 1 < 4294967296" using Suc.prems by simp
  with time_command [OF Suc.prems(1)] c' show ?case
    by (simp add: py_bind_def py_return_def shift del: upt_Suc)
qed

section \<open>Properties\<close>

text \<open>C10. The fake companion is a companion the mux can talk to: for every firmware level from 13
  to 255 and every device-information tail of at most 94 bytes, each command the mux accepts is
  answered without an exception, the bytes written are whole frames for the mux's decoder, and the
  frames are a complete answer by the mux's response validator (a contacts request included); the
  companion stays in such a state.\<close>

theorem fake_reply_accepted:
  assumes "fake_ok c" "time_value c + 1 < 2 ^ 32" "validate_command p = (Some d, None)"
  shows "\<exists>fs c' bs. fake_command p c = (Inr (), c') \<and> fake_ok c' \<and> fake_written c' = fake_written c @ bs
    \<and> parse_stream COMPANION_TO_CLIENT_MARKER bs = (fs, Inr []) \<and> response_stream_ok d p 0 fs"
proof -
  obtain fs where a: "answers p d c (fake_command p c) fs"
    using fake_command_answers [OF assms(1) _ assms(3)] assms(2) by auto
  let ?c = "snd (fake_command p c)"
  have "fake_command p c = (Inr (), ?c)" using a by (metis answers_def prod.collapse)
  moreover have "parse_stream COMPANION_TO_CLIENT_MARKER (concat (map (envelope 0x3E) fs)) = (fs, Inr [])"
    using a parse_envelopes [of fs "0x3E"] unfolding answers_def COMPANION_TO_CLIENT_MARKER_def by simp
  ultimately show ?thesis using a unfolding answers_def by blast
qed

theorem fake_reply_accepted_witness:
  "\<exists>c'. fake_command [4] ((FakeCompanion_init 200 [1, 2, 3])\<lparr>fake_writer := Some 1\<rparr>) = (Inr (), c')"
proof -
  let ?c = "(FakeCompanion_init 200 [1, 2, 3])\<lparr>fake_writer := Some 1\<rparr>"
  have c: "fake_ok ?c" "time_value ?c + 1 < 2 ^ 32"
    by (simp_all add: fake_ok_def FakeCompanion_init_def)
  obtain d where d: "validate_command [4] = (Some d, None)"
    by (simp add: validate_command_def descriptor_def DESCRIPTORS_def command_shape_valid_def)
  show ?thesis using fake_reply_accepted [OF c d] by blast
qed

text \<open>The handler of the fake companion reads back what the mux's encoder writes: on the
  concatenation of encoded commands, with or without a cut-off header at the end, it runs exactly
  those commands in order, stops at the first exception, and gives up the connection either way.\<close>

theorem fake_reads_commands:
  assumes "map (\<lambda>p. encode p CLIENT_TO_COMPANION_MARKER) ps = map Inr fs" "length rest < 3"
  shows "fake_handle connection (concat fs @ rest) c =
    (case py_for ps fake_command (c\<lparr>fake_writer := Some connection\<rparr>) of
       (r, c') \<Rightarrow> (case r of Inl e \<Rightarrow> Inl e | Inr _ \<Rightarrow> Inr (),
          if fake_writer c' = Some connection then c'\<lparr>fake_writer := None\<rparr> else c'))"
proof -
  have fs: "fs = map (envelope 0x3C) ps" and len: "list_all (\<lambda>p. 1 \<le> length p \<and> length p \<le> MAX_PAYLOAD_SIZE) ps"
    using encode_all_eq [OF assms(1)] unfolding envelope_def CLIENT_TO_COMPANION_MARKER_def by auto
  have "list_all (\<lambda>p. length p < 65536) ps"
    using len by (auto simp: list_all_iff MAX_PAYLOAD_SIZE_def)
  with assms(2) show ?thesis
    by (auto simp: fake_handle_def py_defs fs handle_loop_commands split: prod.splits sum.splits)
qed

theorem fake_reads_commands_witness:
  "fst (fake_handle 7 [0x3C, 1, 0, 54, 0x3C, 1] (FakeCompanion_init 13 [])) = Inr ()"
proof -
  have enc: "map (\<lambda>p. encode p CLIENT_TO_COMPANION_MARKER) [[54]] = map Inr [[0x3C, 1, 0, 54]]"
    by (simp add: encode_def validate_marker_def CLIENT_TO_COMPANION_MARKER_def MAX_PAYLOAD_SIZE_def)
  show ?thesis
    using fake_reads_commands [OF enc, of "[0x3C, 1]" 7 "FakeCompanion_init 13 []"]
    by (simp add: fake_command_def fake_answer_def py_then_def py_bind_def py_modify_def py_return_def
        fake_send_connected count_command_def FakeCompanion_init_def)
qed

text \<open>The clock of the fake companion never repeats a value: the answers to any number of
  consecutive time requests are distinct payloads, each the previous value plus one. The script's
  check that six clients' time readings are pairwise distinct rests on this.\<close>

theorem fake_times_distinct:
  assumes "fake_writer c \<noteq> None" "time_value c + n < 2 ^ 32"
  shows "\<exists>c' bs. py_for (replicate n [5]) fake_command c = (Inr (replicate n ()), c')
    \<and> fake_written c' = fake_written c @ bs
    \<and> parse_stream COMPANION_TO_CLIENT_MARKER bs
        = (map (\<lambda>i. 9 # le_bytes 4 (time_value c + i)) [1..<n + 1], Inr [])
    \<and> distinct (map (\<lambda>i. (9 :: byte) # le_bytes 4 (time_value c + i)) [1..<n + 1])"
proof -
  let ?f = "\<lambda>i. (9 :: byte) # le_bytes 4 (time_value c + i)"
  have "time_value c + n < 4294967296" using assms(2) by simp
  from time_commands [OF assms(1) this] obtain c' where
    c': "py_for (replicate n [5]) fake_command c = (Inr (replicate n ()), c')"
      "fake_written c' = fake_written c @ concat (map (envelope 0x3E) (map ?f [1..<n + 1]))"
    by (auto simp: o_def simp del: upt_Suc)
  have "list_all (\<lambda>p. 1 \<le> length p \<and> length p \<le> MAX_PAYLOAD_SIZE) (map ?f [1..<n + 1])"
    by (simp add: list_all_iff MAX_PAYLOAD_SIZE_def)
  from parse_envelopes [OF this, of "0x3E"]
  have "parse_stream COMPANION_TO_CLIENT_MARKER (concat (map (envelope 0x3E) (map ?f [1..<n + 1])))
      = (map ?f [1..<n + 1], Inr [])"
    by (simp only: COMPANION_TO_CLIENT_MARKER_def)
  moreover have "inj_on ?f (set [1..<n + 1])"
  proof (rule inj_onI)
    fix i j assume "i \<in> set [1..<n + 1]" "j \<in> set [1..<n + 1]" "?f i = ?f j"
    then have "le_val (le_bytes 4 (time_value c + i)) = le_val (le_bytes 4 (time_value c + j))"
      and "time_value c + i < 4294967296" "time_value c + j < 4294967296" using assms(2) by auto
    then show "i = j" by simp
  qed
  ultimately show ?thesis using c' by (auto simp: distinct_map simp del: upt_Suc)
qed

theorem fake_times_distinct_witness:
  "\<exists>c'. py_for (replicate 6 [5]) fake_command ((FakeCompanion_init 13 [])\<lparr>fake_writer := Some 1\<rparr>) = (Inr (replicate 6 ()), c')"
  using fake_times_distinct [of "(FakeCompanion_init 13 [])\<lparr>fake_writer := Some 1\<rparr>" 6]
  by (auto simp: FakeCompanion_init_def)

text \<open>What a legacy client must see of the synthetic messages: the mux's conversion of a
  direct or channel message for a target below 3 removes exactly the SNR and the two reserved bytes
  and keeps sender or channel, path, type, timestamp and body.\<close>

theorem fake_messages_downgrade:
  assumes "ts < 2 ^ 32" "length body \<le> 150" "t < 3"
  shows "\<exists>p q. contact_message body ts = Inr p \<and> channel_message body ts = Inr q
    \<and> downgrade_inbox p t = Inr ([0x07] @ ascii ''PEER01'' @ [0xFF, 0] @ le_bytes 4 ts @ body)
    \<and> downgrade_inbox q t = Inr ([0x08, 1, 0xFF, 0] @ le_bytes 4 ts @ body)"
proof -
  let ?p = "[0x10, 8, 0, 0] @ ascii ''PEER01'' @ [0xFF, 0] @ le_bytes 4 ts @ body"
  let ?q = "[0x11, 12, 0, 0, 1, 0xFF, 0] @ le_bytes 4 ts @ body"
  have p: "validate_response_shape ?p = Inr ()" "validate_response_shape ?q = Inr ()"
    using assms(2)
    by (simp_all add: validate_response_shape_def response_shape_ok_def contact_text_response_valid_def ascii_def)
  have "downgrade_inbox ?p t = Inr (0x07 # drop 4 ?p)"
    using p(1) assms(3) by (intro downgrade_contact_v3) simp_all
  moreover have "downgrade_inbox ?q t = Inr (0x08 # drop 4 ?q)"
    using p(2) assms(3) by (intro downgrade_channel_v3) simp_all
  ultimately show ?thesis using assms(1)
    by (simp add: contact_message_def channel_message_def py_to_bytes_def)
qed

theorem fake_messages_downgrade_witness:
  "\<exists>p. contact_message (ascii ''duplicate'') 1234 = Inr p
     \<and> downgrade_inbox p 0 = Inr ([0x07] @ ascii ''PEER01'' @ [0xFF, 0] @ le_bytes 4 1234 @ ascii ''duplicate'')"
  using fake_messages_downgrade [of 1234 "ascii ''duplicate''" 0] by auto

end
