(* ===== verification/Frame_Relay.thy ===== *)
theory Frame_Relay
  imports Frame_Codec Py_Effects
begin

text \<open>
  The fault-injecting frame relay of \<open>scripts/check_live_reconnect.py\<close>: \<open>RelayFrame\<close> and
  \<open>ExclusiveFrameRelay\<close>, which sits between the mux and the physical companion, forwards whole
  companion envelopes, counts them, and can hold one response or pause the response stream.

  The record \<open>relay\<close> keeps the attributes of the class; an \<open>asyncio.Queue\<close> is the list of its
  items, oldest first; the mapping \<open>frame_counts\<close> is a map. \<open>pump_drain\<close> is the inner loop of
  \<open>_pump\<close> on the buffered bytes: it returns the envelopes written to the other side, the relay
  and the remaining buffer or the exception. \<open>relay_parse\<close> is the specification of the framing
  and \<open>forward_all\<close> what happens to the frames it reads; the framing is an interpretation of the
  locale \<open>stream_decoder\<close> of the frame codec. The relay's lifecycle (\<open>_handle\<close>, \<open>drop\<close>, \<open>close\<close>)
  is the step relation \<open>relay_step\<close>, whose lock component is \<open>_physical_lock\<close>.
\<close>

section \<open>State\<close>

datatype direction = CommandDir | ResponseDir

record relay_frame =
  rf_generation :: nat
  rf_direction :: direction
  rf_opcode :: byte
  rf_bytes :: nat

record relay =
  active :: "nat option"
  connections :: "(py_error + nat) list"
  closed :: "nat list"
  fault_reached :: "relay_frame list"
  frame_counts :: "nat \<times> direction \<times> byte \<rightharpoonup> nat"
  frame_history :: "relay_frame list"
  relay_generation :: nat
  closing :: bool
  hold_response :: "(nat \<times> byte) option"
  pause_after :: "(nat \<times> byte \<times> int) option"
  pause_match_count :: int
  responses_paused :: bool

definition HISTORY_LIMIT :: nat where
  "HISTORY_LIMIT = 4096"

definition relay_init :: relay where
  "relay_init = \<lparr>active = None, connections = [], closed = [], fault_reached = [],
     frame_counts = Map.empty, frame_history = [], relay_generation = 0, closing = False,
     hold_response = None, pause_after = None, pause_match_count = 0, responses_paused = False\<rparr>"

section \<open>Fault points\<close>

definition withhold :: "relay_frame \<Rightarrow> relay \<Rightarrow> bool \<times> relay" where
  "withhold f r =
     (if responses_paused r then (True, r)
      else if hold_response r = Some (rf_generation f, rf_opcode f)
      then (True, r\<lparr>hold_response := None, fault_reached := fault_reached r @ [f]\<rparr>)
      else case pause_after r of None \<Rightarrow> (False, r)
        | Some (generation, opcode, occurrence) \<Rightarrow>
            if (generation, opcode) = (rf_generation f, rf_opcode f) then
              (let r1 = r\<lparr>pause_match_count := pause_match_count r + 1\<rparr> in
               if pause_match_count r1 = occurrence
               then (False, r1\<lparr>pause_after := None, responses_paused := True,
                               fault_reached := fault_reached r1 @ [f]\<rparr>)
               else (False, r1))
            else (False, r))"

definition hold_next_response :: "nat \<Rightarrow> byte \<Rightarrow> (relay, unit) py" where
  "hold_next_response generation opcode r =
     (if hold_response r \<noteq> None \<or> pause_after r \<noteq> None
      then (Inl (AssertionError ''a relay fault point is already armed''), r)
      else (Inr (), r\<lparr>hold_response := Some (generation, opcode)\<rparr>))"

definition pause_after_response :: "nat \<Rightarrow> byte \<Rightarrow> int \<Rightarrow> (relay, unit) py" where
  "pause_after_response generation opcode occurrence r =
     (if occurrence < 1 then (Inl (AssertionError ''response occurrence must be positive''), r)
      else if hold_response r \<noteq> None \<or> pause_after r \<noteq> None
      then (Inl (AssertionError ''a relay fault point is already armed''), r)
      else (Inr (), r\<lparr>pause_after := Some (generation, opcode, occurrence), pause_match_count := 0\<rparr>))"

text \<open>\<open>wait_fault\<close> on a queue that stays empty for eight seconds is a timeout.\<close>

definition wait_fault :: "nat \<Rightarrow> byte \<Rightarrow> (relay, relay_frame) py" where
  "wait_fault generation opcode r = (case fault_reached r of
       [] \<Rightarrow> (Inl PyTimeoutError, r)
     | f # fs \<Rightarrow> if (rf_generation f, rf_opcode f) \<noteq> (generation, opcode)
         then (Inl (AssertionError ''unexpected relay fault point''), r\<lparr>fault_reached := fs\<rparr>)
         else (Inr f, r\<lparr>fault_reached := fs\<rparr>))"

definition count_frames :: "nat \<Rightarrow> direction \<Rightarrow> byte \<Rightarrow> relay \<Rightarrow> nat" where
  "count_frames generation dir opcode r =
     (case frame_counts r (generation, dir, opcode) of None \<Rightarrow> 0 | Some n \<Rightarrow> n)"

definition reset_faults :: "relay \<Rightarrow> relay" where
  "reset_faults r = r\<lparr>hold_response := None, pause_after := None, pause_match_count := 0,
     responses_paused := False\<rparr>"

section \<open>The pump\<close>

definition record_frame :: "relay_frame \<Rightarrow> relay \<Rightarrow> relay" where
  "record_frame f r =
     (let key = (rf_generation f, rf_direction f, rf_opcode f) in
      r\<lparr>frame_counts := (frame_counts r)(key \<mapsto> count_frames (rf_generation f) (rf_direction f) (rf_opcode f) r + 1),
        frame_history := keep_last HISTORY_LIMIT (frame_history r @ [f])\<rparr>)"

definition forward_frame :: "nat \<Rightarrow> direction \<Rightarrow> bytes \<Rightarrow> relay \<Rightarrow> bytes list \<times> relay" where
  "forward_frame generation dir encoded r =
     (let f = \<lparr>rf_generation = generation, rf_direction = dir, rf_opcode = encoded ! 3,
               rf_bytes = length encoded\<rparr>;
          r1 = record_frame f r
      in if dir = ResponseDir
         then (case withhold f r1 of (True, r2) \<Rightarrow> ([], r2) | (False, r2) \<Rightarrow> ([encoded], r2))
         else ([encoded], r1))"

function pump_drain :: "nat \<Rightarrow> direction \<Rightarrow> byte \<Rightarrow> relay \<Rightarrow> bytes \<Rightarrow> bytes list \<times> relay \<times> (py_error + bytes)" where
  "pump_drain generation dir marker r buffered =
     (if length buffered < 3 then ([], r, Inr buffered)
      else if buffered ! 0 \<noteq> marker then ([], r, Inl (AssertionError ''relay saw marker''))
      else let payload_length = header_size buffered; frame_length = payload_length + 3 in
        if payload_length < 1 \<or> payload_length > 176
        then ([], r, Inl (AssertionError ''relay saw invalid payload length''))
        else if length buffered < frame_length then ([], r, Inr buffered)
        else (case forward_frame generation dir (take frame_length buffered) r of (out, r1) \<Rightarrow>
          case pump_drain generation dir marker r1 (drop frame_length buffered) of
            (outs, r2, res) \<Rightarrow> (out @ outs, r2, res)))"
  by pat_completeness auto
termination
  by (relation "measure (\<lambda>(g, d, m, r, b). length b)") auto

declare pump_drain.simps [simp del]

text \<open>The outer loop over the reads of the source side, and its end at the end of the stream.\<close>

fun pump_reads :: "nat \<Rightarrow> direction \<Rightarrow> byte \<Rightarrow> relay \<Rightarrow> bytes \<Rightarrow> bytes list \<Rightarrow> bytes list \<times> relay \<times> (py_error + bytes)" where
  "pump_reads generation dir marker r buffered [] = ([], r, Inr buffered)"
| "pump_reads generation dir marker r buffered (data # reads) =
     (case pump_drain generation dir marker r (buffered @ data) of
        (outs, r1, Inl e) \<Rightarrow> (outs, r1, Inl e)
      | (outs, r1, Inr rest) \<Rightarrow>
          (case pump_reads generation dir marker r1 rest reads of (outs', r2, res) \<Rightarrow> (outs @ outs', r2, res)))"

definition pump :: "nat \<Rightarrow> direction \<Rightarrow> byte \<Rightarrow> relay \<Rightarrow> bytes list \<Rightarrow> bytes list \<times> relay \<times> (py_error + unit)" where
  "pump generation dir marker r reads = (case pump_reads generation dir marker r [] reads of
       (outs, r1, Inl e) \<Rightarrow> (outs, r1, Inl e)
     | (outs, r1, Inr buffered) \<Rightarrow> (outs, r1,
         if buffered \<noteq> [] then Inl (AssertionError ''relay source closed with incomplete bytes'') else Inr ()))"

section \<open>Lifecycle\<close>

text \<open>
  \<open>_handle\<close> up to the start of the pumps, given the outcome of \<open>asyncio.open_connection\<close>: the
  relay afterwards and the generation now served, if any. \<open>handle_finish\<close> is its \<open>finally\<close> block.
\<close>

definition handle_open :: "py_error + unit \<Rightarrow> relay \<Rightarrow> relay \<times> nat option" where
  "handle_open opened r =
     (if closing r then (r, None)
      else case opened of
          Inl e \<Rightarrow> (r\<lparr>connections := connections r @ [Inl e]\<rparr>, None)
        | Inr _ \<Rightarrow> (let g = relay_generation r + 1 in
            (r\<lparr>relay_generation := g, active := Some g, connections := connections r @ [Inr g]\<rparr>, Some g)))"

definition handle_finish :: "nat \<Rightarrow> relay \<Rightarrow> relay" where
  "handle_finish g r =
     (let r1 = (if active r = Some g then r\<lparr>active := None\<rparr> else r)
      in r1\<lparr>closed := closed r1 @ [g]\<rparr>)"

text \<open>
  \<open>drop\<close> closes both writers of the active connection, which ends its pumps, and then takes the
  next entry of the queue of closed generations, so the \<open>finally\<close> block runs in between.
\<close>

definition relay_drop :: "nat \<Rightarrow> (relay, unit) py" where
  "relay_drop g r =
     (if active r \<noteq> Some g then (Inl (AssertionError ''cannot drop relay generation''), r)
      else let r1 = handle_finish g r in
        case closed r1 of [] \<Rightarrow> (Inl PyTimeoutError, r1)
        | observed # rest \<Rightarrow>
            let r2 = r1\<lparr>closed := rest\<rparr> in
            if observed \<noteq> g then (Inl (AssertionError ''expected relay generation to close''), r2)
            else (Inr (), r2))"

definition relay_close :: "relay \<Rightarrow> relay" where
  "relay_close r = (let r1 = r\<lparr>closing := True\<rparr> in
     case active r1 of None \<Rightarrow> r1 | Some g \<Rightarrow> handle_finish g r1)"

text \<open>\<open>expect_generation\<close> on the queue of connections.\<close>

definition expect_generation :: "nat \<Rightarrow> (relay, unit) py" where
  "expect_generation expected r = (case connections r of
       [] \<Rightarrow> (Inl PyTimeoutError, r)
     | Inl e # rest \<Rightarrow> (Inl (AssertionError ''physical relay connection failed''), r\<lparr>connections := rest\<rparr>)
     | Inr observed # rest \<Rightarrow>
         (if observed \<noteq> expected then Inl (AssertionError ''expected generation'') else Inr (),
          r\<lparr>connections := rest\<rparr>))"

text \<open>\<open>await asyncio.wait_for(relay.closed.get(), timeout=3)\<close> of the live script.\<close>

definition take_closed :: "(relay, nat) py" where
  "take_closed r = (case closed r of [] \<Rightarrow> (Inl PyTimeoutError, r) | g # rest \<Rightarrow> (Inr g, r\<lparr>closed := rest\<rparr>))"

text \<open>
  The steps of the relay: the second component is the generation that holds \<open>_physical_lock\<close>.
  Only a handler that holds the lock opens, pumps and finishes.
\<close>

inductive relay_step :: "relay \<times> nat option \<Rightarrow> relay \<times> nat option \<Rightarrow> bool" where
  open_step: "handle_open opened r = (r', g) \<Longrightarrow> relay_step (r, None) (r', g)"
| pump_step: "pump_drain g dir m r buffered = (outs, r', res) \<Longrightarrow> relay_step (r, Some g) (r', Some g)"
| finish_step: "relay_step (r, Some g) (handle_finish g r, None)"
| drop_step: "relay_drop g r = (res, r') \<Longrightarrow> active r = Some g \<Longrightarrow> relay_step (r, Some g) (r', None)"
| hold_step: "hold_next_response generation opcode r = (res, r') \<Longrightarrow> relay_step (r, lock) (r', lock)"
| pause_step: "pause_after_response generation opcode n r = (res, r') \<Longrightarrow> relay_step (r, lock) (r', lock)"
| wait_step: "wait_fault generation opcode r = (res, r') \<Longrightarrow> relay_step (r, lock) (r', lock)"
| reset_step: "relay_step (r, lock) (reset_faults r, lock)"
| expect_step: "expect_generation expected r = (res, r') \<Longrightarrow> relay_step (r, lock) (r', lock)"
| take_step: "take_closed r = (res, r') \<Longrightarrow> relay_step (r, lock) (r', lock)"
| close_step: "relay_step (r, active r) (relay_close r, None)"

section \<open>Specification of the framing\<close>

function relay_parse :: "byte \<Rightarrow> bytes \<Rightarrow> bytes list \<times> (py_error + bytes)" where
  "relay_parse m bs =
     (if length bs < 3 then ([], Inr bs)
      else if bs ! 0 \<noteq> m then ([], Inl (AssertionError ''relay saw marker''))
      else if header_size bs < 1 \<or> header_size bs > 176
      then ([], Inl (AssertionError ''relay saw invalid payload length''))
      else if length bs < header_size bs + 3 then ([], Inr bs)
      else emit_payload (Some (take (header_size bs + 3) bs)) (relay_parse m (drop (header_size bs + 3) bs)))"
  by pat_completeness auto
termination
  by (relation "measure (\<lambda>(m, bs). length bs)") auto

declare relay_parse.simps [simp del]

fun forward_all :: "nat \<Rightarrow> direction \<Rightarrow> relay \<Rightarrow> bytes list \<Rightarrow> bytes list \<times> relay" where
  "forward_all generation dir r [] = ([], r)"
| "forward_all generation dir r (f # fs) = (case forward_frame generation dir f r of (out, r1) \<Rightarrow>
     case forward_all generation dir r1 fs of (outs, r2) \<Rightarrow> (out @ outs, r2))"

lemma relay_parse_append:
  "relay_parse m (xs @ ys) = continue_parse (relay_parse m) (relay_parse m xs) ys"
proof (induction m xs rule: relay_parse.induct)
  case (1 m xs)
  consider "length xs < 3" | "3 \<le> length xs" "xs ! 0 \<noteq> m"
    | "3 \<le> length xs" "xs ! 0 = m" "header_size xs < 1 \<or> header_size xs > 176"
    | "3 \<le> length xs" "xs ! 0 = m" "\<not> (header_size xs < 1 \<or> header_size xs > 176)" "length xs < header_size xs + 3"
    | "3 \<le> length xs" "xs ! 0 = m" "\<not> (header_size xs < 1 \<or> header_size xs > 176)" "header_size xs + 3 \<le> length xs"
    by linarith
  then show ?case
  proof cases
    case 5
    let ?n = "header_size xs + 3"
    have ne: "xs \<noteq> []" using 5 by auto
    have "relay_parse m xs = emit_payload (Some (take ?n xs)) (relay_parse m (drop ?n xs))"
      using 5 by (subst relay_parse.simps) simp
    moreover have "relay_parse m (xs @ ys) = emit_payload (Some (take ?n xs)) (relay_parse m (drop ?n xs @ ys))"
      using 5 ne by (subst relay_parse.simps) (simp add: nth_append)
    moreover have "relay_parse m (drop ?n xs @ ys) = continue_parse (relay_parse m) (relay_parse m (drop ?n xs)) ys"
      using 5 by (intro "1.IH") auto
    ultimately show ?thesis by (auto simp: continue_parse_def emit_payload_def split: sum.splits)
  qed (auto simp: relay_parse.simps [of m xs] relay_parse.simps [of m "xs @ ys"] continue_parse_def nth_append)
qed

lemma relay_parse_rest: "relay_parse m bs = (fs, Inr rest) \<Longrightarrow> relay_parse m rest = ([], Inr rest)"
proof (induction m bs arbitrary: fs rule: relay_parse.induct)
  case (1 m bs)
  show ?case
  proof (cases "3 \<le> length bs \<and> bs ! 0 = m \<and> \<not> (header_size bs < 1 \<or> header_size bs > 176) \<and> header_size bs + 3 \<le> length bs")
    case True
    with "1.prems" obtain fs' where "relay_parse m (drop (header_size bs + 3) bs) = (fs', Inr rest)"
      by (cases "relay_parse m (drop (header_size bs + 3) bs)") (auto simp: relay_parse.simps [of m bs] emit_payload_def)
    with True "1.IH" show ?thesis by auto
  next
    case False
    with "1.prems" have "rest = bs \<and> fs = []" by (auto simp: relay_parse.simps [of m bs] split: if_splits)
    with "1.prems" show ?thesis by simp
  qed
qed

interpretation relay_stream: stream_decoder "relay_parse m" "\<lambda>buffered c. relay_parse m (buffered @ c)" id id
    "\<lambda>buffered. relay_parse m buffered = ([], Inr buffered)" for m
proof (unfold_locales, goal_cases)
  case (1 xs ys)
  then show ?case by (rule relay_parse_append)
next
  case (3 s c)
  then show ?case by (auto simp: abs_result_def prod_eq_iff split: sum.splits)
next
  case (4 s c ps s')
  then show ?case by (metis relay_parse_rest)
qed simp

lemma pump_drain_parse:
  "pump_drain g dir m r bs = (case relay_parse m bs of (fs, res) \<Rightarrow>
     case forward_all g dir r fs of (outs, r') \<Rightarrow> (outs, r', res))"
proof (induction g dir m r bs rule: pump_drain.induct)
  case (1 g dir m r bs)
  show ?case
  proof (cases "3 \<le> length bs \<and> bs ! 0 = m \<and> \<not> (header_size bs < 1 \<or> header_size bs > 176) \<and> header_size bs + 3 \<le> length bs")
    case True
    with "1.IH" show ?thesis
      by (auto simp: pump_drain.simps [of g dir m r bs] relay_parse.simps [of m bs] Let_def emit_payload_def
        split: prod.splits)
  next
    case False
    then show ?thesis
      by (auto simp: pump_drain.simps [of g dir m r bs] relay_parse.simps [of m bs] Let_def)
  qed
qed

section \<open>The pump and the specification\<close>

lemma forward_all_append:
  "forward_all g dir r (fs @ fs') = (case forward_all g dir r fs of (outs, r1) \<Rightarrow>
     case forward_all g dir r1 fs' of (outs', r2) \<Rightarrow> (outs @ outs', r2))"
  by (induction fs arbitrary: r) (auto split: prod.splits)

lemma pump_reads_chunks:
  "pump_reads g dir m r buffered reads =
    (case run_chunks (\<lambda>b c. relay_parse m (b @ c)) buffered reads of (fs, res) \<Rightarrow>
     case forward_all g dir r fs of (outs, r') \<Rightarrow> (outs, r', res))"
proof (induction reads arbitrary: r buffered)
  case Nil
  then show ?case by simp
next
  case (Cons data reads)
  obtain fs res where fs: "relay_parse m (buffered @ data) = (fs, res)" by fastforce
  obtain outs r1 where o: "forward_all g dir r fs = (outs, r1)" by fastforce
  show ?case
  proof (cases res)
    case (Inl e)
    with fs o show ?thesis by (simp add: pump_drain_parse)
  next
    case (Inr rest)
    with fs o Cons.IH [of r1 rest] show ?thesis
      by (auto simp: pump_drain_parse forward_all_append split: prod.splits)
  qed
qed

lemma relay_parse_Nil: "relay_parse m [] = ([], Inr [])"
  by (simp add: relay_parse.simps)

lemma pump_reads_parse:
  "pump_reads g dir m r [] reads = (case relay_parse m (concat reads) of (fs, res) \<Rightarrow>
     case forward_all g dir r fs of (outs, r') \<Rightarrow> (outs, r', res))"
proof -
  have "abs_result id (run_chunks (\<lambda>b c. relay_parse m (b @ c)) [] reads) = relay_parse m (concat reads)"
    using relay_stream.run_chunks_parse [of m "[]" reads] relay_parse_Nil by simp
  moreover have "abs_result id x = x" for x :: "bytes list \<times> (py_error + bytes)"
    by (cases x) (auto simp: abs_result_def split: sum.splits)
  ultimately show ?thesis by (simp add: pump_reads_chunks)
qed

lemma relay_parse_concat: "relay_parse m bs = (fs, Inr rest) \<Longrightarrow> concat fs @ rest = bs"
proof (induction m bs arbitrary: fs rule: relay_parse.induct)
  case (1 m bs)
  show ?case
  proof (cases "3 \<le> length bs \<and> bs ! 0 = m \<and> \<not> (header_size bs < 1 \<or> header_size bs > 176) \<and> header_size bs + 3 \<le> length bs")
    case True
    with "1.prems" obtain fs' where fs': "relay_parse m (drop (header_size bs + 3) bs) = (fs', Inr rest)"
        "fs = take (header_size bs + 3) bs # fs'"
      by (cases "relay_parse m (drop (header_size bs + 3) bs)") (auto simp: relay_parse.simps [of m bs] emit_payload_def)
    with True "1.IH" have "concat fs' @ rest = drop (header_size bs + 3) bs" by auto
    with fs' show ?thesis by simp
  next
    case False
    with "1.prems" show ?thesis by (auto simp: relay_parse.simps [of m bs] split: if_splits)
  qed
qed

text \<open>On well-formed streams the relay reads what the mux's decoder reads.\<close>

lemma relay_parse_encoded:
  assumes "list_all (\<lambda>p. 1 \<le> length p \<and> length p \<le> 176) ps"
  shows "relay_parse m (concat (map (\<lambda>p. m # le_bytes 2 (length p) @ p) ps))
    = (map (\<lambda>p. m # le_bytes 2 (length p) @ p) ps, Inr [])"
  using assms
proof (induction ps)
  case Nil
  then show ?case by (simp add: relay_parse_Nil)
next
  case (Cons p ps)
  let ?e = "\<lambda>p. m # le_bytes 2 (length p) @ p"
  let ?bs = "?e p @ concat (map ?e ps)"
  have len: "1 \<le> length p" "length p \<le> 176" using Cons.prems by auto
  have h: "header_size ?bs = length p" using len by (simp add: header_size_sum le_bytes_2 unat_of_nat)
  have "relay_parse m ?bs = emit_payload (Some (?e p)) (relay_parse m (concat (map ?e ps)))"
    by (subst relay_parse.simps, unfold h) (use len in \<open>auto simp: take_Cons' drop_Cons'\<close>)
  with Cons show ?case by (simp add: emit_payload_def)
qed

section \<open>What the fault points do to the response stream\<close>

definition frame_of :: "nat \<Rightarrow> direction \<Rightarrow> bytes \<Rightarrow> relay_frame" where
  "frame_of g dir e = \<lparr>rf_generation = g, rf_direction = dir, rf_opcode = e ! 3, rf_bytes = length e\<rparr>"

definition disarmed :: "relay \<Rightarrow> bool" where
  "disarmed r \<longleftrightarrow> hold_response r = None \<and> pause_after r = None \<and> \<not> responses_paused r"

fun until_nth :: "nat \<Rightarrow> ('a \<Rightarrow> bool) \<Rightarrow> 'a list \<Rightarrow> 'a list" where
  "until_nth n P [] = []"
| "until_nth n P (x # xs) = x # (if P x then (if n \<le> 1 then [] else until_nth (n - 1) P xs) else until_nth n P xs)"

lemma record_frame_faults [simp]:
  "hold_response (record_frame f r) = hold_response r" "pause_after (record_frame f r) = pause_after r"
  "pause_match_count (record_frame f r) = pause_match_count r"
  "responses_paused (record_frame f r) = responses_paused r"
  "fault_reached (record_frame f r) = fault_reached r"
  "active (record_frame f r) = active r" "connections (record_frame f r) = connections r"
  "closed (record_frame f r) = closed r" "relay_generation (record_frame f r) = relay_generation r"
  "closing (record_frame f r) = closing r"
  by (simp_all add: record_frame_def Let_def)

lemma withhold_keeps [simp]:
  "frame_counts (snd (withhold f r)) = frame_counts r" "frame_history (snd (withhold f r)) = frame_history r"
  "active (snd (withhold f r)) = active r" "connections (snd (withhold f r)) = connections r"
  "closed (snd (withhold f r)) = closed r" "relay_generation (snd (withhold f r)) = relay_generation r"
  "closing (snd (withhold f r)) = closing r"
  by (auto simp: withhold_def Let_def split: option.splits)

lemma forward_frame_snd:
  "snd (forward_frame g dir e r) = (if dir = ResponseDir then snd (withhold (frame_of g dir e) (record_frame (frame_of g dir e) r))
     else record_frame (frame_of g dir e) r)"
  by (auto simp: forward_frame_def frame_of_def Let_def split: prod.splits bool.splits)

lemma forward_all_snd: "snd (forward_all g dir r (f # fs)) = snd (forward_all g dir (snd (forward_frame g dir f r)) fs)"
  by (auto split: prod.splits)

lemma forward_all_fst: "fst (forward_all g dir r (f # fs)) = fst (forward_frame g dir f r) @ fst (forward_all g dir (snd (forward_frame g dir f r)) fs)"
  by (auto split: prod.splits)

lemma forward_command: "fst (forward_all g CommandDir r fs) = fs"
  by (induction fs arbitrary: r) (simp_all add: forward_all_fst forward_frame_def Let_def del: forward_all.simps(2))

lemma forward_disarmed: "disarmed r \<Longrightarrow> fst (forward_all g dir r fs) = fs"
proof (induction fs arbitrary: r)
  case (Cons f fs)
  have "disarmed (snd (forward_frame g dir f r)) \<and> fst (forward_frame g dir f r) = [f]"
    using Cons.prems by (auto simp: forward_frame_def disarmed_def withhold_def Let_def)
  with Cons.IH show ?case by (simp add: forward_all_fst del: forward_all.simps(2))
qed simp

lemma forward_paused: "responses_paused r \<Longrightarrow> fst (forward_all g ResponseDir r fs) = []"
proof (induction fs arbitrary: r)
  case (Cons f fs)
  have "responses_paused (snd (forward_frame g ResponseDir f r)) \<and> fst (forward_frame g ResponseDir f r) = []"
    using Cons.prems by (auto simp: forward_frame_def withhold_def Let_def)
  with Cons.IH show ?case by (simp add: forward_all_fst del: forward_all.simps(2))
qed simp

lemma forward_held:
  assumes "hold_response r = Some (g, op)" "pause_after r = None" "\<not> responses_paused r"
  shows "fst (forward_all g ResponseDir r fs)
    = takeWhile (\<lambda>f. f ! 3 \<noteq> op) fs @ tl (dropWhile (\<lambda>f. f ! 3 \<noteq> op) fs)"
  using assms
proof (induction fs arbitrary: r)
  case (Cons f fs)
  let ?r = "snd (forward_frame g ResponseDir f r)"
  show ?case
  proof (cases "f ! 3 = op")
    case True
    with Cons.prems have "disarmed ?r \<and> fst (forward_frame g ResponseDir f r) = []"
      by (auto simp: forward_frame_def withhold_def disarmed_def Let_def)
    with True show ?thesis by (simp add: forward_all_fst forward_disarmed del: forward_all.simps(2))
  next
    case False
    with Cons.prems have "hold_response ?r = Some (g, op) \<and> pause_after ?r = None \<and> \<not> responses_paused ?r
        \<and> fst (forward_frame g ResponseDir f r) = [f]"
      by (auto simp: forward_frame_def withhold_def Let_def)
    with False Cons.IH [of ?r] show ?thesis by (simp add: forward_all_fst del: forward_all.simps(2))
  qed
qed simp

lemma forward_pausing:
  assumes "hold_response r = None" "pause_after r = Some (g, op, int n)" "\<not> responses_paused r"
    "pause_match_count r = int k" "k < n"
  shows "fst (forward_all g ResponseDir r fs) = until_nth (n - k) (\<lambda>f. f ! 3 = op) fs"
  using assms
proof (induction fs arbitrary: r k)
  case (Cons f fs)
  let ?r = "snd (forward_frame g ResponseDir f r)"
  have out: "fst (forward_frame g ResponseDir f r) = [f]"
    using Cons.prems by (auto simp: forward_frame_def withhold_def Let_def)
  show ?case
  proof (cases "f ! 3 = op")
    case match: True
    show ?thesis
    proof (cases "Suc k = n")
      case True
      with Cons.prems match have "responses_paused ?r"
        by (auto simp: forward_frame_def withhold_def Let_def)
      moreover have "n - k \<le> 1" using True by simp
      ultimately show ?thesis using match out by (simp add: forward_all_fst forward_paused del: forward_all.simps(2))
    next
      case False
      with Cons.prems match have "hold_response ?r = None \<and> pause_after ?r = Some (g, op, int n)
          \<and> \<not> responses_paused ?r \<and> pause_match_count ?r = int (Suc k)"
        by (auto simp: forward_frame_def withhold_def Let_def)
      moreover have "\<not> n - k \<le> 1" "n - k - 1 = n - Suc k" "Suc k < n" using False Cons.prems by simp_all
      ultimately show ?thesis using Cons.IH [of ?r "Suc k"] match out
        by (simp add: forward_all_fst del: forward_all.simps(2))
    qed
  next
    case False
    with Cons.prems have "hold_response ?r = None \<and> pause_after ?r = Some (g, op, int n)
        \<and> \<not> responses_paused ?r \<and> pause_match_count ?r = int k"
      by (auto simp: forward_frame_def withhold_def Let_def)
    with Cons.IH [of ?r k] Cons.prems False out show ?thesis
      by (simp add: forward_all_fst del: forward_all.simps(2))
  qed
qed simp

section \<open>Counting and history\<close>

lemma count_record_frame:
  "count_frames g' dir' op (record_frame f r) = count_frames g' dir' op r
     + (if rf_generation f = g' \<and> rf_direction f = dir' \<and> rf_opcode f = op then 1 else 0)"
  by (auto simp: count_frames_def record_frame_def Let_def)

lemma count_withhold [simp]: "count_frames g dir op (snd (withhold f r)) = count_frames g dir op r"
  by (simp add: count_frames_def)

lemma forward_all_counts:
  "count_frames g' dir' op (snd (forward_all g dir r fs)) = count_frames g' dir' op r
     + (if g' = g \<and> dir' = dir then length (filter (\<lambda>f. f ! 3 = op) fs) else 0)"
  by (induction fs arbitrary: r)
    (auto simp: forward_all_snd forward_frame_snd count_record_frame frame_of_def simp del: forward_all.simps(2))

lemma forward_all_history:
  assumes "length (frame_history r) \<le> HISTORY_LIMIT"
  shows "frame_history (snd (forward_all g dir r fs)) = keep_last HISTORY_LIMIT (frame_history r @ map (frame_of g dir) fs)"
  using assms
proof (induction fs arbitrary: r)
  case Nil
  then show ?case by (simp add: keep_last_short)
next
  case (Cons f fs)
  let ?r = "snd (forward_frame g dir f r)"
  have h: "frame_history ?r = keep_last HISTORY_LIMIT (frame_history r @ [frame_of g dir f])"
    by (auto simp: forward_frame_snd record_frame_def Let_def)
  then have "length (frame_history ?r) \<le> HISTORY_LIMIT" by (simp add: length_keep_last)
  from Cons.IH [OF this] h show ?case
    by (simp add: forward_all_snd keep_last_keep_last del: forward_all.simps(2))
qed

section \<open>The lifecycle invariant\<close>

fun opened_generations :: "(py_error + nat) list \<Rightarrow> nat list" where
  "opened_generations [] = []"
| "opened_generations (Inl e # xs) = opened_generations xs"
| "opened_generations (Inr g # xs) = g # opened_generations xs"

lemma opened_generations_append [simp]: "opened_generations (xs @ ys) = opened_generations xs @ opened_generations ys"
  by (induction xs rule: opened_generations.induct) auto

definition relay_inv :: "relay \<times> nat option \<Rightarrow> bool" where
  "relay_inv s \<longleftrightarrow> (case s of (r, lock) \<Rightarrow>
     active r = lock \<and> (\<forall>g. lock = Some g \<longrightarrow> g = relay_generation r)
     \<and> sorted_wrt (<) (closed r)
     \<and> (\<forall>x \<in> set (closed r). x \<le> relay_generation r \<and> lock \<noteq> Some x)
     \<and> sorted_wrt (<) (opened_generations (connections r))
     \<and> (\<forall>x \<in> set (opened_generations (connections r)). x \<le> relay_generation r)
     \<and> length (frame_history r) \<le> HISTORY_LIMIT
     \<and> (hold_response r = None \<or> pause_after r = None))"

lemma relay_inv_init: "relay_inv (relay_init, None)"
  by (simp add: relay_inv_def relay_init_def)

lemma forward_all_keeps:
  "active (snd (forward_all g dir r fs)) = active r \<and> connections (snd (forward_all g dir r fs)) = connections r
   \<and> closed (snd (forward_all g dir r fs)) = closed r \<and> relay_generation (snd (forward_all g dir r fs)) = relay_generation r"
  by (induction fs arbitrary: r) (auto simp: forward_all_snd forward_frame_snd simp del: forward_all.simps(2))

lemma withhold_armed:
  "hold_response r = None \<or> pause_after r = None \<Longrightarrow> hold_response (snd (withhold f r)) = None \<or> pause_after (snd (withhold f r)) = None"
  by (auto simp: withhold_def Let_def split: option.splits)

lemma forward_all_armed:
  "hold_response r = None \<or> pause_after r = None \<Longrightarrow>
    hold_response (snd (forward_all g dir r fs)) = None \<or> pause_after (snd (forward_all g dir r fs)) = None"
proof (induction fs arbitrary: r)
  case (Cons f fs)
  have "hold_response (snd (forward_frame g dir f r)) = None \<or> pause_after (snd (forward_frame g dir f r)) = None"
    unfolding forward_frame_snd using Cons.prems by (auto intro!: withhold_armed)
  from Cons.IH [OF this] show ?case by (simp only: forward_all_snd)
qed simp

lemma pump_drain_inv:
  assumes "relay_inv (r, lock)" "pump_drain g dir m r buffered = (outs, r', res)"
  shows "relay_inv (r', lock)"
proof -
  obtain fs where "r' = snd (forward_all g dir r fs)"
    using assms(2) by (auto simp: pump_drain_parse split: prod.splits) (metis snd_conv)
  with assms(1) forward_all_keeps [of g dir r fs] forward_all_armed [of r g dir fs] forward_all_history [of r g dir fs]
    length_keep_last show ?thesis by (simp add: relay_inv_def)
qed

lemma finish_inv: "relay_inv (r, Some g) \<Longrightarrow> relay_inv (handle_finish g r, None)"
  by (auto simp: relay_inv_def handle_finish_def sorted_wrt_append order.strict_iff_order)

lemma relay_step_inv: "relay_step s t \<Longrightarrow> relay_inv s \<Longrightarrow> relay_inv t"
proof (induction rule: relay_step.induct)
  case (open_step opened r r' g)
  then show ?case
    by (auto simp: relay_inv_def handle_open_def sorted_wrt_append Let_def less_Suc_eq_le le_SucI split: if_splits sum.splits)
      (use Suc_n_not_le_n in blast)+
next
  case (pump_step g dir m r buffered outs r' res)
  then show ?case by (blast intro: pump_drain_inv)
next
  case (drop_step g r res r')
  from drop_step(3) have "relay_inv (handle_finish g r, None)" by (rule finish_inv)
  with drop_step(1,2) show ?case
    by (auto simp: relay_drop_def relay_inv_def Let_def split: if_splits list.splits)
next
  case (close_step r)
  then have inv: "relay_inv (r\<lparr>closing := True\<rparr>, active r)" by (simp add: relay_inv_def)
  show ?case
  proof (cases "active r")
    case None
    with inv show ?thesis by (simp add: relay_close_def)
  next
    case (Some g)
    with finish_inv [of "r\<lparr>closing := True\<rparr>" g] inv show ?thesis by (simp add: relay_close_def)
  qed
next
  case (expect_step expected r res r' lock)
  then show ?case
    by (auto simp: expect_generation_def relay_inv_def split: list.splits sum.splits)
qed (auto simp: relay_inv_def handle_finish_def sorted_wrt_append order.strict_iff_order hold_next_response_def
    pause_after_response_def wait_fault_def reset_faults_def take_closed_def simp del: not_None_eq split: if_splits list.splits)

lemma relay_reachable_inv: "relay_step\<^sup>*\<^sup>* (relay_init, None) s \<Longrightarrow> relay_inv s"
  by (induction rule: rtranclp_induct) (auto intro: relay_inv_init relay_step_inv)

section \<open>Counters\<close>

lemma pump_drain_counts:
  assumes "pump_drain g dir m r buffered = (outs, r', res)"
  shows "count_frames g' dir' op r \<le> count_frames g' dir' op r'" "g' \<noteq> g \<Longrightarrow> count_frames g' dir' op r' = count_frames g' dir' op r"
proof -
  obtain fs where "r' = snd (forward_all g dir r fs)"
    using assms by (auto simp: pump_drain_parse split: prod.splits) (metis snd_conv)
  then show "count_frames g' dir' op r \<le> count_frames g' dir' op r'" "g' \<noteq> g \<Longrightarrow> count_frames g' dir' op r' = count_frames g' dir' op r"
    by (simp_all add: forward_all_counts)
qed

lemmas relay_op_defs = handle_open_def handle_finish_def relay_drop_def hold_next_response_def pause_after_response_def
  wait_fault_def reset_faults_def expect_generation_def take_closed_def relay_close_def

lemma relay_step_counts:
  assumes "relay_step s t"
  shows "count_frames g dir op (fst s) \<le> count_frames g dir op (fst t) \<and> (snd s \<noteq> Some g \<longrightarrow> count_frames g dir op (fst t) = count_frames g dir op (fst s))"
  using assms
proof (cases rule: relay_step.cases)
  case (pump_step g' dir' m r buffered outs r' res)
  then show ?thesis using pump_drain_counts [OF pump_step(3)] by auto
qed (auto simp: relay_op_defs count_frames_def Let_def split: if_splits sum.splits list.splits option.splits)

text \<open>The counters never decrease, and those of a generation that has lost the lock are final.\<close>

lemma relay_counts_mono:
  "relay_step\<^sup>*\<^sup>* s t \<Longrightarrow> count_frames g dir op (fst s) \<le> count_frames g dir op (fst t)"
  by (induction rule: rtranclp_induct) (use relay_step_counts le_trans in blast)+

lemma relay_step_retired:
  assumes "relay_step s t" "relay_inv s" "g \<le> relay_generation (fst s)" "snd s \<noteq> Some g"
  shows "g \<le> relay_generation (fst t) \<and> snd t \<noteq> Some g"
  using assms
proof (cases rule: relay_step.cases)
  case (pump_step g' dir' m r buffered outs r' res)
  then obtain fs where "r' = snd (forward_all g' dir' r fs)"
    by (auto simp: pump_drain_parse split: prod.splits) (metis snd_conv)
  with pump_step assms forward_all_keeps show ?thesis by auto
qed (auto simp: relay_op_defs Let_def split: if_splits sum.splits list.splits option.splits)

lemma retired_generation_final:
  assumes "relay_step\<^sup>*\<^sup>* s t" "relay_inv s" "g \<le> relay_generation (fst s)" "snd s \<noteq> Some g"
  shows "count_frames g dir op (fst t) = count_frames g dir op (fst s) \<and> relay_inv t \<and> g \<le> relay_generation (fst t) \<and> snd t \<noteq> Some g"
  using assms
proof (induction rule: rtranclp_induct)
  case (step t u)
  then show ?case using relay_step_counts [of t u g dir op] relay_step_retired [of t u g] relay_step_inv [of t u] by auto
qed simp

section \<open>Properties\<close>

text \<open>C7. The relay is transparent while no fault point is armed, and always towards the companion:
  whatever the cutting into reads, the bytes it forwards are exactly the bytes it received, less
  the incomplete frame still buffered.\<close>

theorem relay_transparent:
  assumes "dir = CommandDir \<or> (hold_response r = None \<and> pause_after r = None \<and> \<not> responses_paused r)"
    and "pump_reads g dir m r [] reads = (outs, r', Inr buffered)"
  shows "concat outs @ buffered = concat reads"
proof -
  obtain fs where fs: "relay_parse m (concat reads) = (fs, Inr buffered)" "outs = fst (forward_all g dir r fs)"
    using assms(2) by (auto simp: pump_reads_parse split: prod.splits)
  have "outs = fs" using fs(2) assms(1) forward_command forward_disarmed
    by (cases dir) (auto simp: disarmed_def)
  with relay_parse_concat [OF fs(1)] show ?thesis by simp
qed

theorem relay_transparent_witness:
  "concat [[0x3E, 1, 0, 10]] @ [0x3E] = concat [[0x3E :: byte, 1], [0, 10, 0x3E]]"
proof (rule relay_transparent [where dir = ResponseDir and g = 1 and m = "0x3E" and r = relay_init
      and r' = "snd (forward_frame 1 ResponseDir [0x3E, 1, 0, 10] relay_init)"])
  show "pump_reads 1 ResponseDir 0x3E relay_init [] [[0x3E, 1], [0, 10, 0x3E]]
      = ([[0x3E, 1, 0, 10]], snd (forward_frame 1 ResponseDir [0x3E, 1, 0, 10] relay_init), Inr [0x3E])"
    by (simp add: pump_drain.simps header_size_def forward_frame_def withhold_def record_frame_def Let_def relay_init_def)
qed (simp add: relay_init_def)

text \<open>The relay accepts every stream of frames the mux's codec can encode: the pump ends
  without an exception, forwards the envelopes in order whatever the cutting into reads, and has
  counted each opcode as often as it occurred.\<close>

theorem relay_accepts_encoded:
  assumes "map (\<lambda>p. encode p m) ps = map Inr fs" "concat reads = concat fs"
    and "hold_response r = None" "pause_after r = None" "\<not> responses_paused r"
  shows "\<exists>r'. pump g dir m r reads = (fs, r', Inr ())
    \<and> count_frames g dir op r' = count_frames g dir op r + length (filter (\<lambda>p. p ! 0 = op) ps)"
proof -
  note enc = encode_all_eq [OF assms(1)]
  have len: "list_all (\<lambda>p. 1 \<le> length p \<and> length p \<le> 176) ps" using enc by (auto simp: list_all_iff MAX_PAYLOAD_SIZE_def)
  have fs: "fs = map (\<lambda>p. m # le_bytes 2 (length p) @ p) ps" using enc by simp
  have parse: "relay_parse m (concat reads) = (fs, Inr [])"
    using relay_parse_encoded [OF len, of m] assms(2) fs by simp
  obtain r' where r': "forward_all g dir r fs = (fs, r')"
    using forward_disarmed [of r g dir fs] assms(3-5) by (metis disarmed_def prod.collapse)
  then have "count_frames g dir op r' = count_frames g dir op r + length (filter (\<lambda>f. f ! 3 = op) fs)"
    using forward_all_counts [of g dir op g dir r fs] by simp
  moreover have "filter (\<lambda>f. f ! 3 = op) fs = map (\<lambda>p. m # le_bytes 2 (length p) @ p) (filter (\<lambda>p. p ! 0 = op) ps)"
    using len unfolding fs by (induction ps) (auto simp: nth_append)
  ultimately show ?thesis using parse r' by (simp add: pump_def pump_reads_parse)
qed

theorem relay_accepts_encoded_witness:
  "\<exists>r'. pump 1 CommandDir 0x3C relay_init [[0x3C, 1], [0, 4]] = ([[0x3C, 1, 0, 4]], r', Inr ())
    \<and> count_frames 1 CommandDir 4 r' = 1"
  using relay_accepts_encoded [of "0x3C" "[[4]]" "[[0x3C, 1, 0, 4]]" "[[0x3C, 1], [0, 4]]" relay_init 1 CommandDir 4]
  by (simp add: encode_def validate_marker_def CLIENT_TO_COMPANION_MARKER_def MAX_PAYLOAD_SIZE_def relay_init_def
      count_frames_def)

text \<open>A held response: exactly the first response frame with the chosen opcode is withheld, every
  other frame of the stream is forwarded, in order.\<close>

theorem hold_withholds_one:
  assumes "hold_next_response g op r = (Inr (), r1)" "\<not> responses_paused r"
    and "relay_parse m (concat reads) = (fs, Inr buffered)"
  shows "fst (pump_reads g ResponseDir m r1 [] reads)
    = takeWhile (\<lambda>f. f ! 3 \<noteq> op) fs @ tl (dropWhile (\<lambda>f. f ! 3 \<noteq> op) fs)"
proof -
  have "hold_response r1 = Some (g, op)" "pause_after r1 = None" "\<not> responses_paused r1"
    using assms(1,2) by (auto simp: hold_next_response_def simp del: not_None_eq split: if_splits)
  from forward_held [OF this, of fs] assms(3) show ?thesis
    by (auto simp: pump_reads_parse split: prod.splits)
qed

theorem hold_withholds_one_witness:
  "fst (pump_reads 1 ResponseDir 0x3E (snd (hold_next_response 1 9 relay_init)) [] [[0x3E, 1, 0, 10, 0x3E, 1, 0, 9]])
    = [[0x3E, 1, 0, 10]]"
proof -
  have "fst (pump_reads 1 ResponseDir 0x3E (snd (hold_next_response 1 9 relay_init)) [] [[0x3E, 1, 0, 10, 0x3E, 1, 0, 9]])
      = takeWhile (\<lambda>f. f ! 3 \<noteq> 9) [[0x3E, 1, 0, 10], [0x3E, 1, 0, 9]]
        @ tl (dropWhile (\<lambda>f. f ! 3 \<noteq> 9) [[0x3E, 1, 0, 10], [0x3E, 1, 0, 9]])"
    by (rule hold_withholds_one [where r = relay_init and buffered = "[]"])
      (simp_all add: hold_next_response_def relay_init_def relay_parse.simps header_size_def emit_payload_def)
  then show ?thesis by simp
qed

text \<open>A paused response stream: the frames up to and including the chosen occurrence of the opcode
  are forwarded, and nothing after it.\<close>

theorem pause_cuts_stream:
  assumes "pause_after_response g op (int n) r = (Inr (), r1)" "\<not> responses_paused r"
    and "relay_parse m (concat reads) = (fs, Inr buffered)"
  shows "fst (pump_reads g ResponseDir m r1 [] reads) = until_nth n (\<lambda>f. f ! 3 = op) fs"
proof -
  have "hold_response r1 = None" "pause_after r1 = Some (g, op, int n)" "\<not> responses_paused r1"
      "pause_match_count r1 = int 0" "0 < n"
    using assms(1,2) by (auto simp: pause_after_response_def simp del: not_None_eq split: if_splits)
  from forward_pausing [OF this, of fs] assms(3) show ?thesis
    by (auto simp: pump_reads_parse split: prod.splits)
qed

theorem pause_cuts_stream_witness:
  "fst (pump_reads 1 ResponseDir 0x3E (snd (pause_after_response 1 3 (int 1) relay_init)) []
      [[0x3E, 1, 0, 2, 0x3E, 1, 0, 3], [0x3E, 1, 0, 3]]) = [[0x3E, 1, 0, 2], [0x3E, 1, 0, 3]]"
proof -
  have "fst (pump_reads 1 ResponseDir 0x3E (snd (pause_after_response 1 3 (int 1) relay_init)) []
      [[0x3E, 1, 0, 2, 0x3E, 1, 0, 3], [0x3E, 1, 0, 3]])
      = until_nth 1 (\<lambda>f. f ! 3 = 3) [[0x3E, 1, 0, 2], [0x3E, 1, 0, 3], [0x3E, 1, 0, 3]]"
    by (rule pause_cuts_stream [where r = relay_init and buffered = "[]"])
      (simp_all add: pause_after_response_def relay_init_def relay_parse.simps header_size_def emit_payload_def)
  then show ?thesis by simp
qed

text \<open>C18. Exclusive ownership over the relay's whole life: in every reachable state the active
  generation is the one that holds the physical lock and is the newest, the generations reported
  opened and closed are strictly increasing, a live generation is not reported closed, the history
  is bounded, and at most one kind of fault point is armed.\<close>

theorem relay_exclusive:
  assumes "relay_step\<^sup>*\<^sup>* (relay_init, None) (r, lock)"
  shows "active r = lock \<and> (\<forall>g. lock = Some g \<longrightarrow> g = relay_generation r \<and> g \<notin> set (closed r))
    \<and> sorted_wrt (<) (closed r) \<and> sorted_wrt (<) (opened_generations (connections r))
    \<and> length (frame_history r) \<le> 4096 \<and> (hold_response r = None \<or> pause_after r = None)"
  using relay_reachable_inv [OF assms] by (auto simp: relay_inv_def HISTORY_LIMIT_def)

theorem relay_exclusive_witness:
  "active (fst (handle_open (Inr ()) relay_init)) = Some 1"
proof -
  let ?r = "fst (handle_open (Inr ()) relay_init)"
  have open1: "handle_open (Inr ()) relay_init = (?r, Some 1)" by (simp add: handle_open_def relay_init_def)
  have "relay_step\<^sup>*\<^sup>* (relay_init, None) (?r, Some 1)"
    using relay_step.open_step [OF open1] by (rule r_into_rtranclp)
  from relay_exclusive [OF this] show ?thesis by simp
qed

text \<open>Dropping the active generation: in a reachable state with no unread closing report the drop
  returns, leaves no active generation and consumes the report; with an older report still unread it
  raises instead.\<close>

theorem relay_drop_outcome:
  assumes "relay_step\<^sup>*\<^sup>* (relay_init, None) (r, Some g)"
  shows "active (snd (relay_drop g r)) = None
    \<and> (fst (relay_drop g r) = Inr () \<longleftrightarrow> closed r = [])
    \<and> (closed r = [] \<longrightarrow> closed (snd (relay_drop g r)) = [])"
proof -
  have "active r = Some g" "g \<notin> set (closed r)"
    using relay_reachable_inv [OF assms] by (auto simp: relay_inv_def)
  then show ?thesis
    by (cases "closed r") (auto simp: relay_drop_def handle_finish_def Let_def)
qed

theorem relay_drop_outcome_witness:
  "fst (relay_drop 1 (fst (handle_open (Inr ()) relay_init))) = Inr ()"
proof -
  let ?r = "fst (handle_open (Inr ()) relay_init)"
  have open1: "handle_open (Inr ()) relay_init = (?r, Some 1)" by (simp add: handle_open_def relay_init_def)
  have "relay_step\<^sup>*\<^sup>* (relay_init, None) (?r, Some 1)"
    using relay_step.open_step [OF open1] by (rule r_into_rtranclp)
  moreover have "closed ?r = []" by (simp add: handle_open_def relay_init_def)
  ultimately show ?thesis using relay_drop_outcome [of ?r 1] by simp
qed

end
