(* ===== verification/Live_Client.thy ===== *)
theory Live_Client
  imports Py_Effects
begin

text \<open>
  What the live check scripts share: events and payloads of the \<open>meshcore\<close> client library, the
  script-side world, and the functions of \<open>scripts/check_clients.py\<close>.

  The \<open>meshcore\<close> package is not part of the repository. It is the record \<open>mesh_api\<close> of operations
  on an abstract environment: opening a connection, one command with its reply event, the
  disconnection, the acknowledgement pushes delivered to subscriptions, waiters for later events
  (\<open>wait_first\<close> gives the results of the finished ones and the pending ones, as \<open>asyncio.wait\<close> does
  with \<open>FIRST_COMPLETED\<close>), the loop clock and sleeping. Times are milliseconds. The world of a script adds to the environment the script's own
  variables and three traces: the clients handed to the script, the clients on which it called
  \<open>disconnect\<close> and the commands it issued.
\<close>

section \<open>Events\<close>

datatype event_type =
    CONTACTS | CONTACT_MSG_RECV | CHANNEL_MSG_RECV | NO_MORE_MSGS | ERROR | DEVICE_INFO
  | CURRENT_TIME | MSG_SENT | OK | CHANNEL_INFO | CLI_REPLY | BATTERY | STATS_CORE | STATS_RADIO
  | STATS_PACKETS | TELEMETRY_RESPONSE | LOGIN_SUCCESS | LOGIN_FAILED | STATUS_RESPONSE
  | PATH_RESPONSE | BINARY_RESPONSE | SIGN_START | SIGNATURE | OtherEvent string

datatype pyval = PyNone | PyInt int | PyStr string | PyBytes bytes | PyDict "(string \<times> pyval) list"

record event =
  ev_type :: event_type
  ev_payload :: pyval

text \<open>\<open>payload[key]\<close> and \<open>payload.get(key)\<close>.\<close>

definition py_item :: "pyval \<Rightarrow> string \<Rightarrow> py_error + pyval" where
  "py_item v k = (case v of
       PyDict kvs \<Rightarrow> (case map_of kvs k of Some x \<Rightarrow> Inr x | None \<Rightarrow> Inl KeyError)
     | _ \<Rightarrow> Inl (ClientError ''payload is not a dict''))"

definition py_dict_get :: "pyval \<Rightarrow> string \<Rightarrow> py_error + pyval" where
  "py_dict_get v k = (case v of
       PyDict kvs \<Rightarrow> Inr (case map_of kvs k of Some x \<Rightarrow> x | None \<Rightarrow> PyNone)
     | _ \<Rightarrow> Inl (ClientError ''payload is not a dict''))"

definition py_int :: "pyval \<Rightarrow> py_error + int" where
  "py_int v = (case v of PyInt i \<Rightarrow> Inr i | _ \<Rightarrow> Inl (ClientError ''not an integer''))"

definition py_bytes_of :: "pyval \<Rightarrow> py_error + bytes" where
  "py_bytes_of v = (case v of PyBytes b \<Rightarrow> Inr b | _ \<Rightarrow> Inl (ClientError ''not bytes''))"

section \<open>The client library\<close>

datatype request =
    GetContacts int | SendDeviceQuery | GetTime | GetMsg int | GetChannel nat
  | SendMsg pyval string | SendChanMsg nat string | RawCommand bytes | GetBat | GetStatsCore
  | GetStatsRadio | GetStatsPackets | GetSelfTelemetry | RunCliCommand string
  | SendLogin pyval string | SendStatusReq pyval | SendTelemetryReq pyval | SendPathDiscovery pyval
  | SendBinaryReq pyval | SignStart | SignFinish int nat
  | SetFloodScope string | ForceUnscoped | ResetFloodScope
  | AwaitEvent event_type "(string \<times> pyval) list" "int option"

text \<open>
  The requests that make the companion transmit. \<open>AwaitEvent\<close> is not a command: it is the entry of
  the trace for the registration of a waiter or a subscription at the library's dispatcher.
\<close>

fun is_radio_send :: "request \<Rightarrow> bool" where
  "is_radio_send (SendMsg destination body) = True"
| "is_radio_send (SendChanMsg index body) = True"
| "is_radio_send (SendLogin contact password) = True"
| "is_radio_send (SendStatusReq contact) = True"
| "is_radio_send (SendTelemetryReq contact) = True"
| "is_radio_send (SendPathDiscovery contact) = True"
| "is_radio_send (SendBinaryReq contact) = True"
| "is_radio_send other = False"

record 'w mesh_api =
  create_tcp :: "string \<Rightarrow> int \<Rightarrow> int \<Rightarrow> ('w, nat option) py"
  self_info_key :: "nat \<Rightarrow> 'w \<Rightarrow> string option"
  is_connected :: "nat \<Rightarrow> 'w \<Rightarrow> bool"
  client_call :: "nat \<Rightarrow> request \<Rightarrow> ('w, event option) py"
  client_disconnect :: "nat \<Rightarrow> ('w, unit) py"
  delivered_acks :: "int \<Rightarrow> ('w, (nat \<times> pyval) list) py"
  wait_disconnected :: "nat \<Rightarrow> int \<Rightarrow> ('w, unit) py"
  register_waiter :: "nat \<Rightarrow> event_type \<Rightarrow> (string \<times> pyval) list \<Rightarrow> int option \<Rightarrow> ('w, nat) py"
  wait_first :: "nat list \<Rightarrow> int \<Rightarrow> ('w, (py_error + event option) list \<times> nat list) py"
  cancel_waiters :: "nat list \<Rightarrow> ('w, unit) py"
  loop_time :: "'w \<Rightarrow> int"
  loop_sleep :: "int \<Rightarrow> 'w \<Rightarrow> 'w"

record 'w live =
  env :: 'w
  active_clients :: "nat list"
  send_limit :: int
  send_used :: int
  marker_sequence :: nat
  ack_queues :: "(string \<times> nat \<times> pyval list) list"
  opened :: "nat list"
  disconnected :: "nat list"
  issued :: "(nat \<times> request) list"

definition on_env :: "('w, 'a) py \<Rightarrow> ('w live, 'a) py" where
  "on_env m s = (case m (env s) of (r, w) \<Rightarrow> (r, s\<lparr>env := w\<rparr>))"

text \<open>One awaited command of a client.\<close>

definition call :: "'w mesh_api \<Rightarrow> nat \<Rightarrow> request \<Rightarrow> ('w live, event option) py" where
  "call api client req = py_then (py_modify (\<lambda>s. s\<lparr>issued := issued s @ [(client, req)]\<rparr>))
     (on_env (client_call api client req))"

definition disconnect :: "'w mesh_api \<Rightarrow> nat \<Rightarrow> ('w live, unit) py" where
  "disconnect api client = py_then (py_modify (\<lambda>s. s\<lparr>disconnected := client # disconnected s\<rparr>))
     (on_env (client_disconnect api client))"

section \<open>The functions of check_clients.py\<close>

definition require_event :: "event option \<Rightarrow> event_type \<Rightarrow> ('w, event) py" where
  "require_event event expected = (case event of
       None \<Rightarrow> py_raise (AssertionError ''no event returned'')
     | Some e \<Rightarrow>
         if ev_type e = ERROR then py_raise (AssertionError ''device/client error'')
         else if ev_type e \<noteq> expected then py_raise (AssertionError ''unexpected event'')
         else py_return e)"

definition connect :: "'w mesh_api \<Rightarrow> string \<Rightarrow> int \<Rightarrow> int \<Rightarrow> ('w live, nat) py" where
  "connect api host port timeout =
     py_bind (on_env (create_tcp api host port timeout)) (\<lambda>client. case client of
       None \<Rightarrow> py_raise (AssertionError ''APP_START failed'')
     | Some c \<Rightarrow> py_bind (py_get (\<lambda>s. self_info_key api c (env s))) (\<lambda>key.
         if length (case key of None \<Rightarrow> '''' | Some k \<Rightarrow> k) \<noteq> 64
         then py_raise (AssertionError ''malformed SELF_INFO identity'')
         else py_then (py_modify (\<lambda>s. s\<lparr>opened := c # opened s\<rparr>)) (py_return c)))"

definition public_key :: "'w mesh_api \<Rightarrow> nat \<Rightarrow> ('w live, string) py" where
  "public_key api client = py_bind (py_get (\<lambda>s. self_info_key api client (env s)))
     (\<lambda>key. case key of None \<Rightarrow> py_raise KeyError | Some k \<Rightarrow> py_return k)"

record read_only_result =
  ro_protocol :: int
  ro_contacts :: nat
  ro_time :: int

definition query_read_only :: "'w mesh_api \<Rightarrow> nat \<Rightarrow> ('w live, read_only_result) py" where
  "query_read_only api client =
     py_bind (call api client SendDeviceQuery) (\<lambda>e.
     py_bind (require_event e DEVICE_INFO) (\<lambda>device.
     py_bind (py_lift (py_dict_get (ev_payload device) ''fw ver'')) (\<lambda>level.
     if level \<noteq> PyInt 13 \<and> level \<noteq> PyInt 14
     then py_raise (AssertionError ''expected exposed protocol 13 or 14'')
     else py_bind (call api client GetTime) (\<lambda>e.
     py_bind (require_event e CURRENT_TIME) (\<lambda>current_time.
     py_bind (py_lift (py_dict_get (ev_payload current_time) ''time'')) (\<lambda>timestamp.
     case timestamp of
       PyInt t \<Rightarrow>
         if t \<le> 0 then py_raise (AssertionError ''invalid device time'')
         else py_bind (call api client (GetContacts 10000)) (\<lambda>e.
           py_bind (require_event e CONTACTS) (\<lambda>contacts.
           case ev_payload contacts of
             PyDict kvs \<Rightarrow> py_bind (py_lift (py_int level)) (\<lambda>l.
               py_return \<lparr>ro_protocol = l, ro_contacts = length kvs, ro_time = t\<rparr>)
           | _ \<Rightarrow> py_raise (AssertionError ''malformed contacts result'')))
     | _ \<Rightarrow> py_raise (AssertionError ''invalid device time'')))))))"

definition query_pair :: "'w mesh_api \<Rightarrow> nat \<Rightarrow> nat \<Rightarrow> ('w live, read_only_result list) py" where
  "query_pair api first second =
     py_bind (py_gather [query_read_only api first, query_read_only api second]) (\<lambda>results.
     if ro_contacts (results ! 0) \<noteq> ro_contacts (results ! 1)
     then py_raise (AssertionError ''clients observed different contact counts'')
     else py_return results)"

record clients_args =
  ca_host :: string
  ca_port :: int
  ca_timeout :: int
  ca_iterations :: nat

definition append_client :: "nat \<Rightarrow> ('w live, unit) py" where
  "append_client c = py_modify (\<lambda>s. s\<lparr>active_clients := active_clients s @ [c]\<rparr>)"

definition remove_client :: "nat \<Rightarrow> ('w live, unit) py" where
  "remove_client c = py_modify (\<lambda>s. s\<lparr>active_clients := remove1 c (active_clients s)\<rparr>)"

text \<open>The \<open>finally\<close> block that disconnects every client still in the script's list.\<close>

definition disconnect_active :: "'w mesh_api \<Rightarrow> ('w live, unit) py" where
  "disconnect_active api = py_bind (py_get active_clients) (\<lambda>clients.
     py_gather_quiet (map (disconnect api) clients))"

definition check_clients_body :: "'w mesh_api \<Rightarrow> clients_args \<Rightarrow> ('w live, read_only_result) py" where
  "check_clients_body api args =
     py_bind (py_gather [connect api (ca_host args) (ca_port args) (ca_timeout args),
                         connect api (ca_host args) (ca_port args) (ca_timeout args)]) (\<lambda>pair.
     let first = pair ! 0; second = pair ! 1 in
     py_then (append_client first) (py_then (append_client second)
     (py_bind (public_key api first) (\<lambda>k1. py_bind (public_key api second) (\<lambda>k2.
     if k1 \<noteq> k2 then py_raise (AssertionError ''clients observed different companion identities'')
     else py_bind (py_for [0..<ca_iterations args] (\<lambda>_. query_pair api first second)) (\<lambda>rounds.
     py_then (disconnect api first) (py_then (remove_client first)
     (py_bind (connect api (ca_host args) (ca_port args) (ca_timeout args)) (\<lambda>replacement.
     py_then (append_client replacement)
     (py_bind (public_key api replacement) (\<lambda>k3. py_bind (public_key api second) (\<lambda>k2'.
     if k3 \<noteq> k2' then py_raise (AssertionError ''reconnected client observed a different identity'')
     else py_bind (query_read_only api replacement) (\<lambda>reconnect.
     if rounds = [] then py_raise IndexError
     else if ro_contacts reconnect \<noteq> ro_contacts (last rounds ! 1)
     then py_raise (AssertionError ''contact count changed across read-only reconnect check'')
     else py_return reconnect)))))))))))))"

definition check_clients_run :: "'w mesh_api \<Rightarrow> clients_args \<Rightarrow> ('w live, read_only_result) py" where
  "check_clients_run api args = py_finally (check_clients_body api args) (disconnect_active api)"

section \<open>The shared functions keep a world order\<close>

text \<open>
  A world order that the client library, a command that does not transmit and a disconnection
  respect is respected by every function of this theory. The environment is never inspected.
\<close>

locale client_order = world_order R for R :: "'w live \<Rightarrow> 'w live \<Rightarrow> bool" +
  assumes env_change: "R s (s\<lparr>env := w\<rparr>)"
    and issue_quiet: "\<not> is_radio_send req \<Longrightarrow> R s (s\<lparr>issued := issued s @ [(client, req)]\<rparr>)"
    and mark_disconnected: "R s (s\<lparr>disconnected := client # disconnected s\<rparr>)"
begin

lemma keeps_modify: "(\<And>s. R s (f s)) \<Longrightarrow> py_keeps R (py_modify f)"
  by (simp add: py_keeps_def py_modify_def)

lemma keeps_on_env: "py_keeps R (on_env m)"
  by (auto simp: py_keeps_def on_env_def env_change split: prod.splits)

lemma keeps_call: "\<not> is_radio_send req \<Longrightarrow> py_keeps R (call api client req)"
  by (auto simp: call_def intro!: keeps_then keeps_modify keeps_on_env issue_quiet)

lemma keeps_disconnect: "py_keeps R (disconnect api client)"
  by (auto simp: disconnect_def intro!: keeps_then keeps_modify keeps_on_env mark_disconnected)

lemma keeps_disconnect_active: "py_keeps R (disconnect_active api)"
  unfolding disconnect_active_def by (intro keeps_bind keeps_get keeps_gather_quiet) (auto intro: keeps_disconnect)

lemma keeps_require_event: "py_keeps R (require_event e ty)"
  unfolding require_event_def by (intro keeps)

lemma keeps_public_key: "py_keeps R (public_key api client)"
  unfolding public_key_def by (intro keeps)

lemmas client_keeps = keeps_on_env keeps_call keeps_disconnect keeps_disconnect_active
  keeps_require_event keeps_public_key

end

lemma disconnect_state:
  "disconnected (snd (disconnect api c s)) = c # disconnected s" "opened (snd (disconnect api c s)) = opened s"
  by (auto simp: disconnect_def on_env_def py_defs split: prod.splits)

lemma disconnect_all_state:
  "set (disconnected (snd (py_gather_quiet (map (disconnect api) cs) s))) = set cs \<union> set (disconnected s)
   \<and> opened (snd (py_gather_quiet (map (disconnect api) cs) s)) = opened s"
  by (induction cs arbitrary: s) (auto simp: disconnect_state py_return_def)

lemma disconnect_active_state:
  "set (disconnected (snd (disconnect_active api s))) = set (active_clients s) \<union> set (disconnected s)"
  "opened (snd (disconnect_active api s)) = opened s"
  using disconnect_all_state [of api "active_clients s" s] by (simp_all add: disconnect_active_def py_defs)

section \<open>A session that is never closed\<close>

text \<open>
  The list that the clean-up walks is filled only after both connections succeeded. An environment
  that records the sessions it opened shows the gap: the first connection succeeds, the second is
  refused.
\<close>

record dialled =
  dialled_count :: nat
  still_open :: "nat list"

definition refusing_api :: "dialled mesh_api" where
  "refusing_api = \<lparr>
     create_tcp = \<lambda>host port timeout w. (if dialled_count w = 0
        then (Inr (Some 1), \<lparr>dialled_count = 1, still_open = 1 # still_open w\<rparr>)
        else (Inr None, w\<lparr>dialled_count := dialled_count w + 1\<rparr>)),
     self_info_key = \<lambda>c w. Some (replicate 64 CHR ''a''), is_connected = \<lambda>c w. c \<in> set (still_open w),
     client_call = \<lambda>c r. py_return None,
     client_disconnect = \<lambda>c w. (Inr (), w\<lparr>still_open := removeAll c (still_open w)\<rparr>),
     delivered_acks = \<lambda>t. py_return [], wait_disconnected = \<lambda>c t. py_return (),
     register_waiter = \<lambda>c ty fs t. py_return 0, wait_first = \<lambda>ws t. py_return ([], ws), cancel_waiters = \<lambda>ws. py_return (),
     loop_time = \<lambda>w. 0, loop_sleep = \<lambda>ms w. w\<rparr>"

text \<open>The two-client check leaves a session open when the second of its two simultaneous
  connections fails: the run raises, its clean-up disconnects nobody, and the first client, handed
  over by the library with a well-formed identity, is still connected.\<close>

theorem check_clients_leaks_session:
  "\<exists>s'. check_clients_run refusing_api \<lparr>ca_host = ''127.0.0.1'', ca_port = 5001, ca_timeout = 8000, ca_iterations = 3\<rparr>
      \<lparr>env = \<lparr>dialled_count = 0, still_open = []\<rparr>, active_clients = [], send_limit = 0, send_used = 0,
        marker_sequence = 0, ack_queues = [], opened = [], disconnected = [], issued = []\<rparr>
      = (Inl (AssertionError ''APP_START failed''), s') \<and> opened s' = [1] \<and> disconnected s' = []
        \<and> is_connected refusing_api 1 (env s')"
  by (simp add: check_clients_run_def check_clients_body_def connect_def refusing_api_def on_env_def
      disconnect_active_def py_defs)

end
