(* ===== verification/Live_Dedicated.thy ===== *)
theory Live_Dedicated
  imports Live_Client Protocol "HOL-Library.AList"
begin

text \<open>
  The bounded real-radio check \<open>scripts/check_live_dedicated.py\<close>: message matching, contact and
  channel resolution, the send budget, acknowledgement collection, ordered reception and the run
  itself, phase by phase. The client library is the parameter \<open>api\<close> of \<open>Live_Client\<close>.

  Progress records (\<open>emit\<close>) and digests go to standard output only and are left out; labels and
  the wall-clock timestamp of a message likewise. Case folding is \<open>casefold\<close> on ASCII letters.
  The reception loop is bounded by fuel, \<open>receive_fuel\<close> iterations for each marker; running out is
  the separate outcome \<open>OutOfFuel\<close>, shown unreachable when sleeping advances the loop clock.
\<close>

section \<open>Pure helpers\<close>

definition ends_with :: "'a list \<Rightarrow> 'a list \<Rightarrow> bool" where
  "ends_with xs suf \<longleftrightarrow> length suf \<le> length xs \<and> drop (length xs - length suf) xs = suf"

definition inbox_text_matches :: "event_type \<Rightarrow> string \<Rightarrow> string \<Rightarrow> bool" where
  "inbox_text_matches ty received expected_body =
     (if ty = CHANNEL_MSG_RECV then
        (let suf = '': '' @ expected_body in length suf < length received \<and> ends_with received suf)
      else received = expected_body)"

definition fold_char :: "char \<Rightarrow> char" where
  "fold_char c = (case map_of (zip ''ABCDEFGHIJKLMNOPQRSTUVWXYZ'' ''abcdefghijklmnopqrstuvwxyz'') c of
     Some d \<Rightarrow> d | None \<Rightarrow> c)"

definition casefold :: "string \<Rightarrow> string" where
  "casefold s = map fold_char s"

text \<open>\<open>contact.get(key, "")\<close> on which \<open>casefold\<close> is called: only a string has that method.\<close>

definition text_field :: "pyval \<Rightarrow> string \<Rightarrow> py_error + string" where
  "text_field contact k = (case contact of
       PyDict kvs \<Rightarrow> (case map_of kvs k of None \<Rightarrow> Inr '''' | Some (PyStr s) \<Rightarrow> Inr s
         | Some _ \<Rightarrow> Inl (ClientError ''no casefold''))
     | _ \<Rightarrow> Inl (ClientError ''payload is not a dict''))"

definition is_contact :: "string \<Rightarrow> string \<Rightarrow> pyval \<Rightarrow> py_error + bool" where
  "is_contact expected_name expected_public_key contact = (case text_field contact ''adv_name'' of
       Inl e \<Rightarrow> Inl e
     | Inr name \<Rightarrow>
         if casefold name \<noteq> casefold expected_name then Inr False
         else (case text_field contact ''public_key'' of
             Inl e \<Rightarrow> Inl e
           | Inr key \<Rightarrow> Inr (casefold key = casefold expected_public_key)))"

fun select_contacts :: "(pyval \<Rightarrow> py_error + bool) \<Rightarrow> pyval list \<Rightarrow> py_error + pyval list" where
  "select_contacts p [] = Inr []"
| "select_contacts p (c # cs) = (case p c of Inl e \<Rightarrow> Inl e | Inr b \<Rightarrow>
     (case select_contacts p cs of Inl e \<Rightarrow> Inl e | Inr ms \<Rightarrow> Inr (if b then c # ms else ms)))"

definition resolve_contact :: "(string \<times> pyval) list \<Rightarrow> string \<Rightarrow> string \<Rightarrow> py_error + pyval" where
  "resolve_contact contacts expected_name expected_public_key =
     (case select_contacts (is_contact expected_name expected_public_key) (map snd contacts) of
        Inl e \<Rightarrow> Inl e
      | Inr matches \<Rightarrow>
          if length matches \<noteq> 1 then Inl (AssertionError ''expected one contact'') else Inr (matches ! 0))"

text \<open>Two decimal digits at least, as \<open>{sequence:02d}\<close>.\<close>

definition two_digits :: "nat \<Rightarrow> string" where
  "two_digits n = (if n < 10 then ''0'' @ decimal n else decimal n)"

definition make_marker :: "string \<Rightarrow> nat \<Rightarrow> string \<Rightarrow> string" where
  "make_marker run_id n purpose = ''mux-live '' @ run_id @ '' '' @ two_digits n @ '' '' @ purpose"

section \<open>Budget and acknowledgements\<close>

definition consume :: "('w live, unit) py" where
  "consume s = (if send_used s \<ge> send_limit s
     then (Inl (AssertionError ''radio send budget exhausted''), s)
     else (Inr (), s\<lparr>send_used := send_used s + 1\<rparr>))"

text \<open>
  \<open>AckCollector\<close>: \<open>self.queues\<close> maps a label to the payloads collected for it; the subscription of
  the label's client appends to it. Attaching a label again starts a new empty queue.
\<close>

definition attach :: "string \<Rightarrow> nat \<Rightarrow> ('w live, unit) py" where
  "attach label client = py_modify (\<lambda>s. s\<lparr>ack_queues := AList.update label (client, []) (ack_queues s)\<rparr>)"

definition collect :: "(nat \<times> pyval) list \<Rightarrow> (string \<times> nat \<times> pyval list) list \<Rightarrow> (string \<times> nat \<times> pyval list) list" where
  "collect acks queues = map (\<lambda>(label, client, q).
     (label, client, q @ map snd (filter (\<lambda>a. fst a = client) acks))) queues"

definition has_code :: "string \<Rightarrow> pyval \<Rightarrow> bool" where
  "has_code token payload = (case payload of PyDict kvs \<Rightarrow> map_of kvs ''code'' = Some (PyStr token) | _ \<Rightarrow> False)"

text \<open>\<open>matching\<close>: discard payloads of other tokens; an exhausted queue waits until the timeout.\<close>

fun matching :: "string \<Rightarrow> pyval list \<Rightarrow> (pyval \<times> pyval list) option" where
  "matching token [] = None"
| "matching token (p # q) = (if has_code token p then Some (p, q) else matching token q)"

fun match_labels :: "string \<Rightarrow> string list \<Rightarrow> (string \<times> nat \<times> pyval list) list
    \<Rightarrow> py_error + (pyval list \<times> (string \<times> nat \<times> pyval list) list)" where
  "match_labels token [] queues = Inr ([], queues)"
| "match_labels token (label # labels) queues = (case map_of queues label of
      None \<Rightarrow> Inl KeyError
    | Some (client, q) \<Rightarrow> (case matching token q of
        None \<Rightarrow> Inl (AssertionError ''matching ACK missing'')
      | Some (p, q') \<Rightarrow> (case match_labels token labels (AList.update label (client, q') queues) of
          Inl e \<Rightarrow> Inl e | Inr (ps, queues') \<Rightarrow> Inr (p # ps, queues'))))"

definition require_token :: "'w mesh_api \<Rightarrow> string \<Rightarrow> string list \<Rightarrow> int \<Rightarrow> ('w live, unit) py" where
  "require_token api token labels timeout =
     py_bind (on_env (delivered_acks api timeout)) (\<lambda>acks.
     py_then (py_modify (\<lambda>s. s\<lparr>ack_queues := collect acks (ack_queues s)\<rparr>))
     (py_bind (py_get ack_queues) (\<lambda>queues.
     case match_labels token labels queues of
       Inl e \<Rightarrow> py_raise e
     | Inr (receipts, queues') \<Rightarrow>
         py_then (py_modify (\<lambda>s. s\<lparr>ack_queues := queues'\<rparr>))
         (if \<exists>receipt \<in> set (tl receipts). receipt \<noteq> hd receipts
          then py_raise (AssertionError ''mux sessions observed different ACK payloads'')
          else py_return ()))))"

section \<open>Commands\<close>

definition get_contacts :: "'w mesh_api \<Rightarrow> nat \<Rightarrow> ('w live, (string \<times> pyval) list) py" where
  "get_contacts api client =
     py_bind (call api client (GetContacts 15000)) (\<lambda>e.
     py_bind (require_event e CONTACTS) (\<lambda>event.
     case ev_payload event of PyDict kvs \<Rightarrow> py_return kvs
     | _ \<Rightarrow> py_raise (AssertionError ''malformed contacts payload'')))"

definition channel_match :: "'w mesh_api \<Rightarrow> nat \<Rightarrow> string \<Rightarrow> nat \<Rightarrow> ('w live, (nat \<times> bytes) list) py" where
  "channel_match api client name index =
     py_bind (call api client (GetChannel index)) (\<lambda>e. case e of
       None \<Rightarrow> py_raise (ClientError ''no channel event'')
     | Some event \<Rightarrow>
         if ev_type event \<noteq> CHANNEL_INFO then py_return []
         else py_bind (py_lift (py_dict_get (ev_payload event) ''channel_name'')) (\<lambda>n.
           if n \<noteq> PyStr name then py_return []
           else py_bind (py_lift (py_item (ev_payload event) ''channel_secret'')) (\<lambda>v.
             py_bind (py_lift (py_bytes_of v)) (\<lambda>secret. py_return [(index, secret)]))))"

definition resolve_channel :: "'w mesh_api \<Rightarrow> nat \<Rightarrow> string \<Rightarrow> ('w live, nat \<times> bytes) py" where
  "resolve_channel api client name =
     py_bind (call api client SendDeviceQuery) (\<lambda>e.
     py_bind (require_event e DEVICE_INFO) (\<lambda>device.
     py_bind (py_lift (py_item (ev_payload device) ''max_channels'')) (\<lambda>v.
     py_bind (py_lift (py_int v)) (\<lambda>max_channels.
     py_bind (py_for [0..<nat max_channels] (channel_match api client name)) (\<lambda>found.
     let matches = concat found in
     if length matches \<noteq> 1 then py_raise (AssertionError ''expected exactly one channel'')
     else py_return (matches ! 0))))))"

text \<open>The acknowledgement token in hexadecimal and \<open>max(5.0, suggested / 1000 * 1.25 + 1)\<close> seconds.\<close>

definition ack_timeout :: "int \<Rightarrow> int" where
  "ack_timeout suggested_ms = max 5000 (suggested_ms * 5 div 4 + 1000)"

definition send_dm :: "'w mesh_api \<Rightarrow> nat \<Rightarrow> pyval \<Rightarrow> string \<Rightarrow> ('w live, string \<times> int) py" where
  "send_dm api client destination body =
     py_then consume
     (py_bind (call api client (SendMsg destination body)) (\<lambda>e.
      py_bind (require_event e MSG_SENT) (\<lambda>event.
      py_bind (py_lift (py_item (ev_payload event) ''expected_ack'')) (\<lambda>v.
      py_bind (py_lift (py_bytes_of v)) (\<lambda>ack.
      py_bind (py_lift (py_item (ev_payload event) ''suggested_timeout'')) (\<lambda>v.
      py_bind (py_lift (py_int v)) (\<lambda>suggested.
      py_return (hex ack, ack_timeout suggested))))))))"

definition send_channel :: "'w mesh_api \<Rightarrow> nat \<Rightarrow> nat \<Rightarrow> string \<Rightarrow> ('w live, unit) py" where
  "send_channel api client channel_index body =
     py_then consume
     (py_bind (call api client (SendChanMsg channel_index body)) (\<lambda>e.
      py_bind (require_event e OK) (\<lambda>_. py_return ())))"

section \<open>Reception\<close>

definition INBOX_TYPES :: "event_type set" where
  "INBOX_TYPES = {CONTACT_MSG_RECV, CHANNEL_MSG_RECV}"

definition sleep :: "'w mesh_api \<Rightarrow> int \<Rightarrow> ('w live, unit) py" where
  "sleep api ms = py_modify (\<lambda>s. s\<lparr>env := loop_sleep api ms (env s)\<rparr>)"

definition now :: "'w mesh_api \<Rightarrow> ('w live, int) py" where
  "now api = py_get (\<lambda>s. loop_time api (env s))"

text \<open>\<open>event.type == expected_type and inbox_text_matches(...)\<close> on the payload's text, which may be absent.\<close>

definition event_matches :: "event \<Rightarrow> event_type \<Rightarrow> string \<Rightarrow> py_error + bool" where
  "event_matches event expected_type expected = (case py_dict_get (ev_payload event) ''text'' of
       Inl e \<Rightarrow> Inl e
     | Inr text \<Rightarrow>
         if ev_type event \<noteq> expected_type then Inr False
         else (case text of
             PyStr received \<Rightarrow> Inr (inbox_text_matches (ev_type event) received expected)
           | _ \<Rightarrow> if ev_type event = CHANNEL_MSG_RECV then Inl (ClientError ''text has no length'') else Inr False))"

text \<open>\<open>await client.commands.get_msg(...)\<close> with \<open>except asyncio.TimeoutError\<close>: \<open>None\<close> is the timeout.\<close>

definition try_get_msg :: "'w mesh_api \<Rightarrow> nat \<Rightarrow> int \<Rightarrow> ('w live, event option option) py" where
  "try_get_msg api client timeout = py_catch
     (py_bind (call api client (GetMsg timeout)) (\<lambda>e. py_return (Some e)))
     (\<lambda>err. if err = PyTimeoutError then py_return None else py_raise err)"

text \<open>The \<open>while\<close> loop for one marker; it returns the number of unmatched messages so far.\<close>

fun receive_marker :: "nat \<Rightarrow> 'w mesh_api \<Rightarrow> nat \<Rightarrow> event_type \<Rightarrow> int \<Rightarrow> int \<Rightarrow> string \<Rightarrow> int \<Rightarrow> ('w live, int) py" where
  "receive_marker 0 api client expected_type deadline max_unmatched expected unmatched = py_raise OutOfFuel"
| "receive_marker (Suc fuel) api client expected_type deadline max_unmatched expected unmatched =
     py_bind (now api) (\<lambda>t.
     if \<not> t < deadline then py_raise (AssertionError ''timed out waiting for marker'')
     else let again = py_then (sleep api 250)
                (receive_marker fuel api client expected_type deadline max_unmatched expected unmatched) in
     py_bind (try_get_msg api client (min 12000 (deadline - t))) (\<lambda>got.
     case got of
       None \<Rightarrow> again
     | Some None \<Rightarrow> again
     | Some (Some event) \<Rightarrow>
         if ev_type event = NO_MORE_MSGS then again
         else if ev_type event = ERROR then py_raise (AssertionError ''inbox error'')
         else if ev_type event \<notin> INBOX_TYPES then py_raise (AssertionError ''unexpected inbox event'')
         else py_bind (py_lift (event_matches event expected_type expected)) (\<lambda>matches.
           if matches then py_return unmatched
           else if unmatched + 1 > max_unmatched
           then py_raise (AssertionError ''exceeded --max-unmatched while waiting for test marker'')
           else receive_marker fuel api client expected_type deadline max_unmatched expected (unmatched + 1))))"

definition receive_fuel :: "int \<Rightarrow> int \<Rightarrow> nat" where
  "receive_fuel timeout max_unmatched = nat (timeout div 250) + nat max_unmatched + 4"

fun receive_markers :: "nat \<Rightarrow> 'w mesh_api \<Rightarrow> nat \<Rightarrow> event_type \<Rightarrow> int \<Rightarrow> int \<Rightarrow> string list \<Rightarrow> int \<Rightarrow> ('w live, unit) py" where
  "receive_markers fuel api client expected_type deadline max_unmatched [] unmatched = py_return ()"
| "receive_markers fuel api client expected_type deadline max_unmatched (m # ms) unmatched =
     py_bind (receive_marker fuel api client expected_type deadline max_unmatched m unmatched)
       (receive_markers fuel api client expected_type deadline max_unmatched ms)"

definition verify_empty :: "'w mesh_api \<Rightarrow> nat \<Rightarrow> int \<Rightarrow> ('w live, unit) py" where
  "verify_empty api client timeout =
     py_bind (try_get_msg api client (min 4000 timeout)) (\<lambda>trailing. case trailing of
       None \<Rightarrow> py_raise (AssertionError ''timed out verifying inbox empty after test sequence'')
     | Some None \<Rightarrow> py_raise (AssertionError ''expected empty inbox after test sequence'')
     | Some (Some event) \<Rightarrow>
         if ev_type event \<noteq> NO_MORE_MSGS then py_raise (AssertionError ''expected empty inbox after test sequence'')
         else py_return ())"

definition receive_sequence :: "'w mesh_api \<Rightarrow> nat \<Rightarrow> string list \<Rightarrow> event_type \<Rightarrow> int \<Rightarrow> int \<Rightarrow> bool \<Rightarrow> ('w live, unit) py" where
  "receive_sequence api client markers expected_type timeout max_unmatched verify_empty_after =
     py_bind (now api) (\<lambda>t.
     py_then (receive_markers (receive_fuel timeout max_unmatched) api client expected_type (t + timeout) max_unmatched markers 0)
       (py_when verify_empty_after (verify_empty api client timeout)))"

definition short_query_rounds :: "'w mesh_api \<Rightarrow> (string \<times> nat) list \<Rightarrow> nat \<Rightarrow> ('w live, unit) py" where
  "short_query_rounds api clients rounds =
     py_then (py_for [0..<rounds] (\<lambda>_.
       py_bind (py_gather (map (\<lambda>(label, client). call api client GetTime) clients)) (\<lambda>events.
         py_for events (\<lambda>e. require_event e CURRENT_TIME)))) (py_return ())"

section \<open>The run\<close>

record dedicated_args =
  mux_host :: string
  multi_port :: int
  dedicated_ports :: "int list"
  peer_host :: string
  peer_port :: int
  mux_contact :: string
  peer_contact :: string
  channel_name :: "string option"
  query_rounds :: nat
  client_timeout :: int
  receive_timeout :: int
  max_unmatched :: int
  max_radio_sends :: int
  execute :: bool

definition next_marker :: "string \<Rightarrow> string \<Rightarrow> ('w live, string) py" where
  "next_marker run_id purpose =
     py_then (py_modify (\<lambda>s. s\<lparr>marker_sequence := marker_sequence s + 1\<rparr>))
       (py_get (\<lambda>s. make_marker run_id (marker_sequence s) purpose))"

definition open_client :: "'w mesh_api \<Rightarrow> dedicated_args \<Rightarrow> string \<Rightarrow> int \<Rightarrow> ('w live, nat) py" where
  "open_client api args host port =
     py_bind (connect api host port (client_timeout args)) (\<lambda>client.
     py_then (append_client client) (py_then (public_key api client) (py_return client)))"

definition close_client :: "'w mesh_api \<Rightarrow> nat \<Rightarrow> ('w live, unit) py" where
  "close_client api client = py_then (disconnect api client) (remove_client client)"

definition expect_dm :: "'w mesh_api \<Rightarrow> dedicated_args \<Rightarrow> nat \<Rightarrow> string list \<Rightarrow> ('w live, unit) py" where
  "expect_dm api args client markers =
     receive_sequence api client markers CONTACT_MSG_RECV (receive_timeout args) (max_unmatched args)
       (max_unmatched args = 0)"

record endpoints =
  ep_multi :: nat
  ep_dedicated :: "nat list"
  ep_peer :: nat
  ep_peer_destination :: pyval
  ep_mux_destination :: pyval
  ep_peer_channel :: "nat option"

text \<open>The channel lookup on both companions; an empty \<open>--channel\<close> counts as absent.\<close>

definition has_channel :: "dedicated_args \<Rightarrow> bool" where
  "has_channel args \<longleftrightarrow> channel_name args \<noteq> None \<and> channel_name args \<noteq> Some ''''"

definition channel_preflight :: "'w mesh_api \<Rightarrow> dedicated_args \<Rightarrow> nat \<Rightarrow> nat \<Rightarrow> ('w live, nat option) py" where
  "channel_preflight api args multi peer =
     (if \<not> has_channel args then py_return None
      else py_bind (resolve_channel api multi (the (channel_name args))) (\<lambda>mux_channel.
           py_bind (resolve_channel api peer (the (channel_name args))) (\<lambda>peer_channel.
           if snd mux_channel \<noteq> snd peer_channel
           then py_raise (AssertionError ''channel has different secrets on mux and peer'')
           else py_return (Some (fst peer_channel)))))"

text \<open>Connections, identities, reciprocal contacts and the channel.\<close>

definition preflight :: "'w mesh_api \<Rightarrow> dedicated_args \<Rightarrow> ('w live, endpoints) py" where
  "preflight api args =
     py_bind (open_client api args (mux_host args) (multi_port args)) (\<lambda>multi.
     py_bind (py_for (dedicated_ports args) (open_client api args (mux_host args))) (\<lambda>dedicated.
     py_bind (open_client api args (peer_host args) (peer_port args)) (\<lambda>peer.
     py_bind (public_key api multi) (\<lambda>mux_key.
     py_bind (public_key api peer) (\<lambda>peer_key.
     py_bind (py_for dedicated (public_key api)) (\<lambda>keys.
     if \<exists>k \<in> set keys. k \<noteq> mux_key then py_raise (AssertionError ''mux listeners exposed different identities'')
     else if peer_key = mux_key then py_raise (AssertionError ''peer and mux companion identities unexpectedly match'')
     else
     py_bind (get_contacts api multi) (\<lambda>mux_contacts.
     py_bind (get_contacts api peer) (\<lambda>peer_contacts.
     py_bind (py_lift (resolve_contact mux_contacts (peer_contact args) peer_key)) (\<lambda>peer_destination.
     py_bind (py_lift (resolve_contact peer_contacts (mux_contact args) mux_key)) (\<lambda>mux_destination.
     py_bind (channel_preflight api args multi peer) (\<lambda>peer_channel.
     py_return \<lparr>ep_multi = multi, ep_dedicated = dedicated, ep_peer = peer,
       ep_peer_destination = peer_destination, ep_mux_destination = mux_destination,
       ep_peer_channel = peer_channel\<rparr>)))))))))))"

text \<open>\<open>shared_clients\<close>: the multi-client listener and the dedicated listeners, in order, by label.\<close>

definition shared_clients :: "endpoints \<Rightarrow> (string \<times> nat) list" where
  "shared_clients ep = (''multi'', ep_multi ep)
     # map (\<lambda>(i, c). (''dedicated-'' @ decimal i, c)) (enumerate 1 (ep_dedicated ep))"

definition listener_send :: "'w mesh_api \<Rightarrow> dedicated_args \<Rightarrow> string \<Rightarrow> endpoints \<Rightarrow> string \<times> nat \<Rightarrow> ('w live, unit) py" where
  "listener_send api args run_id ep labelled =
     py_bind (next_marker run_id (fst labelled @ ''-to-peer'')) (\<lambda>body.
     py_bind (send_dm api (snd labelled) (ep_peer_destination ep) body) (\<lambda>sent.
     py_then (expect_dm api args (ep_peer ep) [body])
       (require_token api (fst sent) (map fst (shared_clients ep)) (snd sent))))"

definition listener_sends :: "'w mesh_api \<Rightarrow> dedicated_args \<Rightarrow> string \<Rightarrow> endpoints \<Rightarrow> ('w live, unit) py" where
  "listener_sends api args run_id ep =
     py_then (py_for (shared_clients ep) (listener_send api args run_id ep)) (py_return ())"

definition peer_dm :: "'w mesh_api \<Rightarrow> dedicated_args \<Rightarrow> endpoints \<Rightarrow> string \<Rightarrow> ('w live, unit) py" where
  "peer_dm api args ep body =
     py_bind (send_dm api (ep_peer ep) (ep_mux_destination ep) body) (\<lambda>sent.
     py_then (expect_dm api args (ep_multi ep) [body])
       (require_token api (fst sent) [''peer''] (snd sent)))"

definition live_fanout :: "'w mesh_api \<Rightarrow> dedicated_args \<Rightarrow> string \<Rightarrow> endpoints \<Rightarrow> ('w live, unit) py" where
  "live_fanout api args run_id ep =
     py_bind (next_marker run_id ''peer-to-all'') (\<lambda>inbound.
     py_then (peer_dm api args ep inbound)
       (py_then (py_for (ep_dedicated ep) (\<lambda>client. expect_dm api args client [inbound])) (py_return ())))"

definition detached_backfill :: "'w mesh_api \<Rightarrow> dedicated_args \<Rightarrow> string \<Rightarrow> endpoints \<Rightarrow> ('w live, nat list) py" where
  "detached_backfill api args run_id ep =
     py_then (py_for (ep_dedicated ep) (close_client api))
     (py_bind (next_marker run_id ''retained-1'') (\<lambda>r1.
      py_bind (next_marker run_id ''retained-2'') (\<lambda>r2.
      py_then (py_for [r1, r2] (peer_dm api args ep))
      (py_for (dedicated_ports args) (\<lambda>port.
        py_bind (open_client api args (mux_host args) port) (\<lambda>client.
        py_then (expect_dm api args client [r1, r2]) (py_return client)))))))"

definition takeover_first :: "'w mesh_api \<Rightarrow> dedicated_args \<Rightarrow> string \<Rightarrow> endpoints \<Rightarrow> nat \<Rightarrow> nat list \<Rightarrow> int \<Rightarrow> ('w live, nat list) py" where
  "takeover_first api args run_id ep first others port =
     py_then (close_client api first)
     (py_bind (next_marker run_id ''takeover'') (\<lambda>body.
      py_then (peer_dm api args ep body)
      (py_bind (open_client api args (mux_host args) port) (\<lambda>takeover_a.
       py_bind (open_client api args (mux_host args) port) (\<lambda>takeover_b.
       py_then (on_env (wait_disconnected api takeover_a 5000))
       (py_bind (py_get (\<lambda>s. is_connected api takeover_a (env s))) (\<lambda>connected.
       if connected then py_raise (AssertionError ''replaced dedicated client still reports connected'')
       else py_then (expect_dm api args takeover_b [body])
         (py_then (py_for others (\<lambda>client. expect_dm api args client [body]))
           (py_return (takeover_b # others))))))))))"

definition takeover :: "'w mesh_api \<Rightarrow> dedicated_args \<Rightarrow> string \<Rightarrow> endpoints \<Rightarrow> nat list \<Rightarrow> ('w live, nat list) py" where
  "takeover api args run_id ep dedicated =
     (case (dedicated, dedicated_ports args) of
        (first # others, port # _) \<Rightarrow> takeover_first api args run_id ep first others port
      | _ \<Rightarrow> py_raise IndexError)"

definition channel_fanout :: "'w mesh_api \<Rightarrow> dedicated_args \<Rightarrow> string \<Rightarrow> endpoints \<Rightarrow> nat list \<Rightarrow> ('w live, int) py" where
  "channel_fanout api args run_id ep dedicated =
     (if \<not> has_channel args then py_return 0
      else case ep_peer_channel ep of
          None \<Rightarrow> py_raise (AssertionError ''channel preflight did not select a peer index'')
        | Some index \<Rightarrow>
            py_bind (next_marker run_id ''channel-fanout'') (\<lambda>body.
            py_then (send_channel api (ep_peer ep) index body)
            (py_then (py_for (ep_multi ep # dedicated) (\<lambda>client.
               receive_sequence api client [body] CHANNEL_MSG_RECV (receive_timeout args) (max_unmatched args)
                 (max_unmatched args = 0)))
              (py_return 1))))"

definition multi_reconnect :: "'w mesh_api \<Rightarrow> dedicated_args \<Rightarrow> endpoints \<Rightarrow> ('w live, unit) py" where
  "multi_reconnect api args ep =
     py_then (close_client api (ep_multi ep))
     (py_bind (open_client api args (mux_host args) (multi_port args)) (\<lambda>multi.
      py_bind (call api multi GetTime) (\<lambda>e.
      py_bind (require_event e CURRENT_TIME) (\<lambda>_. py_return ()))))"

record run_summary =
  sum_execute :: bool
  sum_dm_sends :: int
  sum_channel_sends :: int
  sum_radio_sends :: int

definition execute_phases :: "'w mesh_api \<Rightarrow> dedicated_args \<Rightarrow> string \<Rightarrow> endpoints \<Rightarrow> ('w live, run_summary) py" where
  "execute_phases api args run_id ep =
     py_then (py_for (shared_clients ep @ [(''peer'', ep_peer ep)]) (\<lambda>(label, client). attach label client))
     (py_then (listener_sends api args run_id ep)
     (py_then (live_fanout api args run_id ep)
     (py_bind (detached_backfill api args run_id ep) (\<lambda>dedicated.
      py_bind (takeover api args run_id ep dedicated) (\<lambda>dedicated.
      py_bind (channel_fanout api args run_id ep dedicated) (\<lambda>channel_sends.
      py_then (multi_reconnect api args ep)
      (py_get (\<lambda>s. \<lparr>sum_execute = True, sum_dm_sends = send_used s - channel_sends,
         sum_channel_sends = channel_sends, sum_radio_sends = send_used s\<rparr>))))))))"

definition dedicated_body :: "'w mesh_api \<Rightarrow> dedicated_args \<Rightarrow> string \<Rightarrow> ('w live, run_summary) py" where
  "dedicated_body api args run_id =
     py_bind (preflight api args) (\<lambda>ep.
     py_then (short_query_rounds api (shared_clients ep) (query_rounds args))
     (if \<not> execute args
      then py_return \<lparr>sum_execute = False, sum_dm_sends = 0, sum_channel_sends = 0, sum_radio_sends = 0\<rparr>
      else execute_phases api args run_id ep))"

definition dedicated_start :: "dedicated_args \<Rightarrow> 'w \<Rightarrow> 'w live" where
  "dedicated_start args w = \<lparr>env = w, active_clients = [], send_limit = max_radio_sends args, send_used = 0,
     marker_sequence = 0, ack_queues = [], opened = [], disconnected = [], issued = []\<rparr>"

definition dedicated_run :: "'w mesh_api \<Rightarrow> dedicated_args \<Rightarrow> string \<Rightarrow> ('w live, run_summary) py" where
  "dedicated_run api args run_id = py_finally (dedicated_body api args run_id) (disconnect_active api)"

section \<open>Every phase keeps a world order\<close>

text \<open>
  The interface between the run and its invariants. \<open>script_order\<close>: a world order that tolerates
  the bookkeeping of the script, an opened client entered in the active list and a disconnected
  client removed from it is kept by every step that does not transmit. \<open>dedicated_order\<close> adds a
  transmission paired with a unit of budget, and is kept by the whole run.
\<close>

locale script_order = client_order R for R :: "'w live \<Rightarrow> 'w live \<Rightarrow> bool" +
  assumes bump_sequence: "R s (s\<lparr>marker_sequence := n\<rparr>)"
    and set_queues: "R s (s\<lparr>ack_queues := q\<rparr>)"
    and opened_active: "R s (s\<lparr>opened := c # opened s, active_clients := active_clients s @ [c]\<rparr>)"
    and closed_removed: "c \<in> set (disconnected s) \<Longrightarrow> R s (s\<lparr>active_clients := remove1 c (active_clients s)\<rparr>)"
begin

lemma keeps_connect_append:
  fixes f :: "nat \<Rightarrow> ('w live, 'a) py"
  assumes f: "\<And>c. py_keeps R (f c)"
  shows "py_keeps R (py_bind (connect api host port timeout) (\<lambda>c. py_then (append_client c) (f c)))"
  unfolding py_keeps_def
proof
  fix s :: "'w live"
  obtain r w where c: "create_tcp api host port timeout (env s) = (r, w)" by fastforce
  have "R (s\<lparr>env := w, opened := c # opened s, active_clients := active_clients s @ [c]\<rparr>)
    (snd (f c (s\<lparr>env := w, opened := c # opened s, active_clients := active_clients s @ [c]\<rparr>)))" for c
    using f by (rule py_keepsD)
  moreover have "R s (s\<lparr>env := w, opened := c # opened s, active_clients := active_clients s @ [c]\<rparr>)" for c
    using trans [OF env_change [of s w] opened_active [of "s\<lparr>env := w\<rparr>" c]] by simp
  ultimately have "R s (snd (f c (s\<lparr>env := w, opened := c # opened s, active_clients := active_clients s @ [c]\<rparr>)))" for c
    using trans by blast
  then show "R s (snd (py_bind (connect api host port timeout) (\<lambda>c. py_then (append_client c) (f c)) s))"
    using c env_change [of s w]
    by (auto simp: connect_def on_env_def append_client_def py_defs split: sum.splits option.splits)
qed

lemma keeps_open_client: "py_keeps R (open_client api args host port)"
  unfolding open_client_def by (intro keeps_connect_append keeps_then keeps_public_key keeps_return)

lemma keeps_close_client: "py_keeps R (close_client api client)"
  unfolding py_keeps_def
proof
  fix s :: "'w live"
  obtain r w where c: "client_disconnect api client (env s) = (r, w)" by fastforce
  let ?s = "s\<lparr>disconnected := client # disconnected s, env := w\<rparr>"
  have s: "R s ?s" using trans [OF mark_disconnected env_change] by simp
  moreover have "R ?s (?s\<lparr>active_clients := remove1 client (active_clients ?s)\<rparr>)"
    by (rule closed_removed) simp
  ultimately have "R s (?s\<lparr>active_clients := remove1 client (active_clients ?s)\<rparr>)" by (rule trans)
  with s c show "R s (snd (close_client api client s))"
    by (cases r) (auto simp: close_client_def disconnect_def on_env_def remove_client_def py_defs)
qed

lemma keeps_next_marker: "py_keeps R (next_marker run_id purpose)"
  unfolding next_marker_def by (intro keeps keeps_modify bump_sequence)

lemma keeps_attach: "py_keeps R (attach label client)"
  unfolding attach_def by (intro keeps_modify set_queues)

lemma keeps_require_token: "py_keeps R (require_token api token labels timeout)"
  unfolding require_token_def by (intro keeps keeps_modify set_queues client_keeps)

lemma keeps_get_contacts: "py_keeps R (get_contacts api client)"
  unfolding get_contacts_def
  by (intro keeps client_keeps) (auto split: pyval.splits intro: keeps)

lemma keeps_resolve_channel: "py_keeps R (resolve_channel api client name)"
  unfolding resolve_channel_def channel_match_def Let_def
  by (intro keeps client_keeps) simp_all

lemma keeps_try_get_msg: "py_keeps R (try_get_msg api client timeout)"
  unfolding try_get_msg_def by (intro keeps client_keeps) simp

lemma keeps_receive_marker:
  "py_keeps R (receive_marker fuel api client ty deadline maxu expected unmatched)"
proof (induction fuel arbitrary: unmatched)
  case 0
  show ?case by (simp add: keeps)
next
  case (Suc fuel)
  then show ?case unfolding receive_marker.simps Let_def now_def sleep_def
    by (intro keeps keeps_modify env_change keeps_try_get_msg Suc.IH)
qed

lemma keeps_receive_markers:
  "py_keeps R (receive_markers fuel api client ty deadline maxu ms unmatched)"
  by (induction ms arbitrary: unmatched) (auto intro!: keeps keeps_receive_marker)

lemma keeps_receive_sequence: "py_keeps R (receive_sequence api client ms ty timeout maxu verify)"
  unfolding receive_sequence_def now_def verify_empty_def
  by (intro keeps keeps_receive_markers keeps_try_get_msg)

lemmas step_keeps = keeps client_keeps keeps_open_client keeps_close_client keeps_next_marker keeps_attach
  keeps_require_token keeps_get_contacts keeps_resolve_channel keeps_receive_sequence

lemma keeps_preflight: "py_keeps R (preflight api args)"
  unfolding preflight_def channel_preflight_def by (intro step_keeps)

lemma keeps_multi_reconnect: "py_keeps R (multi_reconnect api args ep)"
  unfolding multi_reconnect_def by (intro step_keeps) simp

lemma keeps_short_query_rounds: "py_keeps R (short_query_rounds api clients rounds)"
  unfolding short_query_rounds_def by (intro step_keeps) (auto intro: keeps_call)

end

locale dedicated_order = script_order R for R :: "'w live \<Rightarrow> 'w live \<Rightarrow> bool" +
  assumes budgeted: "send_used s < send_limit s \<Longrightarrow>
      R s (s\<lparr>send_used := send_used s + 1, issued := issued s @ [(client, req)]\<rparr>)"
begin

lemma keeps_budgeted:
  assumes "\<And>e. py_keeps R (f e)"
  shows "py_keeps R (py_then consume (py_bind (call api client req) f))"
  unfolding py_keeps_def
proof
  fix s :: "'w live"
  show "R s (snd (py_then consume (py_bind (call api client req) f) s))"
  proof (cases "send_used s < send_limit s")
    case True
    let ?s = "s\<lparr>send_used := send_used s + 1, issued := issued s @ [(client, req)]\<rparr>"
    obtain r w where c: "client_call api client req (env s) = (r, w)" by fastforce
    have "R s ?s" using True by (rule budgeted)
    then have "R s (?s\<lparr>env := w\<rparr>)" using env_change by (rule trans)
    moreover have "R (?s\<lparr>env := w\<rparr>) (snd (f e (?s\<lparr>env := w\<rparr>)))" for e
      using assms by (rule py_keepsD)
    moreover have "snd (py_then consume (py_bind (call api client req) f) s)
        = (case r of Inl _ \<Rightarrow> ?s\<lparr>env := w\<rparr> | Inr e \<Rightarrow> snd (f e (?s\<lparr>env := w\<rparr>)))"
      using True c by (cases r) (simp_all add: consume_def call_def on_env_def py_defs)
    ultimately show ?thesis by (auto intro: trans split: sum.splits)
  next
    case False
    then show ?thesis by (simp add: consume_def py_defs refl)
  qed
qed

lemma keeps_send_dm: "py_keeps R (send_dm api client destination body)"
  unfolding send_dm_def by (intro keeps_budgeted keeps client_keeps)

lemma keeps_send_channel: "py_keeps R (send_channel api client index body)"
  unfolding send_channel_def by (intro keeps_budgeted keeps client_keeps)

lemma keeps_peer_dm: "py_keeps R (peer_dm api args ep body)"
  unfolding peer_dm_def expect_dm_def by (intro step_keeps keeps_send_dm)

lemma keeps_listener_sends: "py_keeps R (listener_sends api args run_id ep)"
  unfolding listener_sends_def listener_send_def expect_dm_def by (intro step_keeps keeps_send_dm)

lemma keeps_live_fanout: "py_keeps R (live_fanout api args run_id ep)"
  unfolding live_fanout_def expect_dm_def by (intro step_keeps keeps_peer_dm)

lemma keeps_detached_backfill: "py_keeps R (detached_backfill api args run_id ep)"
  unfolding detached_backfill_def expect_dm_def by (intro step_keeps keeps_peer_dm)

lemma keeps_takeover: "py_keeps R (takeover api args run_id ep dedicated)"
proof -
  have "py_keeps R (takeover_first api args run_id ep first others port)" for first others port
    unfolding takeover_first_def expect_dm_def by (intro step_keeps keeps_peer_dm)
  then show ?thesis unfolding takeover_def by (auto intro: keeps split: list.splits)
qed

lemma keeps_channel_fanout: "py_keeps R (channel_fanout api args run_id ep dedicated)"
  unfolding channel_fanout_def by (intro step_keeps keeps_send_channel)

lemma keeps_execute_phases: "py_keeps R (execute_phases api args run_id ep)"
  unfolding execute_phases_def
  by (intro step_keeps keeps_listener_sends keeps_live_fanout keeps_detached_backfill keeps_takeover
      keeps_channel_fanout keeps_multi_reconnect)

lemma keeps_dedicated_body: "py_keeps R (dedicated_body api args run_id)"
  unfolding dedicated_body_def
  by (intro step_keeps keeps_preflight keeps_short_query_rounds keeps_execute_phases)

lemma keeps_dedicated_run: "py_keeps R (dedicated_run api args run_id)"
  unfolding dedicated_run_def by (intro step_keeps keeps_dedicated_body)

end

section \<open>The orders of the run\<close>

definition radio_sends :: "'w live \<Rightarrow> int" where
  "radio_sends s = int (length (filter (\<lambda>x. is_radio_send (snd x)) (issued s)))"

text \<open>No more transmissions than units of budget, and no more units than the limit.\<close>

definition budget_order :: "'w live \<Rightarrow> 'w live \<Rightarrow> bool" where
  "budget_order s s' \<longleftrightarrow> send_limit s' = send_limit s \<and> send_used s \<le> send_used s'
     \<and> radio_sends s' - radio_sends s \<le> send_used s' - send_used s
     \<and> (send_used s \<le> send_limit s \<longrightarrow> send_used s' \<le> send_limit s')"

text \<open>Every client handed to the script is in its active list or has been disconnected.\<close>

definition tracked :: "'w live \<Rightarrow> bool" where
  "tracked s \<longleftrightarrow> set (opened s) \<subseteq> set (active_clients s) \<union> set (disconnected s)"

definition cleanup_order :: "'w live \<Rightarrow> 'w live \<Rightarrow> bool" where
  "cleanup_order s s' \<longleftrightarrow> set (disconnected s) \<subseteq> set (disconnected s') \<and> (tracked s \<longrightarrow> tracked s')"

definition quiet_order :: "'w live \<Rightarrow> 'w live \<Rightarrow> bool" where
  "quiet_order s s' \<longleftrightarrow> send_used s' = send_used s \<and> radio_sends s' = radio_sends s"

interpretation budget: dedicated_order budget_order
  by unfold_locales (auto simp: budget_order_def radio_sends_def)

interpretation cleanup: dedicated_order cleanup_order
proof (unfold_locales, goal_cases)
  case (9 c s)
  have "set (active_clients s) \<subseteq> insert c (set (remove1 c (active_clients s)))"
    using in_set_remove1 by fastforce
  with 9 show ?case by (auto simp: cleanup_order_def tracked_def)
qed (auto simp: cleanup_order_def tracked_def)

interpretation quiet: script_order quiet_order
  by unfold_locales (auto simp: quiet_order_def radio_sends_def)

section \<open>How many transmissions a run makes\<close>

definition spends :: "int \<Rightarrow> ('w live, 'a) py \<Rightarrow> bool" where
  "spends n m \<longleftrightarrow> (\<forall>s x s'. m s = (Inr x, s') \<longrightarrow> send_used s' = send_used s + n)"

lemma spends_quiet: "py_keeps quiet_order m \<Longrightarrow> spends 0 m"
  unfolding py_keeps_def spends_def quiet_order_def by (metis add.right_neutral snd_conv)

lemma spends_raise: "spends n (py_raise e)"
  by (simp add: spends_def py_raise_def)

lemma spends_bind: "spends n m \<Longrightarrow> (\<And>x. spends k (f x)) \<Longrightarrow> n + k = j \<Longrightarrow> spends j (py_bind m f)"
  by (fastforce simp: spends_def py_bind_def split: prod.splits sum.splits)

lemma spends_then: "spends n m \<Longrightarrow> spends k m' \<Longrightarrow> n + k = j \<Longrightarrow> spends j (py_then m m')"
  unfolding py_then_def by (rule spends_bind)

lemma spends_for: "(\<And>i. spends n (body i)) \<Longrightarrow> int (length xs) * n = j \<Longrightarrow> spends j (py_for xs body)"
proof (induction xs arbitrary: j)
  case Nil
  then show ?case by (simp add: spends_def py_return_def)
next
  case (Cons x xs)
  have "spends (int (length xs) * n) (py_for xs body)" using Cons by blast
  then have "spends (int (length xs) * n) (py_bind (py_for xs body) (\<lambda>ys. py_return (y # ys)))" for y
    by (rule spends_bind [where k = 0]) (auto simp: spends_def py_return_def)
  with Cons.prems show ?case by (auto intro!: spends_bind [OF Cons.prems(1)] simp: algebra_simps)
qed

lemma spends_send_dm: "spends 1 (send_dm api client destination body)"
  and spends_send_channel: "spends 1 (send_channel api client index body)"
proof -
  show "spends 1 (send_dm api client destination body)"
    unfolding spends_def send_dm_def
    by (auto simp: consume_def py_defs require_event_def split: prod.splits sum.splits if_splits option.splits)
      (auto simp: call_def on_env_def py_defs split: prod.splits)
  show "spends 1 (send_channel api client index body)"
    unfolding spends_def send_channel_def
    by (auto simp: consume_def py_defs require_event_def split: prod.splits sum.splits if_splits option.splits)
      (auto simp: call_def on_env_def py_defs split: prod.splits)
qed


lemma spends_peer_dm: "spends 1 (peer_dm api args ep body)"
  unfolding peer_dm_def expect_dm_def
  by (rule spends_bind [OF spends_send_dm spends_quiet]) (auto intro!: quiet.step_keeps)

lemma spends_listener_sends:
  "spends (1 + int (length (ep_dedicated ep))) (listener_sends api args run_id ep)"
proof -
  have "spends 1 (listener_send api args run_id ep labelled)" for labelled
    unfolding listener_send_def expect_dm_def
    by (rule spends_bind [OF spends_quiet], rule quiet.keeps_next_marker,
        rule spends_bind [OF spends_send_dm spends_quiet]) (auto intro!: quiet.step_keeps)
  then have "spends (1 + int (length (ep_dedicated ep))) (py_for (shared_clients ep) (listener_send api args run_id ep))"
    by (rule spends_for) (simp add: shared_clients_def)
  then show ?thesis unfolding listener_sends_def
    by (rule spends_then [OF _ spends_quiet]) (auto intro: quiet.step_keeps)
qed

lemma spends_live_fanout: "spends 1 (live_fanout api args run_id ep)"
  unfolding live_fanout_def expect_dm_def
  by (rule spends_bind [OF spends_quiet], rule quiet.keeps_next_marker,
      rule spends_then [OF spends_peer_dm spends_quiet]) (auto intro!: quiet.step_keeps)

lemma spends_detached_backfill: "spends 2 (detached_backfill api args run_id ep)"
proof -
  have two: "spends 2 (py_for [r1, r2] (peer_dm api args ep))" for r1 r2
    by (rule spends_for [OF spends_peer_dm]) simp
  show ?thesis unfolding detached_backfill_def expect_dm_def
    apply (rule spends_then [OF spends_quiet])
      apply (intro quiet.step_keeps)
     apply (rule spends_bind [OF spends_quiet], rule quiet.keeps_next_marker)
      apply (rule spends_bind [OF spends_quiet], rule quiet.keeps_next_marker)
       apply (rule spends_then [OF two spends_quiet])
        apply (auto intro!: quiet.step_keeps)
    done
qed

lemma spends_takeover: "spends 1 (takeover api args run_id ep dedicated)"
proof -
  have "spends 1 (takeover_first api args run_id ep first others port)" for first others port
    unfolding takeover_first_def expect_dm_def
    apply (rule spends_then [OF spends_quiet])
      apply (rule quiet.keeps_close_client)
     apply (rule spends_bind [OF spends_quiet], rule quiet.keeps_next_marker)
      apply (rule spends_then [OF spends_peer_dm spends_quiet])
       apply (auto intro!: quiet.step_keeps)
    done
  then show ?thesis unfolding takeover_def by (auto intro: spends_raise split: list.splits)
qed

lemma channel_fanout_result:
  assumes "channel_fanout api args run_id ep dedicated s = (Inr n, s')"
  shows "n = (if has_channel args then 1 else 0) \<and> send_used s' = send_used s + n"
proof (cases "has_channel args")
  case False
  with assms show ?thesis by (simp add: channel_fanout_def py_return_def)
next
  case True
  with assms obtain index where index: "ep_peer_channel ep = Some index"
    by (cases "ep_peer_channel ep") (auto simp: channel_fanout_def py_raise_def)
  have "spends 1 (channel_fanout api args run_id ep dedicated)"
    unfolding channel_fanout_def index using True
    apply (simp del: py_for.simps)
    apply (rule spends_bind [OF spends_quiet], rule quiet.keeps_next_marker)
     apply (rule spends_then [OF spends_send_channel spends_quiet])
      apply (auto intro!: quiet.step_keeps simp del: py_for.simps)
    done
  moreover have "n = 1" using assms True index
    by (auto simp: channel_fanout_def py_defs split: prod.splits sum.splits)
  ultimately show ?thesis using assms True unfolding spends_def by fastforce
qed

lemma spendsD: "m s = (Inr x, s') \<Longrightarrow> spends n m \<Longrightarrow> send_used s' = send_used s + n"
  by (auto simp: spends_def)

lemma execute_phases_result:
  assumes "execute_phases api args run_id ep s = (Inr r, s')"
  shows "send_used s' = send_used s + 5 + int (length (ep_dedicated ep)) + (if has_channel args then 1 else 0)
    \<and> sum_radio_sends r = send_used s' \<and> sum_channel_sends r = (if has_channel args then 1 else 0)
    \<and> sum_dm_sends r = send_used s' - sum_channel_sends r \<and> sum_execute r"
proof -
  let ?attach = "py_for (shared_clients ep @ [(''peer'', ep_peer ep)]) (\<lambda>(label, client). attach label client)"
  obtain x1 s1 x2 s2 x3 s3 d1 s4 d2 s5 n s6 x7 where
    1: "?attach s = (Inr x1, s1)" and 2: "listener_sends api args run_id ep s1 = (Inr x2, s2)"
    and 3: "live_fanout api args run_id ep s2 = (Inr x3, s3)"
    and 4: "detached_backfill api args run_id ep s3 = (Inr d1, s4)"
    and 5: "takeover api args run_id ep d1 s4 = (Inr d2, s5)"
    and 6: "channel_fanout api args run_id ep d2 s5 = (Inr n, s6)"
    and 7: "multi_reconnect api args ep s6 = (Inr x7, s')"
    and r: "r = \<lparr>sum_execute = True, sum_dm_sends = send_used s' - n, sum_channel_sends = n, sum_radio_sends = send_used s'\<rparr>"
    using assms unfolding execute_phases_def py_bind_Inr py_then_Inr by (auto simp: py_get_def)
  have q1: "spends 0 ?attach"
    by (intro spends_quiet quiet.keeps_for) (auto intro: quiet.keeps_attach)
  have q7: "spends 0 (multi_reconnect api args ep)"
    by (intro spends_quiet quiet.keeps_multi_reconnect)
  show ?thesis
    using spendsD [OF 1 q1] spendsD [OF 2 spends_listener_sends] spendsD [OF 3 spends_live_fanout]
      spendsD [OF 4 spends_detached_backfill] spendsD [OF 5 spends_takeover]
      channel_fanout_result [OF 6] spendsD [OF 7 q7] r by simp
qed

section \<open>Clean-up\<close>

section \<open>Waiting for a marker ends\<close>

text \<open>
  What the reception loop relies on in \<open>asyncio\<close> and the client library: a command does not turn
  the loop clock back and sleeping advances it by at least the time asked for.
\<close>

definition clock_advances :: "'w mesh_api \<Rightarrow> bool" where
  "clock_advances api \<longleftrightarrow>
     (\<forall>client req w. loop_time api w \<le> loop_time api (snd (client_call api client req w))
        \<and> fst (client_call api client req w) \<noteq> Inl OutOfFuel)
   \<and> (\<forall>ms w. loop_time api w + ms \<le> loop_time api (loop_sleep api ms w))"

definition sleeps_left :: "int \<Rightarrow> int \<Rightarrow> nat" where
  "sleeps_left deadline t = nat ((deadline - t + 249) div 250)"

lemma sleeps_left_mono: "t \<le> t' \<Longrightarrow> sleeps_left deadline t' \<le> sleeps_left deadline t"
  unfolding sleeps_left_def by (intro nat_mono zdiv_mono1) auto

lemma sleeps_left_sleep: "t < deadline \<Longrightarrow> t + 250 \<le> t' \<Longrightarrow> sleeps_left deadline t' < sleeps_left deadline t"
proof -
  assume a: "t < deadline" "t + 250 \<le> t'"
  have "(deadline - t' + 249) div 250 \<le> (deadline - t + 249 - 250) div 250"
    using a by (intro zdiv_mono1) auto
  also have "\<dots> = (deadline - t + 249) div 250 - 1" by simp
  finally have "(deadline - t' + 249) div 250 < (deadline - t + 249) div 250" by simp
  moreover have "0 < (deadline - t + 249) div 250" using a by (simp add: pos_imp_zdiv_pos_iff)
  ultimately show ?thesis unfolding sleeps_left_def by simp
qed

lemma try_get_msg_clock:
  assumes "clock_advances api"
  shows "loop_time api (env s) \<le> loop_time api (env (snd (try_get_msg api client ms s)))
    \<and> fst (try_get_msg api client ms s) \<noteq> Inl OutOfFuel"
proof -
  obtain r w where c: "client_call api client (GetMsg ms) (env s) = (r, w)" by fastforce
  with assms have "loop_time api (env s) \<le> loop_time api w" "r \<noteq> Inl OutOfFuel"
    unfolding clock_advances_def by (metis snd_conv) (metis assms clock_advances_def c fst_conv)
  with c show ?thesis
    by (cases r) (auto simp: try_get_msg_def call_def on_env_def py_defs)
qed

lemma event_matches_fuel: "event_matches event ty expected \<noteq> Inl OutOfFuel"
  by (auto simp: event_matches_def py_dict_get_def split: pyval.splits option.splits)

lemma receive_marker_returns:
  assumes "clock_advances api"
    and "sleeps_left deadline (loop_time api (env s)) + nat (maxu - unmatched + 1) < fuel"
  shows "fst (receive_marker fuel api client ty deadline maxu expected unmatched s) \<noteq> Inl OutOfFuel"
  using assms(2)
proof (induction fuel arbitrary: s unmatched)
  case (Suc fuel)
  let ?t = "loop_time api (env s)"
  obtain r s1 where g: "try_get_msg api client (min 12000 (deadline - ?t)) s = (r, s1)" by fastforce
  have clock: "?t \<le> loop_time api (env s1)" "r \<noteq> Inl OutOfFuel"
    using try_get_msg_clock [OF assms(1), of s client "min 12000 (deadline - ?t)"] g by auto
  show ?case
  proof (cases "?t < deadline")
    case False
    then show ?thesis by (simp add: now_def py_defs)
  next
    case early: True
    let ?slept = "s1\<lparr>env := loop_sleep api 250 (env s1)\<rparr>"
    have "loop_time api (env s1) + 250 \<le> loop_time api (env ?slept)"
      using assms(1) by (simp add: clock_advances_def)
    then have "sleeps_left deadline (loop_time api (env ?slept)) < sleeps_left deadline ?t"
      using early clock by (intro sleeps_left_sleep) auto
    then have again: "fst (receive_marker fuel api client ty deadline maxu expected unmatched ?slept) \<noteq> Inl OutOfFuel"
      using Suc.prems by (intro Suc.IH) auto
    have "sleeps_left deadline (loop_time api (env s1)) \<le> sleeps_left deadline ?t"
      using clock by (intro sleeps_left_mono) auto
    then have retry: "\<not> unmatched + 1 > maxu \<Longrightarrow>
        fst (receive_marker fuel api client ty deadline maxu expected (unmatched + 1) s1) \<noteq> Inl OutOfFuel"
      using Suc.prems by (intro Suc.IH) auto
    show ?thesis
    proof (cases r)
      case (Inl e)
      with early g clock show ?thesis by (simp add: now_def py_defs Let_def)
    next
      case (Inr got)
      with early g again retry event_matches_fuel show ?thesis
        by (auto simp: now_def sleep_def py_defs Let_def split: sum.splits option.splits)
    qed
  qed
qed simp

lemma receive_marker_progress:
  assumes "clock_advances api"
    and "receive_marker fuel api client ty deadline maxu expected unmatched s = (Inr u, s')"
  shows "loop_time api (env s) \<le> loop_time api (env s') \<and> unmatched \<le> u"
  using assms(2)
proof (induction fuel arbitrary: s unmatched)
  case 0
  then show ?case by (simp add: py_raise_def)
next
  case (Suc fuel)
  let ?t = "loop_time api (env s)"
  obtain r s1 where g: "try_get_msg api client (min 12000 (deadline - ?t)) s = (r, s1)" by fastforce
  have clock: "?t \<le> loop_time api (env s1)"
    using try_get_msg_clock [OF assms(1), of s client "min 12000 (deadline - ?t)"] g by auto
  have slept: "loop_time api (env s1) \<le> loop_time api (loop_sleep api 250 (env s1))"
    using assms(1) unfolding clock_advances_def by (metis add_increasing2 add.commute le_add_same_cancel2 order_trans zero_le_numeral)
  note again = Suc.IH [of unmatched "s1\<lparr>env := loop_sleep api 250 (env s1)\<rparr>"]
  note retry = Suc.IH [of "unmatched + 1" s1]
  show ?case
  proof (cases "r")
    case (Inl e)
    with Suc.prems g show ?thesis by (auto simp: now_def py_defs Let_def split: if_splits)
  next
    case (Inr got)
    with Suc.prems g again retry clock slept show ?thesis
      by (force simp: now_def sleep_def py_defs Let_def split: if_splits sum.splits option.splits)
  qed
qed

lemma receive_markers_return:
  assumes "clock_advances api" "0 \<le> unmatched"
    and "sleeps_left deadline (loop_time api (env s)) + nat (maxu + 1) < fuel"
  shows "fst (receive_markers fuel api client ty deadline maxu ms unmatched s) \<noteq> Inl OutOfFuel"
  using assms(2,3)
proof (induction ms arbitrary: unmatched s)
  case Nil
  then show ?case by (simp add: py_return_def)
next
  case (Cons m ms)
  obtain r s1 where g: "receive_marker fuel api client ty deadline maxu m unmatched s = (r, s1)" by fastforce
  have first: "r \<noteq> Inl OutOfFuel"
    using receive_marker_returns [OF assms(1), of deadline s maxu unmatched fuel client ty m] Cons.prems g by auto
  show ?case
  proof (cases r)
    case (Inl e)
    with g first show ?thesis by (simp add: py_bind_def)
  next
    case (Inr u)
    with receive_marker_progress [OF assms(1)] g have p: "loop_time api (env s) \<le> loop_time api (env s1)" "unmatched \<le> u" by auto
    have "fst (receive_markers fuel api client ty deadline maxu ms u s1) \<noteq> Inl OutOfFuel"
      using Cons.prems p sleeps_left_mono [OF p(1), of deadline] by (intro Cons.IH) auto
    with g Inr show ?thesis by (simp add: py_bind_def)
  qed
qed

lemma receive_fuel_enough: "sleeps_left (t + timeout) t + nat (maxu + 1) < receive_fuel timeout maxu"
proof -
  have "(timeout + 249) div 250 \<le> timeout div 250 + 1" by linarith
  then show ?thesis unfolding sleeps_left_def receive_fuel_def by simp
qed

section \<open>Properties\<close>

lemma preflight_dedicated:
  assumes "preflight api args s = (Inr ep, s')"
  shows "length (ep_dedicated ep) = length (dedicated_ports args) \<and> send_used s' = send_used s"
proof -
  have "spends 0 (preflight api args)" by (intro spends_quiet quiet.keeps_preflight)
  with assms have "send_used s' = send_used s" by (auto simp: spends_def)
  moreover have "length (ep_dedicated ep) = length (dedicated_ports args)"
    using assms unfolding preflight_def py_bind_Inr
    by (auto simp: py_raise_def py_return_def py_bind_Inr dest: py_for_length split: if_splits)
  ultimately show ?thesis by simp
qed

text \<open>C9. The radio check never transmits more than it was allowed: whatever the client library does,
  and whether the run succeeds or raises, the number of message and channel transmissions it
  requested is at most the budget consumed, which is at most \<open>--max-radio-sends\<close>.\<close>

theorem dedicated_budget:
  assumes "0 \<le> max_radio_sends args"
  shows "radio_sends (snd (dedicated_run api args run_id (dedicated_start args w)))
      \<le> send_used (snd (dedicated_run api args run_id (dedicated_start args w)))
    \<and> send_used (snd (dedicated_run api args run_id (dedicated_start args w))) \<le> max_radio_sends args"
  using py_keepsD [OF budget.keeps_dedicated_run, of "dedicated_start args w" api args run_id] assms
  by (simp add: budget_order_def dedicated_start_def radio_sends_def)

definition idle_api :: "unit mesh_api" where
  "idle_api = \<lparr>create_tcp = \<lambda>host port timeout. py_return None, self_info_key = \<lambda>c w. None,
     is_connected = \<lambda>c w. False, client_call = \<lambda>c r. py_return None,
     client_disconnect = \<lambda>c. py_return (), delivered_acks = \<lambda>t. py_return [],
     wait_disconnected = \<lambda>c t. py_return (), register_waiter = \<lambda>c ty fs t. py_return 0,
     wait_first = \<lambda>ws t. py_return ([], ws), cancel_waiters = \<lambda>ws. py_return (), loop_time = \<lambda>w. 0, loop_sleep = \<lambda>ms w. w\<rparr>"

definition example_args :: dedicated_args where
  "example_args = \<lparr>mux_host = ''127.0.0.1'', multi_port = 5001, dedicated_ports = [5002, 5003],
     peer_host = ''127.0.0.1'', peer_port = 5000, mux_contact = ''a'', peer_contact = ''b'',
     channel_name = Some ''test'', query_rounds = 5, client_timeout = 10000, receive_timeout = 60000,
     max_unmatched = 64, max_radio_sends = 8, execute = True\<rparr>"

theorem dedicated_budget_witness:
  "send_used (snd (dedicated_run idle_api example_args ''1'' (dedicated_start example_args ()))) \<le> 8"
  using dedicated_budget [of example_args idle_api "''1''" "()"] by (simp add: example_args_def)


text \<open>Without \<open>--execute\<close> the check is read-only: whatever happens, no transmission is requested and
  no budget is consumed.\<close>

theorem dedicated_read_only:
  assumes "\<not> execute args"
  shows "radio_sends (snd (dedicated_run api args run_id (dedicated_start args w))) = 0
    \<and> send_used (snd (dedicated_run api args run_id (dedicated_start args w))) = 0"
proof -
  have body: "dedicated_body api args run_id = py_bind (preflight api args) (\<lambda>ep.
      py_then (short_query_rounds api (shared_clients ep) (query_rounds args))
        (py_return \<lparr>sum_execute = False, sum_dm_sends = 0, sum_channel_sends = 0, sum_radio_sends = 0\<rparr>))"
    using assms by (simp add: dedicated_body_def)
  have "py_keeps quiet_order (dedicated_run api args run_id)"
    unfolding dedicated_run_def body
    by (intro quiet.step_keeps quiet.keeps_preflight quiet.keeps_short_query_rounds)
  from py_keepsD [OF this, of "dedicated_start args w"] show ?thesis
    by (simp add: quiet_order_def dedicated_start_def radio_sends_def)
qed

theorem dedicated_read_only_witness:
  "radio_sends (snd (dedicated_run idle_api (example_args\<lparr>execute := False\<rparr>) ''1''
     (dedicated_start (example_args\<lparr>execute := False\<rparr>) ()))) = 0"
  using dedicated_read_only [of "example_args\<lparr>execute := False\<rparr>" idle_api "''1''" "()"] by simp

text \<open>C24. No client is left connected: every client a run was handed by \<open>connect\<close> has been
  disconnected when the run ends, whether it returns or raises, at whatever point.\<close>

theorem dedicated_cleanup:
  "set (opened (snd (dedicated_run api args run_id (dedicated_start args w))))
    \<subseteq> set (disconnected (snd (dedicated_run api args run_id (dedicated_start args w))))"
proof -
  let ?s = "snd (dedicated_body api args run_id (dedicated_start args w))"
  have "tracked ?s"
    using py_keepsD [OF cleanup.keeps_dedicated_body, of "dedicated_start args w" api args run_id]
    by (simp add: cleanup_order_def tracked_def dedicated_start_def)
  then show ?thesis
    by (simp add: dedicated_run_def py_finally_runs_cleanup disconnect_active_state tracked_def)
qed

text \<open>C25. Waiting for messages ends: when sleeping advances the loop clock and commands do not turn it
  back, the reception of any list of markers stops within \<open>timeout / 250 ms + max_unmatched + 4\<close>
  iterations for each marker, by success or by an exception of the script or the client.\<close>

theorem receive_sequence_ends:
  assumes "clock_advances api"
  shows "fst (receive_sequence api client markers ty timeout maxu verify s) \<noteq> Inl OutOfFuel"
proof -
  let ?t = "loop_time api (env s)"
  obtain r s1 where m: "receive_markers (receive_fuel timeout maxu) api client ty (?t + timeout) maxu markers 0 s = (r, s1)"
    by fastforce
  have "r \<noteq> Inl OutOfFuel"
    using receive_markers_return [OF assms, of 0 "?t + timeout" s maxu "receive_fuel timeout maxu" client ty markers]
      receive_fuel_enough [of ?t timeout maxu] m by auto
  moreover have "fst (verify_empty api client timeout s1) \<noteq> Inl OutOfFuel"
  proof -
    obtain r' s2 where g: "try_get_msg api client (min 4000 timeout) s1 = (r', s2)" by fastforce
    with try_get_msg_clock [OF assms, of s1 client "min 4000 timeout"] have "r' \<noteq> Inl OutOfFuel" by simp
    with g show ?thesis
      by (cases r') (auto simp: verify_empty_def py_defs split: option.splits)
  qed
  ultimately show ?thesis using m
    by (cases r) (auto simp: receive_sequence_def now_def py_defs)
qed

definition ticking_api :: "int mesh_api" where
  "ticking_api = \<lparr>create_tcp = \<lambda>host port timeout. py_return None, self_info_key = \<lambda>c w. None,
     is_connected = \<lambda>c w. False, client_call = \<lambda>c r. py_return None,
     client_disconnect = \<lambda>c. py_return (), delivered_acks = \<lambda>t. py_return [],
     wait_disconnected = \<lambda>c t. py_return (), register_waiter = \<lambda>c ty fs t. py_return 0,
     wait_first = \<lambda>ws t. py_return ([], ws), cancel_waiters = \<lambda>ws. py_return (), loop_time = \<lambda>w. w, loop_sleep = \<lambda>ms w. w + \<bar>ms\<bar>\<rparr>"

theorem receive_sequence_ends_witness:
  "fst (receive_sequence ticking_api 1 [''x''] CONTACT_MSG_RECV 1000 4 False (dedicated_start example_args 0)) \<noteq> Inl OutOfFuel"
  by (rule receive_sequence_ends) (auto simp: clock_advances_def ticking_api_def py_return_def)

text \<open>The application body of a channel message is recognised by an exact suffix behind a non-empty
  sender prefix; a direct message by equality.\<close>

theorem inbox_text_matches_iff:
  "inbox_text_matches ty received body \<longleftrightarrow>
     (if ty = CHANNEL_MSG_RECV then \<exists>sender. sender \<noteq> [] \<and> received = sender @ '': '' @ body
      else received = body)"
proof -
  have "ends_with xs suf \<longleftrightarrow> (\<exists>pre. xs = pre @ suf)" for xs suf :: string
    unfolding ends_with_def by (metis append_eq_conv_conj append_take_drop_id diff_add_inverse2
        length_append le_add2 length_drop)
  then show ?thesis by (auto simp: inbox_text_matches_def Let_def)
qed

lemma select_contacts_all:
  "select_contacts p cs = Inr ms \<Longrightarrow> ms = filter (\<lambda>c. p c = Inr True) cs \<and> (\<forall>c \<in> set cs. \<exists>b. p c = Inr b)"
  by (induction cs arbitrary: ms) (auto split: sum.splits if_splits)

text \<open>A destination is fenced by name and identity: a resolved contact is the only entry of the
  contact list whose advertised name and public key both agree, up to case, with the expected
  ones, and every entry was examined without error.\<close>

theorem resolve_contact_unique:
  assumes "resolve_contact contacts name key = Inr c"
  shows "\<exists>pre k post n pk. contacts = pre @ (k, c) # post
    \<and> text_field c ''adv_name'' = Inr n \<and> casefold n = casefold name
    \<and> text_field c ''public_key'' = Inr pk \<and> casefold pk = casefold key
    \<and> (\<forall>d \<in> set (map snd (pre @ post)). is_contact name key d = Inr False)"
proof -
  let ?p = "is_contact name key"
  obtain ms where ms: "select_contacts ?p (map snd contacts) = Inr ms" "length ms = 1" "c = ms ! 0"
    using assms by (auto simp: resolve_contact_def split: sum.splits if_splits)
  have "ms = [c]" using ms(2,3) by (cases ms) auto
  with select_contacts_all [OF ms(1)]
  have one: "filter (\<lambda>c. ?p c = Inr True) (map snd contacts) = [c]"
    and total: "\<forall>c \<in> set (map snd contacts). \<exists>b. ?p c = Inr b" by simp_all
  then obtain us vs where split: "map snd contacts = us @ c # vs" "\<forall>u \<in> set us. ?p u \<noteq> Inr True"
    "?p c = Inr True" "[] = filter (\<lambda>c. ?p c = Inr True) vs"
    unfolding filter_eq_Cons_iff by auto
  then obtain pre k post where parts: "contacts = pre @ (k, c) # post" "map snd pre = us" "map snd post = vs"
    by (auto simp: map_eq_append_conv map_eq_Cons_conv)
  have none: "\<forall>v \<in> set vs. ?p v \<noteq> Inr True" using split(4) by (simp add: filter_empty_conv [symmetric])
  have "?p d = Inr False" if "d \<in> set (map snd (pre @ post))" for d
  proof -
    have d: "d \<in> set us \<union> set vs" using that parts(2,3) by auto
    then obtain b where "?p d = Inr b" using total split(1) by auto
    with d none split(2) show ?thesis by (cases b) auto
  qed
  then have "\<forall>d \<in> set (map snd (pre @ post)). ?p d = Inr False" by blast
  moreover obtain n pk where "text_field c ''adv_name'' = Inr n" "casefold n = casefold name"
    "text_field c ''public_key'' = Inr pk" "casefold pk = casefold key"
    using split(3) unfolding is_contact_def by (auto split: sum.splits if_splits)
  ultimately show ?thesis using parts(1) by blast
qed

theorem resolve_contact_unique_witness:
  "\<exists>pre k post. [(''x'', PyDict [(''adv_name'', PyStr ''Ann''), (''public_key'', PyStr ''AB'')]), (''y'', PyDict [])]
     = pre @ (k, PyDict [(''adv_name'', PyStr ''Ann''), (''public_key'', PyStr ''AB'')]) # post"
proof -
  have "resolve_contact [(''x'', PyDict [(''adv_name'', PyStr ''Ann''), (''public_key'', PyStr ''AB'')]), (''y'', PyDict [])]
      ''ann'' ''ab'' = Inr (PyDict [(''adv_name'', PyStr ''Ann''), (''public_key'', PyStr ''AB'')])"
    by code_simp
  from resolve_contact_unique [OF this] show ?thesis by blast
qed

end
