(* ===== verification/Live_Pair.thy ===== *)
theory Live_Pair
  imports Frame_Codec Protocol Live_Client
begin

text \<open>
  The paired live check \<open>scripts/check_live_pair.py\<close>: the raw downstream socket \<open>InboxWireClient\<close>,
  the comparison of inbox dialects, the local-rejection inputs of \<open>isolation\<close> and the workers of
  \<open>stress\<close>.

  A wire client is the record \<open>wire\<close>: the bytes the mux will still send before it closes, the bytes
  written to the mux, and the loop clock in milliseconds, which only sleeping advances. Reading past
  the end of the input is \<open>IncompleteReadError\<close>. The reception loop ends because every iteration
  consumes a reply.
\<close>

section \<open>InboxWireClient\<close>

record wire =
  wire_in :: bytes
  wire_out :: bytes
  wire_now :: int

definition wire_command :: "bytes \<Rightarrow> (wire, unit) py" where
  "wire_command payload = py_bind (py_lift (py_to_bytes (length payload) 2)) (\<lambda>sz.
     py_modify (\<lambda>s. s\<lparr>wire_out := wire_out s @ 0x3C # sz @ payload\<rparr>))"

definition readexactly :: "nat \<Rightarrow> (wire, bytes) py" where
  "readexactly n s = (if length (wire_in s) < n then (Inl IncompleteReadError, s)
     else (Inr (take n (wire_in s)), s\<lparr>wire_in := drop n (wire_in s)\<rparr>))"

text \<open>One iteration of \<open>reply\<close>: an envelope and its payload.\<close>

definition read_envelope :: "(wire, bytes) py" where
  "read_envelope = py_bind (readexactly 3) (\<lambda>header.
     let sz = le_val (drop 1 header) in
     if header ! 0 \<noteq> 0x3E \<or> \<not> (1 \<le> sz \<and> sz \<le> 176)
     then py_raise (AssertionError ''invalid raw downstream envelope'')
     else readexactly sz)"

lemma read_envelope_consumes:
  "read_envelope s = (Inr p, s') \<Longrightarrow> length (wire_in s') < length (wire_in s) \<and> p \<noteq> []"
  by (auto simp: read_envelope_def readexactly_def py_bind_def py_raise_def Let_def split: if_splits)

text \<open>\<open>reply\<close>: asynchronous pushes (codes from 0x80) are skipped.\<close>

function wire_reply :: "wire \<Rightarrow> (py_error + bytes) \<times> wire" where
  "wire_reply s = (case read_envelope s of
       (Inl e, s') \<Rightarrow> (Inl e, s')
     | (Inr payload, s') \<Rightarrow> if payload ! 0 < 0x80 then (Inr payload, s') else wire_reply s')"
  by pat_completeness auto
termination
  by (relation "measure (\<lambda>s. length (wire_in s))") (auto dest!: sym [of "(_, _)"] read_envelope_consumes)

declare wire_reply.simps [simp del]

lemma wire_reply_consumes:
  "wire_reply s = (Inr p, s') \<Longrightarrow> length (wire_in s') < length (wire_in s) \<and> p \<noteq> [] \<and> p ! 0 < 0x80"
proof (induction s rule: wire_reply.induct)
  case (1 s)
  show ?case
  proof (cases "read_envelope s")
    case (Pair r s1)
    show ?thesis
    proof (cases r)
      case (Inl e)
      with Pair "1.prems" show ?thesis by (simp add: wire_reply.simps [of s])
    next
      case (Inr q)
      with Pair have c: "length (wire_in s1) < length (wire_in s)" "q \<noteq> []"
        using read_envelope_consumes by auto
      show ?thesis
      proof (cases "q ! 0 < 0x80")
        case True
        with "1.prems" Pair Inr c show ?thesis by (simp add: wire_reply.simps [of s])
      next
        case False
        with "1.prems" Pair Inr have "wire_reply s1 = (Inr p, s')" by (simp add: wire_reply.simps [of s])
        with "1.IH" Pair Inr False c show ?thesis by fastforce
      qed
    qed
  qed
qed

definition body_offset :: "byte \<Rightarrow> nat" where
  "body_offset code = (if code = 7 then 13 else if code = 16 then 16 else if code = 8 then 8 else 11)"

definition wire_ends_with :: "bytes \<Rightarrow> bytes \<Rightarrow> bool" where
  "wire_ends_with xs suf \<longleftrightarrow> length suf \<le> length xs \<and> drop (length xs - length suf) xs = suf"

definition marker_matches :: "bytes \<Rightarrow> bytes \<Rightarrow> bool \<Rightarrow> bool" where
  "marker_matches payload body channel \<longleftrightarrow>
     payload ! 0 \<in> (if channel then {8, 17} else {7, 16})
   \<and> (let text = drop (body_offset (payload ! 0)) payload in
      if channel then wire_ends_with text (ascii '': '' @ body) else text = body)"

definition sync_reply :: "(wire, bytes) py" where
  "sync_reply = py_then (wire_command [10]) wire_reply"

lemma sync_reply_consumes:
  "sync_reply s = (Inr p, s') \<Longrightarrow> length (wire_in s') < length (wire_in s) \<and> p \<noteq> [] \<and> p ! 0 < 0x80"
  by (auto simp: sync_reply_def wire_command_def py_to_bytes_def py_defs dest: wire_reply_consumes)

text \<open>The loop of \<open>marker\<close> up to the deadline, with the number of unmatched payloads so far.\<close>

function wire_marker_loop :: "int \<Rightarrow> bytes \<Rightarrow> bool \<Rightarrow> nat \<Rightarrow> wire \<Rightarrow> (py_error + bytes) \<times> wire" where
  "wire_marker_loop deadline body channel unmatched s =
     (if \<not> wire_now s < deadline then (Inl (AssertionError ''raw inbox marker was not received''), s)
      else case sync_reply s of
        (Inl e, s') \<Rightarrow> (Inl e, s')
      | (Inr payload, s') \<Rightarrow>
          if payload ! 0 = 10
          then wire_marker_loop deadline body channel unmatched (s'\<lparr>wire_now := wire_now s' + 100\<rparr>)
          else if payload ! 0 = 1 then (Inl (AssertionError ''raw inbox synchronization was rejected''), s')
          else if marker_matches payload body channel then (Inr payload, s')
          else if unmatched + 1 > 64 then (Inl (AssertionError ''raw inbox exceeded the background-message bound''), s')
          else wire_marker_loop deadline body channel (unmatched + 1) s')"
  by pat_completeness auto
termination
  by (relation "measure (\<lambda>(d, b, c, u, s). length (wire_in s))") (auto dest!: sym [of "(_, _)"] sync_reply_consumes)

declare wire_marker_loop.simps [simp del]

definition wire_marker :: "bytes \<Rightarrow> bool \<Rightarrow> wire \<Rightarrow> (py_error + bytes) \<times> wire" where
  "wire_marker body channel s = wire_marker_loop (wire_now s + 30000) body channel 0 s"

text \<open>The handshake of \<open>connect\<close>; on an exception the socket is closed and the exception raised again.\<close>

definition wire_connect :: "byte \<Rightarrow> (wire, unit) py" where
  "wire_connect target =
     py_then (wire_command ([1] @ replicate 7 0 @ ascii ''mux-dialect-test''))
     (py_bind wire_reply (\<lambda>info.
      if info ! 0 \<noteq> 5 then py_raise (AssertionError ''raw APP_START did not return SELF_INFO'')
      else py_then (wire_command [22, target])
      (py_bind wire_reply (\<lambda>info.
       if info ! 0 \<noteq> 13 \<or> length info \<noteq> 82
       then py_raise (AssertionError ''raw query did not return the known DEVICE_INFO shape'')
       else py_return ()))))"

section \<open>Comparing dialects\<close>

definition dialect_compare :: "bool \<Rightarrow> bytes \<Rightarrow> bytes \<Rightarrow> py_error + unit" where
  "dialect_compare channel legacy modern =
     (let legacy_code = (if channel then 8 else 7); modern_code = (if channel then 17 else 16) in
      if legacy ! 0 \<noteq> legacy_code \<or> modern ! 0 \<noteq> modern_code
      then Inl (AssertionError ''one client changed another client's inbox dialect'')
      else if legacy \<noteq> legacy_code # drop 4 modern
      then Inl (AssertionError ''legacy downgrade changed the radio message header or body'')
      else Inr ())"

section \<open>Isolation inputs\<close>

text \<open>Invalid commands with the error reason each must receive, and envelopes that must close the socket.\<close>

definition isolation_commands :: "(bytes \<times> byte) list" where
  "isolation_commands = [([0xfe], 1), ([22], 6), ([66], 6)]"

definition isolation_frames :: "bytes list" where
  "isolation_frames = [[0x3E, 1, 0, 5], [0x3C, 0, 0], [0x3C, 0xb1, 0]]"

section \<open>Stress workers\<close>

definition stress_target :: "nat \<Rightarrow> nat \<Rightarrow> byte" where
  "stress_target index iteration = [0, 2, 3, 14, 255] ! ((index + iteration) mod 5)"

definition stress_calls :: "(request \<times> event_type) list" where
  "stress_calls = [(GetTime, CURRENT_TIME), (GetBat, BATTERY), (GetStatsCore, STATS_CORE),
     (GetStatsRadio, STATS_RADIO), (GetStatsPackets, STATS_PACKETS), (GetSelfTelemetry, TELEMETRY_RESPONSE)]"

definition cli_check :: "int \<Rightarrow> nat \<Rightarrow> event option \<Rightarrow> ('w live, unit) py" where
  "cli_check level index cli =
     (if level = 13 then
        (case cli of
           None \<Rightarrow> py_raise (AssertionError ''v13 CLI command did not terminate with ERR'')
         | Some e \<Rightarrow>
             if ev_type e \<noteq> ERROR then py_raise (AssertionError ''v13 CLI command did not terminate with ERR'')
             else py_bind (py_lift (py_dict_get (ev_payload e) ''error_code'')) (\<lambda>code.
               py_assert (code = PyInt 1) ''v13 CLI command did not terminate with ERR''))
      else
        py_bind (require_event cli CLI_REPLY) (\<lambda>e.
        py_bind (py_lift (py_item (ev_payload e) ''text'')) (\<lambda>text.
        py_assert ((index mod 2 = 1) = (text = PyStr ''Unknown command'')) ''CLI response reached the wrong client'')))"

definition stress_iteration :: "'w mesh_api \<Rightarrow> int \<Rightarrow> nat \<Rightarrow> nat \<Rightarrow> nat \<Rightarrow> ('w live, nat) py" where
  "stress_iteration api level index client iteration =
     py_bind (call api client (RawCommand [22, stress_target index iteration])) (\<lambda>e.
     py_bind (require_event e DEVICE_INFO) (\<lambda>info.
     py_bind (py_lift (py_item (ev_payload info) ''fw ver'')) (\<lambda>v.
     if v \<noteq> PyInt level then py_raise (AssertionError ''client target changed advertised firmware'')
     else let operation = stress_calls ! ((iteration + index) mod length stress_calls) in
     py_bind (call api client (fst operation)) (\<lambda>e.
     py_bind (require_event e (snd operation)) (\<lambda>_.
     py_bind (call api client (RunCliCommand (if index mod 2 = 0 then ''ver'' else ''mux-hil-unknown-command''))) (\<lambda>cli.
     py_then (cli_check level index cli) (py_return 3)))))))"

definition stress_worker :: "'w mesh_api \<Rightarrow> int \<Rightarrow> nat \<Rightarrow> nat \<times> nat \<Rightarrow> ('w live, nat) py" where
  "stress_worker api level rounds indexed =
     py_bind (py_for [0..<rounds] (stress_iteration api level (fst indexed) (snd indexed)))
       (\<lambda>counts. py_return (sum_list counts))"

definition stress :: "'w mesh_api \<Rightarrow> int \<Rightarrow> int \<Rightarrow> nat \<Rightarrow> ('w live, nat) py" where
  "stress api port level rounds = py_finally
     (py_bind (py_for [0..<4] (\<lambda>_. py_bind (connect api ''127.0.0.1'' port 10000) (\<lambda>c. py_then (append_client c) (py_return c)))) (\<lambda>clients.
      py_bind (py_gather (map (stress_worker api level rounds) (enumerate 0 clients))) (\<lambda>counts.
      py_return (sum_list counts))))
     (disconnect_active api)"

section \<open>Lemmas\<close>

lemma read_envelope_encoded:
  assumes "1 \<le> length p" "length p \<le> 176" "wire_in s = 0x3E # le_bytes 2 (length p) @ p @ rest"
  shows "read_envelope s = (Inr p, s\<lparr>wire_in := rest\<rparr>)"
proof -
  have "take 3 (wire_in s) = 0x3E # le_bytes 2 (length p)" "drop 3 (wire_in s) = p @ rest"
    using assms(3) by (simp_all add: numeral_3_eq_3 drop_Cons')
  moreover have "\<not> length (wire_in s) < 3" using assms(3) by simp
  ultimately show ?thesis using assms(1,2)
    by (simp add: read_envelope_def readexactly_def py_bind_def Let_def)
qed

lemma wire_reply_pushes:
  assumes "list_all (\<lambda>q. 1 \<le> length q \<and> length q \<le> 176 \<and> 0x80 \<le> q ! 0) ps"
    and "1 \<le> length p" "length p \<le> 176" "p ! 0 < 0x80"
    and "wire_in s = concat (map (\<lambda>q. 0x3E # le_bytes 2 (length q) @ q) (ps @ [p])) @ rest"
  shows "wire_reply s = (Inr p, s\<lparr>wire_in := rest\<rparr>)"
  using assms(1,5)
proof (induction ps arbitrary: s)
  case Nil
  with assms(2,3) have "read_envelope s = (Inr p, s\<lparr>wire_in := rest\<rparr>)"
    by (intro read_envelope_encoded) auto
  with assms(4) show ?case by (simp add: wire_reply.simps)
next
  case (Cons q ps)
  let ?rest = "concat (map (\<lambda>q. 0x3E # le_bytes 2 (length q) @ q) (ps @ [p])) @ rest"
  have "read_envelope s = (Inr q, s\<lparr>wire_in := ?rest\<rparr>)"
    using Cons.prems by (intro read_envelope_encoded) auto
  moreover have "\<not> q ! 0 < 0x80" using Cons.prems by (simp add: not_less)
  moreover have "wire_reply (s\<lparr>wire_in := ?rest\<rparr>) = (Inr p, s\<lparr>wire_in := rest\<rparr>)"
    using Cons.IH [of "s\<lparr>wire_in := ?rest\<rparr>"] Cons.prems by simp
  ultimately show ?case by (simp add: wire_reply.simps [of s])
qed

lemma wire_marker_loop_matches:
  "wire_marker_loop deadline body channel unmatched s = (Inr p, s') \<Longrightarrow> p \<noteq> [] \<and> marker_matches p body channel"
proof (induction deadline body channel unmatched s rule: wire_marker_loop.induct)
  case (1 deadline body channel unmatched s)
  obtain r s1 where g: "sync_reply s = (r, s1)" by fastforce
  show ?case
  proof (cases r)
    case (Inl e)
    with "1.prems" g show ?thesis
      by (simp add: wire_marker_loop.simps [of deadline body channel unmatched s] split: if_splits)
  next
    case (Inr q)
    with sync_reply_consumes g have "q \<noteq> []" by auto
    with "1.prems" "1.IH" g Inr show ?thesis
      by (auto simp: wire_marker_loop.simps [of deadline body channel unmatched s] split: if_splits)
  qed
qed

lemma wire_ends_with_iff: "wire_ends_with xs suf \<longleftrightarrow> (\<exists>pre. xs = pre @ suf)"
  unfolding wire_ends_with_def
  by (metis append_eq_conv_conj append_take_drop_id diff_add_inverse2 length_append le_add2 length_drop)

section \<open>Properties\<close>

text \<open>The raw client reads the mux's downstream stream: behind any number of asynchronous pushes it
  returns exactly the next ordinary reply and leaves the rest of the stream unread.\<close>

theorem wire_reply_next:
  assumes "map (\<lambda>q. encode q COMPANION_TO_CLIENT_MARKER) (ps @ [p]) = map Inr fs"
    and "list_all (\<lambda>q. 0x80 \<le> q ! 0) ps" "p ! 0 < 0x80" "wire_in s = concat fs @ rest"
  shows "wire_reply s = (Inr p, s\<lparr>wire_in := rest\<rparr>)"
proof -
  note enc = encode_all_eq [OF assms(1)]
  have len: "list_all (\<lambda>q. 1 \<le> length q \<and> length q \<le> 176) (ps @ [p])"
    using enc by (auto simp: list_all_iff MAX_PAYLOAD_SIZE_def)
  have fs: "fs = map (\<lambda>q. 0x3E # le_bytes 2 (length q) @ q) (ps @ [p])"
    using enc unfolding COMPANION_TO_CLIENT_MARKER_def by simp
  show ?thesis
    by (rule wire_reply_pushes [where ps = ps]) (use len fs assms in \<open>auto simp: list_all_iff\<close>)
qed

theorem wire_reply_next_witness:
  "wire_reply \<lparr>wire_in = [0x3E, 1, 0, 0x83, 0x3E, 1, 0, 10, 7], wire_out = [], wire_now = 0\<rparr>
    = (Inr [10], \<lparr>wire_in = [7], wire_out = [], wire_now = 0\<rparr>)"
  using wire_reply_next [of "[[0x83]]" "[10]" "[[0x3E, 1, 0, 0x83], [0x3E, 1, 0, 10]]"
      "\<lparr>wire_in = [0x3E, 1, 0, 0x83, 0x3E, 1, 0, 10, 7], wire_out = [], wire_now = 0\<rparr>" "[7]"]
  by (simp add: encode_def validate_marker_def COMPANION_TO_CLIENT_MARKER_def MAX_PAYLOAD_SIZE_def)

text \<open>C28. A received marker is genuine: the payload that the reception loop returns carries, under the
  mux's own reading of the message fields, exactly the expected body of a direct message, or the
  expected body behind a sender prefix for a channel message.\<close>

theorem wire_marker_genuine:
  assumes "wire_marker body channel s = (Inr p, s')" "body \<noteq> []"
  shows "if channel then \<exists>index ty ts pre. message_key p = Some (ChannelKey index ty ts (pre @ ascii '': '' @ body))
    else \<exists>sender ty ts. message_key p = Some (DirectKey sender ty ts body)"
proof -
  have m: "p \<noteq> []" "marker_matches p body channel"
    using wire_marker_loop_matches assms(1) by (auto simp: wire_marker_def)
  have long: "drop n p \<noteq> [] \<Longrightarrow> n \<le> length p" for n by simp
  show ?thesis
  proof (cases channel)
    case True
    with m obtain pre where "p ! 0 = 8 \<or> p ! 0 = 17" "drop (body_offset (p ! 0)) p = pre @ ascii '': '' @ body"
      by (auto simp: marker_matches_def Let_def wire_ends_with_iff)
    moreover from this assms(2) have "drop (body_offset (p ! 0)) p \<noteq> []" by auto
    ultimately show ?thesis using True m long by (auto simp: message_key_def body_offset_def)
  next
    case False
    with m have "p ! 0 = 7 \<or> p ! 0 = 16" "drop (body_offset (p ! 0)) p = body"
      by (auto simp: marker_matches_def Let_def)
    moreover from this assms(2) have "drop (body_offset (p ! 0)) p \<noteq> []" by auto
    ultimately show ?thesis using False m long by (auto simp: message_key_def body_offset_def)
  qed
qed

definition wire_example :: wire where
  "wire_example = \<lparr>wire_in = [0x3E, 14, 0, 7, 1, 2, 3, 4, 5, 6, 255, 0, 9, 9, 9, 9, 65], wire_out = [], wire_now = 0\<rparr>"

theorem wire_marker_genuine_witness:
  "\<exists>p sender ty ts. fst (wire_marker [65] False wire_example) = Inr p \<and> message_key p = Some (DirectKey sender ty ts [65])"
proof -
  let ?p = "[7, 1, 2, 3, 4, 5, 6, 255, 0, 9, 9, 9, 9, 65]"
  have "wire_reply (wire_example\<lparr>wire_out := [0x3C, 1, 0, 10]\<rparr>)
      = (Inr ?p, wire_example\<lparr>wire_out := [0x3C, 1, 0, 10], wire_in := []\<rparr>)"
    by (subst wire_reply_pushes [where ps = "[]" and p = ?p and rest = "[]"]) (simp_all add: wire_example_def le_bytes_2)
  then have "sync_reply wire_example = (Inr ?p, wire_example\<lparr>wire_out := [0x3C, 1, 0, 10], wire_in := []\<rparr>)"
    by (simp add: sync_reply_def wire_command_def py_to_bytes_def py_defs wire_example_def le_bytes_2)
  then have run: "wire_marker [65] False wire_example = (Inr ?p, wire_example\<lparr>wire_out := [0x3C, 1, 0, 10], wire_in := []\<rparr>)"
    by (simp add: wire_marker_def wire_marker_loop.simps marker_matches_def body_offset_def Let_def)
  show ?thesis using wire_marker_genuine [OF run] run by auto
qed

text \<open>The script's byte comparison of the two inbox copies is exactly the mux's conversion: for a
  well-formed modern payload it passes if and only if the legacy copy is what \<open>downgrade_inbox\<close>
  produces for a client target below 3.\<close>

theorem dialect_compare_iff:
  assumes "validate_response_shape modern = Inr ()" "modern ! 0 = (if channel then 17 else 16)" "t < 3"
  shows "dialect_compare channel legacy modern = Inr () \<longleftrightarrow> downgrade_inbox modern t = Inr legacy"
proof (cases channel)
  case True
  with assms downgrade_channel_v3 [OF assms(1) _ assms(3)] show ?thesis
    by (auto simp: dialect_compare_def Let_def)
next
  case False
  with assms downgrade_contact_v3 [OF assms(1) _ assms(3)] show ?thesis
    by (auto simp: dialect_compare_def Let_def)
qed

theorem dialect_compare_iff_witness:
  "dialect_compare True [8, 2, 0, 0, 5, 6, 7, 8, 65] [17, 1, 0, 0, 2, 0, 0, 5, 6, 7, 8, 65] = Inr ()
   \<longleftrightarrow> downgrade_inbox [17, 1, 0, 0, 2, 0, 0, 5, 6, 7, 8, 65] 2 = Inr [8, 2, 0, 0, 5, 6, 7, 8, 65]"
  by (rule dialect_compare_iff) (simp_all add: validate_response_shape_def response_shape_ok_def)

text \<open>The inputs of the isolation test are rejected where the test says they are: the mux's command
  validator gives each invalid command exactly the expected native reason, and its frame decoder
  rejects each malformed envelope whatever follows it.\<close>

theorem isolation_inputs_rejected:
  "(\<forall>x \<in> set isolation_commands. snd (validate_command (fst x)) = Some (snd x))
   \<and> (\<forall>f \<in> set isolation_frames. \<exists>e. parse_stream CLIENT_TO_COMPANION_MARKER (f @ rest) = ([], Inl e))"
proof
  show "\<forall>x \<in> set isolation_commands. snd (validate_command (fst x)) = Some (snd x)"
    by (simp add: isolation_commands_def validate_command_def descriptor_def DESCRIPTORS_def
        command_shape_valid_def)
  show "\<forall>f \<in> set isolation_frames. \<exists>e. parse_stream CLIENT_TO_COMPANION_MARKER (f @ rest) = ([], Inl e)"
    by (simp add: isolation_frames_def parse_stream.simps CLIENT_TO_COMPANION_MARKER_def header_size_sum
        MAX_PAYLOAD_SIZE_def)
qed

theorem isolation_inputs_rejected_witness:
  "snd (validate_command [22]) = Some 6 \<and> (\<exists>e. parse_stream CLIENT_TO_COMPANION_MARKER ([0x3C, 0, 0] @ [1]) = ([], Inl e))"
  using isolation_inputs_rejected [of "[1]"] by (simp add: isolation_commands_def isolation_frames_def)

lemma stress_iteration_count: "stress_iteration api level index client i s = (Inr n, s') \<Longrightarrow> n = 3"
  by (auto simp: stress_iteration_def py_bind_def py_then_def py_return_def py_raise_def Let_def
      split: prod.splits sum.splits if_splits)

lemma stress_worker_count: "stress_worker api level rounds ic s = (Inr n, s') \<Longrightarrow> n = 3 * rounds"
proof -
  have "py_for is (stress_iteration api level index client) s = (Inr ns, s') \<Longrightarrow> ns = replicate (length is) 3"
    for "is" index client s ns s'
    by (induction "is" arbitrary: s ns)
      (auto simp: py_bind_def py_return_def dest: stress_iteration_count split: prod.splits sum.splits)
  then show "stress_worker api level rounds ic s = (Inr n, s') \<Longrightarrow> n = 3 * rounds"
    by (fastforce simp: stress_worker_def py_bind_def py_return_def sum_list_replicate split: prod.splits sum.splits)
qed

lemma gather_workers_count:
  "py_gather (map (stress_worker api level rounds) ics) s = (Inr ns, s') \<Longrightarrow> ns = replicate (length ics) (3 * rounds)"
  by (induction ics arbitrary: s ns)
    (auto simp: py_return_def dest: stress_worker_count split: prod.splits sum.splits)

text \<open>The stress report is exact: when the four workers finish, the number of completed commands is
  twelve for each round, three for each of the four clients.\<close>

theorem stress_count:
  "case fst (stress api port level rounds s) of Inl e \<Rightarrow> True | Inr n \<Rightarrow> n = 12 * rounds"
proof (cases "fst (stress api port level rounds s)")
  case (Inr n)
  then obtain clients s1 counts s2 where
    c: "py_for [0..<4] (\<lambda>_. py_bind (connect api ''127.0.0.1'' port 10000) (\<lambda>c. py_then (append_client c) (py_return c))) s = (Inr clients, s1)"
    and g: "py_gather (map (stress_worker api level rounds) (enumerate 0 clients)) s1 = (Inr counts, s2)"
    and n: "n = sum_list counts"
    by (auto simp: stress_def py_finally_def py_bind_def py_return_def simp del: py_for.simps upt.simps split: prod.splits sum.splits)
  from py_for_length [OF c] gather_workers_count [OF g] have "counts = replicate 4 (3 * rounds)" by simp
  with n Inr show ?thesis by (simp add: sum_list_replicate)
qed simp

end
