(* ===== verification/Live_Simulation.thy ===== *)
theory Live_Simulation
  imports Live_Dedicated
begin

text \<open>
  A simulated pair of companions on which the phases of the dedicated radio check run to the end,
  evaluated in the kernel: the properties of complete runs are not vacuous.
\<close>

section \<open>A complete run exists\<close>

text \<open>
  A simulated pair of companions: every message sent is readable once by every listener port, in
  order; acknowledgements reach every subscription; port 3 is the peer.
\<close>

record simulation =
  sim_log :: "event list"
  sim_read :: "(nat \<times> nat) list"

definition sim_key :: "nat \<Rightarrow> string" where
  "sim_key c = (if c = 3 then ''bbbbbbbbbbbbbbbbbbbbbbbbbbbbbbbbbbbbbbbbbbbbbbbbbbbbbbbbbbbbbbbb''
     else ''aaaaaaaaaaaaaaaaaaaaaaaaaaaaaaaaaaaaaaaaaaaaaaaaaaaaaaaaaaaaaaaa'')"

definition sim_message :: "event_type \<Rightarrow> string \<Rightarrow> event" where
  "sim_message ty text = \<lparr>ev_type = ty, ev_payload = PyDict [(''text'', PyStr text)]\<rparr>"

definition sim_contact :: "string \<Rightarrow> nat \<Rightarrow> string \<times> pyval" where
  "sim_contact name c = (name, PyDict [(''adv_name'', PyStr name), (''public_key'', PyStr (sim_key c))])"

definition sim_get_msg :: "nat \<Rightarrow> simulation \<Rightarrow> event \<times> simulation" where
  "sim_get_msg c w = (let k = (case map_of (sim_read w) c of None \<Rightarrow> 0 | Some k \<Rightarrow> k) in
     if k < length (sim_log w) then (sim_log w ! k, w\<lparr>sim_read := AList.update c (k + 1) (sim_read w)\<rparr>)
     else (\<lparr>ev_type = NO_MORE_MSGS, ev_payload = PyDict []\<rparr>, w))"

fun sim_call :: "nat \<Rightarrow> request \<Rightarrow> simulation \<Rightarrow> event \<times> simulation" where
  "sim_call c (GetContacts t) w = (\<lparr>ev_type = CONTACTS, ev_payload = PyDict [sim_contact ''a'' 1, sim_contact ''b'' 3]\<rparr>, w)"
| "sim_call c SendDeviceQuery w = (\<lparr>ev_type = DEVICE_INFO, ev_payload = PyDict [(''max_channels'', PyInt 1)]\<rparr>, w)"
| "sim_call c (GetChannel i) w = (\<lparr>ev_type = CHANNEL_INFO,
     ev_payload = PyDict [(''channel_name'', PyStr ''test''), (''channel_secret'', PyBytes [7])]\<rparr>, w)"
| "sim_call c (GetMsg t) w = sim_get_msg c w"
| "sim_call c (SendMsg d body) w = (\<lparr>ev_type = MSG_SENT,
     ev_payload = PyDict [(''expected_ack'', PyBytes [1]), (''suggested_timeout'', PyInt 1000)]\<rparr>,
     w\<lparr>sim_log := sim_log w @ [sim_message CONTACT_MSG_RECV body]\<rparr>)"
| "sim_call c (SendChanMsg i body) w = (\<lparr>ev_type = OK, ev_payload = PyDict []\<rparr>,
     w\<lparr>sim_log := sim_log w @ [sim_message CHANNEL_MSG_RECV (''b: '' @ body)]\<rparr>)"
| "sim_call c other w = (\<lparr>ev_type = CURRENT_TIME, ev_payload = PyDict []\<rparr>, w)"

definition sim_api :: "simulation mesh_api" where
  "sim_api = \<lparr>create_tcp = \<lambda>host port timeout. py_return (Some (nat port)), self_info_key = \<lambda>c w. Some (sim_key c),
     is_connected = \<lambda>c w. False, client_call = \<lambda>c r w. (case sim_call c r w of (e, w') \<Rightarrow> (Inr (Some e), w')),
     client_disconnect = \<lambda>c. py_return (),
     delivered_acks = \<lambda>t. py_return (map (\<lambda>c. (c, PyDict [(''code'', PyStr ''01'')])) [3, 1, 2]),
     wait_disconnected = \<lambda>c t. py_return (), register_waiter = \<lambda>c ty fs t. py_return 0,
     wait_first = \<lambda>ws t. py_return ([], ws), cancel_waiters = \<lambda>ws. py_return (), loop_time = \<lambda>w. 0, loop_sleep = \<lambda>ms w. w\<rparr>"

definition sim_args :: dedicated_args where
  "sim_args = \<lparr>mux_host = '''', multi_port = 1, dedicated_ports = [2],
     peer_host = '''', peer_port = 3, mux_contact = ''a'', peer_contact = ''B'',
     channel_name = Some ''test'', query_rounds = 1, client_timeout = 10000, receive_timeout = 100,
     max_unmatched = 6, max_radio_sends = 8, execute = True\<rparr>"

definition sim_ep :: endpoints where
  "sim_ep = \<lparr>ep_multi = 1, ep_dedicated = [2], ep_peer = 3, ep_peer_destination = PyNone,
     ep_mux_destination = PyNone, ep_peer_channel = Some 0\<rparr>"

lemma sim_phases_complete:
  "fst (execute_phases sim_api sim_args [] sim_ep (dedicated_start sim_args \<lparr>sim_log = [], sim_read = []\<rparr>))
     = Inr \<lparr>sum_execute = True, sum_dm_sends = 6, sum_channel_sends = 1, sum_radio_sends = 7\<rparr>"
  by code_simp

end
