(* ===== verification/Script_Trace.thy ===== *)
theory Script_Trace
  imports Live_Client "HOL-Library.Sublist"
begin

text \<open>
  What a live script has asked of the client library, as a calculus on the trace of issued
  requests. \<open>traces K xs m\<close> says that whenever the computation \<open>m\<close> returns it has appended exactly
  the requests \<open>xs\<close> to those of kind \<open>K\<close>, and that an exception leaves a prefix of them: nothing out
  of order, nothing twice. One rule for each construct of the scripts lets a property of a whole
  script be read off its text.
\<close>

definition kind_trace :: "(nat \<times> request \<Rightarrow> bool) \<Rightarrow> 'w live \<Rightarrow> (nat \<times> request) list" where
  "kind_trace K s = filter K (issued s)"

definition traces :: "(nat \<times> request \<Rightarrow> bool) \<Rightarrow> (nat \<times> request) list \<Rightarrow> ('w live, 'a) py \<Rightarrow> bool" where
  "traces K xs m \<longleftrightarrow> (\<forall>s. \<exists>ys. kind_trace K (snd (m s)) = kind_trace K s @ ys \<and> prefix ys xs
     \<and> (\<forall>v. fst (m s) = Inr v \<longrightarrow> ys = xs))"

abbreviation quiet :: "(nat \<times> request \<Rightarrow> bool) \<Rightarrow> ('w live, 'a) py \<Rightarrow> bool" where
  "quiet K m \<equiv> traces K [] m"

text \<open>The rules of the calculus, tried in this order by the component proofs.\<close>

named_theorems trace_rules

lemma tracesI:
  assumes "\<And>s. \<exists>ys. kind_trace K (snd (m s)) = kind_trace K s @ ys \<and> prefix ys xs \<and> (\<forall>v. fst (m s) = Inr v \<longrightarrow> ys = xs)"
  shows "traces K xs m"
  using assms by (simp add: traces_def)

lemma tracesD:
  assumes "traces K xs m" "m s = (r, s')"
  obtains ys where "kind_trace K s' = kind_trace K s @ ys" "prefix ys xs" "\<And>v. r = Inr v \<Longrightarrow> ys = xs"
  using assms by (fastforce simp: traces_def dest: spec [of _ s])

lemma quietI: "(\<And>s. issued (snd (m s)) = issued s) \<Longrightarrow> quiet K m"
  by (simp add: traces_def kind_trace_def)

lemma quiet_return [trace_rules]: "quiet K (py_return v)"
  by (rule quietI) (simp add: py_return_def)

lemma traces_raise [trace_rules]: "traces K xs (py_raise e)"
  by (rule tracesI) (auto simp: py_raise_def)

lemma quiet_get [trace_rules]: "quiet K (py_get f)"
  by (rule quietI) (simp add: py_get_def)

lemma quiet_lift [trace_rules]: "quiet K (py_lift r)"
  by (rule quietI) (simp add: py_lift_def)

lemma quiet_assert [trace_rules]: "quiet K (py_assert b msg)"
  by (rule quietI) (simp add: py_assert_def py_return_def py_raise_def)

lemma quiet_on_env [trace_rules]: "quiet K (on_env m)"
  by (rule quietI) (auto simp: on_env_def split: prod.splits)

lemma quiet_require_event [trace_rules]: "quiet K (require_event e ty)"
  by (rule quietI) (auto simp: require_event_def py_return_def py_raise_def split: option.splits)

lemma quiet_append_client [trace_rules]: "quiet K (append_client c)"
  by (rule quietI) (simp add: append_client_def py_modify_def)

lemma quiet_public_key [trace_rules]: "quiet K (public_key api c)"
  by (rule quietI) (auto simp: public_key_def py_defs split: option.splits)

lemma quiet_disconnect [trace_rules]: "quiet K (disconnect api c)"
  by (rule quietI) (auto simp: disconnect_def on_env_def py_defs split: prod.splits)

lemma quiet_connect [trace_rules]: "quiet K (connect api host port timeout)"
  by (rule quietI) (auto simp: connect_def on_env_def py_defs split: prod.splits option.splits sum.splits)

lemma kind_trace_call: "kind_trace K (snd (call api c req s)) = kind_trace K s @ (if K (c, req) then [(c, req)] else [])"
  by (auto simp: call_def on_env_def py_defs kind_trace_def split: prod.splits)

lemma traces_call: "K (c, req) \<Longrightarrow> traces K [(c, req)] (call api c req)"
  by (rule tracesI) (simp add: kind_trace_call)

lemma quiet_call: "\<not> K (c, req) \<Longrightarrow> quiet K (call api c req)"
  by (rule tracesI) (simp add: kind_trace_call)

lemma traces_bind:
  assumes "traces K xs m" "\<And>v. traces K ys (f v)"
  shows "traces K (xs @ ys) (py_bind m f)"
proof (rule tracesI)
  fix s
  obtain r s' where m: "m s = (r, s')" by fastforce
  from assms(1) m obtain us where us: "kind_trace K s' = kind_trace K s @ us" "prefix us xs" "\<And>v. r = Inr v \<Longrightarrow> us = xs"
    by (rule tracesD) blast
  show "\<exists>zs. kind_trace K (snd (py_bind m f s)) = kind_trace K s @ zs \<and> prefix zs (xs @ ys)
      \<and> (\<forall>v. fst (py_bind m f s) = Inr v \<longrightarrow> zs = xs @ ys)"
  proof (cases r)
    case (Inl e)
    with m us show ?thesis by (auto simp: py_bind_def prefix_append)
  next
    case (Inr v)
    obtain r' s'' where f: "f v s' = (r', s'')" by fastforce
    from assms(2) f obtain vs where "kind_trace K s'' = kind_trace K s' @ vs" "prefix vs ys" "\<And>v. r' = Inr v \<Longrightarrow> vs = ys"
      by (rule tracesD) blast
    with m us Inr f show ?thesis by (auto simp: py_bind_def)
  qed
qed

lemma traces_then: "traces K xs m \<Longrightarrow> traces K ys n \<Longrightarrow> traces K (xs @ ys) (py_then m n)"
  unfolding py_then_def by (rule traces_bind)

lemma quiet_bind [trace_rules]: "quiet K m \<Longrightarrow> (\<And>v. traces K ys (f v)) \<Longrightarrow> traces K ys (py_bind m f)"
  using traces_bind [of K "[]" m ys f] by simp

lemma quiet_then [trace_rules]: "quiet K m \<Longrightarrow> traces K ys n \<Longrightarrow> traces K ys (py_then m n)"
  using traces_then [of K "[]" m ys n] by simp

lemma call_bind:
  "K (c, req) \<Longrightarrow> (\<And>v. traces K ys (f v)) \<Longrightarrow> traces K ((c, req) # ys) (py_bind (call api c req) f)"
  using traces_bind [OF traces_call, of K c req ys f api] by simp

lemma call_require:
  "K (c, req) \<Longrightarrow> (\<And>v. traces K ys (f v)) \<Longrightarrow>
    traces K ((c, req) # ys) (py_bind (call api c req) (\<lambda>e. py_bind (require_event e ty) f))"
  by (intro call_bind quiet_bind quiet_require_event)

lemma traces_if [trace_rules]: "(b \<Longrightarrow> traces K xs m) \<Longrightarrow> (\<not> b \<Longrightarrow> traces K xs n) \<Longrightarrow> traces K xs (if b then m else n)"
  by simp

lemma traces_option [trace_rules]:
  "(x = None \<Longrightarrow> traces K xs m) \<Longrightarrow> (\<And>v. x = Some v \<Longrightarrow> traces K xs (f v)) \<Longrightarrow> traces K xs (case x of None \<Rightarrow> m | Some v \<Rightarrow> f v)"
  by (cases x) simp_all

lemma quiet_for [trace_rules]: "(\<And>i. i \<in> set is \<Longrightarrow> quiet K (body i)) \<Longrightarrow> quiet K (py_for is body)"
proof (induction "is")
  case (Cons i "is")
  then show ?case by (simp, intro quiet_bind quiet_return) auto
qed (simp add: quiet_return)

lemma traces_for:
  "(\<And>i. i \<in> set is \<Longrightarrow> traces K (g i) (body i)) \<Longrightarrow> traces K (concat (map g is)) (py_for is body)"
proof (induction "is")
  case (Cons i "is")
  then have "traces K (g i @ concat (map g is) @ [])
      (py_bind (body i) (\<lambda>x. py_bind (py_for is body) (\<lambda>xs. py_return (x # xs))))"
    by (intro traces_bind quiet_return) auto
  then show ?case by simp
qed (simp add: quiet_return)

text \<open>Concurrent awaitables of which at most the first asks for something of the kind.\<close>

lemma quiet_gather [trace_rules]: "list_all (quiet K) ms \<Longrightarrow> quiet K (py_gather ms)"
proof (induction ms)
  case (Cons m ms)
  show ?case
  proof (rule tracesI)
    fix s
    obtain r s' where m: "m s = (r, s')" by fastforce
    obtain rs s'' where ms: "py_gather ms s' = (rs, s'')" by fastforce
    have "kind_trace K s' = kind_trace K s" using Cons.prems m by (auto elim: tracesD)
    moreover have "kind_trace K s'' = kind_trace K s'" using Cons ms by (auto elim: tracesD)
    ultimately show "\<exists>ys. kind_trace K (snd (py_gather (m # ms) s)) = kind_trace K s @ ys \<and> prefix ys []
        \<and> (\<forall>v. fst (py_gather (m # ms) s) = Inr v \<longrightarrow> ys = [])"
      using m ms by simp
  qed
qed (simp add: quiet_return)

lemma traces_gather_first:
  assumes "traces K xs m" "list_all (quiet K) ms"
  shows "traces K xs (py_gather (m # ms))"
proof (rule tracesI)
  fix s
  obtain r s' where m: "m s = (r, s')" by fastforce
  obtain rs s'' where ms: "py_gather ms s' = (rs, s'')" by fastforce
  from assms(1) m obtain us where us: "kind_trace K s' = kind_trace K s @ us" "prefix us xs" "\<And>v. r = Inr v \<Longrightarrow> us = xs"
    by (rule tracesD) blast
  have "kind_trace K s'' = kind_trace K s'" using quiet_gather [OF assms(2)] ms by (auto elim: tracesD)
  with us m ms show "\<exists>ys. kind_trace K (snd (py_gather (m # ms) s)) = kind_trace K s @ ys \<and> prefix ys xs
        \<and> (\<forall>v. fst (py_gather (m # ms) s) = Inr v \<longrightarrow> ys = xs)"
    by (auto split: sum.splits)
qed

lemma quiet_gather_quiet [trace_rules]: "list_all (quiet K) ms \<Longrightarrow> quiet K (py_gather_quiet ms)"
proof (induction ms)
  case (Cons m ms)
  show ?case
  proof (rule tracesI)
    fix s
    obtain r s' where m: "m s = (r, s')" by fastforce
    have "kind_trace K s' = kind_trace K s" using Cons.prems m by (auto elim: tracesD)
    moreover have "kind_trace K (snd (py_gather_quiet ms s')) = kind_trace K s'"
      using Cons by (auto elim: tracesD [OF _ surjective_pairing])
    ultimately show "\<exists>ys. kind_trace K (snd (py_gather_quiet (m # ms) s)) = kind_trace K s @ ys \<and> prefix ys []
        \<and> (\<forall>v. fst (py_gather_quiet (m # ms) s) = Inr v \<longrightarrow> ys = [])"
      using m by simp
  qed
qed (simp add: quiet_return)

lemma quiet_disconnect_active [trace_rules]: "quiet K (disconnect_active api)"
  unfolding disconnect_active_def by (intro trace_rules) (auto simp: list_all_iff intro: quiet_disconnect)

lemma traces_finally:
  assumes "traces K xs m" "quiet K n"
  shows "traces K xs (py_finally m n)"
proof (rule tracesI)
  fix s
  obtain r s' where m: "m s = (r, s')" by fastforce
  obtain r' s'' where n: "n s' = (r', s'')" by fastforce
  from assms(1) m obtain us where us: "kind_trace K s' = kind_trace K s @ us" "prefix us xs" "\<And>v. r = Inr v \<Longrightarrow> us = xs"
    by (rule tracesD) blast
  have "kind_trace K s'' = kind_trace K s'" using assms(2) n by (auto elim: tracesD)
  with us m n show "\<exists>ys. kind_trace K (snd (py_finally m n s)) = kind_trace K s @ ys \<and> prefix ys xs
      \<and> (\<forall>v. fst (py_finally m n s) = Inr v \<longrightarrow> ys = xs)"
    by (auto simp: py_finally_def split: sum.splits)
qed

text \<open>\<open>except Exception\<close> that only re-raises.\<close>

lemma traces_reraise:
  assumes "traces K xs m"
  shows "traces K xs (py_catch m (\<lambda>e. py_raise (g e)))"
proof (rule tracesI)
  fix s
  obtain r s' where m: "m s = (r, s')" by fastforce
  from assms m obtain us where "kind_trace K s' = kind_trace K s @ us" "prefix us xs" "\<And>v. r = Inr v \<Longrightarrow> us = xs"
    by (rule tracesD) blast
  with m show "\<exists>ys. kind_trace K (snd (py_catch m (\<lambda>e. py_raise (g e)) s)) = kind_trace K s @ ys \<and> prefix ys xs
      \<and> (\<forall>v. fst (py_catch m (\<lambda>e. py_raise (g e)) s) = Inr v \<longrightarrow> ys = xs)"
    by (cases r) (auto simp: py_catch_def py_raise_def)
qed

lemma traces_outcome:
  assumes "traces K xs m"
  shows "\<exists>ys. kind_trace K (snd (m s)) = kind_trace K s @ ys \<and> prefix ys xs \<and> (\<forall>v. fst (m s) = Inr v \<longrightarrow> ys = xs)"
  using assms unfolding traces_def by blast

section \<open>Plans\<close>

lemma gather_quiet_returns: "fst (py_gather_quiet ms s) = Inr ()"
  by (induction ms arbitrary: s) (simp_all add: py_return_def)

text \<open>A plan of requests that depends on the value of a quiet first part.\<close>

lemma quiet_bind_outcome:
  assumes "quiet K m" "\<And>v. traces K (g v) (f v)" "py_bind m f s = (r, s')"
  shows "(\<exists>e. r = Inl e \<and> kind_trace K s' = kind_trace K s)
    \<or> (\<exists>v s1 ys. m s = (Inr v, s1) \<and> kind_trace K s' = kind_trace K s @ ys \<and> prefix ys (g v)
        \<and> (\<forall>x. r = Inr x \<longrightarrow> ys = g v))"
proof -
  obtain q s1 where m: "m s = (q, s1)" by fastforce
  have q: "kind_trace K s1 = kind_trace K s" using assms(1) m by (auto elim: tracesD)
  show ?thesis
  proof (cases q)
    case (Inl e)
    with m q assms(3) show ?thesis by (auto simp: py_bind_def)
  next
    case (Inr v)
    with m assms(3) have f: "f v s1 = (r, s')" by (simp add: py_bind_def)
    from assms(2) f obtain ys where "kind_trace K s' = kind_trace K s1 @ ys" "prefix ys (g v)" "\<And>x. r = Inr x \<Longrightarrow> ys = g v"
      by (rule tracesD) blast
    with m q Inr show ?thesis by auto
  qed
qed

end
