(* ===== verification/Readiness.thy ===== *)
theory Readiness
  imports Protocol
begin

text \<open>
  The readers of the mux's log: \<open>read_mux_stderr\<close> of \<open>scripts/check_live_reconnect.py\<close>, which every
  live script waits for, and \<open>stderr_reader\<close> of \<open>scripts/check_fake_clients.py\<close>.

  A line is the decoded text. Only code points up to 255 are represented, for which \<open>str.split\<close>,
  \<open>str.rstrip\<close> and \<open>str.isdecimal\<close> are written out. The readers handle one line at a time; the
  blocking \<open>readline\<close> that ends with the stream is the list of lines.
\<close>

section \<open>Strings\<close>

definition py_whitespace :: "char \<Rightarrow> bool" where
  "py_whitespace c \<longleftrightarrow> (let n = of_char c :: nat in 9 \<le> n \<and> n \<le> 13 \<or> 28 \<le> n \<and> n \<le> 32 \<or> n = 0x85 \<or> n = 0xA0)"

definition rstrip :: "string \<Rightarrow> string" where
  "rstrip text = rev (dropWhile py_whitespace (rev text))"

text \<open>\<open>text.split()\<close>: the maximal runs of characters that are not whitespace.\<close>

fun py_split :: "string \<Rightarrow> string \<Rightarrow> string list" where
  "py_split run [] = (if run = [] then [] else [run])"
| "py_split run (c # text) =
     (if py_whitespace c then (if run = [] then [] else [run]) @ py_split [] text else py_split (run @ [c]) text)"

text \<open>\<open>token.split("=", 1)\<close> of a token that contains the separator.\<close>

definition split_field :: "string \<Rightarrow> string \<times> string" where
  "split_field token = (takeWhile (\<lambda>c. c \<noteq> CHR ''='') token, tl (dropWhile (\<lambda>c. c \<noteq> CHR ''='') token))"

text \<open>The dictionary of a line; a later field replaces an earlier one of the same name.\<close>

definition line_fields :: "string \<Rightarrow> (string \<times> string) list" where
  "line_fields text = map split_field (filter (\<lambda>token. CHR ''='' \<in> set token) (py_split [] text))"

definition field :: "string \<Rightarrow> string \<Rightarrow> string option" where
  "field text name = map_of (rev (line_fields text)) name"

definition digit_value :: "char \<Rightarrow> nat" where
  "digit_value c = of_char c - 48"

definition isdecimal :: "string \<Rightarrow> bool" where
  "isdecimal s \<longleftrightarrow> s \<noteq> [] \<and> list_all (\<lambda>c. 48 \<le> (of_char c :: nat) \<and> (of_char c :: nat) \<le> 57) s"

definition decimal_value :: "string \<Rightarrow> nat" where
  "decimal_value s = foldl (\<lambda>n c. 10 * n + digit_value c) 0 s"

section \<open>The readers\<close>

definition line_epoch :: "string \<Rightarrow> nat option" where
  "line_epoch text =
     (if field text ''event'' = Some ''upstream.ready''
      then let epoch = (case field text ''epoch'' of None \<Rightarrow> '''' | Some e \<Rightarrow> e) in
        if isdecimal epoch \<and> decimal_value epoch > 0 then Some (decimal_value epoch) else None
      else None)"

definition TAIL_LIMIT :: nat where
  "TAIL_LIMIT = 40"

fun read_mux_stderr :: "string list \<Rightarrow> nat list \<times> string list \<Rightarrow> nat list \<times> string list" where
  "read_mux_stderr [] (ready, tail) = (ready, tail)"
| "read_mux_stderr (line # rest) (ready, tail) =
     read_mux_stderr rest
       (case line_epoch (rstrip line) of None \<Rightarrow> ready | Some epoch \<Rightarrow> ready @ [epoch],
        keep_last TAIL_LIMIT (tail @ [rstrip line]))"

text \<open>\<open>needle in text\<close>.\<close>

fun contains :: "string \<Rightarrow> string \<Rightarrow> bool" where
  "contains needle [] = (needle = [])"
| "contains needle (c # text) = (take (length needle) (c # text) = needle \<or> contains needle text)"

definition FAKE_TAIL_LIMIT :: nat where
  "FAKE_TAIL_LIMIT = 30"

fun stderr_reader :: "string list \<Rightarrow> bool \<times> string list \<Rightarrow> bool \<times> string list" where
  "stderr_reader [] (ready, tail) = (ready, tail)"
| "stderr_reader (line # rest) (ready, tail) =
     stderr_reader rest
       (ready \<or> contains ''event=upstream.ready '' (rstrip line), keep_last FAKE_TAIL_LIMIT (tail @ [rstrip line]))"

section \<open>Lemmas\<close>

definition plain :: "string \<Rightarrow> bool" where
  "plain s \<longleftrightarrow> list_all (\<lambda>c. \<not> py_whitespace c) s"

lemma whitespace_space [simp]: "py_whitespace CHR '' ''"
  by (simp add: py_whitespace_def)

lemma split_plain: "plain s \<Longrightarrow> py_split run (s @ rest) = py_split (run @ s) rest"
  by (induction s arbitrary: run) (simp_all add: plain_def)

lemma split_word: "plain s \<Longrightarrow> s \<noteq> [] \<Longrightarrow> py_split [] (s @ CHR '' '' # rest) = s # py_split [] rest"
  by (simp add: split_plain)

lemma split_space: "py_split run (a @ CHR '' '' # b) = py_split run a @ py_split [] b"
  by (induction a arbitrary: run) simp_all

lemma split_whitespace: "list_all py_whitespace b \<Longrightarrow> py_split run (a @ b) = py_split run a"
proof (induction a arbitrary: run)
  case Nil
  then show ?case
  proof (induction b arbitrary: run)
    case (Cons c b)
    from Cons.IH [of "[]"] Cons.prems show ?case by simp
  qed simp
qed simp

lemma rstrip_decomp: "\<exists>b. text = rstrip text @ b \<and> list_all py_whitespace b"
proof -
  have "text = rstrip text @ rev (takeWhile py_whitespace (rev text))"
    unfolding rstrip_def by (metis rev_append rev_rev_ident takeWhile_dropWhile_id)
  moreover have "list_all py_whitespace (rev (takeWhile py_whitespace (rev text)))"
    by (auto simp: list_all_iff dest: set_takeWhileD)
  ultimately show ?thesis by blast
qed

lemma split_rstrip: "py_split [] (rstrip text) = py_split [] text"
  using rstrip_decomp [of "text"] split_whitespace by metis

lemma line_epoch_rstrip: "line_epoch (rstrip text) = line_epoch text"
  by (simp add: line_epoch_def field_def line_fields_def split_rstrip)

lemma line_fields_space: "line_fields (a @ CHR '' '' # b) = line_fields a @ line_fields b"
  by (simp add: line_fields_def split_space)

lemma before_separator:
  "c \<notin> set a \<Longrightarrow> takeWhile (\<lambda>x. x \<noteq> c) (a @ c # b) = a \<and> dropWhile (\<lambda>x. x \<noteq> c) (a @ c # b) = c # b"
  by (induction a) auto

lemma field_word:
  assumes "plain name" "plain value" "CHR ''='' \<notin> set name"
  shows "line_fields (name @ CHR ''='' # value @ CHR '' '' # rest) = (name, value) # line_fields rest"
proof -
  have "plain (name @ CHR ''='' # value)" using assms by (simp add: plain_def py_whitespace_def)
  from split_word [OF this, of rest] have "py_split [] (name @ CHR ''='' # value @ CHR '' '' # rest)
      = (name @ CHR ''='' # value) # py_split [] rest" by simp
  moreover have "split_field (name @ CHR ''='' # value) = (name, value)"
    using assms(3) by (simp add: split_field_def before_separator)
  ultimately show ?thesis by (simp add: line_fields_def)
qed

lemma digit_char: "n < 10 \<Longrightarrow> of_char (hex_digit n) = 48 + n"
  by (simp add: hex_digit_def numeral_eq_Suc less_Suc_eq) auto

lemma decimal_digits: "isdecimal (decimal n) \<and> decimal_value (decimal n) = n"
proof (induction n rule: decimal.induct)
  case (1 n)
  then show ?case
    by (subst (1 2) decimal.simps)
      (auto simp: isdecimal_def decimal_value_def digit_value_def digit_char list_all_iff)
qed

lemma decimal_plain: "plain (decimal n)"
  using decimal_digits [of n] by (auto simp: isdecimal_def plain_def list_all_iff py_whitespace_def Let_def)

lemma contains_append: "contains needle (a @ needle @ b)"
proof (induction a)
  case Nil
  have "take (length needle) (needle @ b) = needle" by simp
  then show ?case by (cases "needle @ b") (auto simp del: take_append append_take_drop_id)
qed simp

section \<open>The readiness event of the mux\<close>

text \<open>The line that \<open>runtime.cr\<close> logs when an epoch becomes ready; the log formatter puts text before it.\<close>

definition ready_line :: "nat \<Rightarrow> string \<Rightarrow> string \<Rightarrow> string" where
  "ready_line epoch remote identification =
     ''event=upstream.ready epoch='' @ decimal epoch @ '' remote='' @ remote @ '' '' @ identification"

definition NEWLINE :: char where
  "NEWLINE = CHR 0x0A"

lemma ready_line_fields:
  assumes "plain remote"
  shows "line_fields (prefix @ '' '' @ ready_line n remote identification)
    = line_fields prefix @ [(''event'', ''upstream.ready''), (''epoch'', decimal n), (''remote'', remote)] @ line_fields identification"
proof -
  have "ready_line n remote identification
      = ''event'' @ CHR ''='' # ''upstream.ready'' @ CHR '' '' # (''epoch'' @ CHR ''='' # decimal n @ CHR '' '' #
        (''remote'' @ CHR ''='' # remote @ CHR '' '' # identification))"
    by (simp add: ready_line_def)
  moreover have "line_fields (''event'' @ CHR ''='' # ''upstream.ready'' @ CHR '' '' # rest) = (''event'', ''upstream.ready'') # line_fields rest"
    "line_fields (''epoch'' @ CHR ''='' # decimal n @ CHR '' '' # rest) = (''epoch'', decimal n) # line_fields rest"
    "line_fields (''remote'' @ CHR ''='' # remote @ CHR '' '' # rest) = (''remote'', remote) # line_fields rest" for rest
    using decimal_plain assms by (intro field_word; simp add: plain_def; simp add: py_whitespace_def)+
  ultimately show ?thesis by (simp only: line_fields_space append_Cons append_Nil)
qed

lemma map_of_absent: "list_all (\<lambda>f. fst f \<noteq> k) fs \<Longrightarrow> map_of fs k = None"
  by (auto simp: map_of_eq_None_iff list_all_iff)

lemma rstrip_contains:
  assumes "plain [c]"
  shows "contains needle (rstrip (a @ needle @ c # rest))"
proof -
  have "\<not> py_whitespace c" using assms by (simp add: plain_def)
  then have "dropWhile py_whitespace (rev (c # rest) @ rev (a @ needle)) = dropWhile py_whitespace (rev (c # rest)) @ rev (a @ needle)"
    by (intro dropWhile_append1 [of c]) simp_all
  then have "rstrip (a @ needle @ c # rest) = a @ needle @ rstrip (c # rest)" by (simp add: rstrip_def)
  then show ?thesis using contains_append by metis
qed

text \<open>C40. The readiness event of the mux is recognised, whatever the log formatter writes before it
  and whichever fields the companion's identification adds, as long as none of them is called
  \<open>event\<close> or \<open>epoch\<close>: the live scripts' reader reports exactly the epoch of the mux, and the reader
  of the loopback check is ready too.\<close>

theorem readiness_recognised:
  assumes "plain remote" "0 < n" "list_all (\<lambda>f. fst f \<notin> {''event'', ''epoch''}) (line_fields identification)"
  shows "fst (read_mux_stderr [prefix @ '' '' @ ready_line n remote identification @ [NEWLINE]] ([], tail)) = [n]
    \<and> fst (stderr_reader [prefix @ '' '' @ ready_line n remote identification @ [NEWLINE]] (False, tail))"
proof -
  let ?text = "prefix @ '' '' @ ready_line n remote identification"
  have strip: "line_epoch (rstrip (?text @ [NEWLINE])) = line_epoch ?text"
  proof -
    have "py_split [] (?text @ [NEWLINE]) = py_split [] ?text"
      by (rule split_whitespace) (simp add: NEWLINE_def py_whitespace_def)
    then show ?thesis unfolding line_epoch_rstrip by (simp add: line_epoch_def field_def line_fields_def)
  qed
  have "map_of (rev (line_fields identification)) ''event'' = None" "map_of (rev (line_fields identification)) ''epoch'' = None"
    using assms(3) by (auto intro!: map_of_absent simp: list_all_iff)
  then have "line_epoch ?text = Some n"
    using assms(2) decimal_digits [of n] unfolding line_epoch_def field_def ready_line_fields [OF assms(1)]
    by (simp add: map_add_def)
  with strip have "fst (read_mux_stderr [?text @ [NEWLINE]] ([], tail)) = [n]" by (simp only: read_mux_stderr.simps) simp
  moreover have "contains ''event=upstream.ready '' (rstrip (?text @ [NEWLINE]))"
  proof -
    have "?text @ [NEWLINE] = (prefix @ '' '') @ ''event=upstream.ready '' @ CHR ''e'' # ''poch='' @ decimal n @ '' remote='' @ remote @ '' '' @ identification @ [NEWLINE]"
      by (simp add: ready_line_def)
    moreover have "plain ''e''" by (simp add: plain_def py_whitespace_def)
    ultimately show ?thesis by (simp only: rstrip_contains)
  qed
  ultimately show ?thesis by (simp only: stderr_reader.simps append_assoc) simp
qed

theorem readiness_recognised_witness:
  "fst (read_mux_stderr [''INFO'' @ '' '' @ ready_line 2 ''127.0.0.1:5000'' ''profile=companion_v14 model=\"T-Beam v1\"'' @ [NEWLINE]] ([], [])) = [2]"
  using readiness_recognised [of "''127.0.0.1:5000''" 2 "''profile=companion_v14 model=\"T-Beam v1\"''" "''INFO''" "[]"]
  by (simp add: plain_def py_whitespace_def line_fields_def split_field_def)

text \<open>The text a companion reports about itself can change what the live scripts read: a model
  name that contains \<open>epoch=9\<close> between spaces replaces the epoch of the readiness event, and one
  that contains \<open>event=x\<close> hides the event, although the mux has logged the readiness of epoch 1.\<close>

theorem readiness_spoofed:
  "fst (read_mux_stderr [''INFO'' @ '' '' @ ready_line 1 ''127.0.0.1:5000'' ''model=\"A epoch=9 B\"'' @ [NEWLINE]] ([], [])) = [9]
   \<and> fst (read_mux_stderr [''INFO'' @ '' '' @ ready_line 1 ''127.0.0.1:5000'' ''model=\"A event=x B\"'' @ [NEWLINE]] ([], [])) = []"
  by code_simp

text \<open>The reader reports one epoch per readiness event, in order, and keeps the last forty lines.\<close>

lemma read_mux_stderr_spec:
  "read_mux_stderr lines (ready, keep_last TAIL_LIMIT tail)
   = (ready @ List.map_filter (\<lambda>l. line_epoch (rstrip l)) lines, keep_last TAIL_LIMIT (tail @ map rstrip lines))"
proof (induction lines arbitrary: ready tail)
  case (Cons l lines)
  have "keep_last TAIL_LIMIT (keep_last TAIL_LIMIT tail @ [rstrip l]) = keep_last TAIL_LIMIT (tail @ [rstrip l])"
    by (rule keep_last_keep_last)
  then show ?case using Cons.IH [of _ "tail @ [rstrip l]"]
    by (simp add: List.map_filter_simps split: option.splits)
qed (simp add: List.map_filter_simps)

end
