(* ===== verification/Mux_Process.thy ===== *)
theory Mux_Process
  imports Script_Trace Readiness
begin

text \<open>
  The frame that the live scripts with a mux of their own share (\<open>run\<close> in
  \<open>scripts/check_remote_requests.py\<close>, \<open>check_signing.py\<close>, \<open>check_scope.py\<close> and
  \<open>check_live_reconnect.py\<close>): the binary is checked, a mux is started, the script waits for its
  readiness, runs its body, re-raises every exception with the tail of the mux's log, and in the end
  disconnects its clients and stops the mux, with \<open>SIGTERM\<close> first and \<open>SIGKILL\<close> after five seconds.

  The operating system and \<open>asyncio\<close>'s subprocesses are the record \<open>mux_host\<close> of operations on the
  environment. \<open>stderr_lines\<close> are the lines the reader task has read so far, and \<open>stderr_wait\<close> lets
  the event loop run until the readiness queue has an entry or the limit is over. The variable
  \<open>process\<close> of a script is assigned exactly when the subprocess was created, so the clean-up is
  given the process of the launch.
\<close>

section \<open>The code\<close>

record 'w mux_host =
  binary_executable :: "string \<Rightarrow> 'w \<Rightarrow> bool"
  reserve_port :: "('w, int) py"
  spawn :: "string list \<Rightarrow> ('w, nat) py"
  has_stderr :: "nat \<Rightarrow> 'w \<Rightarrow> bool"
  returncode :: "nat \<Rightarrow> 'w \<Rightarrow> int option"
  send_sigterm :: "nat \<Rightarrow> ('w, unit) py"
  wait_process :: "nat \<Rightarrow> int option \<Rightarrow> ('w, unit) py"
  kill_process :: "nat \<Rightarrow> ('w, unit) py"
  stderr_lines :: "nat \<Rightarrow> 'w \<Rightarrow> string list"
  stderr_wait :: "nat \<Rightarrow> int \<Rightarrow> ('w, unit) py"
  stderr_join :: "nat \<Rightarrow> ('w, unit) py"

definition mux_arguments :: "string \<Rightarrow> string \<Rightarrow> nat \<Rightarrow> int \<Rightarrow> string list" where
  "mux_arguments binary upstream_host upstream_port listen_port =
     [binary, ''--upstream-host'', upstream_host, ''--upstream-port'', decimal upstream_port,
      ''--listen-host'', ''127.0.0.1'', ''--listen-multi-client-port'', decimal (nat listen_port), ''--poll-interval'', ''60'']"

text \<open>The readiness queue holds the epochs of the lines read so far, less those already taken.\<close>

definition ready_epochs :: "'w mux_host \<Rightarrow> nat \<Rightarrow> 'w \<Rightarrow> nat list" where
  "ready_epochs host process w = fst (read_mux_stderr (stderr_lines host process w) ([], []))"

definition wait_ready :: "'w mux_host \<Rightarrow> nat \<Rightarrow> nat \<Rightarrow> int \<Rightarrow> ('w live, nat) py" where
  "wait_ready host process taken timeout =
     py_bind (on_env (stderr_wait host process timeout)) (\<lambda>_.
     py_bind (py_get (\<lambda>s. ready_epochs host process (env s))) (\<lambda>epochs.
     if taken < length epochs then py_return (epochs ! taken) else py_raise PyTimeoutError))"

definition suppress_timeout :: "('w, unit) py \<Rightarrow> ('w, unit) py" where
  "suppress_timeout m = py_catch m (\<lambda>e. if e = PyTimeoutError then py_return () else py_raise e)"

definition STOP_GRACE :: int where
  "STOP_GRACE = 5000"

definition stop_mux :: "'w mux_host \<Rightarrow> nat \<Rightarrow> ('w, unit) py" where
  "stop_mux host process =
     py_then (py_bind (py_get (returncode host process)) (\<lambda>code.
        py_when (code = None) (py_then (send_sigterm host process)
          (suppress_timeout (wait_process host process (Some STOP_GRACE))))))
     (py_bind (py_get (returncode host process)) (\<lambda>code.
        py_when (code = None) (py_then (kill_process host process) (wait_process host process None))))"

definition join_reader :: "'w mux_host \<Rightarrow> nat \<Rightarrow> ('w, unit) py" where
  "join_reader host process =
     py_bind (py_get (has_stderr host process)) (\<lambda>piped. py_when piped (stderr_join host process))"

text \<open>The clean-up: clients, mux, whatever else the script owns (its relay), the reader task.\<close>

definition mux_cleanup :: "'w mux_host \<Rightarrow> 'w mesh_api \<Rightarrow> ('w, unit) py \<Rightarrow> nat option \<Rightarrow> ('w live, unit) py" where
  "mux_cleanup host api close process =
     py_then (disconnect_active api)
     (case process of None \<Rightarrow> on_env close
      | Some p \<Rightarrow> py_then (on_env (stop_mux host p)) (py_then (on_env close) (on_env (join_reader host p))))"

definition supervised :: "'w mux_host \<Rightarrow> 'w mesh_api \<Rightarrow> ('w, unit) py \<Rightarrow> nat option \<Rightarrow> ('w live, 'a) py \<Rightarrow> ('w live, 'a) py" where
  "supervised host api close process body = py_finally
     (py_catch body (\<lambda>e. py_raise (AssertionError ''with the mux stderr tail'')))
     (mux_cleanup host api close process)"

text \<open>Everything up to the creation of the subprocess; \<open>prepare\<close> gives its arguments and a value for the body.\<close>

definition mux_launch :: "'w mux_host \<Rightarrow> ('w live, string list \<times> 'p) py \<Rightarrow> ('w live, 'p \<times> nat) py" where
  "mux_launch host prepare =
     py_bind prepare (\<lambda>(arguments, p). py_bind (on_env (spawn host arguments)) (\<lambda>process. py_return (p, process)))"

definition mux_session :: "'w mux_host \<Rightarrow> 'w mesh_api \<Rightarrow> string \<Rightarrow> ('w, unit) py \<Rightarrow> ('w live, string list \<times> 'p) py
    \<Rightarrow> ('p \<Rightarrow> nat \<Rightarrow> ('w live, 'a) py) \<Rightarrow> ('w live, 'a) py" where
  "mux_session host api binary close prepare body s =
     (if \<not> binary_executable host binary (env s) then (Inl (AssertionError ''mux binary is not executable''), s)
      else case mux_launch host prepare s of
        (Inl e, s1) \<Rightarrow> supervised host api close None (py_raise e) s1
      | (Inr (p, process), s1) \<Rightarrow> supervised host api close (Some process)
          (py_bind (py_get (\<lambda>s. has_stderr host process (env s))) (\<lambda>piped.
             if \<not> piped then py_raise (AssertionError ''mux stderr pipe was not created'') else body p process)) s1)"

text \<open>Launching directly against the companion.\<close>

definition prepare_direct :: "'w mux_host \<Rightarrow> string \<Rightarrow> string \<Rightarrow> nat \<Rightarrow> ('w live, string list \<times> int) py" where
  "prepare_direct host binary physical_host physical_port =
     py_bind (on_env (reserve_port host)) (\<lambda>listen_port.
     py_return (mux_arguments binary physical_host physical_port listen_port, listen_port))"

section \<open>What a supervised script asks for\<close>

lemma quiet_wait_ready [trace_rules]: "quiet K (wait_ready host p taken timeout)"
  unfolding wait_ready_def by (intro trace_rules)

lemma quiet_mux_cleanup [trace_rules]: "quiet K (mux_cleanup host api close process)"
  unfolding mux_cleanup_def by (intro trace_rules)

lemma quiet_prepare_direct [trace_rules]: "quiet K (prepare_direct host binary h p)"
  unfolding prepare_direct_def by (intro trace_rules)

lemma supervised_outcome:
  assumes "body s = (r, s1)"
  shows "kind_trace K (snd (supervised host api close process body s)) = kind_trace K s1"
    and "fst (supervised host api close process body s) = Inr v \<Longrightarrow> r = Inr v"
proof -
  obtain r2 s2 where c: "py_catch body (\<lambda>e. py_raise (AssertionError ''with the mux stderr tail'')) s = (r2, s2)"
    by fastforce
  then have "s2 = s1" and r: "r2 = Inr v \<Longrightarrow> r = Inr v"
    using assms by (auto simp: py_catch_def py_raise_def split: sum.splits)
  moreover obtain r3 s3 where d: "mux_cleanup host api close process s2 = (r3, s3)" by fastforce
  moreover have "kind_trace K s3 = kind_trace K s2"
    using tracesD [OF quiet_mux_cleanup d] by auto
  ultimately show "kind_trace K (snd (supervised host api close process body s)) = kind_trace K s1"
    and "fst (supervised host api close process body s) = Inr v \<Longrightarrow> r = Inr v"
    using c by (auto simp: supervised_def py_finally_def split: sum.splits)
qed

lemma supervised_raise:
  "fst (supervised host api close process (py_raise e) s) \<notin> range Inr
   \<and> kind_trace K (snd (supervised host api close process (py_raise e) s)) = kind_trace K s"
proof -
  have "py_raise e s = (Inl e, s)" by (simp add: py_raise_def)
  note out = supervised_outcome [where body = "py_raise e" and s = s and host = host and api = api and close = close
      and process = process, OF this]
  from out(1) [of K] out(2) show ?thesis by auto
qed

lemma quiet_mux_launch:
  assumes "quiet K prepare"
  shows "quiet K (mux_launch host prepare)"
  unfolding mux_launch_def using assms by (intro quiet_bind) (auto intro: trace_rules split: prod.splits)

text \<open>
  A script whose launch and first part ask for nothing of the kind asks for a prefix of the plan of
  its second part; a script that returns has carried out the plan.
\<close>

lemma session_plan:
  assumes "quiet K prepare" "\<And>p process. quiet K (m p process)" "\<And>v. traces K (g v) (f v)"
    and run: "run = mux_session host api binary close prepare (\<lambda>p process. py_bind (m p process) f)"
  shows "(fst (run s) \<notin> range Inr \<and> kind_trace K (snd (run s)) = kind_trace K s)
    \<or> (\<exists>p process s0 v s1 ys. m p process s0 = (Inr v, s1) \<and> kind_trace K (snd (run s)) = kind_trace K s @ ys \<and> prefix ys (g v)
        \<and> (\<forall>x. fst (run s) = Inr x \<longrightarrow> ys = g v \<and> fst (py_bind (m p process) f s0) = Inr x))"
proof (cases "binary_executable host binary (env s)")
  case False
  then show ?thesis by (auto simp: run mux_session_def)
next
  case True
  obtain q s0 where l: "mux_launch host prepare s = (q, s0)" by fastforce
  have s0: "kind_trace K s0 = kind_trace K s" using tracesD [OF quiet_mux_launch [OF assms(1)] l] by auto
  show ?thesis
  proof (cases q)
    case (Inl e)
    then have "run s = supervised host api close None (py_raise e) s0" using True l by (simp add: run mux_session_def)
    then show ?thesis using supervised_raise [of host api close None e s0 K] s0 by auto
  next
    case (Inr pp)
    obtain p process where pp: "pp = (p, process)" by (cases pp)
    let ?body = "py_bind (py_get (\<lambda>s. has_stderr host process (env s))) (\<lambda>piped.
        if \<not> piped then py_raise (AssertionError ''mux stderr pipe was not created'') else py_bind (m p process) f)"
    have r: "run s = supervised host api close (Some process) ?body s0"
      using True l Inr pp by (simp add: run mux_session_def)
    show ?thesis
    proof (cases "has_stderr host process (env s0)")
      case False
      then have "?body s0 = (Inl (AssertionError ''mux stderr pipe was not created''), s0)"
        by (simp add: py_bind_def py_get_def py_raise_def)
      note out = supervised_outcome [where body = ?body and s = s0 and host = host and api = api and close = close
          and process = "Some process", OF this]
      from out(1) [of K] out(2) show ?thesis unfolding r using s0 by auto
    next
      case piped: True
      obtain x s2 where b: "py_bind (m p process) f s0 = (x, s2)" by fastforce
      with piped have "?body s0 = (x, s2)" by (simp add: py_bind_def py_get_def)
      note out = supervised_outcome [where body = ?body and s = s0 and host = host and api = api and close = close
          and process = "Some process", OF this]
      from quiet_bind_outcome [OF assms(2,3) b] show ?thesis
        unfolding r using out(1) [of K] out(2) b s0 by fastforce
    qed
  qed
qed

lemma session_returns:
  assumes "binary_executable host binary (env s)" "mux_launch host prepare s = (Inr (p, process), s1)"
    "has_stderr host process (env s1)" "fst (body p process s1) = Inr v"
    "\<And>s. fst (mux_cleanup host api close (Some process) s) = Inr ()"
  shows "fst (mux_session host api binary close prepare body s) = Inr v"
proof -
  obtain s2 where b: "body p process s1 = (Inr v, s2)" using assms(4) by (metis prod.collapse)
  obtain s3 where "mux_cleanup host api close (Some process) s2 = (Inr (), s3)" using assms(5) by (metis prod.collapse)
  with b assms(1-3) show ?thesis
    by (simp add: mux_session_def supervised_def py_finally_def py_catch_def py_bind_def py_get_def)
qed

text \<open>The parts of a script that returns.\<close>

lemma session_Inr:
  assumes "mux_session host api binary close prepare body s = (Inr v, s')"
  shows "\<exists>p process s1 s2. mux_launch host prepare s = (Inr (p, process), s1) \<and> body p process s1 = (Inr v, s2)
    \<and> mux_cleanup host api close (Some process) s2 = (Inr (), s')"
  using assms
  by (auto simp: mux_session_def supervised_def py_finally_def py_catch_def py_raise_def py_bind_def py_get_def
      split: if_splits prod.splits sum.splits)

lemma cleanup_disconnects:
  assumes "mux_cleanup host api close process s = (r, s')"
  shows "issued s' = issued s \<and> set (active_clients s) \<subseteq> set (disconnected s')"
proof -
  obtain s1 where d: "disconnect_active api s = (Inr (), s1)"
    by (metis (no_types, lifting) disconnect_active_def fst_conv gather_quiet_returns py_bind_def py_get_def prod.collapse
        case_prod_conv sum.simps(6))
  then have "set (active_clients s) \<subseteq> set (disconnected s1)" using disconnect_active_state(1) [of api s] by simp
  moreover have "issued s1 = issued s"
    using tracesD [OF quiet_disconnect_active [of "\<lambda>_. True"] d] by (auto simp: kind_trace_def)
  moreover have "issued s' = issued s1 \<and> disconnected s' = disconnected s1"
    using assms d by (auto simp: mux_cleanup_def on_env_def py_then_def py_bind_def split: prod.splits sum.splits option.splits)
  ultimately show ?thesis by simp
qed

text \<open>A mux that is ready at once and has ended by itself when the script stops it.\<close>

definition prompt_host :: "'w mux_host" where
  "prompt_host = \<lparr>binary_executable = \<lambda>b w. True, reserve_port = py_return 5001, spawn = \<lambda>args. py_return 7,
     has_stderr = \<lambda>p w. True, returncode = \<lambda>p w. Some 0, send_sigterm = \<lambda>p. py_return (),
     wait_process = \<lambda>p t. py_return (), kill_process = \<lambda>p. py_return (),
     stderr_lines = \<lambda>p w. [''INFO event=upstream.ready epoch=1 remote=127.0.0.1:5000''],
     stderr_wait = \<lambda>p t. py_return (), stderr_join = \<lambda>p. py_return ()\<rparr>"

lemma prompt_epochs: "ready_epochs prompt_host p w = [1]"
  unfolding ready_epochs_def prompt_host_def by (simp only: mux_host.simps) code_simp

lemma prompt_ready: "wait_ready prompt_host p 0 timeout s = (Inr 1, s)"
proof -
  have "on_env (stderr_wait prompt_host p timeout) s = (Inr (), s)"
    by (simp add: prompt_host_def on_env_def py_return_def)
  then show ?thesis by (simp add: wait_ready_def py_bind_def py_get_def prompt_epochs py_return_def)
qed

lemma prompt_then: "py_bind (py_then (wait_ready prompt_host p 0 timeout) n) f s = py_bind n f s"
  by (simp add: py_bind_def [of "py_then _ _"] py_then_returns [OF prompt_ready]) (simp add: py_bind_def)

lemma prompt_launch: "mux_launch prompt_host (prepare_direct prompt_host binary physical_host port) s = (Inr (5001, 7), s)"
  by (simp add: mux_launch_def prepare_direct_def prompt_host_def on_env_def py_defs)

lemma prompt_cleanup:
  assumes "\<And>w. fst (close w) = Inr ()"
  shows "fst (mux_cleanup prompt_host api close (Some p) s) = Inr ()"
proof -
  have "fst (disconnect_active api s) = Inr ()"
    by (simp add: disconnect_active_def py_bind_def py_get_def gather_quiet_returns)
  then obtain s1 where "disconnect_active api s = (Inr (), s1)" by (metis prod.collapse)
  moreover obtain w where "close (env s1) = (Inr (), w)" using assms by (metis prod.collapse)
  ultimately show ?thesis
    by (simp add: mux_cleanup_def prompt_host_def stop_mux_def join_reader_def on_env_def py_defs)
qed

lemma prompt_returns:
  "fst (body 5001 7 s) = Inr v \<Longrightarrow>
   fst (mux_session prompt_host api binary (py_return ()) (prepare_direct prompt_host binary physical_host port) body s) = Inr v"
  by (rule session_returns [OF _ prompt_launch]) (auto intro!: prompt_cleanup simp: py_return_def, simp_all add: prompt_host_def)

section \<open>The mux is not left behind\<close>

text \<open>
  What the scripts rely on of \<open>asyncio\<close>: signals are delivered, waiting returns when the process has
  ended or raises \<open>TimeoutError\<close>, waiting without a limit returns, and nothing revives a process.
\<close>

definition process_contract :: "'w mux_host \<Rightarrow> ('w, unit) py \<Rightarrow> bool" where
  "process_contract host close \<longleftrightarrow>
     (\<forall>p w. fst (send_sigterm host p w) = Inr () \<and> fst (kill_process host p w) = Inr ()
        \<and> fst (wait_process host p None w) = Inr () \<and> returncode host p (snd (wait_process host p None w)) \<noteq> None
        \<and> fst (wait_process host p (Some STOP_GRACE) w) \<in> {Inr (), Inl PyTimeoutError})
     \<and> (\<forall>p w. returncode host p w \<noteq> None \<longrightarrow> returncode host p (snd (close w)) \<noteq> None
        \<and> returncode host p (snd (stderr_join host p w)) \<noteq> None)"

lemma stop_mux_stops:
  assumes "process_contract host close"
  shows "fst (stop_mux host p w) = Inr () \<and> returncode host p (snd (stop_mux host p w)) \<noteq> None"
proof -
  note c = assms [unfolded process_contract_def, THEN conjunct1, rule_format, of p]
  obtain r1 w1 where sig: "send_sigterm host p w = (r1, w1)" by fastforce
  obtain r2 w2 where grace: "wait_process host p (Some STOP_GRACE) w1 = (r2, w2)" by fastforce
  have "r1 = Inr ()" "r2 \<in> {Inr (), Inl PyTimeoutError}" using c [of w] c [of w1] sig grace by auto
  then have first: "py_bind (py_get (returncode host p)) (\<lambda>code. py_when (code = None) (py_then (send_sigterm host p)
      (suppress_timeout (wait_process host p (Some STOP_GRACE))))) w = (Inr (), if returncode host p w = None then w2 else w)"
    using sig grace by (auto simp: suppress_timeout_def py_defs)
  have second: "fst (py_bind (py_get (returncode host p)) (\<lambda>code. py_when (code = None) (py_then (kill_process host p)
      (wait_process host p None))) v) = Inr () \<and> returncode host p (snd (py_bind (py_get (returncode host p)) (\<lambda>code.
      py_when (code = None) (py_then (kill_process host p) (wait_process host p None))) v)) \<noteq> None" for v
  proof -
    obtain r3 w3 where "kill_process host p v = (r3, w3)" by fastforce
    moreover obtain r4 w4 where "wait_process host p None w3 = (r4, w4)" by fastforce
    ultimately show ?thesis using c [of v] c [of w3] by (auto simp: py_defs)
  qed
  have "stop_mux host p w = py_bind (py_get (returncode host p)) (\<lambda>code. py_when (code = None) (py_then (kill_process host p)
      (wait_process host p None))) (if returncode host p w = None then w2 else w)"
    unfolding stop_mux_def by (rule py_then_returns) (rule first)
  then show ?thesis using second by metis
qed

lemma cleanup_stops:
  assumes "process_contract host close"
  shows "returncode host p (env (snd (mux_cleanup host api close (Some p) s))) \<noteq> None"
proof -
  have keep: "returncode host p w \<noteq> None \<Longrightarrow> returncode host p (snd (close w)) \<noteq> None"
    "returncode host p w \<noteq> None \<Longrightarrow> returncode host p (snd (stderr_join host p w)) \<noteq> None" for w
    using assms by (auto simp: process_contract_def)
  obtain s1 where s1: "disconnect_active api s = (Inr (), s1)"
    by (metis (no_types, lifting) disconnect_active_def fst_conv gather_quiet_returns py_bind_def py_get_def prod.collapse
        case_prod_conv sum.simps(6))
  obtain w2 where w2: "stop_mux host p (env s1) = (Inr (), w2)" and stopped: "returncode host p w2 \<noteq> None"
    using stop_mux_stops [OF assms, of p "env s1"] by (metis prod.collapse)
  obtain r3 w3 where w3: "close w2 = (r3, w3)" by fastforce
  then have closed: "returncode host p w3 \<noteq> None" using keep(1) [OF stopped] by simp
  have "snd (join_reader host p w3) = (if has_stderr host p w3 then snd (stderr_join host p w3) else w3)"
    by (auto simp: join_reader_def py_defs)
  then have "returncode host p (snd (join_reader host p w3)) \<noteq> None" using closed keep(2) by simp
  with s1 w2 w3 closed show ?thesis
    by (auto simp: mux_cleanup_def on_env_def py_then_def py_bind_def split: prod.splits sum.splits)
qed

section \<open>Properties\<close>


text \<open>A mux that ignores \<open>SIGTERM\<close>: only \<open>SIGKILL\<close> ends it.\<close>

definition stubborn_host :: "(nat \<Rightarrow> int option) mux_host" where
  "stubborn_host = \<lparr>binary_executable = \<lambda>b w. True, reserve_port = py_return 5001, spawn = \<lambda>args w. (Inr 7, w(7 := None)),
     has_stderr = \<lambda>p w. True, returncode = \<lambda>p w. w p, send_sigterm = \<lambda>p. py_return (),
     wait_process = \<lambda>p t w. (case t of None \<Rightarrow> (Inr (), w(p := Some (-9)))
       | Some n \<Rightarrow> if w p = None then (Inl PyTimeoutError, w) else (Inr (), w)),
     kill_process = \<lambda>p. py_return (), stderr_lines = \<lambda>p w. [], stderr_wait = \<lambda>p t. py_return (),
     stderr_join = \<lambda>p. py_return ()\<rparr>"

lemma stubborn_contract: "process_contract stubborn_host (py_return ())"
  by (auto simp: process_contract_def stubborn_host_def py_return_def)

definition stubborn_start :: "(nat \<Rightarrow> int option) live" where
  "stubborn_start = \<lparr>env = \<lambda>_. None, active_clients = [], send_limit = 0, send_used = 0, marker_sequence = 0,
     ack_queues = [], opened = [], disconnected = [], issued = []\<rparr>"


end
