(* ===== verification/Live_Remote.thy ===== *)
theory Live_Remote
  imports Live_Dedicated Mux_Process Leases
begin

text \<open>
  The guest request check \<open>scripts/check_remote_requests.py\<close>: waiting for a terminal result, one
  remote operation, the five operations on a target and the run over the selected targets.

  A waiter task is a number handed out by the client library; the subscription and the queue that
  capture a binary response are one waiter without a filter. The supervision of the mux process
  around the run is not modelled. Times are milliseconds; the bound on the result
  (\<open>suggested / 1000 * 1.25 + 1\<close> seconds) is compared exactly and rounded down when it is waited for.
\<close>

section \<open>One operation\<close>

definition create_waiter :: "'w mesh_api \<Rightarrow> nat \<Rightarrow> event_type \<Rightarrow> (string \<times> pyval) list \<Rightarrow> int option \<Rightarrow> ('w live, nat) py" where
  "create_waiter api client ty filters timeout =
     py_then (py_modify (\<lambda>s. s\<lparr>issued := issued s @ [(client, AwaitEvent ty filters timeout)]\<rparr>))
       (on_env (register_waiter api client ty filters timeout))"

text \<open>The loop over the finished tasks: the first result that is not \<open>None\<close>.\<close>

fun first_result :: "(py_error + event option) list \<Rightarrow> py_error + event option" where
  "first_result [] = Inr None"
| "first_result (Inl e # rest) = Inl e"
| "first_result (Inr None # rest) = first_result rest"
| "first_result (Inr (Some ev) # rest) = Inr (Some ev)"

definition wait_for_terminal :: "'w mesh_api \<Rightarrow> nat list \<Rightarrow> int \<Rightarrow> ('w live, event option) py" where
  "wait_for_terminal api tasks timeout =
     py_bind (on_env (wait_first api tasks timeout)) (\<lambda>waited.
     py_then (on_env (cancel_waiters api (snd waited))) (py_lift (first_result (fst waited))))"

datatype op_outcome = NotSentOrRejected | ResultTimeout int | ResultEvent int event_type

definition result_limit :: "int \<Rightarrow> int" where
  "result_limit suggested_ms = suggested_ms * 5 div 4 + 1000"

definition limit_exceeds :: "int \<Rightarrow> int \<Rightarrow> bool" where
  "limit_exceeds suggested_ms timeout \<longleftrightarrow> 4 * timeout < suggested_ms * 5 + 4000"

text \<open>The part of an operation after its acceptance, with the local query running beside the wait.\<close>

definition await_result :: "'w mesh_api \<Rightarrow> nat \<Rightarrow> nat list \<Rightarrow> int \<Rightarrow> int \<Rightarrow> ('w live, op_outcome) py" where
  "await_result api observer waiters timeout suggested_ms =
     (if limit_exceeds suggested_ms timeout
      then py_raise (AssertionError ''required result bound exceeds --timeout'')
      else py_bind (py_gather [call api observer GetTime, wait_for_terminal api waiters (result_limit suggested_ms)]) (\<lambda>both.
           py_bind (require_event (both ! 0) CURRENT_TIME) (\<lambda>_.
           py_return (case both ! 1 of None \<Rightarrow> ResultTimeout suggested_ms
             | Some terminal \<Rightarrow> ResultEvent suggested_ms (ev_type terminal)))))"

definition one_remote_operation :: "'w mesh_api \<Rightarrow> nat \<Rightarrow> nat \<Rightarrow> string \<Rightarrow> request \<Rightarrow> nat list \<Rightarrow> int \<Rightarrow> ('w live, string \<times> op_outcome) py" where
  "one_remote_operation api owner observer name send waiters timeout =
     py_bind (call api owner send) (\<lambda>accepted.
     if (case accepted of None \<Rightarrow> True | Some e \<Rightarrow> ev_type e = ERROR)
     then py_then (on_env (cancel_waiters api waiters)) (py_return (name, NotSentOrRejected))
     else py_bind (require_event accepted MSG_SENT) (\<lambda>event.
          py_bind (py_lift (py_dict_get (ev_payload event) ''suggested_timeout'')) (\<lambda>suggested.
          case suggested of
            PyInt ms \<Rightarrow>
              if ms < 0 then py_raise (AssertionError ''invalid suggested timeout'')
              else py_bind (await_result api observer waiters timeout ms) (\<lambda>outcome. py_return (name, outcome))
          | _ \<Rightarrow> py_raise (AssertionError ''invalid suggested timeout''))))"

section \<open>One target\<close>

text \<open>\<open>contact["public_key"][:12]\<close>.\<close>

definition key_prefix :: "pyval \<Rightarrow> py_error + pyval" where
  "key_prefix contact = (case py_item contact ''public_key'' of
       Inl e \<Rightarrow> Inl e
     | Inr (PyStr s) \<Rightarrow> Inr (PyStr (take 12 s))
     | Inr (PyBytes b) \<Rightarrow> Inr (PyBytes (take 12 b))
     | Inr _ \<Rightarrow> Inl (ClientError ''not subscriptable''))"

text \<open>Waiters are registered before the command is sent: one for each terminal event.\<close>

definition awaited_operation :: "'w mesh_api \<Rightarrow> nat \<Rightarrow> nat \<Rightarrow> string \<Rightarrow> event_type list \<Rightarrow> (string \<times> pyval) list \<Rightarrow> request \<Rightarrow> int \<Rightarrow> ('w live, string \<times> op_outcome) py" where
  "awaited_operation api owner observer name tys filters send timeout =
     py_bind (py_for tys (\<lambda>ty. create_waiter api owner ty filters (Some timeout))) (\<lambda>waiters.
     py_then (sleep api 0) (one_remote_operation api owner observer name send waiters timeout))"

definition binary_operation :: "'w mesh_api \<Rightarrow> nat \<Rightarrow> nat \<Rightarrow> pyval \<Rightarrow> int \<Rightarrow> ('w live, string \<times> op_outcome) py" where
  "binary_operation api owner observer contact timeout =
     py_bind (create_waiter api owner BINARY_RESPONSE [] None) (\<lambda>waiter.
     py_finally (one_remote_operation api owner observer ''binary-status'' (SendBinaryReq contact) [waiter] timeout)
       (on_env (cancel_waiters api [waiter])))"

definition check_target :: "'w mesh_api \<Rightarrow> nat \<Rightarrow> nat \<Rightarrow> pyval \<Rightarrow> int \<Rightarrow> ('w live, (string \<times> op_outcome) list) py" where
  "check_target api owner observer contact timeout =
     py_bind (py_lift (key_prefix contact)) (\<lambda>p.
     py_bind (awaited_operation api owner observer ''login'' [LOGIN_SUCCESS, LOGIN_FAILED] [(''pubkey_prefix'', p)]
       (SendLogin contact '''') timeout) (\<lambda>login.
     py_bind (awaited_operation api owner observer ''status'' [STATUS_RESPONSE] [(''pubkey_prefix'', p)]
       (SendStatusReq contact) timeout) (\<lambda>status.
     py_bind (awaited_operation api owner observer ''telemetry'' [TELEMETRY_RESPONSE] [(''pubkey_prefix'', p)]
       (SendTelemetryReq contact) timeout) (\<lambda>telemetry.
     py_bind (awaited_operation api owner observer ''path-discovery'' [PATH_RESPONSE] [(''pubkey_pre'', p)]
       (SendPathDiscovery contact) timeout) (\<lambda>path.
     py_bind (binary_operation api owner observer contact timeout) (\<lambda>binary.
     py_return [login, status, telemetry, path, binary]))))))"

section \<open>The run\<close>

definition has_name :: "string \<Rightarrow> pyval \<Rightarrow> py_error + bool" where
  "has_name requested contact = (case text_field contact ''adv_name'' of
       Inl e \<Rightarrow> Inl e | Inr name \<Rightarrow> Inr (casefold name = casefold requested))"

definition select_target :: "pyval list \<Rightarrow> string \<Rightarrow> py_error + pyval" where
  "select_target contacts requested = (case select_contacts (has_name requested) contacts of
       Inl e \<Rightarrow> Inl e
     | Inr matches \<Rightarrow>
         if length matches \<noteq> 1 then Inl (AssertionError ''expected exactly one contact matching requested target'')
         else Inr (matches ! 0))"

record remote_args =
  ra_binary :: string
  ra_physical_host :: string
  ra_physical_port :: nat
  ra_targets :: "string list"
  ra_timeout :: int

definition contact_values :: "'w mesh_api \<Rightarrow> nat \<Rightarrow> int \<Rightarrow> ('w live, pyval list) py" where
  "contact_values api client timeout =
     py_bind (call api client (GetContacts timeout)) (\<lambda>e.
     py_bind (require_event e CONTACTS) (\<lambda>event.
     case ev_payload event of PyDict kvs \<Rightarrow> py_return (map snd kvs)
     | _ \<Rightarrow> py_raise (ClientError ''payload has no values'')))"

text \<open>Every target is resolved before the first transmission.\<close>

definition remote_select :: "'w mesh_api \<Rightarrow> remote_args \<Rightarrow> int \<Rightarrow> ('w live, nat \<times> nat \<times> pyval list) py" where
  "remote_select api args listen_port =
     py_bind (py_gather [connect api ''127.0.0.1'' listen_port (ra_timeout args),
                         connect api ''127.0.0.1'' listen_port (ra_timeout args)]) (\<lambda>pair.
     py_then (append_client (pair ! 0)) (py_then (append_client (pair ! 1))
     (py_bind (contact_values api (pair ! 0) (ra_timeout args)) (\<lambda>contacts.
      py_bind (py_for (ra_targets args) (\<lambda>requested. py_lift (select_target contacts requested))) (\<lambda>selected.
      py_return (pair ! 0, pair ! 1, selected))))))"

definition remote_body :: "'w mux_host \<Rightarrow> 'w mesh_api \<Rightarrow> remote_args \<Rightarrow> int \<Rightarrow> nat \<Rightarrow> ('w live, (string \<times> op_outcome) list list) py" where
  "remote_body host api args listen_port process =
     py_bind (py_then (wait_ready host process 0 (ra_timeout args)) (remote_select api args listen_port))
       (\<lambda>(owner, observer, selected). py_for selected (\<lambda>contact. check_target api owner observer contact (ra_timeout args)))"

definition remote_run :: "'w mux_host \<Rightarrow> 'w mesh_api \<Rightarrow> remote_args \<Rightarrow> ('w live, (string \<times> op_outcome) list list) py" where
  "remote_run host api args = mux_session host api (ra_binary args) (py_return ())
     (prepare_direct host (ra_binary args) (ra_physical_host args) (ra_physical_port args)) (remote_body host api args)"

section \<open>What is asked of the radio\<close>

text \<open>The requests that matter for the single-attempt rule: transmissions and registrations.\<close>

fun remote_kind :: "nat \<times> request \<Rightarrow> bool" where
  "remote_kind (c, AwaitEvent ty filters timeout) = True"
| "remote_kind (c, req) = is_radio_send req"

definition operation_plan :: "nat \<Rightarrow> event_type list \<Rightarrow> (string \<times> pyval) list \<Rightarrow> int option \<Rightarrow> request \<Rightarrow> (nat \<times> request) list" where
  "operation_plan owner tys filters timeout send = map (\<lambda>ty. (owner, AwaitEvent ty filters timeout)) tys @ [(owner, send)]"

definition target_plan :: "nat \<Rightarrow> int \<Rightarrow> pyval \<Rightarrow> (nat \<times> request) list" where
  "target_plan owner timeout contact = (case key_prefix contact of Inl e \<Rightarrow> [] | Inr p \<Rightarrow>
       operation_plan owner [LOGIN_SUCCESS, LOGIN_FAILED] [(''pubkey_prefix'', p)] (Some timeout) (SendLogin contact '''')
     @ operation_plan owner [STATUS_RESPONSE] [(''pubkey_prefix'', p)] (Some timeout) (SendStatusReq contact)
     @ operation_plan owner [TELEMETRY_RESPONSE] [(''pubkey_prefix'', p)] (Some timeout) (SendTelemetryReq contact)
     @ operation_plan owner [PATH_RESPONSE] [(''pubkey_pre'', p)] (Some timeout) (SendPathDiscovery contact)
     @ operation_plan owner [BINARY_RESPONSE] [] None (SendBinaryReq contact))"

lemma traces_create_waiter:
  "traces remote_kind [(c, AwaitEvent ty filters timeout)] (create_waiter api c ty filters timeout)"
  by (rule tracesI) (auto simp: create_waiter_def on_env_def py_defs kind_trace_def split: prod.splits)

lemma quiet_sleep [trace_rules]: "quiet K (sleep api ms)"
  by (rule quietI) (simp add: sleep_def py_modify_def)

lemma quiet_get_time: "quiet remote_kind (call api c GetTime)"
  by (rule quiet_call) simp

lemma quiet_wait_for_terminal: "quiet K (wait_for_terminal api tasks timeout)"
  unfolding wait_for_terminal_def by (intro trace_rules)

lemma quiet_await_result: "quiet remote_kind (await_result api observer waiters timeout ms)"
  unfolding await_result_def
  by (intro trace_rules) (simp add: quiet_get_time quiet_wait_for_terminal)

lemma traces_one_operation:
  assumes "is_radio_send send"
  shows "traces remote_kind [(owner, send)] (one_remote_operation api owner observer name send waiters timeout)"
proof -
  have "remote_kind (owner, send)" using assms by (cases send) simp_all
  moreover have "quiet remote_kind (case v of
      PyInt ms \<Rightarrow> if ms < 0 then py_raise (AssertionError ''invalid suggested timeout'')
        else py_bind (await_result api observer waiters timeout ms) (\<lambda>outcome. py_return (name, outcome))
    | _ \<Rightarrow> py_raise (AssertionError ''invalid suggested timeout''))" for v
    by (cases v) (auto intro: trace_rules quiet_await_result)
  ultimately show ?thesis
    unfolding one_remote_operation_def by (intro call_bind trace_rules) auto
qed

lemma traces_awaited:
  assumes "is_radio_send send"
  shows "traces remote_kind (operation_plan owner tys filters (Some timeout) send)
    (awaited_operation api owner observer name tys filters send timeout)"
proof -
  have "traces remote_kind (concat (map (\<lambda>ty. [(owner, AwaitEvent ty filters (Some timeout))]) tys))
      (py_for tys (\<lambda>ty. create_waiter api owner ty filters (Some timeout)))"
    by (intro traces_for traces_create_waiter)
  then have w: "traces remote_kind (map (\<lambda>ty. (owner, AwaitEvent ty filters (Some timeout))) tys)
      (py_for tys (\<lambda>ty. create_waiter api owner ty filters (Some timeout)))"
    by (simp add: concat_map_singleton)
  show ?thesis unfolding operation_plan_def awaited_operation_def
    by (intro traces_bind [OF w] quiet_then quiet_sleep traces_one_operation assms)
qed

lemma traces_binary:
  "traces remote_kind (operation_plan owner [BINARY_RESPONSE] [] None (SendBinaryReq contact))
     (binary_operation api owner observer contact timeout)"
proof -
  have "traces remote_kind ([(owner, AwaitEvent BINARY_RESPONSE [] None)] @ [(owner, SendBinaryReq contact)])
     (binary_operation api owner observer contact timeout)"
    unfolding binary_operation_def
    by (intro traces_bind traces_create_waiter traces_finally traces_one_operation quiet_on_env) simp
  then show ?thesis by (simp add: operation_plan_def)
qed

lemma traces_check_target:
  "traces remote_kind (target_plan owner timeout contact) (check_target api owner observer contact timeout)"
proof (cases "key_prefix contact")
  case (Inl e)
  then have "check_target api owner observer contact timeout = py_raise e"
    by (simp add: check_target_def fun_eq_iff py_defs)
  then show ?thesis by (simp add: traces_raise)
next
  case (Inr p)
  have bind: "py_bind (py_lift (Inr p)) f = f p" for f :: "pyval \<Rightarrow> ('w live, (string \<times> op_outcome) list) py"
    by (simp add: fun_eq_iff py_defs)
  let ?op = "\<lambda>tys k req. operation_plan owner tys [(k, p)] (Some timeout) req"
  have "traces remote_kind
      (?op [LOGIN_SUCCESS, LOGIN_FAILED] ''pubkey_prefix'' (SendLogin contact '''')
       @ (?op [STATUS_RESPONSE] ''pubkey_prefix'' (SendStatusReq contact)
       @ (?op [TELEMETRY_RESPONSE] ''pubkey_prefix'' (SendTelemetryReq contact)
       @ (?op [PATH_RESPONSE] ''pubkey_pre'' (SendPathDiscovery contact)
       @ (operation_plan owner [BINARY_RESPONSE] [] None (SendBinaryReq contact) @ [])))))
      (check_target api owner observer contact timeout)"
    unfolding check_target_def Inr bind
    by (intro traces_bind traces_awaited traces_binary quiet_return) simp_all
  then show ?thesis by (simp add: target_plan_def Inr)
qed

lemma quiet_remote_select: "quiet remote_kind (remote_select api args port)"
proof -
  have "quiet remote_kind (contact_values api c t)" for c t
    unfolding contact_values_def
    by (intro quiet_bind quiet_call quiet_require_event) (auto intro: trace_rules split: pyval.splits)
  then show ?thesis unfolding remote_select_def
    by (intro trace_rules) (simp_all add: quiet_connect)
qed

lemma py_for_lift:
  "py_for ts (\<lambda>t. py_lift (g t)) s = (Inr cs, s') \<Longrightarrow> list_all2 (\<lambda>t c. g t = Inr c) ts cs"
  by (induction ts arbitrary: s cs) (auto simp: py_bind_def py_return_def py_lift_def split: prod.splits sum.splits)

lemma select_target_name:
  assumes "select_target contacts t = Inr c"
  shows "has_name t c = Inr True"
proof -
  from assms obtain ms where "select_contacts (has_name t) contacts = Inr ms" "length ms = 1" "c = ms ! 0"
    by (auto simp: select_target_def split: sum.splits if_splits)
  then have "c \<in> set (filter (\<lambda>c. has_name t c = Inr True) contacts)"
    using select_contacts_all nth_mem [of 0 ms] by fastforce
  then show ?thesis by simp
qed

lemma remote_select_names:
  fixes api :: "'w mesh_api"
  assumes "remote_select api args port s = (Inr (owner, observer, cs), s')"
  shows "list_all2 (\<lambda>t c. has_name t c = Inr True) (ra_targets args) cs"
proof -
  obtain contacts and s1 s2 :: "'w live" where "py_for (ra_targets args) (\<lambda>t. py_lift (select_target contacts t)) s1 = (Inr cs, s2)"
    using assms unfolding remote_select_def py_bind_Inr py_then_def by (auto simp: py_return_def simp del: py_gather.simps)
  from py_for_lift [OF this] show ?thesis
    by (rule list_all2_mono) (rule select_target_name)
qed

section \<open>Properties\<close>

text \<open>C30. Guest requests are single attempts: whatever the client library does, the registrations and
  transmissions of a run are a prefix of the plan for the resolved targets, in which each of the
  five operations of a target is sent once, directly after the registration of the waiters for its
  terminal events; a run that returns has carried out the whole plan, for contacts that have the
  requested names.\<close>

theorem remote_single_attempts:
  "\<exists>owner cs ys. kind_trace remote_kind (snd (remote_run host api args s)) = kind_trace remote_kind s @ ys
     \<and> prefix ys (concat (map (target_plan owner (ra_timeout args)) cs))
     \<and> (\<forall>results. fst (remote_run host api args s) = Inr results \<longrightarrow>
          ys = concat (map (target_plan owner (ra_timeout args)) cs)
          \<and> list_all2 (\<lambda>t c. has_name t c = Inr True) (ra_targets args) cs)"
proof -
  let ?plan = "\<lambda>(owner, observer :: nat, cs). concat (map (target_plan owner (ra_timeout args)) cs)"
  let ?body = "\<lambda>(owner, observer, cs). py_for cs (\<lambda>c. check_target api owner observer c (ra_timeout args))"
  let ?m = "\<lambda>port process. py_then (wait_ready host process 0 (ra_timeout args)) (remote_select api args port)"
  have body: "traces remote_kind (?plan v) (?body v)" for v
    by (cases v) (auto intro!: traces_for traces_check_target)
  have first: "quiet remote_kind (?m port process)" for port process
    by (intro quiet_then quiet_wait_ready quiet_remote_select)
  have run: "remote_run host api args = mux_session host api (ra_binary args) (py_return ())
      (prepare_direct host (ra_binary args) (ra_physical_host args) (ra_physical_port args)) (\<lambda>port process. py_bind (?m port process) ?body)"
    by (simp add: remote_run_def remote_body_def [abs_def])
  from session_plan [where m = "?m" and g = "?plan" and f = "?body" and s = s, OF quiet_prepare_direct first body run]
  show ?thesis
  proof (elim disjE exE conjE)
    fix port process s0 v s1 ys assume v: "?m port process s0 = (Inr v, s1)"
      and "kind_trace remote_kind (snd (remote_run host api args s)) = kind_trace remote_kind s @ ys"
        "prefix ys (?plan v)" "\<forall>x. fst (remote_run host api args s) = Inr x \<longrightarrow>
          ys = ?plan v \<and> fst (py_bind (?m port process) ?body s0) = Inr x"
    moreover obtain owner observer cs where "v = (owner, observer, cs)" by (cases v)
    moreover from v obtain s' where "remote_select api args port s' = (Inr v, s1)" by (auto simp: py_then_Inr)
    ultimately show ?thesis using remote_select_names [of api args port s' owner observer cs s1]
      by (intro exI [of _ owner] exI [of _ cs] exI [of _ ys]) auto
  next
    assume "fst (remote_run host api args s) \<notin> range Inr"
      "kind_trace remote_kind (snd (remote_run host api args s)) = kind_trace remote_kind s"
    then show ?thesis by (intro exI [of _ "0 :: nat"] exI [of _ "[]"]) auto
  qed
qed

text \<open>A companion that accepts every request and never answers one.\<close>

fun silent_reply :: "request \<Rightarrow> event" where
  "silent_reply (GetContacts t) = \<lparr>ev_type = CONTACTS, ev_payload = PyDict [(''k'',
     PyDict [(''adv_name'', PyStr ''Rep''), (''public_key'', PyStr ''0123456789abcdef'')])]\<rparr>"
| "silent_reply GetTime = \<lparr>ev_type = CURRENT_TIME, ev_payload = PyDict []\<rparr>"
| "silent_reply other = \<lparr>ev_type = MSG_SENT, ev_payload = PyDict [(''suggested_timeout'', PyInt 4000)]\<rparr>"

definition silent_api :: "unit mesh_api" where
  "silent_api = \<lparr>create_tcp = \<lambda>host port timeout. py_return (Some 4), self_info_key = \<lambda>c w. Some (replicate 64 CHR ''a''),
     is_connected = \<lambda>c w. True, client_call = \<lambda>c r. py_return (Some (silent_reply r)),
     client_disconnect = \<lambda>c. py_return (), delivered_acks = \<lambda>t. py_return [],
     wait_disconnected = \<lambda>c t. py_return (), register_waiter = \<lambda>c ty fs t. py_return 0,
     wait_first = \<lambda>ws t. py_return ([], ws), cancel_waiters = \<lambda>ws. py_return (), loop_time = \<lambda>w. 0, loop_sleep = \<lambda>ms w. w\<rparr>"

definition silent_start :: "unit live" where
  "silent_start = \<lparr>env = (), active_clients = [], send_limit = 0, send_used = 0, marker_sequence = 0,
     ack_queues = [], opened = [], disconnected = [], issued = []\<rparr>"

definition silent_args :: remote_args where
  "silent_args = \<lparr>ra_binary = ''mux'', ra_physical_host = ''10.0.0.2'', ra_physical_port = 5000, ra_targets = [''rep''], ra_timeout = 30000\<rparr>"

lemma silent_select: "select_target [PyDict [(''adv_name'', PyStr ''Rep''), (''public_key'', PyStr ''0123456789abcdef'')]] ''rep''
    = Inr (PyDict [(''adv_name'', PyStr ''Rep''), (''public_key'', PyStr ''0123456789abcdef'')])"
  by (simp add: select_target_def has_name_def text_field_def casefold_def fold_char_def)

lemma silent_fields: "register_waiter silent_api c ty fs t = py_return 0" "wait_first silent_api ws t' = py_return ([], ws)"
  "cancel_waiters silent_api ws = py_return ()" "client_call silent_api c r = py_return (Some (silent_reply r))"
  "loop_sleep silent_api ms w = w"
  by (simp_all add: silent_api_def)

lemma silent_operation:
  "is_radio_send send \<Longrightarrow> fst (one_remote_operation silent_api 4 4 name send ws 30000 s) = Inr (name, ResultTimeout 4000)"
  by (cases send) (simp_all add: one_remote_operation_def await_result_def wait_for_terminal_def call_def on_env_def
      silent_fields require_event_def py_dict_get_def limit_exceeds_def py_defs)

lemma silent_awaited:
  assumes "is_radio_send send"
  shows "fst (awaited_operation silent_api 4 4 name tys filters send 30000 s) = Inr (name, ResultTimeout 4000)"
proof -
  have w: "fst (py_for tys (\<lambda>ty. create_waiter silent_api 4 ty filters (Some 30000)) s) = Inr (map (\<lambda>_. 0) tys)" for s
    by (rule fst_for) (simp add: create_waiter_def on_env_def silent_fields py_defs)
  show ?thesis unfolding awaited_operation_def fst_bind [OF w]
    by (simp add: py_then_def sleep_def py_modify_def py_bind_def silent_operation assms)
qed

lemma silent_binary: "fst (binary_operation silent_api 4 4 c 30000 s) = Inr (''binary-status'', ResultTimeout 4000)"
proof -
  have "fst (one_remote_operation silent_api 4 4 ''binary-status'' (SendBinaryReq c) ws 30000 s) = Inr (''binary-status'', ResultTimeout 4000)" for ws s
    by (rule silent_operation) simp
  then show ?thesis
    by (auto simp: binary_operation_def create_waiter_def on_env_def silent_fields py_finally_def py_defs split: prod.splits sum.splits)
      (metis fst_conv sum.distinct(1) sum.inject(2))+
qed

lemma silent_target:
  "fst (check_target silent_api 4 4 (PyDict [(''adv_name'', PyStr ''Rep''), (''public_key'', PyStr ''0123456789abcdef'')]) 30000 s)
    = Inr (map (\<lambda>name. (name, ResultTimeout 4000)) [''login'', ''status'', ''telemetry'', ''path-discovery'', ''binary-status''])"
  unfolding check_target_def
  by (simp add: key_prefix_def py_item_def fst_bind [OF silent_awaited] fst_bind [OF silent_binary] fst_bind [of "py_lift _"]
      py_lift_def py_return_def)

lemma silent_run: "fst (remote_run prompt_host silent_api silent_args silent_start)
    = Inr [map (\<lambda>name. (name, ResultTimeout 4000)) [''login'', ''status'', ''telemetry'', ''path-discovery'', ''binary-status'']]"
proof -
  let ?c = "PyDict [(''adv_name'', PyStr ''Rep''), (''public_key'', PyStr ''0123456789abcdef'')]"
  have "fst (remote_select silent_api silent_args 5001 silent_start) = Inr (4, 4, [?c])"
    by (simp add: remote_select_def connect_def contact_values_def silent_api_def silent_args_def silent_select
        append_client_def call_def on_env_def require_event_def py_defs)
  note select = fst_bind [where m = "remote_select silent_api silent_args 5001" and s = silent_start, OF this]
  have "fst (remote_body prompt_host silent_api silent_args 5001 7 silent_start)
      = Inr [map (\<lambda>name. (name, ResultTimeout 4000)) [''login'', ''status'', ''telemetry'', ''path-discovery'', ''binary-status'']]"
    by (simp only: remote_body_def prompt_then select)
      (simp add: silent_args_def fst_bind [OF silent_target], simp add: py_bind_def py_return_def)
  then show ?thesis unfolding remote_run_def by (rule prompt_returns)
qed

theorem remote_single_attempts_witness:
  "\<exists>owner cs. kind_trace remote_kind (snd (remote_run prompt_host silent_api silent_args silent_start))
      = concat (map (target_plan owner 30000) cs)
     \<and> list_all2 (\<lambda>t c. has_name t c = Inr True) [''rep''] cs"
  using remote_single_attempts [of prompt_host silent_api silent_args silent_start] silent_run
  by (auto simp: silent_args_def silent_start_def kind_trace_def)

text \<open>How long the check waits for a missing result, compared with how long the mux keeps the
  lease: the next operation starts after the lease has expired exactly when the companion's
  suggested timeout is at least 3.2 seconds; below that the five-second floor of the mux outlasts
  the wait of the script, and the lease is still occupied.\<close>

theorem remote_wait_covers_lease:
  assumes "lease_accepted sent t0 l = (Inr (), l')"
  shows "fst (lease_occupied (t0 + milliseconds (result_limit (int (unat (u32_at sent 6))))) l')
    \<longleftrightarrow> unat (u32_at sent 6) < 3200"
proof -
  let ?t = "u32_at sent 6"
  let ?n = "int (unat ?t)"
  have len: "length sent = 10" and kind: "rl_kind l \<noteq> None"
    using assms by (auto simp: lease_accepted_def require_payload_def split: if_splits sum.splits)
  have l': "rl_deadline l' = Some (lease_deadline t0 ?t)" "rl_kind l' = rl_kind l"
    using assms sent_fields [OF len] by (auto simp: lease_accepted_def Let_def split: if_splits sum.splits)
  have "lease_deadline t0 ?t \<le> t0 + milliseconds (result_limit ?n) \<longleftrightarrow> \<not> ?n < 3200"
  proof -
    have "(5000 \<le> ?n * 5 div 4 + 1000) = (\<not> ?n < 3200)" by linarith
    then show ?thesis by (simp add: lease_deadline_def result_limit_def milliseconds_def Let_def max_def)
  qed
  moreover have "(?n < 3200) = (unat ?t < 3200)" by linarith
  ultimately have "lease_deadline t0 ?t \<le> t0 + milliseconds (result_limit ?n) \<longleftrightarrow> \<not> unat ?t < 3200" by simp
  with l' kind show ?thesis
    by (auto simp: lease_occupied_def lease_expire_def Let_def lease_clear_def)
qed

theorem remote_wait_covers_lease_witness:
  "fst (lease_occupied (milliseconds (result_limit 1000))
     (snd (lease_accepted [RESP_SENT, 0, 1, 0, 0, 0, 232, 3, 0, 0] 0
        (snd (lease_reserve 7 [CMD_SEND_STATUS_REQ, 5, 5, 5, 5, 5, 5, 5, 5, 5, 5, 5, 5, 5, 5, 5, 5, 5, 5, 5, 5, 5, 5, 5, 5, 5, 5, 5, 5, 5, 5, 5, 5] 0 lease_clear)))))"
proof -
  let ?sent = "[RESP_SENT, 0, 1, 0, 0, 0, 232, 3, 0, 0] :: bytes"
  let ?l = "snd (lease_reserve 7 [CMD_SEND_STATUS_REQ, 5, 5, 5, 5, 5, 5, 5, 5, 5, 5, 5, 5, 5, 5, 5, 5, 5, 5, 5, 5, 5, 5, 5, 5, 5, 5, 5, 5, 5, 5, 5, 5] 0 lease_clear)"
  have u: "unat (u32_at ?sent 6) = 1000" by code_simp
  have "fst (lease_accepted ?sent 0 ?l) = Inr ()" by code_simp
  then have "lease_accepted ?sent 0 ?l = (Inr (), snd (lease_accepted ?sent 0 ?l))" by (metis prod.collapse)
  from remote_wait_covers_lease [OF this] show ?thesis unfolding u by simp
qed

end
