(* ===== verification/Live_Signing.thy ===== *)
theory Live_Signing
  imports Mux_Process Leases
begin

text \<open>
  The signing check \<open>scripts/check_signing.py\<close>: the synthetic document and its chunks, the
  verification of the signature through OpenSSL, and the two-client conversation.

  OpenSSL is not part of the repository: \<open>openssl der document signature\<close> is the parameter that says
  whether \<open>openssl pkeyutl -verify\<close> accepts the three files. The supervision of the mux process is
  not modelled. \<open>bytes.fromhex\<close> is \<open>py_fromhex\<close>: pairs of hexadecimal digits, ASCII white space allowed
  between the pairs.
\<close>

section \<open>The document and the verification\<close>

definition SYNTHETIC_DOCUMENT :: bytes where
  "SYNTHETIC_DOCUMENT = ascii ''meshcore-tcp-mux signing check'' @ [0] @ ascii ''fixed non-secret payload'' @ [0x3C, 0x3E]"

definition signing_chunks :: "bytes list" where
  "signing_chunks = [take 11 SYNTHETIC_DOCUMENT, drop 11 (take 37 SYNTHETIC_DOCUMENT), drop 37 SYNTHETIC_DOCUMENT]"

definition hex_value :: "char \<Rightarrow> nat option" where
  "hex_value c = (case index_of c ''0123456789abcdef'' of
       Some n \<Rightarrow> Some n | None \<Rightarrow> map_option (\<lambda>n. n + 10) (index_of c ''ABCDEF''))"

definition py_space :: "char \<Rightarrow> bool" where
  "py_space c \<longleftrightarrow> c \<in> set [CHR '' '', CHR 0x09, CHR 0x0A, CHR 0x0B, CHR 0x0C, CHR 0x0D]"

fun py_fromhex :: "string \<Rightarrow> py_error + bytes" where
  "py_fromhex [] = Inr []"
| "py_fromhex [c] = (if py_space c then Inr [] else Inl (ValueError ''non-hexadecimal number found in fromhex() arg''))"
| "py_fromhex (c # d # rest) =
     (if py_space c then py_fromhex (d # rest)
      else case (hex_value c, hex_value d) of
          (Some hi, Some lo) \<Rightarrow> (case py_fromhex rest of Inl e \<Rightarrow> Inl e | Inr bs \<Rightarrow> Inr (of_nat (16 * hi + lo) # bs))
        | _ \<Rightarrow> Inl (ValueError ''non-hexadecimal number found in fromhex() arg''))"

definition SPKI_PREFIX :: bytes where
  "SPKI_PREFIX = [0x30, 0x2A, 0x30, 0x05, 0x06, 0x03, 0x2B, 0x65, 0x70, 0x03, 0x21, 0x00]"

definition verify_ed25519 :: "(bytes \<Rightarrow> bytes \<Rightarrow> bytes \<Rightarrow> bool) \<Rightarrow> bytes \<Rightarrow> bytes \<Rightarrow> bytes \<Rightarrow> py_error + unit" where
  "verify_ed25519 openssl key document signature =
     (if length key \<noteq> 32 then Inl (AssertionError ''expected a 32-byte public key'')
      else if length signature \<noteq> 64 then Inl (AssertionError ''expected a 64-byte signature'')
      else let public_key_der = SPKI_PREFIX @ key in
        if \<not> openssl public_key_der document signature
        then Inl (AssertionError ''OpenSSL rejected the companion signature'') else Inr ())"

section \<open>The conversation\<close>

definition sign_data :: "'w mesh_api \<Rightarrow> nat \<Rightarrow> bytes \<Rightarrow> ('w live, unit) py" where
  "sign_data api client chunk =
     py_bind (call api client (RawCommand (0x22 # chunk))) (\<lambda>e.
     py_bind (require_event e OK) (\<lambda>_. py_return ()))"

text \<open>\<open>maximum\<close> must be an integer that covers the document.\<close>

definition announced_limit :: "event \<Rightarrow> py_error + int" where
  "announced_limit started = (case py_dict_get (ev_payload started) ''max_length'' of
       Inl e \<Rightarrow> Inl e
     | Inr (PyInt maximum) \<Rightarrow>
         if maximum < int (length SYNTHETIC_DOCUMENT) then Inl (AssertionError ''signing limit is smaller than the test document'')
         else Inr maximum
     | Inr _ \<Rightarrow> Inl (AssertionError ''signing limit is smaller than the test document''))"

definition require_denied :: "event option \<Rightarrow> ('w, unit) py" where
  "require_denied denied = (case denied of
       None \<Rightarrow> py_raise (ClientError ''no event'')
     | Some e \<Rightarrow> if ev_type e \<noteq> ERROR then py_raise (AssertionError ''a competing SIGN_START was not rejected'')
         else py_return ())"

definition signature_of :: "event \<Rightarrow> py_error + bytes" where
  "signature_of finished = (case py_dict_get (ev_payload finished) ''signature'' of
       Inl e \<Rightarrow> Inl e
     | Inr (PyBytes b) \<Rightarrow> Inr b
     | Inr _ \<Rightarrow> Inl (AssertionError ''SIGN_FINISH did not return byte signature material''))"

record signing_report =
  sr_maximum :: int
  sr_chunks :: nat
  sr_signature :: bytes
  sr_key :: bytes

definition signing_dialogue :: "'w mesh_api \<Rightarrow> (bytes \<Rightarrow> bytes \<Rightarrow> bytes \<Rightarrow> bool) \<Rightarrow> int \<Rightarrow> nat \<Rightarrow> nat \<Rightarrow> ('w live, signing_report) py" where
  "signing_dialogue api openssl timeout owner competitor =
     py_bind (call api owner SignStart) (\<lambda>e.
     py_bind (require_event e SIGN_START) (\<lambda>started.
     py_bind (py_lift (announced_limit started)) (\<lambda>maximum.
     py_bind (call api competitor SignStart) (\<lambda>denied.
     py_then (require_denied denied)
     (py_bind (call api competitor GetTime) (\<lambda>e.
      py_bind (require_event e CURRENT_TIME) (\<lambda>_.
      py_then (py_for signing_chunks (sign_data api owner))
      (py_bind (call api owner (SignFinish timeout (length SYNTHETIC_DOCUMENT))) (\<lambda>e.
       py_bind (require_event e SIGNATURE) (\<lambda>finished.
       py_bind (py_lift (signature_of finished)) (\<lambda>signature.
       py_bind (public_key api owner) (\<lambda>key.
       py_bind (py_lift (py_fromhex key)) (\<lambda>raw.
       py_then (py_lift (verify_ed25519 openssl raw SYNTHETIC_DOCUMENT signature))
       (py_return \<lparr>sr_maximum = maximum, sr_chunks = length signing_chunks, sr_signature = signature,
          sr_key = raw\<rparr>))))))))))))))"

definition signing_connect :: "'w mesh_api \<Rightarrow> int \<Rightarrow> int \<Rightarrow> ('w live, nat \<times> nat) py" where
  "signing_connect api port timeout =
     py_bind (py_gather [connect api ''127.0.0.1'' port timeout, connect api ''127.0.0.1'' port timeout]) (\<lambda>pair.
     py_then (append_client (pair ! 0)) (py_then (append_client (pair ! 1))
     (py_bind (public_key api (pair ! 0)) (\<lambda>k1. py_bind (public_key api (pair ! 1)) (\<lambda>k2.
      if k1 \<noteq> k2 then py_raise (AssertionError ''clients observed different companion identities'')
      else py_return (pair ! 0, pair ! 1))))))"

record signing_args =
  sg_binary :: string
  sg_physical_host :: string
  sg_physical_port :: nat
  sg_timeout :: int

definition signing_body :: "'w mux_host \<Rightarrow> 'w mesh_api \<Rightarrow> (bytes \<Rightarrow> bytes \<Rightarrow> bytes \<Rightarrow> bool) \<Rightarrow> signing_args \<Rightarrow> int \<Rightarrow> nat \<Rightarrow> ('w live, signing_report) py" where
  "signing_body host api openssl args listen_port process =
     py_bind (py_then (wait_ready host process 0 (sg_timeout args)) (signing_connect api listen_port (sg_timeout args)))
       (\<lambda>(owner, competitor). signing_dialogue api openssl (sg_timeout args) owner competitor)"

definition signing_run :: "'w mux_host \<Rightarrow> 'w mesh_api \<Rightarrow> (bytes \<Rightarrow> bytes \<Rightarrow> bytes \<Rightarrow> bool) \<Rightarrow> signing_args \<Rightarrow> ('w live, signing_report) py" where
  "signing_run host api openssl args = mux_session host api (sg_binary args) (py_return ())
     (prepare_direct host (sg_binary args) (sg_physical_host args) (sg_physical_port args)) (signing_body host api openssl args)"

section \<open>Lemmas\<close>

fun signing_kind :: "nat \<times> request \<Rightarrow> bool" where
  "signing_kind (c, SignStart) = True"
| "signing_kind (c, RawCommand bs) = True"
| "signing_kind (c, SignFinish t n) = True"
| "signing_kind (c, other) = False"

definition signing_plan :: "int \<Rightarrow> nat \<Rightarrow> nat \<Rightarrow> (nat \<times> request) list" where
  "signing_plan timeout owner competitor = [(owner, SignStart), (competitor, SignStart)]
     @ map (\<lambda>chunk. (owner, RawCommand (0x22 # chunk))) signing_chunks
     @ [(owner, SignFinish timeout (length SYNTHETIC_DOCUMENT))]"

lemma chunks_document: "concat signing_chunks = SYNTHETIC_DOCUMENT"
proof -
  have "drop 11 (take 37 SYNTHETIC_DOCUMENT) @ drop 37 SYNTHETIC_DOCUMENT = drop 11 SYNTHETIC_DOCUMENT"
    by (simp add: SYNTHETIC_DOCUMENT_def ascii_def)
  then show ?thesis by (simp add: signing_chunks_def)
qed

lemma document_length: "length SYNTHETIC_DOCUMENT = 57" "map length signing_chunks = [11, 26, 20]"
  by (simp_all add: SYNTHETIC_DOCUMENT_def signing_chunks_def ascii_def)

lemma quiet_require_denied [trace_rules]: "quiet K (require_denied d)"
  unfolding require_denied_def by (intro trace_rules)

lemma traces_sign_data: "traces signing_kind [(c, RawCommand (0x22 # chunk))] (sign_data api c chunk)"
  unfolding sign_data_def by (intro call_bind trace_rules) simp

lemma traces_dialogue: "traces signing_kind (signing_plan timeout owner competitor) (signing_dialogue api openssl timeout owner competitor)"
proof -
  have "traces signing_kind (concat (map (\<lambda>chunk. [(owner, RawCommand (0x22 # chunk))]) signing_chunks))
      (py_for signing_chunks (sign_data api owner))"
    by (intro traces_for traces_sign_data)
  then have chunks: "traces signing_kind (map (\<lambda>chunk. (owner, RawCommand (0x22 # chunk))) signing_chunks)
      (py_for signing_chunks (sign_data api owner))"
    by (simp add: concat_map_singleton)
  have time: "quiet signing_kind (call api competitor GetTime)" by (rule quiet_call) simp
  show ?thesis unfolding signing_dialogue_def signing_plan_def append_Cons append_Nil
    by (intro call_bind quiet_bind quiet_then quiet_require_event quiet_lift quiet_require_denied time
        traces_then [OF chunks] quiet_public_key quiet_return) simp_all
qed

lemma quiet_signing_connect: "quiet K (signing_connect api port timeout)"
  unfolding signing_connect_def by (intro trace_rules) (simp add: quiet_connect)

section \<open>The same conversation on the mux's signing lease\<close>

text \<open>Chunks of one owner with their times, each acknowledged by the companion before the next.\<close>

fun feed_chunks :: "int \<Rightarrow> (bytes \<times> span) list \<Rightarrow> signing_lease \<Rightarrow> (mux_error + admission) list \<times> signing_lease" where
  "feed_chunks owner [] s = ([], s)"
| "feed_chunks owner ((chunk, t) # rest) s = (case begin_data owner (CMD_SIGN_DATA # chunk) t s of
     (r, s1) \<Rightarrow> if r = Inr Allowed
       then (case feed_chunks owner rest (snd (data_response [RESP_OK] t s1)) of (rs, s2) \<Rightarrow> (r # rs, s2))
       else ([r], s1))"

definition signing_session :: "int \<Rightarrow> nat \<Rightarrow> nat \<Rightarrow> span \<Rightarrow> signing_lease \<Rightarrow> bool" where
  "signing_session owner maximum taken since s \<longleftrightarrow> sl_owner s = Some owner \<and> \<not> sl_tentative s
     \<and> sl_limit s = Some maximum \<and> sl_pending_data s = None \<and> \<not> sl_finish_pending s
     \<and> sl_accepted s = taken \<and> sl_timeout s = INACTIVITY_TIMEOUT
     \<and> (\<exists>t. sl_last_activity s = Some t \<and> since \<le> t)"

lemma session_alive:
  "signing_session owner maximum taken since s \<Longrightarrow> t < since + INACTIVITY_TIMEOUT \<Longrightarrow> signing_expire t s = s"
  by (auto simp: signing_session_def signing_expire_def)

lemma feed_chunk_admitted:
  assumes "signing_session owner maximum taken since s" "chunk \<noteq> []" "taken + length chunk \<le> maximum"
    "since \<le> t" "t < since + INACTIVITY_TIMEOUT"
  shows "\<exists>s1. begin_data owner (CMD_SIGN_DATA # chunk) t s = (Inr Allowed, s1)
    \<and> signing_session owner maximum (taken + length chunk) since (snd (data_response [RESP_OK] t s1))"
proof -
  have "signing_expire t s = s" using session_alive [OF assms(1,5)] .
  moreover have "2 \<le> length (CMD_SIGN_DATA # chunk)" using assms(2) by (cases chunk) simp_all
  ultimately show ?thesis using assms
    by (auto simp: begin_data_def Let_def usable_by_def signing_session_def data_response_def validate_ok_or_err_def)
qed

lemma feed_chunks_admitted:
  assumes "signing_session owner maximum taken since s"
    "list_all (\<lambda>(chunk, t). chunk \<noteq> [] \<and> since \<le> t \<and> t < since + INACTIVITY_TIMEOUT) cts"
    "taken + length (concat (map fst cts)) \<le> maximum"
  shows "\<exists>s'. feed_chunks owner cts s = (replicate (length cts) (Inr Allowed), s')
    \<and> signing_session owner maximum (taken + length (concat (map fst cts))) since s'"
  using assms
proof (induction cts arbitrary: s taken)
  case (Cons ct cts)
  obtain chunk t where ct: "ct = (chunk, t)" by (cases ct)
  from feed_chunk_admitted [OF Cons.prems(1), of chunk t] Cons.prems(2,3) obtain s1 where
    s1: "begin_data owner (CMD_SIGN_DATA # chunk) t s = (Inr Allowed, s1)"
      "signing_session owner maximum (taken + length chunk) since (snd (data_response [RESP_OK] t s1))"
    unfolding ct by auto
  from Cons.IH [OF s1(2)] Cons.prems(2,3) obtain s' where
    "feed_chunks owner cts (snd (data_response [RESP_OK] t s1)) = (replicate (length cts) (Inr Allowed), s')"
      "signing_session owner maximum (taken + length chunk + length (concat (map fst cts))) since s'"
    unfolding ct by (auto simp: add.assoc)
  with s1(1) show ?case unfolding ct by (auto simp: add.assoc)
qed auto

section \<open>Properties\<close>


text \<open>A companion with a fixed signature, and a verifier that accepts it.\<close>

fun signer_reply :: "request \<Rightarrow> nat \<Rightarrow> event" where
  "signer_reply SignStart starts = (if starts = 0
     then \<lparr>ev_type = SIGN_START, ev_payload = PyDict [(''max_length'', PyInt 4096)]\<rparr>
     else \<lparr>ev_type = ERROR, ev_payload = PyDict []\<rparr>)"
| "signer_reply (RawCommand bs) starts = \<lparr>ev_type = OK, ev_payload = PyDict []\<rparr>"
| "signer_reply (SignFinish t n) starts = \<lparr>ev_type = SIGNATURE, ev_payload = PyDict [(''signature'', PyBytes (replicate 64 9))]\<rparr>"
| "signer_reply other starts = \<lparr>ev_type = CURRENT_TIME, ev_payload = PyDict []\<rparr>"

definition signer_api :: "nat mesh_api" where
  "signer_api = \<lparr>create_tcp = \<lambda>host port timeout. py_return (Some 4), self_info_key = \<lambda>c w. Some (replicate 64 CHR ''0''),
     is_connected = \<lambda>c w. True,
     client_call = \<lambda>c r w. (Inr (Some (signer_reply r w)), if r = SignStart then w + 1 else w),
     client_disconnect = \<lambda>c. py_return (), delivered_acks = \<lambda>t. py_return [],
     wait_disconnected = \<lambda>c t. py_return (), register_waiter = \<lambda>c ty fs t. py_return 0,
     wait_first = \<lambda>ws t. py_return ([], ws), cancel_waiters = \<lambda>ws. py_return (), loop_time = \<lambda>w. 0, loop_sleep = \<lambda>ms w. w\<rparr>"

definition signer_start :: "nat live" where
  "signer_start = \<lparr>env = 0, active_clients = [], send_limit = 0, send_used = 0, marker_sequence = 0,
     ack_queues = [], opened = [], disconnected = [], issued = []\<rparr>"

lemma fromhex_zeros: "py_fromhex (replicate (2 * n) CHR ''0'') = Inr (replicate n 0)"
proof (induction n)
  case (Suc n)
  have "index_of CHR ''0'' ''0123456789abcdef'' = Some 0" by (simp add: index_of_def)
  with Suc show ?case by (simp add: py_space_def hex_value_def)
qed simp

definition signer_args :: signing_args where
  "signer_args = \<lparr>sg_binary = ''mux'', sg_physical_host = ''10.0.0.2'', sg_physical_port = 5000, sg_timeout = 15000\<rparr>"

lemma signer_run: "\<exists>report. fst (signing_run prompt_host signer_api (\<lambda>der doc sig. True) signer_args signer_start) = Inr report"
proof -
  have key: "py_fromhex (replicate 64 CHR ''0'') = Inr (replicate 32 0)"
    using fromhex_zeros [of 32] by simp
  have "\<exists>report. fst (signing_body prompt_host signer_api (\<lambda>der doc sig. True) signer_args 5001 7 signer_start) = Inr report"
    unfolding signing_body_def prompt_then
    by (simp add: signing_connect_def signing_dialogue_def connect_def signer_api_def signer_start_def signer_args_def public_key_def
        append_client_def call_def on_env_def require_event_def require_denied_def announced_limit_def signature_of_def
        sign_data_def py_dict_get_def verify_ed25519_def key signing_chunks_def document_length Let_def
        py_bind_def py_then_def py_return_def py_modify_def py_get_def py_lift_def py_raise_def)
  then show ?thesis unfolding signing_run_def by (blast intro: prompt_returns)
qed


text \<open>C35. The conversation of the signing check is one the mux admits: when a companion grants a limit
  that covers the document and every step follows within the inactivity timeout, the lease accepts
  the owner's start, refuses the competitor's, admits each chunk and the finish, and is free again
  after the signature.\<close>

theorem signing_check_admitted:
  fixes limit :: u32
  assumes "owner \<noteq> competitor" "length SYNTHETIC_DOCUMENT \<le> unat limit"
    "t0 \<le> t1" "t1 \<le> t2" "t2 \<le> tf" "tf < t1 + INACTIVITY_TIMEOUT" "t1 < t0 + INACTIVITY_TIMEOUT"
    "length ts = 3" "list_all (\<lambda>t. t1 \<le> t \<and> t < t1 + INACTIVITY_TIMEOUT) ts"
    "start = RESP_SIGN_START # 0 # le_bytes 4 (unat limit)" "length signature = 65" "signature ! 0 = RESP_SIGNATURE"
  shows "\<exists>s1 s2 s3 s4 s5. signing_start owner [CMD_SIGN_START] t0 (new_signing INACTIVITY_TIMEOUT) = (Inr True, s1)
    \<and> accepted_start start t1 s1 = (Inr (), s2)
    \<and> signing_start competitor [CMD_SIGN_START] t2 s2 = (Inr False, s2)
    \<and> feed_chunks owner (zip signing_chunks ts) s2 = (replicate 3 (Inr Allowed), s3) \<and> sl_accepted s3 = length SYNTHETIC_DOCUMENT
    \<and> begin_finish owner [CMD_SIGN_FINISH] tf s3 = (Inr Allowed, s4)
    \<and> finish_response signature tf s4 = (Inr (), s5) \<and> sl_owner s5 = None"
proof -
  let ?s1 = "snd (signing_start owner [CMD_SIGN_START] t0 (new_signing INACTIVITY_TIMEOUT))"
  let ?s2 = "?s1\<lparr>sl_limit := Some (unat limit), sl_tentative := False, sl_last_activity := Some t1\<rparr>"
  have s1: "signing_start owner [CMD_SIGN_START] t0 (new_signing INACTIVITY_TIMEOUT) = (Inr True, ?s1)"
    by (simp add: signing_start_def require_command_def new_signing_def signing_expire_def Let_def)
  have lt: "unat limit < 4294967296" using unsigned_less [of limit] by simp
  have "u32_at start 2 = limit"
    using unat_u32_at [of 2 start] lt assms(10) by (simp add: word_unat_eq_iff)
  then have "lease_read_u32 start 2 = Inr limit" using assms(10) by (simp add: lease_read_u32_def)
  then have s2: "accepted_start start t1 ?s1 = (Inr (), ?s2)"
    using assms(10) by (simp add: accepted_start_def require_payload_def signing_start_def require_command_def
        new_signing_def signing_expire_def Let_def)
  have sess: "signing_session owner (unat limit) 0 t1 ?s2"
    by (simp add: signing_session_def signing_start_def require_command_def new_signing_def signing_expire_def Let_def)
  have refused: "signing_start competitor [CMD_SIGN_START] t2 ?s2 = (Inr False, ?s2)"
    using session_alive [OF sess, of t2] sess assms(1,5,6)
    by (simp add: signing_start_def [of competitor] require_command_def Let_def signing_session_def)
  obtain ta tb tc where ts: "ts = [ta, tb, tc]" using assms(8) by (auto simp: numeral_3_eq_3 length_Suc_conv)
  have "list_all (\<lambda>(chunk, t). chunk \<noteq> [] \<and> t1 \<le> t \<and> t < t1 + INACTIVITY_TIMEOUT) (zip signing_chunks ts)"
    using assms(9) document_length(2) by (auto simp: signing_chunks_def ts)
  moreover have fst_zip: "map fst (zip signing_chunks ts) = signing_chunks"
    by (simp add: signing_chunks_def ts)
  moreover have "length (zip signing_chunks ts) = 3" by (simp add: signing_chunks_def ts)
  ultimately obtain s3 where s3: "feed_chunks owner (zip signing_chunks ts) ?s2 = (replicate 3 (Inr Allowed), s3)"
      "signing_session owner (unat limit) (length SYNTHETIC_DOCUMENT) t1 s3"
    using feed_chunks_admitted [OF sess, of "zip signing_chunks ts"] assms(2) chunks_document by auto
  let ?s4 = "s3\<lparr>sl_finish_pending := True, sl_last_activity := Some tf\<rparr>"
  have s4: "begin_finish owner [CMD_SIGN_FINISH] tf s3 = (Inr Allowed, ?s4)"
    using session_alive [OF s3(2), of tf] s3(2) assms(6)
    by (auto simp: begin_finish_def require_command_def Let_def usable_by_def signing_session_def)
  have "finish_response signature tf ?s4 = (Inr (), signing_clear ?s4)"
    using assms(11,12) by (cases signature) (auto simp: finish_response_def first_is_def require_payload_def)
  with s1 s2 refused s3 s4 show ?thesis
    by (intro exI [of _ ?s1] exI [of _ ?s2] exI [of _ s3] exI [of _ ?s4] exI [of _ "signing_clear ?s4"])
      (simp add: signing_session_def signing_clear_def)
qed

theorem signing_check_admitted_witness:
  "\<exists>s1 s2. signing_start 3 [CMD_SIGN_START] 0 (new_signing INACTIVITY_TIMEOUT) = (Inr True, s1)
     \<and> accepted_start [RESP_SIGN_START, 0, 0, 16, 0, 0] 1 s1 = (Inr (), s2)
     \<and> signing_start 4 [CMD_SIGN_START] 2 s2 = (Inr False, s2)
     \<and> fst (feed_chunks 3 (zip signing_chunks [3, 4, 5]) s2) = [Inr Allowed, Inr Allowed, Inr Allowed]"
proof -
  have "[RESP_SIGN_START, 0, 0, 16, 0, 0] = RESP_SIGN_START # 0 # le_bytes 4 (unat (4096 :: u32))"
    by (simp add: le_bytes_4)
  moreover have "length (RESP_SIGNATURE # replicate 64 (9 :: byte)) = 65" "(RESP_SIGNATURE # replicate 64 (9 :: byte)) ! 0 = RESP_SIGNATURE" by simp_all
  ultimately show ?thesis
    using signing_check_admitted [of 3 4 "4096 :: u32" 0 1 2 6 "[3, 4, 5]" "[RESP_SIGN_START, 0, 0, 16, 0, 0]" "RESP_SIGNATURE # replicate 64 9"]
    by (simp add: document_length seconds_def numeral_3_eq_3) (metis fst_conv)
qed

text \<open>The key file handed to OpenSSL is a well-formed \<open>SubjectPublicKeyInfo\<close>: an outer sequence of
  42 bytes that holds the algorithm sequence with the identifier 1.3.101.112 and nothing else, and a
  bit string without unused bits whose content is exactly the raw key.\<close>

definition der_element :: "byte \<Rightarrow> bytes \<Rightarrow> (bytes \<times> bytes) option" where
  "der_element tag bs = (case bs of t # n # rest \<Rightarrow>
       if t = tag \<and> n < 0x80 \<and> unat n \<le> length rest then Some (take (unat n) rest, drop (unat n) rest) else None
     | _ \<Rightarrow> None)"

theorem spki_well_formed:
  assumes "length key = 32"
  shows "\<exists>info algorithm bits. der_element 0x30 (SPKI_PREFIX @ key) = Some (info, [])
    \<and> der_element 0x30 info = Some (algorithm, 3 # 33 # bits)
    \<and> der_element 0x06 algorithm = Some ([40 * 1 + 3, 101, 112], [])
    \<and> der_element 0x03 (3 # 33 # bits) = Some (0 # key, [])"
  using assms by (simp add: der_element_def SPKI_PREFIX_def)

theorem spki_well_formed_witness:
  "\<exists>info. der_element 0x30 (SPKI_PREFIX @ replicate 32 7) = Some (info, [])"
  using spki_well_formed [of "replicate 32 7"] by auto

lemma index_of_nth:
  assumes "distinct xs" "n < length xs"
  shows "index_of (xs ! n) xs = Some n"
proof -
  have xs: "xs = take n xs @ xs ! n # drop (Suc n) xs" using assms(2) by (rule id_take_nth_drop)
  have "xs ! n \<notin> set (take n xs)" using assms
    by (metis distinct_append id_take_nth_drop disjoint_iff list.set_intros(1))
  then have "takeWhile (\<lambda>y. y \<noteq> xs ! n) (take n xs @ xs ! n # drop (Suc n) xs) = take n xs"
    by (subst takeWhile_append2) auto
  then show ?thesis using assms(2) xs by (simp add: index_of_def)
qed

lemma hex_value_digit:
  assumes "n < 16"
  shows "hex_value (hex_digit n) = Some n \<and> \<not> py_space (hex_digit n)"
proof -
  have "index_of (''0123456789abcdef'' ! n) ''0123456789abcdef'' = Some n" using assms by (intro index_of_nth) simp_all
  moreover have "''0123456789abcdef'' ! n \<in> set ''0123456789abcdef''" using assms by (intro nth_mem) simp
  then have "\<not> py_space (''0123456789abcdef'' ! n)" by (auto simp: py_space_def)
  ultimately show ?thesis by (simp add: hex_value_def hex_digit_def)
qed

text \<open>\<open>bytes.fromhex\<close> reads back the hexadecimal rendering of any bytes, so the raw key that is
  verified is the identity the client library reports.\<close>

theorem fromhex_hex: "py_fromhex (hex bs) = Inr bs"
proof (induction bs)
  case (Cons b bs)
  have "unat b < 256" by (rule unat_byte_less)
  then have "unat b div 16 < 16" "unat b mod 16 < 16" by auto
  moreover have "of_nat (16 * (unat b div 16) + unat b mod 16) = b" by simp
  ultimately show ?case using Cons hex_value_digit by (simp add: hex_def)
qed (simp add: hex_def)

end
