(* ===== verification/Relay_Session.thy ===== *)
theory Relay_Session
  imports Mux_Process Frame_Relay
begin

text \<open>
  The frame relay as a part of a running script (\<open>check_scope.py\<close>, \<open>check_live_reconnect.py\<close>,
  \<open>check_live_pair.py\<close>): the relay's state lives in the environment, where its own tasks change it
  whenever the event loop runs. \<open>relay_view\<close> gives access to it: reading and writing the state,
  starting the server (which yields the port the mux connects to) and letting the loop run until a
  condition on the relay holds or the limit of a \<open>wait_for\<close> is over.
\<close>

section \<open>The code\<close>

record 'w relay_view =
  relay_of :: "'w \<Rightarrow> relay"
  set_relay :: "relay \<Rightarrow> 'w \<Rightarrow> 'w"
  relay_start :: "('w, nat) py"
  loop_until :: "(relay \<Rightarrow> bool) \<Rightarrow> int \<Rightarrow> ('w, unit) py"

definition relay_op :: "'w relay_view \<Rightarrow> (relay, 'a) py \<Rightarrow> ('w, 'a) py" where
  "relay_op view m w = (case m (relay_of view w) of (r, relay) \<Rightarrow> (r, set_relay view relay w))"

definition await_relay :: "'w relay_view \<Rightarrow> (relay \<Rightarrow> bool) \<Rightarrow> int \<Rightarrow> (relay, 'a) py \<Rightarrow> ('w, 'a) py" where
  "await_relay view cond timeout m = py_then (loop_until view cond timeout) (relay_op view m)"

definition expect_connection :: "'w relay_view \<Rightarrow> nat \<Rightarrow> ('w live, unit) py" where
  "expect_connection view expected =
     on_env (await_relay view (\<lambda>r. connections r \<noteq> []) 8000 (expect_generation expected))"

text \<open>\<open>expect_generation\<close> on the readiness queue, of which \<open>taken\<close> entries have been read.\<close>

definition expect_ready :: "'w mux_host \<Rightarrow> nat \<Rightarrow> nat \<Rightarrow> nat \<Rightarrow> ('w live, unit) py" where
  "expect_ready host process taken expected =
     py_bind (wait_ready host process taken 8000) (\<lambda>observed.
     py_assert (observed = expected) ''expected generation'')"

definition close_relay :: "'w relay_view \<Rightarrow> ('w, unit) py" where
  "close_relay view = relay_op view (\<lambda>r. (Inr (), relay_close r))"

text \<open>Starting the relay and launching the mux behind it.\<close>

definition prepare_relayed :: "'w mux_host \<Rightarrow> 'w relay_view \<Rightarrow> string \<Rightarrow> string list \<Rightarrow> ('w live, string list \<times> int) py" where
  "prepare_relayed host view binary options =
     py_bind (on_env (relay_start view)) (\<lambda>relay_port.
     py_bind (on_env (reserve_port host)) (\<lambda>listen_port.
     py_return (mux_arguments binary ''127.0.0.1'' relay_port listen_port @ options, listen_port)))"

section \<open>Lemmas\<close>

lemma quiet_expect_connection [trace_rules]: "quiet K (expect_connection view expected)"
  unfolding expect_connection_def by (rule quiet_on_env)

lemma quiet_expect_ready [trace_rules]: "quiet K (expect_ready host p taken expected)"
  unfolding expect_ready_def by (intro trace_rules)

lemma quiet_prepare_relayed [trace_rules]: "quiet K (prepare_relayed host view binary options)"
  unfolding prepare_relayed_def by (intro trace_rules)

end
