(* ===== verification/Live_Scope.thy ===== *)
theory Live_Scope
  imports Live_Remote Relay_Session
begin

text \<open>
  The temporary-scope check \<open>scripts/check_scope.py\<close>: one scoped status request through the frame
  relay, and the check of the physical command order in the relay's history.

  The relay runs beside the script, in the environment, and is read through a \<open>relay_view\<close>.
\<close>

section \<open>The code\<close>

record scope_args =
  sc_binary :: string
  sc_target :: string
  sc_mode :: string
  sc_timeout :: int

text \<open>\<open>list(relay.frame_history)[history_start:]\<close>.\<close>

definition frames_since :: "nat \<Rightarrow> relay \<Rightarrow> relay_frame list" where
  "frames_since history_start r = drop history_start (frame_history r)"

definition leaked_early :: "relay_frame list \<Rightarrow> bool" where
  "leaked_early frames \<longleftrightarrow> (\<exists>f \<in> set frames. rf_direction f = CommandDir \<and> rf_opcode f = 0x36)"

definition scoped_commands :: "relay_frame list \<Rightarrow> relay_frame list" where
  "scoped_commands frames = filter (\<lambda>f. rf_direction f = CommandDir \<and> rf_opcode f \<in> {0x36, 0x1B, 0x05}) frames"

definition check_order :: "nat \<Rightarrow> relay_frame list \<Rightarrow> py_error + nat list" where
  "check_order setup_payload_bytes frames = (let commands = scoped_commands frames in
     if map rf_opcode commands \<noteq> [0x36, 0x1B, 0x36, 0x05] then Inl (AssertionError ''unexpected scoped command sequence'')
     else if map rf_bytes commands \<noteq> [setup_payload_bytes + 3, 33 + 3, 2 + 3, 1 + 3]
     then Inl (AssertionError ''unexpected scoped frame lengths'')
     else Inr (map rf_bytes commands))"

definition select_scope :: "'w mesh_api \<Rightarrow> nat \<Rightarrow> string \<Rightarrow> ('w live, nat) py" where
  "select_scope api owner mode =
     (if mode = ''test'' then py_bind (call api owner (SetFloodScope ''TEST'')) (\<lambda>e.
        py_bind (require_event e OK) (\<lambda>_. py_return 18))
      else if mode = ''unscoped'' then py_bind (call api owner ForceUnscoped) (\<lambda>e.
        py_bind (require_event e OK) (\<lambda>_. py_return 2))
      else py_raise (AssertionError ''unknown scope mode''))"

definition scope_dialogue :: "'w mesh_api \<Rightarrow> 'w relay_view \<Rightarrow> scope_args \<Rightarrow> nat \<Rightarrow> nat \<Rightarrow> pyval \<Rightarrow> pyval \<Rightarrow> ('w live, (string \<times> op_outcome) \<times> nat list) py" where
  "scope_dialogue api view args owner observer contact p =
     py_bind (py_get (\<lambda>s. length (frame_history (relay_of view (env s))))) (\<lambda>history_start.
     py_bind (select_scope api owner (sc_mode args)) (\<lambda>setup_payload_bytes.
     py_bind (py_get (\<lambda>s. frames_since history_start (relay_of view (env s)))) (\<lambda>before_send.
     if leaked_early before_send then py_raise (AssertionError ''virtual scope selection leaked upstream early'')
     else py_bind (awaited_operation api owner observer (sc_mode args @ ''-scope-status'') [STATUS_RESPONSE]
            [(''pubkey_prefix'', p)] (SendStatusReq contact) (sc_timeout args)) (\<lambda>operation.
          py_bind (call api owner ResetFloodScope) (\<lambda>e.
          py_bind (require_event e OK) (\<lambda>_.
          py_bind (py_get (\<lambda>s. frames_since history_start (relay_of view (env s)))) (\<lambda>frames.
          py_bind (py_lift (check_order setup_payload_bytes frames)) (\<lambda>sizes.
          py_return (operation, sizes)))))))))"

definition scope_select :: "'w mesh_api \<Rightarrow> scope_args \<Rightarrow> int \<Rightarrow> ('w live, nat \<times> nat \<times> pyval \<times> pyval) py" where
  "scope_select api args listen_port =
     py_bind (py_gather [connect api ''127.0.0.1'' listen_port (sc_timeout args),
                         connect api ''127.0.0.1'' listen_port (sc_timeout args)]) (\<lambda>pair.
     py_then (append_client (pair ! 0)) (py_then (append_client (pair ! 1))
     (py_bind (contact_values api (pair ! 0) (sc_timeout args)) (\<lambda>contacts.
      py_bind (py_lift (select_target contacts (sc_target args))) (\<lambda>contact.
      py_bind (py_lift (key_prefix contact)) (\<lambda>p.
      py_return (pair ! 0, pair ! 1, contact, p)))))))"

definition scope_ready :: "'w mux_host \<Rightarrow> 'w mesh_api \<Rightarrow> 'w relay_view \<Rightarrow> scope_args \<Rightarrow> int \<Rightarrow> nat \<Rightarrow> ('w live, nat \<times> nat \<times> pyval \<times> pyval) py" where
  "scope_ready host api view args listen_port process =
     py_then (expect_connection view 1)
     (py_then (wait_ready host process 0 (sc_timeout args)) (scope_select api args listen_port))"

definition scope_run :: "'w mux_host \<Rightarrow> 'w mesh_api \<Rightarrow> 'w relay_view \<Rightarrow> scope_args \<Rightarrow> ('w live, (string \<times> op_outcome) \<times> nat list) py" where
  "scope_run host api view args = mux_session host api (sc_binary args) (close_relay view)
     (prepare_relayed host view (sc_binary args) [])
     (\<lambda>listen_port process. py_bind (scope_ready host api view args listen_port process)
        (\<lambda>(owner, observer, contact, p). scope_dialogue api view args owner observer contact p))"

section \<open>Lemmas\<close>

lemma history_recorded: "frame_history (fold record_frame fs r) = keep_last HISTORY_LIMIT (frame_history r @ fs)"
  if "length (frame_history r) \<le> HISTORY_LIMIT"
  using that
proof (induction fs arbitrary: r)
  case Nil
  then show ?case by (simp add: keep_last_def)
next
  case (Cons f fs)
  have h: "frame_history (record_frame f r) = keep_last HISTORY_LIMIT (frame_history r @ [f])"
    by (simp add: record_frame_def Let_def)
  then have "length (frame_history (record_frame f r)) \<le> HISTORY_LIMIT" by (simp add: keep_last_def)
  from Cons.IH [OF this] show ?case by (simp add: h keep_last_keep_last)
qed

fun scope_kind :: "nat \<times> request \<Rightarrow> bool" where
  "scope_kind (c, SetFloodScope s) = True"
| "scope_kind (c, ForceUnscoped) = True"
| "scope_kind (c, ResetFloodScope) = True"
| "scope_kind (c, req) = is_radio_send req"

definition scope_plan :: "scope_args \<Rightarrow> nat \<Rightarrow> pyval \<Rightarrow> (nat \<times> request) list" where
  "scope_plan args owner contact = [(owner, if sc_mode args = ''test'' then SetFloodScope ''TEST'' else ForceUnscoped),
     (owner, SendStatusReq contact), (owner, ResetFloodScope)]"

lemma quiet_create_waiter: "quiet scope_kind (create_waiter api c ty filters timeout)"
  by (rule tracesI) (auto simp: create_waiter_def on_env_def py_defs kind_trace_def split: prod.splits)

lemma traces_scope_operation:
  "traces scope_kind [(owner, SendStatusReq contact)]
     (awaited_operation api owner observer name tys filters (SendStatusReq contact) timeout)"
proof -
  have time: "quiet scope_kind (call api observer GetTime)" by (rule quiet_call) simp
  have result: "quiet scope_kind (await_result api observer waiters timeout ms)" for waiters ms
    unfolding await_result_def by (intro trace_rules) (simp add: time quiet_wait_for_terminal)
  have "quiet scope_kind (case v of
      PyInt ms \<Rightarrow> if ms < 0 then py_raise (AssertionError ''invalid suggested timeout'')
        else py_bind (await_result api observer waiters timeout ms) (\<lambda>outcome. py_return (name, outcome))
    | _ \<Rightarrow> py_raise (AssertionError ''invalid suggested timeout''))" for v waiters
    by (cases v) (auto intro: trace_rules result)
  then show ?thesis unfolding awaited_operation_def one_remote_operation_def
    by (intro quiet_bind quiet_for quiet_then quiet_create_waiter quiet_sleep call_bind trace_rules) auto
qed

lemma traces_scope_dialogue:
  "traces scope_kind (scope_plan args owner contact) (scope_dialogue api view args owner observer contact p)"
proof -
  let ?sel = "if sc_mode args = ''test'' then SetFloodScope ''TEST'' else ForceUnscoped"
  have sel: "traces scope_kind [(owner, ?sel)] (select_scope api owner (sc_mode args))"
    unfolding select_scope_def by (auto intro!: call_require quiet_return traces_raise)
  have rest: "traces scope_kind [(owner, SendStatusReq contact), (owner, ResetFloodScope)]
     (py_bind (awaited_operation api owner observer name [STATUS_RESPONSE] fs (SendStatusReq contact) t) (\<lambda>operation.
          py_bind (call api owner ResetFloodScope) (\<lambda>e. py_bind (require_event e OK) (\<lambda>_.
          py_bind (py_get g) (\<lambda>frames. py_bind (py_lift (check_order k frames)) (\<lambda>sizes.
          py_return (operation, sizes)))))))" for name fs t g k
    by (rule traces_bind [where ys = "[(owner, ResetFloodScope)]", OF traces_scope_operation, simplified])
      (rule call_require, simp, intro quiet_bind quiet_get quiet_lift quiet_return)
  have "traces scope_kind ([(owner, ?sel)] @ [(owner, SendStatusReq contact), (owner, ResetFloodScope)])
      (scope_dialogue api view args owner observer contact p)"
    unfolding scope_dialogue_def
    by (intro quiet_bind quiet_get traces_bind [OF sel] traces_if traces_raise rest)
  then show ?thesis by (simp add: scope_plan_def)
qed

lemma quiet_scope_select: "quiet scope_kind (scope_select api args port)"
proof -
  have "quiet scope_kind (contact_values api c t)" for c t
    unfolding contact_values_def
    by (intro quiet_bind quiet_call quiet_require_event) (auto intro: trace_rules split: pyval.splits)
  then show ?thesis unfolding scope_select_def
    by (intro trace_rules) (simp_all add: quiet_connect)
qed

lemma scope_result:
  assumes "fst (py_bind m (\<lambda>(owner, observer, contact, p). scope_dialogue api view args owner observer contact p) s) = Inr result"
  shows "snd result = [(if sc_mode args = ''test'' then 18 else 2) + 3, 36, 5, 4]"
proof -
  have mode: "n = (if sc_mode args = ''test'' then 18 else 2)" if "select_scope api c (sc_mode args) w = (Inr n, w')" for c w n w'
    using that by (auto simp: select_scope_def py_bind_Inr py_return_def py_raise_def split: if_splits)
  have sizes: "ss = [n + 3, 36, 5, 4]" if "check_order n frames = Inr ss" for n frames ss
    using that by (auto simp: check_order_def Let_def split: if_splits)
  obtain s' where "py_bind m (\<lambda>(owner, observer, contact, p). scope_dialogue api view args owner observer contact p) s = (Inr result, s')"
    using assms by (metis prod.collapse)
  then obtain v w w' where "scope_dialogue api view args (fst v) (fst (snd v)) (fst (snd (snd v))) (snd (snd (snd v))) w = (Inr result, w')"
    by (auto simp: py_bind_Inr case_prod_beta)
  then show ?thesis unfolding scope_dialogue_def
    by (auto simp: py_bind_Inr py_get_def py_raise_def py_lift_def py_return_def dest!: mode sizes split: if_splits)
qed

section \<open>Properties\<close>

text \<open>C32. The scope check sends one request: whatever the client library and the relay do, the scope
  selections and transmissions of a run are a prefix of selecting the scope, one status request and
  the reset, and a run that returns has carried out all three and reports the exact lengths of the
  four physical frames for its mode.\<close>

theorem scope_single_send:
  "\<exists>owner contact ys. kind_trace scope_kind (snd (scope_run host api view args s)) = kind_trace scope_kind s @ ys
     \<and> prefix ys (scope_plan args owner contact)
     \<and> (\<forall>result. fst (scope_run host api view args s) = Inr result \<longrightarrow> ys = scope_plan args owner contact
          \<and> snd result = [(if sc_mode args = ''test'' then 18 else 2) + 3, 36, 5, 4])"
proof -
  let ?body = "\<lambda>(owner, observer, contact, p). scope_dialogue api view args owner observer contact p"
  let ?plan = "\<lambda>(owner, observer :: nat, contact, p :: pyval). scope_plan args owner contact"
  let ?m = "scope_ready host api view args"
  have body: "traces scope_kind (?plan v) (?body v)" for v
    by (cases v) (simp add: traces_scope_dialogue)
  have first: "quiet scope_kind (?m port process)" for port process
    unfolding scope_ready_def by (intro quiet_then quiet_wait_ready quiet_expect_connection quiet_scope_select)
  from session_plan [where m = "?m" and g = "?plan" and f = "?body" and s = s, OF quiet_prepare_relayed first body scope_run_def]
  show ?thesis
  proof (elim disjE exE conjE)
    fix port process s0 v s1 ys
    assume "kind_trace scope_kind (snd (scope_run host api view args s)) = kind_trace scope_kind s @ ys" "prefix ys (?plan v)"
      "\<forall>x. fst (scope_run host api view args s) = Inr x \<longrightarrow> ys = ?plan v \<and> fst (py_bind (?m port process) ?body s0) = Inr x"
    moreover note scope_result [where m = "?m port process" and s = s0]
    ultimately have "kind_trace scope_kind (snd (scope_run host api view args s)) = kind_trace scope_kind s @ ys" "prefix ys (?plan v)"
      "\<forall>result. fst (scope_run host api view args s) = Inr result \<longrightarrow> ys = ?plan v
         \<and> snd result = [(if sc_mode args = ''test'' then 18 else 2) + 3, 36, 5, 4]"
      by blast+
    then show ?thesis
      by (intro exI [of _ "fst v"] exI [of _ "fst (snd (snd v))"] exI [of _ ys]) (simp add: case_prod_beta)
  next
    assume "fst (scope_run host api view args s) \<notin> range Inr" "kind_trace scope_kind (snd (scope_run host api view args s)) = kind_trace scope_kind s"
    then show ?thesis by (intro exI [of _ "0 :: nat"] exI [of _ PyNone] exI [of _ "[]"]) auto
  qed
qed

text \<open>C36. The history window of the scope check: as long as the relay's history does not overflow, the
  frames examined are exactly those recorded since the start, and the check passes exactly when
  their scope, status and clock commands are the four expected ones with the expected lengths. Once
  the bounded history is full, the remembered position lies behind every frame, nothing is examined
  and the check fails whatever was sent.\<close>

theorem scope_order_window:
  assumes "length (frame_history r) \<le> HISTORY_LIMIT"
  shows "(length (frame_history r) + length fs \<le> HISTORY_LIMIT \<longrightarrow>
       frames_since (length (frame_history r)) (fold record_frame fs r) = fs
       \<and> ((\<exists>sizes. check_order n (frames_since (length (frame_history r)) (fold record_frame fs r)) = Inr sizes)
          \<longleftrightarrow> map (\<lambda>f. (rf_opcode f, rf_bytes f)) (scoped_commands fs) = [(0x36, n + 3), (0x1B, 36), (0x36, 5), (0x05, 4)]))
    \<and> (length (frame_history r) = HISTORY_LIMIT \<longrightarrow>
       frames_since (length (frame_history r)) (fold record_frame fs r) = []
       \<and> (\<exists>e. check_order n (frames_since (length (frame_history r)) (fold record_frame fs r)) = Inl e))"
proof -
  have window: "frames_since (length (frame_history r)) (fold record_frame fs r)
      = drop (length (frame_history r) + length fs - HISTORY_LIMIT) fs"
  proof -
    have "drop (length h) (drop k (h @ gs)) = drop k gs" for h gs :: "relay_frame list" and k
      by (metis add.commute append_eq_conv_conj drop_drop)
    then show ?thesis
      unfolding frames_since_def history_recorded [OF assms] keep_last_def length_append by blast
  qed
  have pairs: "map (\<lambda>f. (rf_opcode f, rf_bytes f)) gs = [(a, i), (b, j), (c, k), (d, l)]
      \<longleftrightarrow> map rf_opcode gs = [a, b, c, d] \<and> map rf_bytes gs = [i, j, k, l]" for gs a b c d i j k l
    by (auto simp: map_eq_Cons_conv)
  have "(\<exists>sizes. check_order n gs = Inr sizes)
      \<longleftrightarrow> map (\<lambda>f. (rf_opcode f, rf_bytes f)) (scoped_commands gs) = [(0x36, n + 3), (0x1B, 36), (0x36, 5), (0x05, 4)]" for gs
    unfolding pairs by (auto simp: check_order_def Let_def)
  moreover have "\<exists>e. check_order n [] = Inl e" by (simp add: check_order_def scoped_commands_def Let_def)
  ultimately show ?thesis unfolding window by simp
qed

theorem scope_order_window_witness:
  "\<exists>sizes. check_order 2 (frames_since 0 (fold record_frame
     [\<lparr>rf_generation = 1, rf_direction = CommandDir, rf_opcode = 0x36, rf_bytes = 5\<rparr>,
      \<lparr>rf_generation = 1, rf_direction = CommandDir, rf_opcode = 0x1B, rf_bytes = 36\<rparr>,
      \<lparr>rf_generation = 1, rf_direction = ResponseDir, rf_opcode = 6, rf_bytes = 13\<rparr>,
      \<lparr>rf_generation = 1, rf_direction = CommandDir, rf_opcode = 0x36, rf_bytes = 5\<rparr>,
      \<lparr>rf_generation = 1, rf_direction = CommandDir, rf_opcode = 0x05, rf_bytes = 4\<rparr>] relay_init)) = Inr sizes"
  using scope_order_window [of relay_init
    "[\<lparr>rf_generation = 1, rf_direction = CommandDir, rf_opcode = 0x36, rf_bytes = 5\<rparr>,
      \<lparr>rf_generation = 1, rf_direction = CommandDir, rf_opcode = 0x1B, rf_bytes = 36\<rparr>,
      \<lparr>rf_generation = 1, rf_direction = ResponseDir, rf_opcode = 6, rf_bytes = 13\<rparr>,
      \<lparr>rf_generation = 1, rf_direction = CommandDir, rf_opcode = 0x36, rf_bytes = 5\<rparr>,
      \<lparr>rf_generation = 1, rf_direction = CommandDir, rf_opcode = 0x05, rf_bytes = 4\<rparr>]" 2]
  by (auto simp: relay_init_def HISTORY_LIMIT_def scoped_commands_def)

text \<open>A silent companion whose relay shows the expected commands after the reset.\<close>

definition scope_example_frames :: "relay_frame list" where
  "scope_example_frames = map (\<lambda>(opcode, n). \<lparr>rf_generation = 1, rf_direction = CommandDir, rf_opcode = opcode, rf_bytes = n\<rparr>)
     [(0x36, 5), (0x1B, 36), (0x36, 5), (0x05, 4)]"

fun scope_reply :: "request \<Rightarrow> event" where
  "scope_reply ForceUnscoped = \<lparr>ev_type = OK, ev_payload = PyDict []\<rparr>"
| "scope_reply ResetFloodScope = \<lparr>ev_type = OK, ev_payload = PyDict []\<rparr>"
| "scope_reply other = silent_reply other"

definition scope_api :: "relay mesh_api" where
  "scope_api = \<lparr>create_tcp = \<lambda>host port timeout. py_return (Some 4), self_info_key = \<lambda>c w. Some (replicate 64 CHR ''a''),
     is_connected = \<lambda>c w. True,
     client_call = \<lambda>c r w. (Inr (Some (scope_reply r)), if r = ResetFloodScope then w\<lparr>frame_history := scope_example_frames\<rparr> else w),
     client_disconnect = \<lambda>c. py_return (), delivered_acks = \<lambda>t. py_return [],
     wait_disconnected = \<lambda>c t. py_return (), register_waiter = \<lambda>c ty fs t. py_return 0,
     wait_first = \<lambda>ws t. py_return ([], ws), cancel_waiters = \<lambda>ws. py_return (), loop_time = \<lambda>w. 0, loop_sleep = \<lambda>ms w. w\<rparr>"

definition scope_start :: "relay live" where
  "scope_start = \<lparr>env = relay_init, active_clients = [], send_limit = 0, send_used = 0, marker_sequence = 0,
     ack_queues = [], opened = [], disconnected = [], issued = []\<rparr>"

definition scope_example :: scope_args where
  "scope_example = \<lparr>sc_binary = ''mux'', sc_target = ''rep'', sc_mode = ''unscoped'', sc_timeout = 30000\<rparr>"

definition scope_view :: "relay relay_view" where
  "scope_view = \<lparr>relay_of = \<lambda>r. r, set_relay = \<lambda>r w. r, relay_start = py_return 6001,
     loop_until = \<lambda>cond t r. (Inr (), r\<lparr>connections := [Inr 1]\<rparr>)\<rparr>"

lemma scope_example_run: "\<exists>result. fst (scope_run prompt_host scope_api scope_view scope_example scope_start) = Inr result"
proof -
  let ?body = "\<lambda>(owner, observer, contact, p). scope_dialogue scope_api scope_view scope_example owner observer contact p"
  let ?s = "scope_start\<lparr>env := relay_init\<rparr>"
  have connected: "expect_connection scope_view 1 scope_start = (Inr (), ?s)"
    by (simp add: expect_connection_def await_relay_def relay_op_def expect_generation_def scope_view_def scope_start_def
        relay_init_def on_env_def py_then_def py_bind_def)
  have launch: "mux_launch prompt_host (prepare_relayed prompt_host scope_view (sc_binary scope_example) []) scope_start
      = (Inr (5001, 7), scope_start)"
    by (simp add: mux_launch_def prepare_relayed_def prompt_host_def scope_view_def on_env_def py_defs)
  have cleanup: "fst (mux_cleanup prompt_host scope_api (close_relay scope_view) (Some 7) s) = Inr ()" for s
    by (rule prompt_cleanup) (simp add: close_relay_def relay_op_def)
  have "\<exists>result. fst (py_bind (scope_select scope_api scope_example 5001) ?body ?s) = Inr result"
    by (simp add: scope_select_def scope_dialogue_def scope_api_def scope_example_def scope_start_def connect_def
        append_client_def contact_values_def silent_select key_prefix_def py_item_def select_scope_def frames_since_def
        leaked_early_def awaited_operation_def create_waiter_def sleep_def one_remote_operation_def py_dict_get_def
        await_result_def wait_for_terminal_def limit_exceeds_def check_order_def scoped_commands_def scope_example_frames_def
        relay_init_def scope_view_def call_def on_env_def require_event_def Let_def
        py_bind_def py_then_def py_return_def py_modify_def py_get_def py_lift_def py_raise_def)
  then obtain result where "fst (py_bind (scope_select scope_api scope_example 5001) ?body ?s) = Inr result" by blast
  then have "fst (py_bind (scope_ready prompt_host scope_api scope_view scope_example 5001 7) ?body scope_start) = Inr result"
    by (simp only: scope_ready_def py_bind_then [where m = "expect_connection scope_view 1" and s = scope_start, OF connected] prompt_then)
  then show ?thesis unfolding scope_run_def
    by (intro exI [of _ result] session_returns [OF _ launch _ _ cleanup]) (simp_all add: prompt_host_def)
qed

theorem scope_single_send_witness:
  "\<exists>owner contact. kind_trace scope_kind (snd (scope_run prompt_host scope_api scope_view scope_example scope_start)) = scope_plan scope_example owner contact"
  using scope_single_send [of prompt_host scope_api scope_view scope_example scope_start] scope_example_run
  by (auto simp: scope_start_def kind_trace_def) blast

end
