(* ===== verification/Live_Small.thy ===== *)
theory Live_Small
  imports Live_Remote Live_Signing "HOL-Library.Multiset" "HOL-Library.List_Lexorder" "HOL-Library.Char_ord"
begin

text \<open>
  The small live scripts: the one-shot send check \<open>scripts/check_sends.py\<close>, the profile reader
  \<open>scripts/check_profile.py\<close> and the receive check \<open>scripts/watch_inbox.py\<close>.

  Printing is left out, and so are the version strings and the \<open>radio_\<close> entries of the profile. The
  two readers of \<open>watch_inbox.py\<close> run concurrently: an execution is a list of reads, each by one
  reader, in the order in which the event loop completes them, up to the deadline; the canonical
  digest of a payload (\<open>json\<close> and \<open>sha256\<close>) is the parameter \<open>digest\<close>.
\<close>

section \<open>check\_sends.py\<close>

record sends_args =
  se_host :: string
  se_port :: int
  se_contact :: string
  se_channel :: string
  se_sequence :: nat
  se_execute :: bool

definition channel_named :: "'w mesh_api \<Rightarrow> nat \<Rightarrow> string \<Rightarrow> nat \<Rightarrow> ('w live, nat list) py" where
  "channel_named api client name index =
     py_bind (call api client (GetChannel index)) (\<lambda>e. case e of
       None \<Rightarrow> py_raise (ClientError ''no channel event'')
     | Some event \<Rightarrow>
         if ev_type event \<noteq> CHANNEL_INFO then py_return []
         else py_bind (py_lift (py_dict_get (ev_payload event) ''channel_name'')) (\<lambda>n.
           py_return (if n = PyStr name then [index] else [])))"

text \<open>The exact permitted destinations: one contact and one channel.\<close>

definition sends_resolve :: "'w mesh_api \<Rightarrow> sends_args \<Rightarrow> nat \<Rightarrow> ('w live, pyval \<times> nat) py" where
  "sends_resolve api args sender =
     py_bind (contact_values api sender 10000) (\<lambda>contacts.
     py_bind (py_lift (select_target contacts (se_contact args))) (\<lambda>permitted.
     py_bind (call api sender SendDeviceQuery) (\<lambda>e.
     py_bind (require_event e DEVICE_INFO) (\<lambda>device.
     py_bind (py_lift (py_item (ev_payload device) ''max_channels'')) (\<lambda>v.
     py_bind (py_lift (py_int v)) (\<lambda>max_channels.
     py_bind (py_for [0..<nat max_channels] (channel_named api sender (se_channel args))) (\<lambda>found.
     let channels = concat found in
     if length channels \<noteq> 1 then py_raise (AssertionError ''expected exactly one channel matching --channel'')
     else py_return (permitted, channels ! 0))))))))"

definition sends_message :: "sends_args \<Rightarrow> string" where
  "sends_message args = ''Hello from meshcore-tcp-mux #'' @ decimal (se_sequence args)"

text \<open>Waiting for the confirmation on both clients; running out of time is not caught.\<close>

definition both_receipts :: "'w mesh_api \<Rightarrow> string \<Rightarrow> int \<Rightarrow> ('w live, unit) py" where
  "both_receipts api token limit =
     py_bind (on_env (delivered_acks api limit)) (\<lambda>acks.
     py_then (py_modify (\<lambda>s. s\<lparr>ack_queues := collect acks (ack_queues s)\<rparr>))
     (py_bind (py_get ack_queues) (\<lambda>queues.
     case match_labels token [''0'', ''1''] queues of
       Inl e \<Rightarrow> py_raise (if e = KeyError then KeyError else PyTimeoutError)
     | Inr (receipts, queues') \<Rightarrow>
         py_assert (receipts ! 0 = receipts ! 1) ''clients received different confirmation payloads'')))"

definition sends_execute :: "'w mesh_api \<Rightarrow> sends_args \<Rightarrow> nat \<Rightarrow> nat \<Rightarrow> pyval \<times> nat \<Rightarrow> ('w live, unit) py" where
  "sends_execute api args sender observer resolved =
     py_then (attach ''0'' sender) (py_then (attach ''1'' observer)
     (py_bind (py_gather [call api sender (SendMsg (fst resolved) (sends_message args)), call api observer GetTime]) (\<lambda>both.
      py_bind (require_event (both ! 1) CURRENT_TIME) (\<lambda>_.
      py_bind (require_event (both ! 0) MSG_SENT) (\<lambda>result.
      py_bind (py_lift (py_item (ev_payload result) ''expected_ack'')) (\<lambda>v.
      py_bind (py_lift (py_bytes_of v)) (\<lambda>ack.
      py_bind (call api observer (SendChanMsg (snd resolved) (sends_message args))) (\<lambda>e.
      py_bind (require_event e OK) (\<lambda>_.
      py_bind (py_lift (py_item (ev_payload result) ''suggested_timeout'')) (\<lambda>v.
      py_bind (py_lift (py_int v)) (\<lambda>suggested.
      both_receipts api (hex ack) (ack_timeout suggested))))))))))))"

definition sends_run :: "'w mesh_api \<Rightarrow> sends_args \<Rightarrow> ('w live, unit) py" where
  "sends_run api args =
     py_bind (py_gather [connect api (se_host args) (se_port args) 8000, connect api (se_host args) (se_port args) 8000]) (\<lambda>clients.
     py_finally
       (py_bind (sends_resolve api args (clients ! 0)) (\<lambda>resolved.
          if \<not> se_execute args then py_return ()
          else sends_execute api args (clients ! 0) (clients ! 1) resolved))
       (py_gather_quiet (map (disconnect api) clients)))"

section \<open>check\_profile.py\<close>

record profile_report =
  pr_protocol :: pyval
  pr_clock_is_positive :: bool
  pr_battery_fields :: "string list"
  pr_telemetry_fields :: "string list"
  pr_identity_bytes :: nat

definition payload_keys :: "pyval \<Rightarrow> py_error + string list" where
  "payload_keys v = (case v of PyDict kvs \<Rightarrow> Inr (sort (map fst kvs)) | _ \<Rightarrow> Inl (ClientError ''payload is not a dict''))"

text \<open>\<open>payload.get("time", 0) > 0\<close>: only numbers compare with zero.\<close>

definition clock_positive :: "pyval \<Rightarrow> py_error + bool" where
  "clock_positive v = (case v of
       PyDict kvs \<Rightarrow> (case map_of kvs ''time'' of None \<Rightarrow> Inr False | Some (PyInt t) \<Rightarrow> Inr (0 < t)
         | Some _ \<Rightarrow> Inl (ClientError ''not comparable''))
     | _ \<Rightarrow> Inl (ClientError ''payload is not a dict''))"

definition profile_queries :: "'w mesh_api \<Rightarrow> nat \<Rightarrow> ('w live, profile_report) py" where
  "profile_queries api client =
     py_bind (call api client SendDeviceQuery) (\<lambda>e. py_bind (require_event e DEVICE_INFO) (\<lambda>device.
     py_bind (call api client GetTime) (\<lambda>e. py_bind (require_event e CURRENT_TIME) (\<lambda>current_time.
     py_bind (call api client GetBat) (\<lambda>e. py_bind (require_event e BATTERY) (\<lambda>battery.
     py_bind (call api client GetSelfTelemetry) (\<lambda>e. py_bind (require_event e TELEMETRY_RESPONSE) (\<lambda>telemetry.
     py_bind (py_lift (py_dict_get (ev_payload device) ''fw ver'')) (\<lambda>protocol.
     py_bind (py_lift (clock_positive (ev_payload current_time))) (\<lambda>positive.
     py_bind (py_lift (payload_keys (ev_payload battery))) (\<lambda>battery_fields.
     py_bind (py_lift (payload_keys (ev_payload telemetry))) (\<lambda>telemetry_fields.
     py_bind (public_key api client) (\<lambda>key.
     py_bind (py_lift (py_fromhex key)) (\<lambda>raw.
     py_return \<lparr>pr_protocol = protocol, pr_clock_is_positive = positive, pr_battery_fields = battery_fields,
       pr_telemetry_fields = telemetry_fields, pr_identity_bytes = length raw\<rparr>))))))))))))))"

definition profile_run :: "'w mesh_api \<Rightarrow> string \<Rightarrow> int \<Rightarrow> int \<Rightarrow> ('w live, profile_report) py" where
  "profile_run api host port timeout =
     py_bind (on_env (create_tcp api host port timeout)) (\<lambda>client. case client of
       None \<Rightarrow> py_raise (AssertionError ''APP_START failed'')
     | Some c \<Rightarrow> py_finally (profile_queries api c) (disconnect api c))"

section \<open>watch\_inbox.py\<close>

text \<open>Two readers, \<open>False\<close> and \<open>True\<close>; a reader that has returned takes no further event.\<close>

record 'd watch =
  observed :: "bool \<Rightarrow> (event_type \<times> 'd) multiset"
  kinds :: "bool \<Rightarrow> event_type set"
  returned :: "bool \<Rightarrow> bool"

definition watch_init :: "'d watch" where
  "watch_init = \<lparr>observed = \<lambda>_. {#}, kinds = \<lambda>_. {}, returned = \<lambda>_. False\<rparr>"

definition required_kinds :: "string \<Rightarrow> event_type set option" where
  "required_kinds require = map_of [(''both'', {CONTACT_MSG_RECV, CHANNEL_MSG_RECV}), (''dm'', {CONTACT_MSG_RECV}),
     (''channel'', {CHANNEL_MSG_RECV})] require"

definition satisfied :: "event_type set \<Rightarrow> 'd watch \<Rightarrow> bool" where
  "satisfied required w \<longleftrightarrow> required \<subseteq> kinds w False \<and> required \<subseteq> kinds w True \<and> observed w False = observed w True"

definition watch_record :: "(pyval \<Rightarrow> 'd) \<Rightarrow> bool \<Rightarrow> event \<Rightarrow> 'd watch \<Rightarrow> 'd watch" where
  "watch_record digest i event w =
     (if ev_type event \<in> INBOX_TYPES
      then w\<lparr>observed := (observed w)(i := add_mset (ev_type event, digest (ev_payload event)) (observed w i)),
             kinds := (kinds w)(i := insert (ev_type event) (kinds w i))\<rparr>
      else w)"

definition watch_read :: "(pyval \<Rightarrow> 'd) \<Rightarrow> event_type set \<Rightarrow> bool \<Rightarrow> event \<Rightarrow> 'd watch \<Rightarrow> py_error + 'd watch" where
  "watch_read digest required i event w =
     (if ev_type event = ERROR then Inl (AssertionError ''inbox returned an error'')
      else let w1 = watch_record digest i event w in
        Inr (if satisfied required w1 then w1\<lparr>returned := (returned w1)(i := True)\<rparr> else w1))"

fun watch_reads :: "(pyval \<Rightarrow> 'd) \<Rightarrow> event_type set \<Rightarrow> (bool \<times> event) list \<Rightarrow> 'd watch \<Rightarrow> py_error + 'd watch" where
  "watch_reads digest required [] w = Inr w"
| "watch_reads digest required ((i, event) # rest) w =
     (if returned w i then watch_reads digest required rest w
      else case watch_read digest required i event w of Inl e \<Rightarrow> Inl e | Inr w1 \<Rightarrow> watch_reads digest required rest w1)"

text \<open>The assertions after both readers have ended.\<close>

definition watch_verdict :: "event_type set \<Rightarrow> 'd watch \<Rightarrow> py_error + nat" where
  "watch_verdict required w =
     (if \<not> (required \<subseteq> kinds w False \<and> required \<subseteq> kinds w True) then Inl (AssertionError ''live receive evidence is incomplete'')
      else if observed w False \<noteq> observed w True then Inl (AssertionError ''clients did not receive identical message multisets'')
      else Inr (size (observed w False)))"

section \<open>Lemmas\<close>

definition radio_kind :: "nat \<times> request \<Rightarrow> bool" where
  "radio_kind x = is_radio_send (snd x)"

definition sends_plan :: "sends_args \<Rightarrow> nat \<Rightarrow> nat \<Rightarrow> pyval \<times> nat \<Rightarrow> (nat \<times> request) list" where
  "sends_plan args sender observer resolved = (if se_execute args
     then [(sender, SendMsg (fst resolved) (sends_message args)), (observer, SendChanMsg (snd resolved) (sends_message args))] else [])"

lemma quiet_request: "\<not> is_radio_send req \<Longrightarrow> quiet radio_kind (call api c req)"
  by (rule quiet_call) (simp add: radio_kind_def)

lemma quiet_attach: "quiet K (attach label c)"
  by (rule quietI) (simp add: attach_def py_modify_def)

lemma quiet_both_receipts: "quiet K (both_receipts api token limit)"
proof -
  have "quiet K (py_modify (\<lambda>s. s\<lparr>ack_queues := f s\<rparr>))" for f :: "'a live \<Rightarrow> (string \<times> nat \<times> pyval list) list"
    by (rule quietI) (simp add: py_modify_def)
  then show ?thesis unfolding both_receipts_def
    by (intro quiet_bind quiet_then quiet_on_env quiet_get) (auto intro: trace_rules split: sum.splits)
qed

lemma traces_sends_execute:
  assumes "se_execute args"
  shows "traces radio_kind (sends_plan args sender observer resolved) (sends_execute api args sender observer resolved)"
proof -
  let ?dm = "(sender, SendMsg (fst resolved) (sends_message args))"
  let ?chan = "(observer, SendChanMsg (snd resolved) (sends_message args))"
  have both: "traces radio_kind [?dm] (py_gather [call api sender (snd ?dm), call api observer GetTime])"
    by (rule traces_gather_first) (auto simp: radio_kind_def intro: traces_call quiet_request)
  have rest: "traces radio_kind [?chan] (py_bind (call api observer (snd ?chan)) (\<lambda>e. py_bind (require_event e OK) (\<lambda>_.
      py_bind (py_lift g) (\<lambda>v. py_bind (py_lift (py_int v)) (\<lambda>suggested. both_receipts api token (ack_timeout suggested))))))" for g token
    unfolding snd_conv
    by (rule call_require) (simp add: radio_kind_def, intro quiet_bind quiet_lift quiet_both_receipts)
  have "traces radio_kind ([?dm] @ [?chan]) (sends_execute api args sender observer resolved)"
    unfolding sends_execute_def
    by (intro quiet_then quiet_attach traces_bind [OF both [unfolded snd_conv]] quiet_bind quiet_require_event quiet_lift
        rest [unfolded snd_conv])
  with assms show ?thesis by (simp add: sends_plan_def)
qed

lemma quiet_sends_resolve: "quiet radio_kind (sends_resolve api args c)"
proof -
  have contacts: "quiet radio_kind (contact_values api c t)" for c t
    unfolding contact_values_def
    by (intro quiet_bind quiet_request quiet_require_event) (auto intro: trace_rules split: pyval.splits)
  have "quiet radio_kind (channel_named api c name index)" for c name index
    unfolding channel_named_def by (intro quiet_bind quiet_request trace_rules) simp
  with contacts show ?thesis unfolding sends_resolve_def Let_def
    by (intro quiet_bind quiet_request quiet_require_event quiet_lift quiet_for traces_if traces_raise quiet_return) simp_all
qed

text \<open>What the readers have recorded is what they were given before they returned.\<close>

definition entry_of :: "(pyval \<Rightarrow> 'd) \<Rightarrow> event \<Rightarrow> event_type \<times> 'd" where
  "entry_of digest event = (ev_type event, digest (ev_payload event))"

definition inbox_of :: "bool \<Rightarrow> (bool \<times> event) list \<Rightarrow> event list" where
  "inbox_of i reads = map snd (filter (\<lambda>r. fst r = i) reads)"

definition inbox_entries :: "(pyval \<Rightarrow> 'd) \<Rightarrow> event list \<Rightarrow> (event_type \<times> 'd) list" where
  "inbox_entries digest events = map (entry_of digest) (filter (\<lambda>e. ev_type e \<in> INBOX_TYPES) events)"

lemma watch_read_record:
  assumes "watch_read digest required i event w = Inr w1"
  shows "observed w1 j = observed w j + (if j = i then mset (inbox_entries digest [event]) else {#})"
    and "kinds w1 j = kinds w j \<union> (if j = i then fst ` set (inbox_entries digest [event]) else {})"
    and "j \<noteq> i \<Longrightarrow> returned w1 j = returned w j"
  using assms
  by (auto simp: watch_read_def watch_record_def Let_def inbox_entries_def entry_of_def split: if_splits)

lemma watch_reads_record:
  assumes "watch_reads digest required reads w = Inr w'"
  shows "\<exists>k. \<forall>i. (returned w i \<longrightarrow> k i = 0)
    \<and> observed w' i = observed w i + mset (inbox_entries digest (take (k i) (inbox_of i reads)))
    \<and> kinds w' i = kinds w i \<union> fst ` set (inbox_entries digest (take (k i) (inbox_of i reads)))"
  using assms
proof (induction reads arbitrary: w)
  case Nil
  then show ?case by (intro exI [of _ "\<lambda>_. 0"]) (simp add: inbox_of_def inbox_entries_def)
next
  case (Cons r reads)
  obtain i event where r: "r = (i, event)" by (cases r)
  have own: "inbox_of i (r # reads) = event # inbox_of i reads"
    and other: "\<And>j. j \<noteq> i \<Longrightarrow> inbox_of j (r # reads) = inbox_of j reads"
    by (auto simp: inbox_of_def r)
  show ?case
  proof (cases "returned w i")
    case True
    with Cons.prems r have "watch_reads digest required reads w = Inr w'" by simp
    from Cons.IH [OF this] obtain k where k: "\<forall>j. (returned w j \<longrightarrow> k j = 0)
        \<and> observed w' j = observed w j + mset (inbox_entries digest (take (k j) (inbox_of j reads)))
        \<and> kinds w' j = kinds w j \<union> fst ` set (inbox_entries digest (take (k j) (inbox_of j reads)))" by blast
    have "take (k j) (inbox_of j (r # reads)) = take (k j) (inbox_of j reads)" for j
      using k True other by (cases "j = i") auto
    with k show ?thesis by (intro exI [of _ k]) simp
  next
    case False
    with Cons.prems r obtain w1 where w1: "watch_read digest required i event w = Inr w1"
        "watch_reads digest required reads w1 = Inr w'"
      by (auto split: sum.splits)
    from Cons.IH [OF w1(2)] obtain k where k: "\<forall>j. (returned w1 j \<longrightarrow> k j = 0)
        \<and> observed w' j = observed w1 j + mset (inbox_entries digest (take (k j) (inbox_of j reads)))
        \<and> kinds w' j = kinds w1 j \<union> fst ` set (inbox_entries digest (take (k j) (inbox_of j reads)))" by blast
    note rec = watch_read_record [OF w1(1)]
    have split: "inbox_entries digest (event # es) = inbox_entries digest [event] @ inbox_entries digest es" for es
      by (simp add: inbox_entries_def)
    show ?thesis
    proof (intro exI [of _ "k(i := Suc (k i))"] allI)
      fix j
      show "(returned w j \<longrightarrow> (k(i := Suc (k i))) j = 0)
        \<and> observed w' j = observed w j + mset (inbox_entries digest (take ((k(i := Suc (k i))) j) (inbox_of j (r # reads))))
        \<and> kinds w' j = kinds w j \<union> fst ` set (inbox_entries digest (take ((k(i := Suc (k i))) j) (inbox_of j (r # reads))))"
      proof (cases "j = i")
        case True
        with k rec False show ?thesis
          by (simp add: own split [of "take (k i) (inbox_of i reads)"] add.assoc image_Un Un_assoc)
      next
        case neq: False
        with k rec show ?thesis by (simp add: other)
      qed
    qed
  qed
qed

section \<open>Properties\<close>

lemma sends_session:
  assumes "py_finally (py_bind (sends_resolve api args (clients ! 0)) (\<lambda>resolved. if \<not> se_execute args then py_return ()
      else sends_execute api args (clients ! 0) (clients ! 1) resolved)) (py_gather_quiet (map (disconnect api) clients)) s = (r, s3)"
  shows "\<exists>v ys. kind_trace radio_kind s3 = kind_trace radio_kind s @ ys \<and> prefix ys (sends_plan args (clients ! 0) (clients ! 1) v)
    \<and> (r = Inr () \<longrightarrow> ys = sends_plan args (clients ! 0) (clients ! 1) v)"
proof -
  let ?rest = "\<lambda>resolved. if \<not> se_execute args then py_return () else sends_execute api args (clients ! 0) (clients ! 1) resolved"
  let ?plan = "sends_plan args (clients ! 0) (clients ! 1)"
  obtain q s2 where b: "py_bind (sends_resolve api args (clients ! 0)) ?rest s = (q, s2)" by fastforce
  have rest: "traces radio_kind (?plan v) (?rest v)" for v
  proof (cases "se_execute args")
    case True
    then show ?thesis by (simp only: not_True_eq_False if_False traces_sends_execute)
  next
    case False
    then show ?thesis by (simp add: quiet_return sends_plan_def)
  qed
  have "quiet radio_kind (py_gather_quiet (map (disconnect api) clients))"
    by (intro quiet_gather_quiet) (simp add: list_all_iff quiet_disconnect)
  then have "kind_trace radio_kind (snd (py_gather_quiet (map (disconnect api) clients) s2)) = kind_trace radio_kind s2"
    by (auto elim: tracesD [OF _ surjective_pairing])
  then have "kind_trace radio_kind s3 = kind_trace radio_kind s2" "r = Inr () \<Longrightarrow> q = Inr ()"
    using assms b by (auto simp: py_finally_def split: prod.splits sum.splits)
  with quiet_bind_outcome [OF quiet_sends_resolve rest b] show ?thesis by fastforce
qed


text \<open>A companion that accepts both messages and confirms the first on both clients.\<close>

fun accepting_reply :: "request \<Rightarrow> event" where
  "accepting_reply (GetContacts t) = \<lparr>ev_type = CONTACTS, ev_payload = PyDict [(''k'', PyDict [(''adv_name'', PyStr ''Ann'')])]\<rparr>"
| "accepting_reply SendDeviceQuery = \<lparr>ev_type = DEVICE_INFO, ev_payload = PyDict [(''max_channels'', PyInt 2)]\<rparr>"
| "accepting_reply (GetChannel i) = \<lparr>ev_type = CHANNEL_INFO, ev_payload = PyDict [(''channel_name'', PyStr (if i = 1 then ''#test'' else ''Public''))]\<rparr>"
| "accepting_reply GetTime = \<lparr>ev_type = CURRENT_TIME, ev_payload = PyDict []\<rparr>"
| "accepting_reply (SendMsg d b) = \<lparr>ev_type = MSG_SENT, ev_payload = PyDict [(''expected_ack'', PyBytes [1, 2, 3, 4]), (''suggested_timeout'', PyInt 4000)]\<rparr>"
| "accepting_reply other = \<lparr>ev_type = OK, ev_payload = PyNone\<rparr>"

definition accepting_api :: "nat mesh_api" where
  "accepting_api = \<lparr>create_tcp = \<lambda>host port timeout w. (Inr (Some w), w + 1), self_info_key = \<lambda>c w. Some (replicate 64 CHR ''a''),
     is_connected = \<lambda>c w. True, client_call = \<lambda>c r. py_return (Some (accepting_reply r)),
     client_disconnect = \<lambda>c. py_return (),
     delivered_acks = \<lambda>t. py_return [(0, PyDict [(''code'', PyStr (hex [1, 2, 3, 4]))]), (1, PyDict [(''code'', PyStr (hex [1, 2, 3, 4]))])],
     wait_disconnected = \<lambda>c t. py_return (), register_waiter = \<lambda>c ty fs t. py_return 0,
     wait_first = \<lambda>ws t. py_return ([], ws), cancel_waiters = \<lambda>ws. py_return (), loop_time = \<lambda>w. 0, loop_sleep = \<lambda>ms w. w\<rparr>"

definition accepting_start :: "nat live" where
  "accepting_start = \<lparr>env = 0, active_clients = [], send_limit = 0, send_used = 0, marker_sequence = 0,
     ack_queues = [], opened = [], disconnected = [], issued = []\<rparr>"

definition accepting_args :: sends_args where
  "accepting_args = \<lparr>se_host = ''127.0.0.1'', se_port = 5001, se_contact = ''ann'', se_channel = ''#test'', se_sequence = 1, se_execute = True\<rparr>"

lemma accepting_run: "fst (sends_run accepting_api accepting_args accepting_start) = Inr ()"
proof -
  have range: "[0..<2] = [0, Suc 0]" by (simp add: numeral_2_eq_2)
  have select: "select_target [PyDict [(''adv_name'', PyStr ''Ann'')]] ''ann'' = Inr (PyDict [(''adv_name'', PyStr ''Ann'')])"
    by (simp add: select_target_def has_name_def text_field_def casefold_def fold_char_def)
  show ?thesis
    by (simp add: sends_run_def sends_resolve_def sends_execute_def both_receipts_def contact_values_def channel_named_def
        accepting_api_def accepting_args_def accepting_start_def connect_def call_def on_env_def require_event_def
        py_dict_get_def py_item_def py_int_def py_bytes_of_def attach_def collect_def has_code_def disconnect_def
        range select py_defs)
qed


text \<open>C34. A passed receive check is evidence: what the two readers have taken, a prefix of what each
  client was sent, are the same messages with the same multiplicities, every required kind among
  them, and the reported number is theirs.\<close>

theorem watch_pass_sound:
  assumes "watch_reads digest required reads watch_init = Inr w" "watch_verdict required w = Inr n"
  shows "\<exists>a b. mset (inbox_entries digest (take a (inbox_of False reads))) = mset (inbox_entries digest (take b (inbox_of True reads)))
    \<and> required \<subseteq> fst ` set (inbox_entries digest (take a (inbox_of False reads)))
    \<and> n = length (inbox_entries digest (take a (inbox_of False reads)))"
proof -
  from watch_reads_record [OF assms(1)] obtain k where k: "\<And>i. observed w i = mset (inbox_entries digest (take (k i) (inbox_of i reads)))
      \<and> kinds w i = fst ` set (inbox_entries digest (take (k i) (inbox_of i reads)))"
    by (auto simp: watch_init_def)
  from assms(2) have "observed w False = observed w True" "required \<subseteq> kinds w False" and n: "n = size (observed w False)"
    by (simp_all add: watch_verdict_def split: if_splits)
  moreover from n k [of False] have "n = length (inbox_entries digest (take (k False) (inbox_of False reads)))" by simp
  ultimately show ?thesis
    using k [of False] k [of True] by (intro exI [of _ "k False"] exI [of _ "k True"] conjI) simp_all
qed

definition dm_event :: "int \<Rightarrow> event" where
  "dm_event n = \<lparr>ev_type = CONTACT_MSG_RECV, ev_payload = PyInt n\<rparr>"

theorem watch_pass_sound_witness:
  "\<exists>a b. mset (inbox_entries id (take a (inbox_of False [(False, dm_event 1), (True, dm_event 1)])))
     = mset (inbox_entries id (take b (inbox_of True [(False, dm_event 1), (True, dm_event 1)])))
     \<and> 1 = length (inbox_entries id (take a (inbox_of False [(False, dm_event 1), (True, dm_event 1)])))"
proof -
  let ?w = "\<lparr>observed = (\<lambda>_. {#(CONTACT_MSG_RECV, PyInt 1)#}), kinds = (\<lambda>_. {CONTACT_MSG_RECV}), returned = (\<lambda>_. False)(True := True)\<rparr>"
  have "watch_reads id {CONTACT_MSG_RECV} [(False, dm_event 1), (True, dm_event 1)] watch_init = Inr ?w"
    by (auto simp: watch_read_def watch_record_def watch_init_def dm_event_def INBOX_TYPES_def satisfied_def Let_def fun_eq_iff)
  moreover have "watch_verdict {CONTACT_MSG_RECV} ?w = Inr 1" by (simp add: watch_verdict_def)
  ultimately show ?thesis using watch_pass_sound [of id "{CONTACT_MSG_RECV}"] by blast
qed

text \<open>The receive check can fail although both clients receive the same messages: when the second
  reader completes the match it returns, and a message that arrives before the first reader looks
  again is taken by the first reader only. The same two messages read one client after the other
  pass.\<close>

theorem watch_race:
  "(\<exists>w e. watch_reads id {CONTACT_MSG_RECV}
       [(False, dm_event 1), (True, dm_event 1), (False, dm_event 2), (True, dm_event 2)] watch_init = Inr w
     \<and> watch_verdict {CONTACT_MSG_RECV} w = Inl e)
   \<and> (\<exists>w. watch_reads id {CONTACT_MSG_RECV}
       [(False, dm_event 1), (False, dm_event 2), (True, dm_event 1), (True, dm_event 2)] watch_init = Inr w
     \<and> watch_verdict {CONTACT_MSG_RECV} w = Inr 2)"
  by (auto simp: watch_read_def watch_record_def watch_init_def dm_event_def INBOX_TYPES_def satisfied_def Let_def watch_verdict_def)

end
