(* ===== verification/Live_Reconnect.thy ===== *)
theory Live_Reconnect
  imports Relay_Session
begin

text \<open>
  The live reconnect check \<open>scripts/check_live_reconnect.py\<close>: two clients of the first upstream
  epoch, a fault injected by the relay (a completed drop, a withheld reply, or a paused contact
  list with a queued successor), two clients of the second epoch.

  A command started with \<open>asyncio.create_task\<close> is issued without waiting for its reply: \<open>start_call\<close>
  of the record \<open>task_view\<close>; \<open>join_calls\<close> is the \<open>gather\<close> that collects the tasks and ignores their
  outcomes. The response timeout is handed to the mux as text.
\<close>

section \<open>The code\<close>

record 'w task_view =
  start_call :: "nat \<Rightarrow> request \<Rightarrow> ('w, unit) py"
  join_calls :: "('w, unit) py"

record reconnect_args =
  rc_binary :: string
  rc_timeout :: int
  rc_response_timeout :: string
  rc_scenario :: string

record reconnect_report =
  rr_contacts_1 :: nat
  rr_contacts_2 :: nat
  rr_inbox_items :: nat

definition start_task :: "'w task_view \<Rightarrow> nat \<Rightarrow> request \<Rightarrow> ('w live, unit) py" where
  "start_task tasks client req = py_then (py_modify (\<lambda>s. s\<lparr>issued := issued s @ [(client, req)]\<rparr>))
     (on_env (start_call tasks client req))"

definition connect_pair :: "'w mesh_api \<Rightarrow> reconnect_args \<Rightarrow> int \<Rightarrow> ('w live, nat \<times> nat) py" where
  "connect_pair api args listen_port =
     py_bind (py_gather [connect api ''127.0.0.1'' listen_port (rc_timeout args),
                         connect api ''127.0.0.1'' listen_port (rc_timeout args)]) (\<lambda>pair.
     py_then (append_client (pair ! 0)) (py_then (append_client (pair ! 1)) (py_return (pair ! 0, pair ! 1))))"

definition inject_fault :: "'w relay_view \<Rightarrow> 'w task_view \<Rightarrow> string \<Rightarrow> nat \<times> nat \<Rightarrow> ('w live, unit) py" where
  "inject_fault view tasks scenario old =
     (if scenario = ''completed-drop'' then on_env (relay_op view (relay_drop 1))
      else if scenario = ''single-timeout'' then
        py_then (on_env (relay_op view (hold_next_response 1 0x09)))
        (py_then (start_task tasks (fst old) GetTime)
        (py_then (on_env (await_relay view (\<lambda>r. fault_reached r \<noteq> []) 8000 (wait_fault 1 0x09)))
        (start_task tasks (snd old) GetBat)))
      else if scenario = ''contacts-timeout'' then
        py_then (on_env (relay_op view (pause_after_response 1 0x03 1)))
        (py_then (start_task tasks (fst old) (GetContacts 20000))
        (py_then (on_env (await_relay view (\<lambda>r. fault_reached r \<noteq> []) 8000 (wait_fault 1 0x03)))
        (start_task tasks (snd old) GetBat)))
      else py_raise (AssertionError ''unknown scenario''))"

text \<open>After the disconnection: the relay reports the end of generation 1, in which the queued battery
  request must not have been forwarded.\<close>

definition check_old_epoch :: "'w relay_view \<Rightarrow> 'w task_view \<Rightarrow> ('w live, unit) py" where
  "check_old_epoch view tasks =
     py_bind (on_env (await_relay view (\<lambda>r. closed r \<noteq> []) 3000 take_closed)) (\<lambda>closed_generation.
     if closed_generation \<noteq> 1 then py_raise (AssertionError ''expected generation 1 to close'')
     else py_then (on_env (relay_op view (\<lambda>r. (Inr (), reset_faults r))))
       (py_then (on_env (loop_until view (\<lambda>r. True) 0))
       (py_bind (py_get (\<lambda>s. count_frames 1 CommandDir 0x14 (relay_of view (env s)))) (\<lambda>sent.
        if sent > 0 then py_raise (AssertionError ''queued GET_BATT_AND_STORAGE entered the ambiguous epoch'')
        else on_env (join_calls tasks)))))"

definition same_identity4 :: "'w mesh_api \<Rightarrow> nat \<times> nat \<Rightarrow> nat \<times> nat \<Rightarrow> ('w live, unit) py" where
  "same_identity4 api old fresh =
     py_bind (py_for [fst old, snd old, fst fresh, snd fresh] (public_key api)) (\<lambda>keys.
     py_assert (card (set keys) = 1) ''physical identity changed across reconnect gate'')"

definition INBOX_RESPONSES :: "byte list" where
  "INBOX_RESPONSES = [0x07, 0x08, 0x10, 0x11, 0x1B]"

definition inbox_items :: "relay \<Rightarrow> nat" where
  "inbox_items r = sum_list (map (\<lambda>(g, opcode). count_frames g ResponseDir opcode r) (List.product [1, 2] INBOX_RESPONSES))"

definition first_epoch :: "'w mux_host \<Rightarrow> 'w mesh_api \<Rightarrow> 'w relay_view \<Rightarrow> reconnect_args \<Rightarrow> int \<Rightarrow> nat
    \<Rightarrow> ('w live, (nat \<times> nat) \<times> read_only_result list) py" where
  "first_epoch host api view args listen_port process =
     py_then (expect_connection view 1) (py_then (expect_ready host process 0 1)
     (py_bind (connect_pair api args listen_port) (\<lambda>old.
      py_bind (query_pair api (fst old) (snd old)) (\<lambda>results.
      py_bind (public_key api (fst old)) (\<lambda>k1. py_bind (public_key api (snd old)) (\<lambda>k2.
      if k1 \<noteq> k2 then py_raise (AssertionError ''generation 1 clients observed different identities'')
      else py_return (old, results)))))))"

definition fault_epoch :: "'w mesh_api \<Rightarrow> 'w relay_view \<Rightarrow> 'w task_view \<Rightarrow> reconnect_args \<Rightarrow> nat \<times> nat \<Rightarrow> ('w live, unit) py" where
  "fault_epoch api view tasks args old =
     py_then (inject_fault view tasks (rc_scenario args) old)
     (py_then (py_bind (py_gather [on_env (wait_disconnected api (fst old) (rc_timeout args)),
          on_env (wait_disconnected api (snd old) (rc_timeout args))]) (\<lambda>_. py_return ()))
     (py_when (rc_scenario args \<noteq> ''completed-drop'') (check_old_epoch view tasks)))"

definition second_epoch :: "'w mux_host \<Rightarrow> 'w mesh_api \<Rightarrow> 'w relay_view \<Rightarrow> reconnect_args \<Rightarrow> int \<Rightarrow> nat \<Rightarrow> nat \<times> nat
    \<Rightarrow> ('w live, (nat \<times> nat) \<times> read_only_result list) py" where
  "second_epoch host api view args listen_port process old =
     py_then (expect_connection view 2) (py_then (expect_ready host process 1 2)
     (py_bind (connect_pair api args listen_port) (\<lambda>fresh.
      py_bind (query_pair api (fst fresh) (snd fresh)) (\<lambda>results.
      py_then (same_identity4 api old fresh) (py_return (fresh, results))))))"

definition reconnect_body :: "'w mux_host \<Rightarrow> 'w mesh_api \<Rightarrow> 'w relay_view \<Rightarrow> 'w task_view \<Rightarrow> reconnect_args \<Rightarrow> int \<Rightarrow> nat
    \<Rightarrow> ('w live, reconnect_report) py" where
  "reconnect_body host api view tasks args listen_port process =
     py_bind (first_epoch host api view args listen_port process) (\<lambda>(old, old_results).
     py_then (fault_epoch api view tasks args old)
     (py_bind (second_epoch host api view args listen_port process old) (\<lambda>(fresh, fresh_results).
      py_bind (py_get (\<lambda>s. inbox_items (relay_of view (env s)))) (\<lambda>items.
      py_return \<lparr>rr_contacts_1 = ro_contacts (old_results ! 0), rr_contacts_2 = ro_contacts (fresh_results ! 0),
        rr_inbox_items = items\<rparr>))))"

definition reconnect_run :: "'w mux_host \<Rightarrow> 'w mesh_api \<Rightarrow> 'w relay_view \<Rightarrow> 'w task_view \<Rightarrow> reconnect_args
    \<Rightarrow> ('w live, reconnect_report) py" where
  "reconnect_run host api view tasks args = mux_session host api (rc_binary args) (close_relay view)
     (prepare_relayed host view (rc_binary args) [''--response-timeout'', rc_response_timeout args])
     (reconnect_body host api view tasks args)"

section \<open>The relay during the fault\<close>

text \<open>
  What the script relies on: whatever happens while the event loop runs, the relay only takes its
  own steps (\<open>st\<close> is its state with the owner of the lock), and an operation of the script on the
  relay's attributes leaves the lock alone.
\<close>

definition moves :: "('w \<Rightarrow> relay \<times> nat option) \<Rightarrow> ('w, 'a) py \<Rightarrow> bool" where
  "moves st m \<longleftrightarrow> (\<forall>w. relay_step\<^sup>*\<^sup>* (st w) (st (snd (m w))))"

definition relay_contract :: "'w mesh_api \<Rightarrow> 'w relay_view \<Rightarrow> 'w task_view \<Rightarrow> ('w \<Rightarrow> relay \<times> nat option) \<Rightarrow> bool" where
  "relay_contract api view tasks st \<longleftrightarrow>
     (\<forall>w. fst (st w) = relay_of view w) \<and> (\<forall>r w. st (set_relay view r w) = (r, snd (st w)))
     \<and> (\<forall>cond t. moves st (loop_until view cond t)) \<and> (\<forall>c req. moves st (start_call tasks c req))
     \<and> moves st (join_calls tasks) \<and> (\<forall>c t. moves st (wait_disconnected api c t))"

definition relay_order :: "('w \<Rightarrow> relay \<times> nat option) \<Rightarrow> 'w live \<Rightarrow> 'w live \<Rightarrow> bool" where
  "relay_order st s s' \<longleftrightarrow> relay_step\<^sup>*\<^sup>* (st (env s)) (st (env s'))"

interpretation course: world_order "relay_order st" for st
  by unfold_locales (auto simp: relay_order_def)

lemma moves_relay_op:
  assumes "relay_contract api view tasks st" "\<And>r lock. relay_step (r, lock) (snd (m r), lock)"
  shows "moves st (relay_op view m)"
  unfolding moves_def
proof
  fix w
  obtain x r where m: "m (relay_of view w) = (x, r)" by fastforce
  have "st w = (relay_of view w, snd (st w))" using assms(1) by (metis relay_contract_def prod.collapse)
  moreover have "st (set_relay view r w) = (r, snd (st w))" using assms(1) by (simp add: relay_contract_def)
  moreover have "relay_step (relay_of view w, snd (st w)) (r, snd (st w))" using assms(2) [of "relay_of view w"] m by simp
  ultimately show "relay_step\<^sup>*\<^sup>* (st w) (st (snd (relay_op view m w)))" using m by (simp add: relay_op_def r_into_rtranclp)
qed

lemma moves_then: "moves st m \<Longrightarrow> moves st n \<Longrightarrow> moves st (py_then m n)"
  unfolding moves_def py_then_def py_bind_def
  by (auto split: prod.splits sum.splits) (metis rtranclp_trans snd_conv)+

lemma course_on_env: "moves st m \<Longrightarrow> py_keeps (relay_order st) (on_env m)"
  by (auto simp: moves_def py_keeps_def relay_order_def on_env_def split: prod.splits) (metis snd_conv)

lemma course_start_task:
  assumes "relay_contract api view tasks st"
  shows "py_keeps (relay_order st) (start_task tasks c req)"
proof -
  have "py_keeps (relay_order st) (py_modify (\<lambda>s. s\<lparr>issued := f s\<rparr>))" for f
    by (simp add: py_keeps_def py_modify_def relay_order_def)
  then show ?thesis unfolding start_task_def
    using assms by (intro course.keeps_then course_on_env) (simp_all add: relay_contract_def)
qed

lemma moves_await:
  assumes "relay_contract api view tasks st" "\<And>r lock. relay_step (r, lock) (snd (m r), lock)"
  shows "moves st (await_relay view cond t m)"
  unfolding await_relay_def using assms(1)
  by (intro moves_then moves_relay_op [OF assms]) (simp add: relay_contract_def)

lemma relay_steps:
  "relay_step (r, lock) (snd (hold_next_response g op r), lock)"
  "relay_step (r, lock) (snd (pause_after_response g op n r), lock)"
  "relay_step (r, lock) (snd (wait_fault g op r), lock)"
  "relay_step (r, lock) (snd (take_closed r), lock)"
  "relay_step (r, lock) (reset_faults r, lock)"
  by (metis relay_step.hold_step prod.collapse, metis relay_step.pause_step prod.collapse, metis relay_step.wait_step prod.collapse,
      metis relay_step.take_step prod.collapse, rule relay_step.reset_step)

lemma course_inject:
  assumes "relay_contract api view tasks st" "scenario \<noteq> ''completed-drop''"
  shows "py_keeps (relay_order st) (inject_fault view tasks scenario old)"
proof -
  note op = course_on_env [OF moves_relay_op [OF assms(1)]] and await = course_on_env [OF moves_await [OF assms(1)]]
  note start = course_start_task [OF assms(1)]
  show ?thesis unfolding inject_fault_def using assms(2)
    by (simp only: if_False) (intro course.keeps_if course.keeps_then course.keeps_raise start
        op [OF relay_steps(1)] op [OF relay_steps(2)] await [OF relay_steps(3)])
qed

lemma course_waits:
  assumes "relay_contract api view tasks st"
  shows "py_keeps (relay_order st) (py_bind (py_gather [on_env (wait_disconnected api a t), on_env (wait_disconnected api b t)]) (\<lambda>_. py_return ()))"
  using assms by (intro course.keeps_bind course.keeps_gather course.keeps_return) (auto intro: course_on_env simp: relay_contract_def)

text \<open>In every state of the relay that follows the check of the old epoch, generation 1 has forwarded
  no battery request.\<close>

lemma old_epoch_final:
  assumes c: "relay_contract api view tasks st" and inv: "relay_inv (st (env s))"
    and ok: "check_old_epoch view tasks s = (Inr (), s')" and later: "relay_step\<^sup>*\<^sup>* (st (env s')) t"
  shows "count_frames 1 CommandDir 0x14 (fst (st (env s))) = 0 \<and> count_frames 1 CommandDir 0x14 (fst t) = 0"
proof -
  have lens: "fst (st w) = relay_of view w" "st (set_relay view r w) = (r, snd (st w))" for w r
    using c by (auto simp: relay_contract_def)
  have put: "relay_of view (set_relay view r w) = r" for r w using lens by (metis fst_conv)
  have loops: "relay_step\<^sup>*\<^sup>* (st w) (st (snd (loop_until view cond timeout w)))" "relay_step\<^sup>*\<^sup>* (st w) (st (snd (join_calls tasks w)))" for cond timeout w
    using c by (auto simp: relay_contract_def moves_def)
  obtain u1 w1 where l1: "loop_until view (\<lambda>r. closed r \<noteq> []) 3000 (env s) = (u1, w1)" by fastforce
  obtain rest where closed: "closed (relay_of view w1) = 1 # rest" and u1: "u1 = Inr ()"
    using ok l1 by (auto simp: check_old_epoch_def await_relay_def relay_op_def take_closed_def on_env_def py_defs
        split: prod.splits sum.splits list.splits if_splits)
  let ?r1 = "reset_faults ((relay_of view w1)\<lparr>closed := rest\<rparr>)"
  let ?w2 = "set_relay view ?r1 (set_relay view ((relay_of view w1)\<lparr>closed := rest\<rparr>) w1)"
  obtain u3 w3 where l3: "loop_until view (\<lambda>r. True) 0 ?w2 = (u3, w3)" by fastforce
  obtain u4 w4 where l4: "join_calls tasks w3 = (u4, w4)" by fastforce
  have zero: "count_frames 1 CommandDir 0x14 (relay_of view w3) = 0" and over: "env s' = w4"
    using ok l1 l3 l4 closed u1 put
    by (auto simp: check_old_epoch_def await_relay_def relay_op_def take_closed_def on_env_def py_defs
        split: prod.splits sum.splits list.splits if_splits)
  have s1: "relay_step\<^sup>*\<^sup>* (st (env s)) (st w1)" using loops(1) l1 by (metis snd_conv)
  have inv1: "relay_inv (st w1)" using s1 inv by (induction rule: rtranclp_induct) (auto intro: relay_step_inv)
  then have retired: "1 \<le> relay_generation (fst (st w1)) \<and> snd (st w1) \<noteq> Some 1"
    using closed lens(1) [of w1] by (cases "st w1") (auto simp: relay_inv_def)
  have w1: "st w1 = (relay_of view w1, snd (st w1))" using lens(1) by (metis prod.collapse)
  have "relay_step (st w1) ((relay_of view w1)\<lparr>closed := rest\<rparr>, snd (st w1))"
    using relay_step.take_step [of "relay_of view w1" "Inr 1" "(relay_of view w1)\<lparr>closed := rest\<rparr>" "snd (st w1)"] closed w1
    by (simp add: take_closed_def)
  moreover have "relay_step ((relay_of view w1)\<lparr>closed := rest\<rparr>, snd (st w1)) (st ?w2)"
    using lens(2) relay_step.reset_step by simp
  ultimately have s2: "relay_step\<^sup>*\<^sup>* (st w1) (st ?w2)" by (meson converse_rtranclp_into_rtranclp r_into_rtranclp)
  have s3: "relay_step\<^sup>*\<^sup>* (st ?w2) (st w3)" using loops(1) l3 by (metis snd_conv)
  have s4: "relay_step\<^sup>*\<^sup>* (st w3) t" using loops(2) [of w3] l4 later over by (metis rtranclp_trans snd_conv)
  have all: "relay_step\<^sup>*\<^sup>* (st w1) (st w3)" using s2 s3 by (rule rtranclp_trans)
  from retired_generation_final [OF all inv1] retired
  have inv3: "relay_inv (st w3)" "1 \<le> relay_generation (fst (st w3)) \<and> snd (st w3) \<noteq> Some 1" by auto
  have "count_frames 1 CommandDir 0x14 (fst (st (env s))) \<le> count_frames 1 CommandDir 0x14 (fst (st w3))"
    by (rule relay_counts_mono) (use s1 all in \<open>rule rtranclp_trans\<close>)
  then show ?thesis
    using retired_generation_final [OF s4 inv3(1), of 1 CommandDir "0x14"] inv3(2) zero lens(1) by auto
qed

section \<open>What a complete run has asked for\<close>

text \<open>The requests a computation has issued when it returns.\<close>

definition appends :: "(nat \<times> request) list \<Rightarrow> ('w live, 'a) py \<Rightarrow> bool" where
  "appends xs m \<longleftrightarrow> (\<forall>s v s'. m s = (Inr v, s') \<longrightarrow> issued s' = issued s @ xs \<and> active_clients s' = active_clients s)"

lemma appendsD: "appends xs m \<Longrightarrow> m s = (Inr v, s') \<Longrightarrow> issued s' = issued s @ xs \<and> active_clients s' = active_clients s"
  by (simp add: appends_def)

lemma appends_bind:
  assumes "appends xs m" "\<And>v. appends ys (f v)"
  shows "appends (xs @ ys) (py_bind m f)"
  unfolding appends_def
proof (intro allI impI)
  fix s v s' assume "py_bind m f s = (Inr v, s')"
  then obtain x s1 where "m s = (Inr x, s1)" "f x s1 = (Inr v, s')" by (auto simp: py_bind_Inr)
  with appendsD [OF assms(1)] appendsD [OF assms(2)]
  show "issued s' = issued s @ xs @ ys \<and> active_clients s' = active_clients s" by fastforce
qed

lemma appends_then: "appends xs m \<Longrightarrow> appends ys n \<Longrightarrow> appends (xs @ ys) (py_then m n)"
  unfolding py_then_def by (rule appends_bind)

lemma appends_nil:
  "appends [] (py_return v)" "appends xs (py_raise e)" "appends [] (py_lift r)" "appends [] (py_get g)" "appends [] (on_env m)"
  "appends [] (require_event event ty)" "appends [] (py_assert b msg)"
  by (auto simp: appends_def on_env_def require_event_def py_defs split: prod.splits option.splits if_splits)

lemma appends_call: "appends [(c, req)] (call api c req)"
  by (auto simp: appends_def call_def on_env_def py_defs split: prod.splits)

lemma appends_skip: "appends [] m \<Longrightarrow> (\<And>v. appends ys (f v)) \<Longrightarrow> appends ys (py_bind m f)"
  using appends_bind [of "[]" m ys f] by simp

lemma appends_issue: "(\<And>v. appends ys (f v)) \<Longrightarrow> appends ((c, req) # ys) (py_bind (call api c req) f)"
  using appends_bind [OF appends_call, of ys f c req api] by simp

lemma appends_if: "(b \<Longrightarrow> appends xs m) \<Longrightarrow> (\<not> b \<Longrightarrow> appends xs n) \<Longrightarrow> appends xs (if b then m else n)"
  by simp

definition query_plan :: "nat \<Rightarrow> (nat \<times> request) list" where
  "query_plan c = [(c, SendDeviceQuery), (c, GetTime), (c, GetContacts 10000)]"

lemma appends_query: "appends (query_plan c) (query_read_only api c)"
  unfolding query_read_only_def query_plan_def
  by (intro appends_issue appends_skip [OF appends_nil(6)] appends_skip [OF appends_nil(3)] appends_if appends_nil)
    (auto split: pyval.splits intro!: appends_nil appends_if appends_issue appends_skip [OF appends_nil(6)] appends_skip [OF appends_nil(3)])

lemma appends_gather2:
  assumes "appends xs m" "appends ys n"
  shows "appends (xs @ ys) (py_gather [m, n])"
  unfolding appends_def
proof (intro allI impI)
  fix s v s' assume "py_gather [m, n] s = (Inr v, s')"
  then obtain x y s1 where "m s = (Inr x, s1)" "n s1 = (Inr y, s')"
    by (auto simp: py_return_def split: prod.splits sum.splits)
  with appendsD [OF assms(1)] appendsD [OF assms(2)]
  show "issued s' = issued s @ xs @ ys \<and> active_clients s' = active_clients s" by fastforce
qed

lemma appends_query_pair: "appends (query_plan a @ query_plan b) (query_pair api a b)"
proof -
  have "appends ((query_plan a @ query_plan b) @ []) (query_pair api a b)" unfolding query_pair_def
    by (intro appends_bind appends_gather2 appends_query appends_if appends_nil)
  then show ?thesis by simp
qed

lemma appends_wait_ready: "appends [] (wait_ready host p taken timeout)"
  unfolding wait_ready_def by (intro appends_skip [OF appends_nil(5)] appends_skip [OF appends_nil(4)] appends_if appends_nil)

lemma appends_expect: "appends [] (expect_connection view n)" "appends [] (expect_ready host p taken n)"
  unfolding expect_connection_def expect_ready_def by (intro appends_nil appends_skip [OF appends_wait_ready])+

lemma appends_public_key: "appends [] (public_key api c)"
  by (auto simp: appends_def public_key_def py_defs split: option.splits)

definition fault_plan :: "string \<Rightarrow> nat \<times> nat \<Rightarrow> (nat \<times> request) list" where
  "fault_plan scenario old = (if scenario = ''single-timeout'' then [(fst old, GetTime), (snd old, GetBat)]
     else if scenario = ''contacts-timeout'' then [(fst old, GetContacts 20000), (snd old, GetBat)] else [])"

lemma appends_start: "appends [(c, req)] (start_task tasks c req)"
  by (auto simp: appends_def start_task_def on_env_def py_defs split: prod.splits)

lemma appends_skip_then: "appends [] m \<Longrightarrow> appends ys n \<Longrightarrow> appends ys (py_then m n)"
  using appends_then [of "[]" m ys n] by simp

lemma appends_start_then: "appends ys n \<Longrightarrow> appends ((c, req) # ys) (py_then (start_task tasks c req) n)"
  using appends_then [OF appends_start, of ys n c req tasks] by simp

lemma appends_inject: "appends (fault_plan scenario old) (inject_fault view tasks scenario old)"
  unfolding inject_fault_def fault_plan_def
  by (auto intro!: appends_nil appends_skip_then appends_start_then appends_start)

lemma appends_check_old: "appends [] (check_old_epoch view tasks)"
  unfolding check_old_epoch_def
  by (intro appends_skip [OF appends_nil(5)] appends_if appends_nil appends_skip_then appends_skip [OF appends_nil(4)])

lemma appends_fault_epoch: "appends (fault_plan (rc_scenario args) old) (fault_epoch api view tasks args old)"
proof -
  have "appends ([] @ []) (py_gather [on_env a, on_env b])" for a b :: "('a, unit) py"
    by (intro appends_gather2 appends_nil)
  then have "appends [] (py_then (py_bind (py_gather [on_env a, on_env b]) (\<lambda>_. py_return ()))
      (py_when c (check_old_epoch view tasks)))" for a b :: "('a, unit) py" and c
    by (intro appends_skip_then appends_skip appends_nil) (simp_all add: py_when_def appends_check_old appends_nil)
  from appends_then [OF appends_inject this] show ?thesis unfolding fault_epoch_def by simp
qed

lemma appends_same_identity: "appends [] (same_identity4 api old fresh)"
proof -
  have "appends [] (py_for cs (public_key api))" for cs
    by (induction cs) (auto intro!: appends_nil appends_skip appends_public_key)
  then show ?thesis unfolding same_identity4_def by (intro appends_skip appends_nil)
qed

lemma connect_pair_state:
  assumes "connect_pair api args port s = (Inr v, s')"
  shows "issued s' = issued s \<and> active_clients s' = active_clients s @ [fst v, snd v]"
proof -
  have "appends ([] @ []) (py_gather [connect api h p t, connect api h p t])" for h p t
    by (intro appends_gather2) (auto simp: appends_def connect_def on_env_def py_defs split: prod.splits sum.splits option.splits if_splits)
  then have g: "appends [] (py_gather [connect api h p t, connect api h p t])" for h p t by simp
  from assms obtain pair s1 where "py_gather [connect api ''127.0.0.1'' port (rc_timeout args), connect api ''127.0.0.1'' port (rc_timeout args)] s
      = (Inr pair, s1)" "v = (pair ! 0, pair ! 1)" "issued s' = issued s1" "active_clients s' = active_clients s1 @ [pair ! 0, pair ! 1]"
    by (auto simp: connect_pair_def py_bind_Inr py_then_Inr append_client_def py_modify_def py_return_def simp del: py_gather.simps)
  with appendsD [OF g] show ?thesis by fastforce
qed

lemma reconnect_body_trace:
  assumes "reconnect_body host api view tasks args port process s = (Inr report, s')"
  shows "\<exists>old fresh. issued s' = issued s @ query_plan (fst old) @ query_plan (snd old) @ fault_plan (rc_scenario args) old
      @ query_plan (fst fresh) @ query_plan (snd fresh)
    \<and> active_clients s' = active_clients s @ [fst old, snd old, fst fresh, snd fresh]"
proof -
  from assms obtain old res s1 s2 fresh res' s3 where
      first: "first_epoch host api view args port process s = (Inr (old, res), s1)"
      and fault: "fault_epoch api view tasks args old s1 = (Inr (), s2)"
      and second: "second_epoch host api view args port process old s2 = (Inr (fresh, res'), s3)" and s3: "s' = s3"
    by (auto simp: reconnect_body_def py_bind_Inr py_then_Inr py_get_def py_return_def)
  from first obtain a b c where a: "expect_connection view 1 s = (Inr (), a)" "expect_ready host process 0 1 a = (Inr (), b)"
      "connect_pair api args port b = (Inr old, c)"
      "py_bind (query_pair api (fst old) (snd old)) (\<lambda>results. py_bind (public_key api (fst old)) (\<lambda>k1. py_bind (public_key api (snd old)) (\<lambda>k2.
        if k1 \<noteq> k2 then py_raise (AssertionError ''generation 1 clients observed different identities'') else py_return (old, results)))) c = (Inr (old, res), s1)"
    by (auto simp: first_epoch_def py_then_Inr py_bind_Inr py_return_def py_raise_def split: if_splits)
  have q: "appends ((query_plan (fst p) @ query_plan (snd p)) @ []) (py_bind (query_pair api (fst p) (snd p)) (\<lambda>results. py_bind (public_key api (fst p))
      (\<lambda>k1. py_bind (public_key api (snd p)) (\<lambda>k2. if k1 \<noteq> k2 then py_raise e else py_return (p, results)))))" for p e
    by (intro appends_bind [OF appends_query_pair] appends_skip [OF appends_public_key] appends_if appends_nil)
  have one: "issued s1 = issued s @ query_plan (fst old) @ query_plan (snd old) \<and> active_clients s1 = active_clients s @ [fst old, snd old]"
    using appendsD [OF appends_expect(1) a(1)] appendsD [OF appends_expect(2) a(2)] connect_pair_state [OF a(3)] appendsD [OF q a(4)] by simp
  from second obtain a' b' c' d' where b: "expect_connection view 2 s2 = (Inr (), a')" "expect_ready host process 1 2 a' = (Inr (), b')"
      "connect_pair api args port b' = (Inr fresh, c')" "query_pair api (fst fresh) (snd fresh) c' = (Inr res', d')"
      "same_identity4 api old fresh d' = (Inr (), s3)"
    by (auto simp: second_epoch_def py_then_Inr py_bind_Inr py_return_def)
  have "issued s3 = issued s2 @ query_plan (fst fresh) @ query_plan (snd fresh) \<and> active_clients s3 = active_clients s2 @ [fst fresh, snd fresh]"
    using appendsD [OF appends_expect(1) b(1)] appendsD [OF appends_expect(2) b(2)] connect_pair_state [OF b(3)]
      appendsD [OF appends_query_pair b(4)] appendsD [OF appends_same_identity b(5)] by simp
  with one appendsD [OF appends_fault_epoch fault] s3 show ?thesis by fastforce
qed

section \<open>Properties\<close>

text \<open>C38. The fault scenarios of the reconnect check are conclusive: a run that passes the old epoch
  shows that the queued battery request was not forwarded to the companion in the first generation,
  neither before the check nor at any later moment of the relay, whose counters only grow and are
  final for a generation that has released the physical lock.\<close>

theorem reconnect_old_epoch_clean:
  assumes "relay_contract api view tasks st" "relay_inv (st (env s))" "rc_scenario args \<noteq> ''completed-drop''"
    and "fault_epoch api view tasks args old s = (Inr (), s')" "relay_step\<^sup>*\<^sup>* (st (env s')) (r, lock)"
  shows "count_frames 1 CommandDir 0x14 (relay_of view (env s)) = 0 \<and> count_frames 1 CommandDir 0x14 r = 0"
proof -
  from assms(4) obtain s1 s2 where inject: "inject_fault view tasks (rc_scenario args) old s = (Inr (), s1)"
      and waits: "py_bind (py_gather [on_env (wait_disconnected api (fst old) (rc_timeout args)),
        on_env (wait_disconnected api (snd old) (rc_timeout args))]) (\<lambda>_. py_return ()) s1 = (Inr (), s2)"
      and check: "check_old_epoch view tasks s2 = (Inr (), s')"
    using assms(3) by (auto simp: fault_epoch_def py_then_Inr py_when_def simp del: py_gather.simps)
  have "relay_step\<^sup>*\<^sup>* (st (env s)) (st (env s1))"
    using py_keepsD [OF course_inject [OF assms(1,3)], of s old] inject by (simp add: relay_order_def)
  moreover have "relay_step\<^sup>*\<^sup>* (st (env s1)) (st (env s2))"
    using py_keepsD [OF course_waits [OF assms(1)], of s1] waits by (metis relay_order_def snd_conv)
  ultimately have course: "relay_step\<^sup>*\<^sup>* (st (env s)) (st (env s2))" by (rule rtranclp_trans)
  then have "relay_inv (st (env s2))" using assms(2) by (induction rule: rtranclp_induct) (auto intro: relay_step_inv)
  from old_epoch_final [OF assms(1) this check assms(5)] relay_counts_mono [OF course, of 1 CommandDir "0x14"]
  show ?thesis using assms(1) by (simp add: relay_contract_def)
qed

text \<open>C39. The report of the reconnect check is true: a run that returns has issued exactly the four
  read-only query sets, two per epoch, and the requests of its fault scenario in between, nothing
  that makes the companion transmit, and all four of its clients have been disconnected.\<close>

theorem reconnect_exact_requests:
  assumes "reconnect_run host api view tasks args s = (Inr report, s')"
  shows "\<exists>old fresh. issued s' = issued s @ query_plan (fst old) @ query_plan (snd old) @ fault_plan (rc_scenario args) old
      @ query_plan (fst fresh) @ query_plan (snd fresh)
    \<and> {fst old, snd old, fst fresh, snd fresh} \<subseteq> set (disconnected s')
    \<and> list_all (\<lambda>x. \<not> is_radio_send (snd x)) (drop (length (issued s)) (issued s'))"
proof -
  obtain port process s1 s2 where launch: "mux_launch host (prepare_relayed host view (rc_binary args)
        [''--response-timeout'', rc_response_timeout args]) s = (Inr (port, process), s1)"
      and body: "reconnect_body host api view tasks args port process s1 = (Inr report, s2)"
      and cleanup: "mux_cleanup host api (close_relay view) (Some process) s2 = (Inr (), s')"
    using session_Inr [OF assms [unfolded reconnect_run_def]] by blast
  have l: "appends [] (mux_launch host (prepare_relayed host view binary options))" for binary options
    unfolding mux_launch_def prepare_relayed_def
    by (intro appends_skip [OF appends_skip [OF appends_nil(5)]]) (auto intro!: appends_nil appends_skip split: prod.splits)
  from reconnect_body_trace [OF body] obtain old fresh where
    t: "issued s2 = issued s1 @ query_plan (fst old) @ query_plan (snd old) @ fault_plan (rc_scenario args) old
        @ query_plan (fst fresh) @ query_plan (snd fresh)" "active_clients s2 = active_clients s1 @ [fst old, snd old, fst fresh, snd fresh]"
    by blast
  have "issued s' = issued s2 \<and> set (active_clients s2) \<subseteq> set (disconnected s')"
    using cleanup_disconnects [OF cleanup] .
  with t appendsD [OF l launch] show ?thesis
    by (intro exI [of _ old] exI [of _ fresh]) (auto simp: query_plan_def fault_plan_def)
qed

section \<open>A complete run\<close>

text \<open>
  A world with the relay, the owner of its lock and the number of clients, in which the event loop
  opens the next connection, answers one time request, and closes the connection of a mux that waits
  in vain.
\<close>

type_synonym recon_world = "relay \<times> nat option \<times> nat"

definition recon_loop :: "(relay \<Rightarrow> bool) \<Rightarrow> int \<Rightarrow> (recon_world, unit) py" where
  "recon_loop cond timeout w = (case w of (r, lock, n) \<Rightarrow> (Inr (),
     if cond r then w
     else case lock of
         None \<Rightarrow> (fst (handle_open (Inr ()) r), snd (handle_open (Inr ()) r), n)
       | Some g \<Rightarrow> if hold_response r \<noteq> None then (fst (snd (pump_drain g ResponseDir 0x3E r [0x3E, 1, 0, 9])), lock, n)
           else (handle_finish g r, None, n)))"

definition recon_view :: "recon_world relay_view" where
  "recon_view = \<lparr>relay_of = fst, set_relay = \<lambda>r w. (r, snd w), relay_start = py_return 6001, loop_until = recon_loop\<rparr>"

definition recon_tasks :: "recon_world task_view" where
  "recon_tasks = \<lparr>start_call = \<lambda>c req. py_return (), join_calls = py_return ()\<rparr>"

definition recon_host :: "recon_world mux_host" where
  "recon_host = \<lparr>binary_executable = \<lambda>b w. True, reserve_port = py_return 5001, spawn = \<lambda>args. py_return 7,
     has_stderr = \<lambda>p w. True, returncode = \<lambda>p w. Some 0, send_sigterm = \<lambda>p. py_return (),
     wait_process = \<lambda>p t. py_return (), kill_process = \<lambda>p. py_return (),
     stderr_lines = \<lambda>p w. [''INFO event=upstream.ready epoch=1 remote=a'', ''INFO event=upstream.ready epoch=2 remote=a''],
     stderr_wait = \<lambda>p t. py_return (), stderr_join = \<lambda>p. py_return ()\<rparr>"

fun recon_reply :: "request \<Rightarrow> event" where
  "recon_reply SendDeviceQuery = \<lparr>ev_type = DEVICE_INFO, ev_payload = PyDict [(''fw ver'', PyInt 14)]\<rparr>"
| "recon_reply GetTime = \<lparr>ev_type = CURRENT_TIME, ev_payload = PyDict [(''time'', PyInt 5)]\<rparr>"
| "recon_reply other = \<lparr>ev_type = CONTACTS, ev_payload = PyDict []\<rparr>"

definition recon_api :: "recon_world mesh_api" where
  "recon_api = \<lparr>create_tcp = \<lambda>host port timeout w. (Inr (Some (snd (snd w))), (fst w, fst (snd w), snd (snd w) + 1)),
     self_info_key = \<lambda>c w. Some (replicate 64 CHR ''a''),
     is_connected = \<lambda>c w. True, client_call = \<lambda>c r. py_return (Some (recon_reply r)),
     client_disconnect = \<lambda>c. py_return (), delivered_acks = \<lambda>t. py_return [],
     wait_disconnected = \<lambda>c t. py_return (), register_waiter = \<lambda>c ty fs t. py_return 0,
     wait_first = \<lambda>ws t. py_return ([], ws), cancel_waiters = \<lambda>ws. py_return (), loop_time = \<lambda>w. 0, loop_sleep = \<lambda>ms w. w\<rparr>"

definition recon_args :: reconnect_args where
  "recon_args = \<lparr>rc_binary = ''mux'', rc_timeout = 10000, rc_response_timeout = ''1.0'', rc_scenario = ''single-timeout''\<rparr>"

definition recon_start :: "recon_world live" where
  "recon_start = \<lparr>env = (relay_init, None, 0), active_clients = [], send_limit = 0, send_used = 0, marker_sequence = 0,
     ack_queues = [], opened = [], disconnected = [], issued = []\<rparr>"

definition recon_state :: "recon_world \<Rightarrow> relay \<times> nat option" where
  "recon_state w = (fst w, fst (snd w))"

lemma recon_contract: "relay_contract recon_api recon_view recon_tasks recon_state"
proof -
  have "moves recon_state (recon_loop cond t)" for cond t
    unfolding moves_def
  proof
    fix w :: recon_world
    obtain r lock n where w: "w = (r, lock, n)" by (cases w)
    have "relay_step (r, None) (handle_open (Inr ()) r)" by (metis relay_step.open_step prod.collapse)
    moreover have "relay_step (r, Some g) (fst (snd (pump_drain g dir m r bs)), Some g)" for g dir m bs
      by (metis relay_step.pump_step prod.collapse)
    ultimately show "relay_step\<^sup>*\<^sup>* (recon_state w) (recon_state (snd (recon_loop cond t w)))"
      by (auto simp: recon_loop_def recon_state_def w split: option.splits intro: relay_step.finish_step)
  qed
  then show ?thesis
    by (simp add: relay_contract_def recon_state_def recon_view_def recon_tasks_def recon_api_def)
      (simp add: moves_def py_return_def)
qed

lemma recon_epochs: "ready_epochs recon_host p w = [1, 2]"
  unfolding ready_epochs_def recon_host_def by (simp only: mux_host.simps) code_simp

lemma recon_ready: "wait_ready recon_host p taken timeout s = (if taken < 2 then (Inr ([1, 2] ! taken), s) else (Inl PyTimeoutError, s))"
proof -
  have "on_env (stderr_wait recon_host p timeout) s = (Inr (), s)"
    by (simp add: recon_host_def on_env_def py_return_def)
  then show ?thesis by (simp add: wait_ready_def py_bind_def py_get_def recon_epochs py_return_def py_raise_def)
qed

definition recon_open :: relay where
  "recon_open = relay_init\<lparr>active := Some 1, relay_generation := 1\<rparr>"

lemmas recon_defs = recon_view_def recon_loop_def recon_tasks_def recon_api_def recon_args_def recon_start_def
  relay_op_def await_relay_def on_env_def handle_open_def handle_finish_def

lemma recon_first: "first_epoch recon_host recon_api recon_view recon_args port 7 recon_start
    = (Inr ((0, 1), [\<lparr>ro_protocol = 14, ro_contacts = 0, ro_time = 5\<rparr>, \<lparr>ro_protocol = 14, ro_contacts = 0, ro_time = 5\<rparr>]),
       recon_start\<lparr>env := (recon_open, Some 1, 2), active_clients := [0, 1], opened := [1, 0], issued := query_plan 0 @ query_plan 1\<rparr>)"
  by (simp add: first_epoch_def expect_connection_def expect_generation_def expect_ready_def recon_ready connect_pair_def connect_def
      append_client_def query_pair_def query_read_only_def call_def require_event_def py_dict_get_def py_int_def public_key_def
      recon_defs relay_init_def recon_open_def query_plan_def py_bind_def py_then_def py_return_def py_modify_def py_get_def
      py_lift_def py_raise_def py_assert_def Let_def numeral_2_eq_2)

definition recon_frame :: relay_frame where
  "recon_frame = \<lparr>rf_generation = 1, rf_direction = ResponseDir, rf_opcode = 9, rf_bytes = 4\<rparr>"

lemma recon_pump: "pump_drain 1 ResponseDir 0x3E (recon_open\<lparr>hold_response := Some (1, 9)\<rparr>) [0x3E, 1, 0, 9]
    = ([], record_frame recon_frame (recon_open\<lparr>fault_reached := [recon_frame]\<rparr>), Inr [])"
proof -
  have "header_size [0x3E, 1, 0, 9] = 1" by code_simp
  moreover have "forward_frame 1 ResponseDir [0x3E, 1, 0, 9] (recon_open\<lparr>hold_response := Some (1, 9)\<rparr>)
      = ([], record_frame recon_frame (recon_open\<lparr>fault_reached := [recon_frame]\<rparr>))"
    by (simp add: forward_frame_def recon_frame_def recon_open_def relay_init_def withhold_def record_frame_def count_frames_def Let_def eval_nat_numeral)
  ultimately show ?thesis by (subst pump_drain.simps) (simp add: pump_drain.simps [of _ _ _ _ "[]"])
qed

definition recon_old :: "recon_world live" where
  "recon_old = recon_start\<lparr>env := (recon_open, Some 1, 2), active_clients := [0, 1], opened := [1, 0], issued := query_plan 0 @ query_plan 1\<rparr>"

lemma recon_hold: "hold_next_response 1 9 recon_open = (Inr (), recon_open\<lparr>hold_response := Some (1, 9)\<rparr>)"
  by (simp add: hold_next_response_def recon_open_def relay_init_def)

definition recon_faulted :: relay where
  "recon_faulted = (record_frame recon_frame recon_open)\<lparr>active := None\<rparr>"

lemma recon_fault: "fault_epoch recon_api recon_view recon_tasks recon_args (0, 1) recon_old
    = (Inr (), recon_old\<lparr>env := (recon_faulted, None, 2), issued := issued recon_old @ [(0, GetTime), (1, GetBat)]\<rparr>)"
proof -
  have f: "fault_reached recon_open = []" "closed recon_open = []" "active recon_open = Some 1" "hold_response recon_open = None"
    by (simp_all add: recon_open_def relay_init_def)
  let ?r = "record_frame recon_frame (recon_open\<lparr>fault_reached := [recon_frame]\<rparr>)"
  have wait: "wait_fault 1 9 ?r = (Inr recon_frame, record_frame recon_frame recon_open)"
    by (simp add: wait_fault_def record_frame_def recon_open_def relay_init_def recon_frame_def count_frames_def Let_def)
  let ?q = "record_frame recon_frame recon_open"
  have q: "closed ?q = []" "active ?q = Some 1" "hold_response ?q = None" "reset_faults ?q = ?q"
      "count_frames 1 CommandDir 20 ?q = 0"
    by (simp_all add: record_frame_def recon_open_def relay_init_def reset_faults_def recon_frame_def count_frames_def Let_def)
  have loops: "recon_loop (\<lambda>r. fault_reached r \<noteq> []) 8000 (recon_open\<lparr>hold_response := Some (1, 9)\<rparr>, Some 1, 2) = (Inr (), (?r, Some 1, 2))"
    "recon_loop (\<lambda>r. closed r \<noteq> []) 3000 (?q, Some 1, 2) = (Inr (), (?q\<lparr>active := None, closed := [1]\<rparr>, None, 2))"
    "recon_loop (\<lambda>r. True) 0 w = (Inr (), w)" for w
    using recon_pump by (simp_all add: recon_loop_def f q handle_finish_def)
  have clean: "?q\<lparr>active := None, closed := []\<rparr> = recon_faulted" "count_frames 1 CommandDir 20 recon_faulted = 0"
      "reset_faults recon_faulted = recon_faulted"
    by (simp_all add: recon_faulted_def record_frame_def recon_open_def relay_init_def reset_faults_def recon_frame_def count_frames_def Let_def)
  show ?thesis
    by (simp add: fault_epoch_def inject_fault_def check_old_epoch_def start_task_def recon_view_def recon_tasks_def recon_api_def
        recon_args_def recon_old_def recon_start_def relay_op_def await_relay_def on_env_def recon_hold loops wait take_closed_def clean
        py_bind_def py_then_def py_return_def py_modify_def py_get_def py_when_def del: One_nat_def)
qed

lemma recon_second: "\<exists>s'. second_epoch recon_host recon_api recon_view recon_args port 7 (0, 1)
      (recon_old\<lparr>env := (recon_faulted, None, 2), issued := issued recon_old @ [(0, GetTime), (1, GetBat)]\<rparr>)
    = (Inr ((2, 3), [\<lparr>ro_protocol = 14, ro_contacts = 0, ro_time = 5\<rparr>, \<lparr>ro_protocol = 14, ro_contacts = 0, ro_time = 5\<rparr>]), s')"
proof -
  have f: "connections recon_faulted = []" "closing recon_faulted = False" "relay_generation recon_faulted = 1"
    by (simp_all add: recon_faulted_def record_frame_def recon_open_def relay_init_def Let_def)
  show ?thesis
    by (simp add: second_epoch_def expect_connection_def expect_generation_def expect_ready_def recon_ready connect_pair_def connect_def
        append_client_def query_pair_def query_read_only_def call_def require_event_def py_dict_get_def py_int_def public_key_def
        same_identity4_def recon_old_def f recon_defs py_bind_def py_then_def py_return_def py_modify_def py_get_def
        py_lift_def py_raise_def py_assert_def Let_def numeral_2_eq_2 numeral_3_eq_3)
qed

lemma recon_run: "\<exists>report s'. reconnect_run recon_host recon_api recon_view recon_tasks recon_args recon_start = (Inr report, s')"
proof -
  have launch: "mux_launch recon_host (prepare_relayed recon_host recon_view (rc_binary recon_args) options) recon_start
      = (Inr (5001, 7), recon_start)" for options
    by (simp add: mux_launch_def prepare_relayed_def recon_host_def recon_view_def on_env_def py_defs)
  obtain s2 where second: "second_epoch recon_host recon_api recon_view recon_args 5001 7 (0, 1)
      (recon_old\<lparr>env := (recon_faulted, None, 2), issued := issued recon_old @ [(0, GetTime), (1, GetBat)]\<rparr>)
      = (Inr ((2, 3), [\<lparr>ro_protocol = 14, ro_contacts = 0, ro_time = 5\<rparr>, \<lparr>ro_protocol = 14, ro_contacts = 0, ro_time = 5\<rparr>]), s2)"
    using recon_second by blast
  have "\<exists>report. fst (reconnect_body recon_host recon_api recon_view recon_tasks recon_args 5001 7 recon_start) = Inr report"
    unfolding reconnect_body_def
    by (simp add: py_bind_def py_then_def py_get_def py_return_def recon_first [folded recon_old_def] recon_fault second del: One_nat_def)
  then obtain report where body: "fst (reconnect_body recon_host recon_api recon_view recon_tasks recon_args 5001 7 recon_start) = Inr report" ..
  have "fst (mux_cleanup recon_host recon_api (close_relay recon_view) (Some 7) s) = Inr ()" for s
  proof -
    have "fst (disconnect_active recon_api s) = Inr ()"
      by (simp add: disconnect_active_def py_bind_def py_get_def gather_quiet_returns)
    then obtain s1 where "disconnect_active recon_api s = (Inr (), s1)" by (metis prod.collapse)
    then show ?thesis
      by (simp add: mux_cleanup_def recon_host_def stop_mux_def join_reader_def close_relay_def relay_op_def on_env_def py_defs)
  qed
  then have "fst (reconnect_run recon_host recon_api recon_view recon_tasks recon_args recon_start) = Inr report"
    unfolding reconnect_run_def
    by (intro session_returns [where body = "reconnect_body recon_host recon_api recon_view recon_tasks recon_args"
        and p = 5001 and process = 7 and ?s1.0 = recon_start, OF _ launch _ body]) (simp_all add: recon_host_def)
  then show ?thesis by (metis prod.collapse)
qed

theorem reconnect_old_epoch_clean_witness:
  "rc_scenario recon_args \<noteq> ''completed-drop''
   \<and> fst (fault_epoch recon_api recon_view recon_tasks recon_args (0, 1) recon_old) = Inr ()
   \<and> count_frames 1 CommandDir 0x14 recon_faulted = 0"
proof -
  have inv: "relay_inv (recon_state (env recon_old))"
    by (simp add: recon_old_def recon_start_def recon_state_def recon_open_def relay_init_def relay_inv_def)
  have "count_frames 1 CommandDir 0x14 recon_faulted = 0"
    using reconnect_old_epoch_clean [OF recon_contract inv _ recon_fault, of recon_faulted None]
    by (simp add: recon_args_def recon_state_def)
  moreover have "rc_scenario recon_args \<noteq> ''completed-drop''" by (simp add: recon_args_def)
  ultimately show ?thesis by (simp only: recon_fault fst_conv simp_thms)
qed

theorem reconnect_exact_requests_witness:
  "\<exists>s' old fresh. issued s' = query_plan (fst old) @ query_plan (snd old) @ [(fst old, GetTime), (snd old, GetBat)]
      @ query_plan (fst fresh) @ query_plan (snd fresh)
    \<and> {fst old, snd old, fst fresh, snd fresh} \<subseteq> set (disconnected (s' :: recon_world live))"
proof -
  obtain report s' where "reconnect_run recon_host recon_api recon_view recon_tasks recon_args recon_start = (Inr report, s')"
    using recon_run by blast
  from reconnect_exact_requests [OF this] obtain old fresh where
      "issued s' = issued recon_start @ query_plan (fst old) @ query_plan (snd old) @ fault_plan (rc_scenario recon_args) old
        @ query_plan (fst fresh) @ query_plan (snd fresh)"
      "{fst old, snd old, fst fresh, snd fresh} \<subseteq> set (disconnected s')"
    by blast
  moreover have "issued recon_start = []" "fault_plan (rc_scenario recon_args) old = [(fst old, GetTime), (snd old, GetBat)]"
    by (simp_all add: recon_start_def recon_args_def fault_plan_def)
  ultimately show ?thesis by (intro exI [of _ s'] exI [of _ old] exI [of _ fresh]) simp
qed

end
