(* ===== verification/Crystal_Effects.thy ===== *)
theory Crystal_Effects
  imports Mux_Prelude
begin

text \<open>
  Effects of the Crystal sources. A method that mutates objects and may raise is a function from
  the state before to the outcome and the state after: \<open>Inl\<close> the exception that escapes, \<open>Inr\<close>
  the value; the mutations made before a \<open>raise\<close> stay. \<open>cr_seq\<close> is a statement list, \<open>cr_each\<close>
  an \<open>each\<close> loop over a list fixed at its start, \<open>cr_or\<close> the short-circuit \<open>||\<close>, and
  \<open>cr_rescue\<close> the method-level \<open>rescue ex : ProtocolError\<close>, which lets every other exception pass.

  The second half is the calculus the proofs about such methods use: \<open>cr_hoare P m Q E\<close> says that
  from a state with \<open>P\<close> a return leaves \<open>Q\<close> and an exception leaves \<open>E\<close>.
\<close>

named_theorems cr_intros \<open>an assertion kept on every outcome, one rule per construct\<close>

type_synonym ('s, 'a) cr = "'s \<Rightarrow> (mux_error + 'a) \<times> 's"

definition cr_return :: "'a \<Rightarrow> ('s, 'a) cr" where
  "cr_return x s = (Inr x, s)"

definition cr_raise :: "mux_error \<Rightarrow> ('s, 'a) cr" where
  "cr_raise e s = (Inl e, s)"

definition cr_bind :: "('s, 'a) cr \<Rightarrow> ('a \<Rightarrow> ('s, 'b) cr) \<Rightarrow> ('s, 'b) cr" where
  "cr_bind m f s = (case m s of (Inl e, s') \<Rightarrow> (Inl e, s') | (Inr x, s') \<Rightarrow> f x s')"

definition cr_then :: "('s, 'a) cr \<Rightarrow> ('s, 'b) cr \<Rightarrow> ('s, 'b) cr" where
  "cr_then m n = cr_bind m (\<lambda>_. n)"

definition cr_get :: "('s \<Rightarrow> 'a) \<Rightarrow> ('s, 'a) cr" where
  "cr_get f s = (Inr (f s), s)"

definition cr_modify :: "('s \<Rightarrow> 's) \<Rightarrow> ('s, unit) cr" where
  "cr_modify f s = (Inr (), f s)"

definition cr_lift :: "mux_error + 'a \<Rightarrow> ('s, 'a) cr" where
  "cr_lift r s = (r, s)"

definition cr_when :: "bool \<Rightarrow> ('s, unit) cr \<Rightarrow> ('s, unit) cr" where
  "cr_when b m = (if b then m else cr_return ())"

definition cr_or :: "('s, bool) cr \<Rightarrow> ('s, bool) cr \<Rightarrow> ('s, bool) cr" where
  "cr_or m n = cr_bind m (\<lambda>b. if b then cr_return True else n)"

fun cr_seq :: "('s, unit) cr list \<Rightarrow> ('s, unit) cr" where
  "cr_seq [] = cr_return ()"
| "cr_seq (m # ms) = cr_then m (cr_seq ms)"

fun cr_each :: "'i list \<Rightarrow> ('i \<Rightarrow> ('s, unit) cr) \<Rightarrow> ('s, unit) cr" where
  "cr_each [] body = cr_return ()"
| "cr_each (i # is) body = cr_then (body i) (cr_each is body)"

definition cr_rescue :: "('s, 'a) cr \<Rightarrow> (string \<Rightarrow> ('s, 'a) cr) \<Rightarrow> ('s, 'a) cr" where
  "cr_rescue body handler s = (case body s of
       (Inl (ProtocolError message), s') \<Rightarrow> handler message s'
     | result \<Rightarrow> result)"

text \<open>\<open>not_nil!\<close>, and the checked accesses \<open>Bytes#[]\<close> and \<open>Deque#first\<close>.\<close>

definition not_nil :: "'a option \<Rightarrow> mux_error + 'a" where
  "not_nil x = (case x of None \<Rightarrow> Inl NilAssertionError | Some y \<Rightarrow> Inr y)"

definition byte_at :: "bytes \<Rightarrow> nat \<Rightarrow> mux_error + byte" where
  "byte_at p i = (if i < length p then Inr (p ! i) else Inl OutOfBoundsError)"

definition first_of :: "'a list \<Rightarrow> mux_error + 'a" where
  "first_of xs = (case xs of [] \<Rightarrow> Inl OutOfBoundsError | x # _ \<Rightarrow> Inr x)"

lemmas cr_defs = cr_return_def cr_raise_def cr_bind_def cr_then_def cr_get_def cr_modify_def
  cr_lift_def cr_when_def cr_or_def cr_rescue_def

section \<open>Calculus\<close>

definition cr_hoare :: "('s \<Rightarrow> bool) \<Rightarrow> ('s, 'a) cr \<Rightarrow> ('a \<Rightarrow> 's \<Rightarrow> bool) \<Rightarrow> (mux_error \<Rightarrow> 's \<Rightarrow> bool) \<Rightarrow> bool" where
  "cr_hoare P m Q E \<longleftrightarrow> (\<forall>s. P s \<longrightarrow> (case m s of (Inr x, s') \<Rightarrow> Q x s' | (Inl e, s') \<Rightarrow> E e s'))"

text \<open>No exception from a state with \<open>P\<close>; and an assertion kept on every outcome.\<close>

abbreviation cr_total :: "('s \<Rightarrow> bool) \<Rightarrow> ('s, 'a) cr \<Rightarrow> ('a \<Rightarrow> 's \<Rightarrow> bool) \<Rightarrow> bool" where
  "cr_total P m Q \<equiv> cr_hoare P m Q (\<lambda>_ _. False)"

abbreviation cr_keeps :: "('s \<Rightarrow> bool) \<Rightarrow> ('s, 'a) cr \<Rightarrow> bool" where
  "cr_keeps P m \<equiv> cr_hoare P m (\<lambda>_. P) (\<lambda>_. P)"

lemma cr_hoareI:
  assumes "\<And>s x s'. P s \<Longrightarrow> m s = (Inr x, s') \<Longrightarrow> Q x s'"
    and "\<And>s e s'. P s \<Longrightarrow> m s = (Inl e, s') \<Longrightarrow> E e s'"
  shows "cr_hoare P m Q E"
  using assms by (auto simp: cr_hoare_def split: prod.splits sum.splits)

lemma cr_hoare_Inr: "cr_hoare P m Q E \<Longrightarrow> P s \<Longrightarrow> m s = (Inr x, s') \<Longrightarrow> Q x s'"
  by (auto simp: cr_hoare_def)

lemma cr_hoare_Inl: "cr_hoare P m Q E \<Longrightarrow> P s \<Longrightarrow> m s = (Inl e, s') \<Longrightarrow> E e s'"
  by (auto simp: cr_hoare_def)

lemma cr_total_returns:
  assumes "cr_total P m Q" "P s"
  obtains x s' where "m s = (Inr x, s')" "Q x s'"
proof -
  obtain r s' where m: "m s = (r, s')" by fastforce
  with assms that show thesis by (cases r) (auto simp: cr_hoare_def)
qed

lemma cr_keeps_snd: "cr_keeps P m \<Longrightarrow> P s \<Longrightarrow> P (snd (m s))"
  by (cases "m s"; cases "fst (m s)") (auto dest: cr_hoare_Inr cr_hoare_Inl)

lemma cr_weaken:
  assumes "cr_hoare P' m Q' E'" "\<And>s. P s \<Longrightarrow> P' s" "\<And>x s. Q' x s \<Longrightarrow> Q x s" "\<And>e s. E' e s \<Longrightarrow> E e s"
  shows "cr_hoare P m Q E"
proof (rule cr_hoareI)
  fix s x s' assume "P s" "m s = (Inr x, s')"
  then show "Q x s'" by (intro assms(3) cr_hoare_Inr [OF assms(1)] assms(2))
next
  fix s e s' assume "P s" "m s = (Inl e, s')"
  then show "E e s'" by (intro assms(4) cr_hoare_Inl [OF assms(1)] assms(2))
qed

lemma cr_pre: "cr_hoare P' m Q E \<Longrightarrow> (\<And>s. P s \<Longrightarrow> P' s) \<Longrightarrow> cr_hoare P m Q E"
  by (erule cr_weaken)

lemma cr_post: "cr_hoare P m Q' E \<Longrightarrow> (\<And>x s. Q' x s \<Longrightarrow> Q x s) \<Longrightarrow> cr_hoare P m Q E"
  by (erule cr_weaken)

lemma cr_total_weaken: "cr_total P' m Q' \<Longrightarrow> (\<And>s. P s \<Longrightarrow> P' s) \<Longrightarrow> (\<And>x s. Q' x s \<Longrightarrow> Q x s) \<Longrightarrow> cr_hoare P m Q E"
  by (erule cr_weaken) auto

lemma cr_conj:
  "cr_hoare P m Q E \<Longrightarrow> cr_hoare P' m Q' E' \<Longrightarrow>
    cr_hoare (\<lambda>s. P s \<and> P' s) m (\<lambda>x s. Q x s \<and> Q' x s) (\<lambda>e s. E e s \<and> E' e s)"
  by (fastforce simp: cr_hoare_def split: prod.splits sum.splits)

lemma cr_pre_ex: "(\<And>x. cr_hoare (P x) m Q E) \<Longrightarrow> cr_hoare (\<lambda>s. \<exists>x. P x s) m Q E"
  by (fastforce simp: cr_hoare_def)

lemma cr_pre_fact: "(F \<Longrightarrow> cr_hoare P m Q E) \<Longrightarrow> cr_hoare (\<lambda>s. F \<and> P s) m Q E"
  by (fastforce simp: cr_hoare_def)

lemma cr_at: "(\<And>s. P s \<Longrightarrow> cr_hoare (\<lambda>s'. s' = s) m Q E) \<Longrightarrow> cr_hoare P m Q E"
  by (fastforce simp: cr_hoare_def)

lemma cr_total_conj:
  "cr_total P m Q \<Longrightarrow> cr_hoare P' m Q' E \<Longrightarrow> cr_total (\<lambda>s. P s \<and> P' s) m (\<lambda>x s. Q x s \<and> Q' x s)"
  by (fastforce simp: cr_hoare_def split: prod.splits sum.splits)

lemma cr_hoare_return: "(\<And>s. P s \<Longrightarrow> Q x s) \<Longrightarrow> cr_hoare P (cr_return x) Q E"
  by (auto simp: cr_hoare_def cr_return_def)

lemma cr_hoare_raise: "(\<And>s. P s \<Longrightarrow> E e s) \<Longrightarrow> cr_hoare P (cr_raise e) Q E"
  by (auto simp: cr_hoare_def cr_raise_def)

lemma cr_hoare_bind:
  assumes "cr_hoare P m R E" "\<And>x. cr_hoare (R x) (f x) Q E"
  shows "cr_hoare P (cr_bind m f) Q E"
  unfolding cr_hoare_def
proof (intro allI impI)
  fix s assume "P s"
  obtain r s' where m: "m s = (r, s')" by fastforce
  show "case cr_bind m f s of (Inr x, s') \<Rightarrow> Q x s' | (Inl e, s') \<Rightarrow> E e s'"
  proof (cases r)
    case (Inl e)
    with m \<open>P s\<close> assms(1) show ?thesis by (auto simp: cr_hoare_def cr_bind_def)
  next
    case (Inr x)
    with m \<open>P s\<close> assms(1) have "R x s'" by (auto simp: cr_hoare_def)
    with assms(2) [of x] m Inr show ?thesis by (auto simp: cr_hoare_def cr_bind_def)
  qed
qed

lemma cr_hoare_then: "cr_hoare P m (\<lambda>_. R) E \<Longrightarrow> cr_hoare R n Q E \<Longrightarrow> cr_hoare P (cr_then m n) Q E"
  unfolding cr_then_def by (rule cr_hoare_bind)

lemma cr_hoare_get: "(\<And>s. P s \<Longrightarrow> Q (f s) s) \<Longrightarrow> cr_hoare P (cr_get f) Q E"
  by (auto simp: cr_hoare_def cr_get_def)

lemma cr_hoare_bind_get: "(\<And>x. cr_hoare (\<lambda>s. P s \<and> x = g s) (f x) Q E) \<Longrightarrow> cr_hoare P (cr_bind (cr_get g) f) Q E"
  by (rule cr_hoare_bind [where R = "\<lambda>x s. P s \<and> x = g s"]) (auto intro: cr_hoare_get)

lemma cr_hoare_modify: "(\<And>s. P s \<Longrightarrow> Q () (f s)) \<Longrightarrow> cr_hoare P (cr_modify f) Q E"
  by (auto simp: cr_hoare_def cr_modify_def)

lemma cr_hoare_lift: "(\<And>s x. P s \<Longrightarrow> r = Inr x \<Longrightarrow> Q x s) \<Longrightarrow> (\<And>s e. P s \<Longrightarrow> r = Inl e \<Longrightarrow> E e s) \<Longrightarrow> cr_hoare P (cr_lift r) Q E"
  by (cases r) (auto simp: cr_hoare_def cr_lift_def)

lemma cr_hoare_when: "(b \<Longrightarrow> cr_hoare P m Q E) \<Longrightarrow> (\<And>s. \<not> b \<Longrightarrow> P s \<Longrightarrow> Q () s) \<Longrightarrow> cr_hoare P (cr_when b m) Q E"
  by (auto simp: cr_when_def intro: cr_hoare_return)

lemma cr_hoare_or:
  assumes "cr_hoare P m R E" "\<And>s. R True s \<Longrightarrow> Q True s" "cr_hoare (R False) n Q E"
  shows "cr_hoare P (cr_or m n) Q E"
  unfolding cr_or_def
proof (rule cr_hoare_bind [OF assms(1)])
  fix b show "cr_hoare (R b) (if b then cr_return True else n) Q E"
    using assms(2, 3) by (cases b) (auto intro: cr_hoare_return)
qed

lemma cr_hoare_if: "(b \<Longrightarrow> cr_hoare P m Q E) \<Longrightarrow> (\<not> b \<Longrightarrow> cr_hoare P n Q E) \<Longrightarrow> cr_hoare P (if b then m else n) Q E"
  by simp

lemma cr_hoare_option:
  "(x = None \<Longrightarrow> cr_hoare P m Q E) \<Longrightarrow> (\<And>y. x = Some y \<Longrightarrow> cr_hoare P (f y) Q E) \<Longrightarrow>
    cr_hoare P (case x of None \<Rightarrow> m | Some y \<Rightarrow> f y) Q E"
  by (cases x) auto

lemma cr_hoare_list:
  "(xs = [] \<Longrightarrow> cr_hoare P m Q E) \<Longrightarrow> (\<And>y ys. xs = y # ys \<Longrightarrow> cr_hoare P (f y ys) Q E) \<Longrightarrow>
    cr_hoare P (case xs of [] \<Rightarrow> m | y # ys \<Rightarrow> f y ys) Q E"
  by (cases xs) auto

lemma cr_hoare_seq_Nil: "(\<And>s. P s \<Longrightarrow> Q () s) \<Longrightarrow> cr_hoare P (cr_seq []) Q E"
  by (simp add: cr_hoare_return)

lemma cr_hoare_seq_Cons: "cr_hoare P m (\<lambda>_. R) E \<Longrightarrow> cr_hoare R (cr_seq ms) Q E \<Longrightarrow> cr_hoare P (cr_seq (m # ms)) Q E"
  by (simp add: cr_hoare_then)

lemma cr_hoare_each:
  assumes "\<And>i. i \<in> set is \<Longrightarrow> cr_hoare P (body i) (\<lambda>_. P) E"
  shows "cr_hoare P (cr_each is body) (\<lambda>_. P) E"
  using assms by (induction "is") (auto intro: cr_hoare_return cr_hoare_then)

lemma cr_hoare_each_rest:
  assumes "\<And>i rest. cr_hoare (P (i # rest)) (body i) (\<lambda>_. P rest) E"
  shows "cr_hoare (P is) (cr_each is body) (\<lambda>_. P []) E"
  using assms by (induction "is") (auto intro: cr_hoare_return cr_hoare_then)

lemma cr_hoare_rescue:
  assumes "cr_hoare P body Q E'" "\<And>message. cr_hoare (E' (ProtocolError message)) (handler message) Q E"
    and "\<And>e s. E' e s \<Longrightarrow> (\<forall>message. e \<noteq> ProtocolError message) \<Longrightarrow> E e s"
  shows "cr_hoare P (cr_rescue body handler) Q E"
  unfolding cr_hoare_def
proof (intro allI impI)
  fix s assume "P s"
  obtain r s' where m: "body s = (r, s')" by fastforce
  show "case cr_rescue body handler s of (Inr x, s') \<Rightarrow> Q x s' | (Inl e, s') \<Rightarrow> E e s'"
  proof (cases r)
    case (Inl e)
    then have "E' e s'" using m \<open>P s\<close> assms(1) by (auto simp: cr_hoare_def)
    with Inl m assms(2) assms(3) [of e s'] show ?thesis
      by (cases e) (auto simp: cr_hoare_def cr_rescue_def)
  next
    case (Inr x)
    with m \<open>P s\<close> assms(1) show ?thesis by (auto simp: cr_hoare_def cr_rescue_def)
  qed
qed

lemma cr_bind_Inr: "m s = (Inr x, s') \<Longrightarrow> cr_bind m f s = f x s'"
  by (simp add: cr_bind_def)

lemma cr_then_Inr: "m s = (Inr x, s') \<Longrightarrow> cr_then m n s = n s'"
  by (simp add: cr_then_def cr_bind_def)

text \<open>An assertion kept on every outcome, one rule per construct.\<close>

lemma cr_keeps_return [cr_intros]: "cr_keeps P (cr_return x)"
  and keeps_raise [cr_intros]: "cr_keeps P (cr_raise e)"
  and keeps_get [cr_intros]: "cr_keeps P (cr_get g)"
  and keeps_lift [cr_intros]: "cr_keeps P (cr_lift r)"
  and keeps_modify [cr_intros]: "(\<And>s. P s \<Longrightarrow> P (f s)) \<Longrightarrow> cr_keeps P (cr_modify f)"
  by (auto simp: cr_hoare_def cr_defs split: sum.split)

lemma cr_keeps_bind [cr_intros]: "cr_keeps P m \<Longrightarrow> (\<And>x. cr_keeps P (f x)) \<Longrightarrow> cr_keeps P (cr_bind m f)"
  by (rule cr_hoare_bind)

lemma cr_keeps_then [cr_intros]: "cr_keeps P m \<Longrightarrow> cr_keeps P n \<Longrightarrow> cr_keeps P (cr_then m n)"
  by (rule cr_hoare_then)

lemma cr_keeps_when [cr_intros]: "cr_keeps P m \<Longrightarrow> cr_keeps P (cr_when b m)"
  by (rule cr_hoare_when)

lemma keeps_or [cr_intros]: "cr_keeps P m \<Longrightarrow> cr_keeps P n \<Longrightarrow> cr_keeps P (cr_or m n)"
  by (rule cr_hoare_or)

lemma cr_keeps_if [cr_intros]: "cr_keeps P m \<Longrightarrow> cr_keeps P n \<Longrightarrow> cr_keeps P (if b then m else n)"
  by simp

lemma cr_keeps_option [cr_intros]: "cr_keeps P m \<Longrightarrow> (\<And>y. cr_keeps P (f y)) \<Longrightarrow> cr_keeps P (case x of None \<Rightarrow> m | Some y \<Rightarrow> f y)"
  by (cases x) auto

lemma keeps_list [cr_intros]: "cr_keeps P m \<Longrightarrow> (\<And>y ys. cr_keeps P (f y ys)) \<Longrightarrow> cr_keeps P (case xs of [] \<Rightarrow> m | y # ys \<Rightarrow> f y ys)"
  by (cases xs) auto

lemma cr_keeps_prod [cr_intros]: "(\<And>y z. cr_keeps P (f y z)) \<Longrightarrow> cr_keeps P (case x of (y, z) \<Rightarrow> f y z)"
  by (cases x) auto

lemma keeps_seq_Nil [cr_intros]: "cr_keeps P (cr_seq [])"
  by (simp add: cr_keeps_return)

lemma keeps_seq_Cons [cr_intros]: "cr_keeps P m \<Longrightarrow> cr_keeps P (cr_seq ms) \<Longrightarrow> cr_keeps P (cr_seq (m # ms))"
  by (simp add: cr_keeps_then)

lemma keeps_each [cr_intros]: "(\<And>i. cr_keeps P (body i)) \<Longrightarrow> cr_keeps P (cr_each is body)"
  by (rule cr_hoare_each)

lemma keeps_rescue [cr_intros]: "cr_keeps P body \<Longrightarrow> (\<And>message. cr_keeps P (handler message)) \<Longrightarrow> cr_keeps P (cr_rescue body handler)"
  by (rule cr_hoare_rescue)

end
