(* ===== verification/Broker_State.thy ===== *)
theory Broker_State
  imports Crystal_Effects Leases Inbox_Store "HOL-Library.AList"
begin

text \<open>
  The state of the broker: its settings (\<open>src/meshcore_tcp_mux/config.cr\<close>), the client sessions
  and the actions it hands to the runtime (\<open>src/meshcore_tcp_mux/session.cr\<close>), the transaction in
  flight and the broker object (\<open>src/meshcore_tcp_mux/broker.cr\<close>).

  \<^item> A Crystal \<open>Hash\<close> keeps insertion order: it is an association list, updated in place and
    extended at its end. A \<open>Deque\<close> is a list, oldest element first.
  \<^item> Session numbers, write numbers and epochs (\<open>Int64\<close>) are integers.
  \<^item> \<open>response_debt\<close> and \<open>active\<close> may name the same \<open>Transaction\<close> object only while the epoch is
    being failed, when nothing changes it any more; each is a value here. The radio state and the
    dedicated slots are owned by the runtime and handed from one broker to the next.
  \<^item> The \<open>Diagnostic\<close> actions that carry a complete payload, \<open>event=command.payload\<close> and
    \<open>event=command.dispatched_payload\<close>, are actions here; the other log lines, their rate limits
    and the counters are left out.
\<close>

section \<open>Settings\<close>

record config =
  listen_host :: string
  listen_multi_client_port :: int
  listen_dedicated_client_ports :: "int list"
  offline_queue_size :: nat
  command_limit :: nat
  command_age :: span
  virtual_sync_timeout :: span
  inbox_entries :: nat
  output_frames :: nat
  connect_timeout :: span
  frame_timeout :: span
  write_timeout :: span
  response_timeout :: span
  contacts_timeout :: span
  startup_timeout :: span
  signing_timeout :: span
  radio_uncertainty_timeout :: span
  poll_interval :: span
  deduplicate_received_messages :: bool
  private_key_export :: bool
  private_key_import :: bool
  factory_reset :: bool

definition default_config :: config where
  "default_config = \<lparr>listen_host = ''127.0.0.1'', listen_multi_client_port = 5001, listen_dedicated_client_ports = [],
     offline_queue_size = 256, command_limit = 16, command_age = seconds 15,
     virtual_sync_timeout = seconds 30, inbox_entries = 256, output_frames = 512,
     connect_timeout = seconds 5, frame_timeout = seconds 5, write_timeout = seconds 5,
     response_timeout = seconds 20, contacts_timeout = seconds 30, startup_timeout = seconds 15,
     signing_timeout = seconds 30, radio_uncertainty_timeout = seconds 60, poll_interval = seconds 5,
     deduplicate_received_messages = False, private_key_export = True, private_key_import = True,
     factory_reset = True\<rparr>"

definition validate_config :: "config \<Rightarrow> mux_error + unit" where
  "validate_config c =
     (let ports = listen_multi_client_port c # listen_dedicated_client_ports c in
      if \<not> list_all (\<lambda>p. 1 \<le> p \<and> p \<le> 65535) ports
      then Inl (ArgumentError ''listen ports must be between 1 and 65535'')
      else if \<not> distinct ports then Inl (ArgumentError ''listen ports must be unique'')
      else if \<not> list_all (\<lambda>n. n > 0) [command_limit c, inbox_entries c, offline_queue_size c, output_frames c]
      then Inl (ArgumentError ''queue budgets must be positive'')
      else if \<not> list_all (\<lambda>d. d > 0) [command_age c, virtual_sync_timeout c, connect_timeout c, frame_timeout c,
                write_timeout c, response_timeout c, contacts_timeout c, startup_timeout c, signing_timeout c,
                radio_uncertainty_timeout c, poll_interval c]
      then Inl (ArgumentError ''deadlines and polling interval must be positive'')
      else if contacts_timeout c < response_timeout c
      then Inl (ArgumentError ''contacts total timeout must not be shorter than its idle timeout'')
      else Inr ())"

text \<open>The combined policy kept for older callers.\<close>

definition allows_maintenance :: "config \<Rightarrow> bool" where
  "allows_maintenance c \<longleftrightarrow> private_key_import c \<and> factory_reset c"

definition set_maintenance :: "bool \<Rightarrow> config \<Rightarrow> config" where
  "set_maintenance allowed c = c\<lparr>private_key_import := allowed, factory_reset := allowed\<rparr>"

section \<open>Sessions and actions\<close>

record command =
  cmd_payload :: bytes
  queued_at :: span

record pending_sync =
  minimum_pop :: int
  sync_deadline :: span

abbreviation default_scope :: bytes where
  "default_scope \<equiv> [CMD_SET_FLOOD_SCOPE_KEY, 0]"

record session =
  session_slot :: "int option"
  commands :: "command list"
  inbox :: "bytes list"
  writes :: "(int \<times> span) list"
  target_version :: byte
  scope :: bytes
  sync :: "pending_sync option"
  hint_write_id :: "int option"

definition new_session :: "int option \<Rightarrow> session" where
  "new_session slot = \<lparr>session_slot = slot, commands = [], inbox = [], writes = [], target_version = 0,
     scope = default_scope, sync = None, hint_write_id = None\<rparr>"

definition dedicated :: "session \<Rightarrow> bool" where
  "dedicated s \<longleftrightarrow> session_slot s \<noteq> None"

datatype action =
    SendFrame int int int bytes
  | CloseSession int string
  | EndEpoch int string
  | CommandPayload int bytes
  | DispatchedPayload int int bytes

section \<open>Transaction and broker\<close>

datatype step = Command | Setup | Restore | MaintenanceResult

record transaction =
  t_owner :: int
  t_command :: bytes
  t_descriptor :: command_descriptor
  t_started :: span
  t_progress :: span
  contacts_started :: bool
  t_pop_sequence :: int
  t_generation :: int
  had_multi_client :: bool
  t_step :: step
  scoped :: bool
  maintenance :: bool
  upstream_write_id :: "int option"
  maintenance_write_id :: "int option"
  job_id :: int
  response_frames :: nat

definition new_transaction :: "int \<Rightarrow> bytes \<Rightarrow> command_descriptor \<Rightarrow> span \<Rightarrow> int \<Rightarrow> int \<Rightarrow> transaction" where
  "new_transaction owner command desc started pop generation =
     \<lparr>t_owner = owner, t_command = command, t_descriptor = desc, t_started = started, t_progress = started,
      contacts_started = False, t_pop_sequence = pop, t_generation = generation, had_multi_client = False,
      t_step = Command, scoped = False, maintenance = False, upstream_write_id = None,
      maintenance_write_id = None, job_id = 0, response_frames = 0\<rparr>"

record broker =
  epoch :: int
  self_key :: bytes
  config :: config
  sessions :: "(int \<times> session) list"
  active :: "transaction option"
  response_debt :: "transaction option"
  actions :: "action list"
  failed :: bool
  orphan :: "bytes option"
  dedicated_slots :: "(int \<times> dedicated_slot) list"
  radio :: radio_state
  deduplicator :: dedup
  rotation :: "int list"
  next_write :: int
  upstream_writes :: "(int \<times> span) list"
  pop_sequence :: int
  generation :: int
  drain_requested :: bool
  drain_authorized :: bool
  last_poll :: span
  time :: span
  signing :: signing_lease

definition new_broker :: "int \<Rightarrow> bytes \<Rightarrow> config \<Rightarrow> span \<Rightarrow> bytes option \<Rightarrow> (int \<times> dedicated_slot) list
    \<Rightarrow> radio_state \<Rightarrow> dedup \<Rightarrow> broker" where
  "new_broker e key c now left slots radio_st history =
     \<lparr>epoch = e, self_key = key, config = c, sessions = [], active = None, response_debt = None, actions = [],
      failed = False, orphan = left, dedicated_slots = slots, radio = radio_st, deduplicator = history,
      rotation = [0], next_write = 0, upstream_writes = [], pop_sequence = 0, generation = 0,
      drain_requested = False, drain_authorized = False, last_poll = now, time = 0,
      signing = new_signing (signing_timeout c)\<rparr>"

type_synonym 'a broker_op = "(broker, 'a) cr"

section \<open>Access to the state\<close>

definition session_of :: "int \<Rightarrow> broker \<Rightarrow> session option" where
  "session_of i b = map_of (sessions b) i"

text \<open>A change of the session object \<open>i\<close>, of a slot object, and of the transaction in flight.\<close>

fun change_entry :: "'k \<Rightarrow> ('v \<Rightarrow> 'v) \<Rightarrow> ('k \<times> 'v) list \<Rightarrow> ('k \<times> 'v) list" where
  "change_entry k f [] = []"
| "change_entry k f ((k', v) # es) = (if k' = k then (k', f v) # es else (k', v) # change_entry k f es)"

definition change_session :: "int \<Rightarrow> (session \<Rightarrow> session) \<Rightarrow> broker \<Rightarrow> broker" where
  "change_session i f b = b\<lparr>sessions := change_entry i f (sessions b)\<rparr>"

definition change_slot :: "int \<Rightarrow> (dedicated_slot \<Rightarrow> dedicated_slot) \<Rightarrow> broker \<Rightarrow> broker" where
  "change_slot k f b = b\<lparr>dedicated_slots := change_entry k f (dedicated_slots b)\<rparr>"

definition change_active :: "(transaction \<Rightarrow> transaction) \<Rightarrow> broker \<Rightarrow> broker" where
  "change_active f b = b\<lparr>active := map_option f (active b)\<rparr>"

definition act :: "action list \<Rightarrow> broker \<Rightarrow> broker" where
  "act as b = b\<lparr>actions := actions b @ as\<rparr>"

definition owner_of :: "broker \<Rightarrow> int option" where
  "owner_of b = map_option t_owner (active b)"

definition flag :: "command_flag \<Rightarrow> transaction \<Rightarrow> bool" where
  "flag f t \<longleftrightarrow> f \<in> set (desc_flags (t_descriptor t))"

text \<open>Methods of the leases, run on the object the broker holds.\<close>

definition on_ring :: "(dm_ring \<Rightarrow> (mux_error + 'a) \<times> dm_ring) \<Rightarrow> 'a broker_op" where
  "on_ring f b = (case f (radio_ring (radio b)) of (r, x) \<Rightarrow> (r, b\<lparr>radio := (radio b)\<lparr>radio_ring := x\<rparr>\<rparr>))"

definition on_remote :: "(remote_lease \<Rightarrow> (mux_error + 'a) \<times> remote_lease) \<Rightarrow> 'a broker_op" where
  "on_remote f b = (case f (radio_remote (radio b)) of (r, x) \<Rightarrow> (r, b\<lparr>radio := (radio b)\<lparr>radio_remote := x\<rparr>\<rparr>))"

definition on_radio :: "(radio_state \<Rightarrow> 'a \<times> radio_state) \<Rightarrow> 'a broker_op" where
  "on_radio f b = (case f (radio b) of (r, x) \<Rightarrow> (Inr r, b\<lparr>radio := x\<rparr>))"

definition on_signing :: "(signing_lease \<Rightarrow> (mux_error + 'a) \<times> signing_lease) \<Rightarrow> 'a broker_op" where
  "on_signing f b = (case f (signing b) of (r, x) \<Rightarrow> (r, b\<lparr>signing := x\<rparr>))"

definition returning :: "('s \<Rightarrow> 'a \<times> 's) \<Rightarrow> 's \<Rightarrow> (mux_error + 'a) \<times> 's" where
  "returning f s = (case f s of (x, s') \<Rightarrow> (Inr x, s'))"

section \<open>Association lists\<close>

lemma map_fst_change_entry [simp]: "map fst (change_entry k f es) = map fst es"
  by (induction k f es rule: change_entry.induct) auto

lemma map_of_change_entry: "map_of (change_entry k f es) = (map_of es)(k := map_option f (map_of es k))"
  by (induction k f es rule: change_entry.induct) (auto simp: fun_upd_def)

lemma change_entry_absent: "map_of es k = None \<Longrightarrow> change_entry k f es = es"
  by (induction k f es rule: change_entry.induct) (auto split: if_splits)

lemma set_change_entry:
  "(i, v) \<in> set (change_entry k f es) \<Longrightarrow> (i, v) \<in> set es \<or> (i = k \<and> (\<exists>u. (k, u) \<in> set es \<and> v = f u))"
  by (induction k f es rule: change_entry.induct) (auto split: if_splits)

lemma set_change_entryI: "distinct (map fst es) \<Longrightarrow> (i, v) \<in> set es \<Longrightarrow> (i, if i = k then f v else v) \<in> set (change_entry k f es)"
  by (induction k f es rule: change_entry.induct) (auto split: if_splits simp: image_iff)

end
