(* ===== verification/Broker.thy ===== *)
theory Broker
  imports Broker_State
begin

text \<open>
  The operations of the broker (\<open>src/meshcore_tcp_mux/broker.cr\<close>), one definition per method, in
  the order in which they call one another.

  A loop over \<open>@sessions.values\<close> visits the session numbers present at its start and looks the
  session up at each visit; the bodies only ever change or remove the session they visit, so the
  object the source holds is the one found. The methods \<open>remove\<close>, \<open>finish_transaction\<close> and
  \<open>fail_epoch\<close> call one another: the call of \<open>fail_epoch\<close> below an epoch that has already failed
  returns at once, and \<open>remove_with\<close> and \<open>finish_with\<close> take it as an argument to say so (lemma
  \<open>fail_epoch_recursive\<close> gives the equation of the source).
\<close>

section \<open>Removing a session, finishing a transaction, failing the epoch\<close>

definition preserve_radio_uncertainty :: "unit broker_op" where
  "preserve_radio_uncertainty = cr_bind (cr_get active) (\<lambda>a. case a of None \<Rightarrow> cr_return ()
     | Some t \<Rightarrow>
         if t_step t = Setup then cr_when (flag RemoteLease t) (on_remote (returning (\<lambda>l. ((), lease_rejected l))))
         else if t_step t \<noteq> Command then cr_return ()
         else if \<not> (flag RemoteLease t \<or> plain_dm (t_command t)) then cr_return ()
         else cr_bind (cr_get (\<lambda>b. (time b, radio_uncertainty_timeout (config b)))) (\<lambda>(now, duration).
           cr_bind (on_radio (quarantine now duration (plain_dm (t_command t)))) (\<lambda>deadline.
           cr_bind (cr_get (\<lambda>b. rl_tentative (radio_remote (radio b)))) (\<lambda>tentative.
           cr_when (flag RemoteLease t \<and> tentative) (on_remote (acceptance_unknown deadline))))))"

definition release_slot :: "int \<Rightarrow> session \<Rightarrow> broker \<Rightarrow> broker" where
  "release_slot i s b = (case session_slot s of None \<Rightarrow> b
     | Some k \<Rightarrow> change_slot k (\<lambda>slot. if slot_session slot = Some i then slot\<lparr>slot_session := None\<rparr> else slot) b)"

definition detach :: "int \<Rightarrow> session \<Rightarrow> string \<Rightarrow> broker \<Rightarrow> broker" where
  "detach i s reason b0 =
     (let b = release_slot i s (b0\<lparr>sessions := AList.delete i (sessions b0)\<rparr>);
          r = (radio b)\<lparr>radio_remote := lease_owner_gone i (radio_remote (radio b))\<rparr>;
          sl = (if owner_of b = Some i then signing b else signing_owner_gone i (signing b));
          b1 = act [CloseSession i reason] (b\<lparr>radio := r, signing := sl, rotation := filter (\<lambda>j. j \<noteq> i) (rotation b)\<rparr>)
      in if sessions b1 = [] then b1\<lparr>drain_authorized := False, drain_requested := False\<rparr> else b1)"

definition finish_with :: "(string \<Rightarrow> unit broker_op) \<Rightarrow> transaction \<Rightarrow> unit broker_op" where
  "finish_with fail t = cr_seq [
     cr_modify (\<lambda>b. b\<lparr>active := None\<rparr>),
     cr_modify (\<lambda>b. if session_of (t_owner t) b = None
                    then b\<lparr>signing := signing_owner_gone (t_owner t) (signing b)\<rparr> else b),
     cr_when (maintenance t) (fail ''maintenance operation completed'')]"

definition remove_with :: "(string \<Rightarrow> unit broker_op) \<Rightarrow> int \<Rightarrow> string \<Rightarrow> unit broker_op" where
  "remove_with fail i reason = cr_bind (cr_get (session_of i)) (\<lambda>s. case s of None \<Rightarrow> cr_return ()
     | Some s \<Rightarrow> cr_then (cr_modify (detach i s reason))
         (cr_bind (cr_get active) (\<lambda>a. case a of None \<Rightarrow> cr_return ()
           | Some t \<Rightarrow> cr_when (maintenance t \<and> t_step t = MaintenanceResult \<and> t_owner t = i) (finish_with fail t))))"

definition record_debt :: "broker \<Rightarrow> broker" where
  "record_debt b = (case active b of None \<Rightarrow> b
     | Some t \<Rightarrow> if t_step t \<noteq> MaintenanceResult \<and> response_debt b = None then b\<lparr>response_debt := Some t\<rparr> else b)"

definition fail_epoch :: "string \<Rightarrow> unit broker_op" where
  "fail_epoch reason = cr_bind (cr_get failed) (\<lambda>already. if already then cr_return () else cr_seq [
     preserve_radio_uncertainty,
     cr_modify record_debt,
     cr_modify (\<lambda>b. b\<lparr>failed := True\<rparr>),
     cr_bind (cr_get (\<lambda>b. map fst (sessions b))) (\<lambda>ids.
       cr_each ids (\<lambda>i. remove_with (\<lambda>_. cr_return ()) i ''upstream epoch failed'')),
     cr_modify (\<lambda>b. act [EndEpoch (epoch b) reason] (b\<lparr>active := None, upstream_writes := []\<rparr>))])"

definition finish_transaction :: "transaction \<Rightarrow> unit broker_op" where
  "finish_transaction = finish_with fail_epoch"

definition remove :: "int \<Rightarrow> string \<Rightarrow> unit broker_op" where
  "remove = remove_with fail_epoch"

section \<open>Output\<close>

definition fresh_write :: "int broker_op" where
  "fresh_write = cr_then (cr_modify (\<lambda>b. b\<lparr>next_write := next_write b + 1\<rparr>)) (cr_get next_write)"

definition emit :: "int \<Rightarrow> bytes \<Rightarrow> int option broker_op" where
  "emit i payload = cr_bind (cr_get (session_of i)) (\<lambda>s. case s of None \<Rightarrow> cr_return None
     | Some s \<Rightarrow> cr_bind (cr_get (\<lambda>b. output_frames (config b))) (\<lambda>limit.
         if limit \<le> length (writes s) then cr_then (remove i ''output queue overflow'') (cr_return None)
         else cr_bind fresh_write (\<lambda>w. cr_then
           (cr_modify (\<lambda>b. act [SendFrame i (epoch b) w payload]
              (change_session i (\<lambda>s. s\<lparr>writes := AList.update w (time b + write_timeout (config b)) (writes s)\<rparr>) b)))
           (cr_return (Some w)))))"

definition reject :: "int \<Rightarrow> byte \<Rightarrow> unit broker_op" where
  "reject i reason = cr_then (emit i [RESP_ERR, reason]) (cr_return ())"

definition emit_quietly :: "int \<Rightarrow> bytes \<Rightarrow> unit broker_op" where
  "emit_quietly i payload = cr_then (emit i payload) (cr_return ())"

definition emit_availability_hint :: "int \<Rightarrow> unit broker_op" where
  "emit_availability_hint i = cr_bind (cr_get (session_of i)) (\<lambda>s. case s of None \<Rightarrow> cr_return ()
     | Some s \<Rightarrow> if hint_write_id s \<noteq> None then cr_return ()
         else cr_bind (emit i [PUSH_MSG_WAITING]) (\<lambda>w.
           cr_modify (change_session i (\<lambda>s. s\<lparr>hint_write_id := w\<rparr>))))"

definition notify_all_sessions :: "unit broker_op" where
  "notify_all_sessions = cr_bind (cr_get (\<lambda>b. map fst (sessions b))) (\<lambda>ids. cr_each ids emit_availability_hint)"

definition record_availability_hint :: "unit broker_op" where
  "record_availability_hint = cr_seq [
     cr_modify (\<lambda>b. b\<lparr>generation := generation b + 1\<rparr>),
     cr_modify (\<lambda>b. if drain_authorized b then b\<lparr>drain_requested := True\<rparr> else b),
     notify_all_sessions]"

definition authorize_drain :: "broker \<Rightarrow> broker" where
  "authorize_drain b = b\<lparr>drain_authorized := True, drain_requested := True, generation := generation b + 1\<rparr>"

definition send_upstream :: "bytes \<Rightarrow> span \<Rightarrow> int broker_op" where
  "send_upstream payload now = cr_bind fresh_write (\<lambda>w. cr_then
     (cr_modify (\<lambda>b. act [SendFrame 0 (epoch b) w payload]
        (b\<lparr>upstream_writes := AList.update w (now + write_timeout (config b)) (upstream_writes b)\<rparr>)))
     (cr_return w))"

text \<open>\<open>transaction.upstream_write_id = send_upstream(payload, now)\<close>\<close>

definition start_write :: "bytes \<Rightarrow> span \<Rightarrow> unit broker_op" where
  "start_write payload now = cr_bind (send_upstream payload now) (\<lambda>w.
     cr_modify (change_active (\<lambda>t. t\<lparr>upstream_write_id := Some w\<rparr>)))"

section \<open>Inboxes\<close>

definition inbox_for :: "session \<Rightarrow> bytes list broker_op" where
  "inbox_for s = (case session_slot s of None \<Rightarrow> cr_return (inbox s)
     | Some k \<Rightarrow> cr_bind (cr_get (\<lambda>b. map_of (dedicated_slots b) k)) (\<lambda>slot. case slot of
         None \<Rightarrow> cr_raise MissingKeyError
       | Some slot \<Rightarrow> cr_return (slot_queue slot)))"

definition shift_inbox :: "int \<Rightarrow> session \<Rightarrow> broker \<Rightarrow> broker" where
  "shift_inbox i s = (case session_slot s of
       None \<Rightarrow> change_session i (\<lambda>s. s\<lparr>inbox := tl (inbox s)\<rparr>)
     | Some k \<Rightarrow> change_slot k (\<lambda>slot. record_delivery (slot\<lparr>slot_queue := tl (slot_queue slot)\<rparr>)))"

definition deliver_item :: "int \<Rightarrow> unit broker_op" where
  "deliver_item i = cr_bind (cr_get (session_of i)) (\<lambda>s. case s of None \<Rightarrow> cr_return ()
     | Some s \<Rightarrow> cr_bind (inbox_for s) (\<lambda>items. cr_bind (cr_lift (first_of items)) (\<lambda>item.
         cr_bind (cr_lift (downgrade_inbox item (target_version s))) (\<lambda>payload.
         cr_bind (emit i payload) (\<lambda>w. cr_when (w \<noteq> None) (cr_modify (shift_inbox i s)))))))"

definition clear_sync :: "int \<Rightarrow> broker \<Rightarrow> broker" where
  "clear_sync i = change_session i (\<lambda>s. s\<lparr>sync := None\<rparr>)"

text \<open>The end of both kinds of enqueueing: a waiting session gets the item, an idle one a hint.\<close>

definition offer_item :: "int \<Rightarrow> bool \<Rightarrow> unit broker_op" where
  "offer_item i was_empty = cr_bind (cr_get (session_of i)) (\<lambda>s. case s of None \<Rightarrow> cr_return ()
     | Some s \<Rightarrow> if sync s \<noteq> None then cr_then (cr_modify (clear_sync i)) (deliver_item i)
         else cr_when was_empty (emit_availability_hint i))"

definition enqueue_multi_client :: "int \<Rightarrow> bytes \<Rightarrow> unit broker_op" where
  "enqueue_multi_client i payload = cr_bind (cr_get (session_of i)) (\<lambda>s. case s of None \<Rightarrow> cr_return ()
     | Some s \<Rightarrow> cr_bind (cr_get (\<lambda>b. inbox_entries (config b))) (\<lambda>limit.
         if limit \<le> length (inbox s) then remove i ''inbox overflow''
         else cr_then (cr_modify (change_session i (\<lambda>s. s\<lparr>inbox := inbox s @ [payload]\<rparr>)))
                      (offer_item i (inbox s = []))))"

definition fan_out_slot :: "bytes \<Rightarrow> int \<Rightarrow> unit broker_op" where
  "fan_out_slot payload k = cr_bind (cr_get (\<lambda>b. map_of (dedicated_slots b) k)) (\<lambda>slot. case slot of
       None \<Rightarrow> cr_return ()
     | Some slot \<Rightarrow> cr_bind (cr_get (\<lambda>b. offline_queue_size (config b))) (\<lambda>limit.
         case enqueue_offline payload limit slot of (result, slot') \<Rightarrow> cr_then
           (cr_modify (change_slot k (\<lambda>_. slot')))
           (cr_when (result \<noteq> NewMessageDiscarded) (case slot_session slot' of None \<Rightarrow> cr_return ()
              | Some i \<Rightarrow> offer_item i (slot_queue slot = [])))))"

definition fan_out_dedicated :: "bytes \<Rightarrow> unit broker_op" where
  "fan_out_dedicated payload = cr_bind (cr_get (\<lambda>b. map fst (dedicated_slots b))) (\<lambda>ks.
     cr_each ks (fan_out_slot payload))"

section \<open>Scheduling\<close>

definition shift_command :: "int \<Rightarrow> unit broker_op" where
  "shift_command i = cr_modify (change_session i (\<lambda>s. s\<lparr>commands := tl (commands s)\<rparr>))"

text \<open>One turn of the loop over a client's local head commands: \<open>False\<close> is \<open>break\<close>.\<close>

definition local_command :: "int \<Rightarrow> session \<Rightarrow> command \<Rightarrow> span \<Rightarrow> bool broker_op" where
  "local_command i s command now =
     (let payload = cmd_payload command; answer = (\<lambda>m. cr_then (cr_seq [shift_command i, m]) (cr_return True)) in
      case snd (validate_command payload) of
        Some reason \<Rightarrow> answer (cr_bind (cr_lift (byte_at payload 0)) (\<lambda>_. reject i reason))
      | None \<Rightarrow> cr_bind (cr_get config) (\<lambda>c.
          if command_age c \<le> now - queued_at command then answer (reject i ERR_BAD_STATE)
          else if payload ! 0 = CMD_SYNC_NEXT_MESSAGE then cr_then (shift_command i)
            (cr_bind (inbox_for s) (\<lambda>items. if items = []
              then cr_then (cr_modify (\<lambda>b. authorize_drain (change_session i (\<lambda>s. s\<lparr>sync :=
                     Some \<lparr>minimum_pop = pop_sequence b + 1, sync_deadline = now + virtual_sync_timeout c\<rparr>\<rparr>) b)))
                   (cr_return False)
              else cr_then (deliver_item i) (cr_return True)))
          else if payload ! 0 = CMD_SET_FLOOD_SCOPE_KEY then answer (cr_seq [
            cr_modify (change_session i (\<lambda>s. s\<lparr>scope := payload\<rparr>)), emit_quietly i [RESP_OK]])
          else if payload ! 0 = CMD_EXPORT_PRIVATE_KEY \<and> \<not> private_key_export c
            then answer (emit_quietly i [RESP_DISABLED])
          else if payload ! 0 = CMD_IMPORT_PRIVATE_KEY \<and> \<not> private_key_import c
            then answer (reject i ERR_UNSUPPORTED_CMD)
          else if payload ! 0 = CMD_FACTORY_RESET \<and> \<not> factory_reset c
            then answer (reject i ERR_UNSUPPORTED_CMD)
          else cr_return False))"

text \<open>
  The loop shifts one command per turn, so the number of queued commands bounds its turns; lemma
  \<open>local_commands_enough\<close> shows that more fuel changes nothing.
\<close>

fun local_commands :: "nat \<Rightarrow> int \<Rightarrow> span \<Rightarrow> unit broker_op" where
  "local_commands 0 i now = cr_return ()"
| "local_commands (Suc n) i now = cr_bind (cr_get (session_of i)) (\<lambda>s. case s of None \<Rightarrow> cr_return ()
     | Some s \<Rightarrow> (case commands s of [] \<Rightarrow> cr_return ()
       | command # _ \<Rightarrow> cr_bind (local_command i s command now) (\<lambda>continue.
           cr_when continue (local_commands n i now))))"

definition local_session :: "span \<Rightarrow> int \<Rightarrow> unit broker_op" where
  "local_session now i = cr_bind (cr_get (\<lambda>b. (session_of i b, owner_of b))) (\<lambda>(s, owner). case s of
       None \<Rightarrow> cr_return ()
     | Some s \<Rightarrow> if sync s \<noteq> None \<or> owner = Some i then cr_return ()
         else local_commands (length (commands s)) i now)"

definition send_command :: "transaction \<Rightarrow> span \<Rightarrow> unit broker_op" where
  "send_command t now = cr_then (cr_modify (change_active (\<lambda>t. t\<lparr>t_step := Command\<rparr>)))
     (cr_bind (cr_lift (byte_at (t_command t) 0)) (\<lambda>opcode.
      cr_bind (cr_lift (if opcode = CMD_DEVICE_QUERY then normalize_device_query (t_command t) UPSTREAM_APP_TARGET
                        else Inr (t_command t))) (\<lambda>forwarded. start_write forwarded now)))"

definition dispatch :: "int \<Rightarrow> bytes \<Rightarrow> span \<Rightarrow> int \<Rightarrow> int \<Rightarrow> unit broker_op" where
  "dispatch owner command now pop gen =
     cr_bind (cr_lift (not_nil (descriptor command))) (\<lambda>desc.
     cr_bind (cr_get (\<lambda>b. (new_transaction owner command desc now pop gen)\<lparr>
         had_multi_client := owner = 0 \<and> list_ex (\<lambda>(i, s). \<not> dedicated s) (sessions b),
         job_id := next_write b + 1, maintenance := Maintenance \<in> set (desc_flags desc)\<rparr>)) (\<lambda>t.
     cr_then (cr_modify (\<lambda>b. act [DispatchedPayload owner (job_id t) command] (b\<lparr>active := Some t\<rparr>)))
     (cr_bind (cr_get (session_of owner)) (\<lambda>s. case s of
         Some s \<Rightarrow> if flag ScopeSend t \<and> scope s \<noteq> default_scope
           then cr_then (cr_modify (change_active (\<lambda>t. t\<lparr>t_step := Setup, scoped := True\<rparr>))) (start_write (scope s) now)
           else send_command t now
       | None \<Rightarrow> send_command t now))))"

text \<open>The checks of shared resources just before dispatch: the native reason of a refusal.\<close>

definition maintenance_blocked :: "span \<Rightarrow> bool broker_op" where
  "maintenance_blocked now =
     cr_or (cr_get (\<lambda>b. length (sessions b) \<noteq> 1)) (cr_or (on_radio (quarantined now))
       (cr_or (on_remote (returning (lease_occupied now)))
         (cr_or (cr_get (\<lambda>b. 0 < pending_count now (radio_ring (radio b)))) (on_signing (returning (signing_occupied now))))))"

definition dm_blocked :: "bytes \<Rightarrow> span \<Rightarrow> bool broker_op" where
  "dm_blocked command now = (if plain_dm command
     then cr_or (on_radio (quarantined now)) (cr_get (\<lambda>b. \<not> ring_available now (radio_ring (radio b))))
     else cr_return False)"

definition lease_refused :: "int \<Rightarrow> bytes \<Rightarrow> span \<Rightarrow> bool broker_op" where
  "lease_refused owner command now = cr_bind (on_radio (quarantined now)) (\<lambda>quarantined.
     if quarantined then cr_return True
     else cr_bind (on_remote (lease_reserve owner command now)) (\<lambda>reserved. if \<not> reserved then cr_return True
       else cr_bind (cr_get (\<lambda>b. rl_kind (radio_remote (radio b)))) (\<lambda>kind.
         cr_then (cr_lift (not_nil kind)) (cr_return False))))"

definition refused_when :: "byte \<Rightarrow> bool \<Rightarrow> byte option" where
  "refused_when reason b = (if b then Some reason else None)"

definition admission_reason :: "admission \<Rightarrow> byte option" where
  "admission_reason a = (case a of Allowed \<Rightarrow> None | TableFull \<Rightarrow> Some ERR_TABLE_FULL | BadState \<Rightarrow> Some ERR_BAD_STATE)"

definition admission_refusal :: "int \<Rightarrow> bytes \<Rightarrow> span \<Rightarrow> byte option broker_op" where
  "admission_refusal owner command now =
     cr_bind (cr_lift (not_nil (descriptor command))) (\<lambda>desc.
     if Maintenance \<in> set (desc_flags desc) \<and> command ! 0 \<noteq> CMD_REBOOT
     then cr_bind (maintenance_blocked now) (\<lambda>blocked. cr_return (refused_when ERR_BAD_STATE blocked))
     else cr_bind (dm_blocked command now) (\<lambda>blocked.
       if blocked then cr_return (Some ERR_BAD_STATE)
       else if RemoteLease \<in> set (desc_flags desc)
       then cr_bind (lease_refused owner command now) (\<lambda>refused. cr_return (refused_when ERR_BAD_STATE refused))
       else if command ! 0 = CMD_SIGN_START
       then cr_bind (on_signing (signing_start owner command now)) (\<lambda>started. cr_return (refused_when ERR_BAD_STATE (\<not> started)))
       else if command ! 0 = CMD_SIGN_DATA
       then cr_bind (on_signing (begin_data owner command now)) (\<lambda>a. cr_return (admission_reason a))
       else if command ! 0 = CMD_SIGN_FINISH
       then cr_bind (on_signing (begin_finish owner command now)) (\<lambda>a. cr_return (refused_when ERR_BAD_STATE (a \<noteq> Allowed)))
       else cr_return None))"

definition admit_command :: "int \<Rightarrow> bytes \<Rightarrow> span \<Rightarrow> bool broker_op" where
  "admit_command owner command now = cr_bind (admission_refusal owner command now) (\<lambda>reason. case reason of
       None \<Rightarrow> cr_return True
     | Some reason \<Rightarrow> cr_then (reject owner reason) (cr_return False))"

text \<open>One turn of the rotation: \<open>True\<close> when it dispatched a command, which ends the method.\<close>

definition rotate_turn :: "span \<Rightarrow> bool broker_op" where
  "rotate_turn now = cr_bind (cr_get rotation) (\<lambda>order. cr_bind (cr_lift (first_of order)) (\<lambda>i.
     cr_then (cr_modify (\<lambda>b. b\<lparr>rotation := tl order @ [i]\<rparr>))
     (if i = 0 then cr_bind (cr_get (\<lambda>b. drain_requested b \<and> sessions b \<noteq> [])) (\<lambda>pop. if \<not> pop then cr_return False
        else cr_then (cr_modify (\<lambda>b. b\<lparr>drain_requested := False, pop_sequence := pop_sequence b + 1\<rparr>))
          (cr_bind (cr_get (\<lambda>b. (pop_sequence b, generation b))) (\<lambda>(pop, gen).
           cr_then (dispatch 0 [CMD_SYNC_NEXT_MESSAGE] now pop gen) (cr_return True))))
      else cr_bind (cr_get (session_of i)) (\<lambda>s. case s of None \<Rightarrow> cr_return False
        | Some s \<Rightarrow> if sync s \<noteq> None then cr_return False
            else (case commands s of [] \<Rightarrow> cr_return False
              | command # _ \<Rightarrow> cr_then (shift_command i)
                  (cr_bind (admit_command i (cmd_payload command) now) (\<lambda>admitted. if \<not> admitted then cr_return False
                   else cr_then (dispatch i (cmd_payload command) now 0 0) (cr_return True))))))))"

fun rotate :: "nat \<Rightarrow> span \<Rightarrow> unit broker_op" where
  "rotate 0 now = cr_return ()"
| "rotate (Suc n) now = cr_bind (rotate_turn now) (\<lambda>dispatched. cr_when (\<not> dispatched) (rotate n now))"

definition schedule :: "span \<Rightarrow> unit broker_op" where
  "schedule now = cr_bind (cr_get failed) (\<lambda>ended. if ended then cr_return ()
     else cr_then (cr_modify (\<lambda>b. b\<lparr>time := now\<rparr>))
       (cr_bind (cr_get (\<lambda>b. case active b of None \<Rightarrow> False | Some t \<Rightarrow> maintenance t)) (\<lambda>busy.
        if busy then cr_return () else cr_seq [
          cr_bind (cr_get (\<lambda>b. map fst (sessions b))) (\<lambda>ids. cr_each ids (local_session now)),
          cr_bind (cr_get active) (\<lambda>a. cr_when (a = None)
            (cr_bind (cr_get (\<lambda>b. length (rotation b))) (\<lambda>n. rotate n now)))])))"

section \<open>Replies\<close>

definition record_acceptance :: "transaction \<Rightarrow> bytes \<Rightarrow> span \<Rightarrow> unit broker_op" where
  "record_acceptance t payload now = (let command = t_command t in
     if plain_dm command \<and> payload ! 0 = RESP_SENT then on_ring (ring_accepted payload now)
     else if flag RemoteLease t then
       (if payload ! 0 = RESP_SENT then cr_then (on_remote (lease_accepted payload now))
          (cr_bind (cr_get (\<lambda>b. rl_kind (radio_remote (radio b)))) (\<lambda>kind. cr_then (cr_lift (not_nil kind)) (cr_return ())))
        else on_remote (returning (\<lambda>l. ((), lease_rejected l))))
     else if command ! 0 = CMD_SIGN_START then
       (if payload ! 0 = RESP_SIGN_START then on_signing (accepted_start payload now)
        else on_signing (returning (\<lambda>s. ((), rejected_start s))))
     else if command ! 0 = CMD_SIGN_DATA then on_signing (data_response payload now)
     else if command ! 0 = CMD_SIGN_FINISH then on_signing (finish_response payload now)
     else cr_return ())"

definition scope_reply :: "bytes \<Rightarrow> bool" where
  "scope_reply payload \<longleftrightarrow> payload = [RESP_OK] \<or> (length payload = 2 \<and> payload ! 0 = RESP_ERR)"

definition scope_response :: "transaction \<Rightarrow> bytes \<Rightarrow> span \<Rightarrow> unit broker_op" where
  "scope_response t payload now = (if \<not> scope_reply payload
     then cr_raise (ProtocolError ''unexpected internal scope response'')
     else cr_then (cr_modify (change_active (\<lambda>t. t\<lparr>t_progress := now\<rparr>)))
       (if t_step t = Setup then
          (if payload ! 0 = RESP_ERR then cr_seq [
             cr_when (flag RemoteLease t) (on_remote (returning (\<lambda>l. ((), lease_rejected l)))),
             emit_quietly (t_owner t) payload,
             finish_transaction t]
           else send_command t now)
        else if payload ! 0 \<noteq> RESP_OK
          then cr_raise (ProtocolError ''scope restoration rejected after command response'')
        else finish_transaction t))"

definition pop_empty :: "transaction \<Rightarrow> int \<Rightarrow> unit broker_op" where
  "pop_empty t i = cr_bind (cr_get (session_of i)) (\<lambda>s. case s of None \<Rightarrow> cr_return ()
     | Some s \<Rightarrow> (case sync s of None \<Rightarrow> cr_return ()
       | Some wait \<Rightarrow> cr_when (minimum_pop wait \<le> t_pop_sequence t)
           (cr_seq [cr_modify (clear_sync i), emit_quietly i [RESP_NO_MORE_MESSAGES]])))"

definition settle_drain :: "transaction \<Rightarrow> broker \<Rightarrow> broker" where
  "settle_drain t b = (let newer_work = t_generation t < generation b \<or> list_ex (\<lambda>(i, s). sync s \<noteq> None) (sessions b);
        go = newer_work \<and> sessions b \<noteq> []
      in b\<lparr>drain_authorized := go, drain_requested := go\<rparr>)"

definition continue_drain :: "broker \<Rightarrow> broker" where
  "continue_drain b = b\<lparr>drain_requested := drain_authorized b \<and> sessions b \<noteq> []\<rparr>"

definition multi_clients :: "broker \<Rightarrow> int list" where
  "multi_clients b = map fst (filter (\<lambda>(i, s). \<not> dedicated s) (sessions b))"

definition repeated_message :: "bytes \<Rightarrow> bool broker_op" where
  "repeated_message payload b = (if deduplicate_received_messages (config b)
     then (case is_duplicate payload (deduplicator b) of (d, h) \<Rightarrow> (Inr d, b\<lparr>deduplicator := h\<rparr>))
     else (Inr False, b))"

definition pop_result :: "transaction \<Rightarrow> bytes \<Rightarrow> unit broker_op" where
  "pop_result t payload = (if payload ! 0 = RESP_NO_MORE_MESSAGES then cr_seq [
       cr_bind (cr_get (\<lambda>b. map fst (sessions b))) (\<lambda>ids. cr_each ids (pop_empty t)),
       cr_modify (settle_drain t)]
     else cr_bind (repeated_message payload) (\<lambda>repeated.
       if repeated then cr_modify continue_drain
       else cr_seq [
         fan_out_dedicated payload,
         cr_bind (cr_get multi_clients) (\<lambda>ids.
           if ids = [] \<and> had_multi_client t then cr_modify (\<lambda>b. b\<lparr>orphan := Some payload\<rparr>)
           else cr_each ids (\<lambda>i. enqueue_multi_client i payload)),
         cr_modify continue_drain]))"

definition contacts_order :: "transaction \<Rightarrow> bytes \<Rightarrow> mux_error + bool" where
  "contacts_order t payload =
     (if \<not> (desc_grammar (t_descriptor t) = Contacts \<and> payload ! 0 \<noteq> RESP_ERR) then Inr (contacts_started t)
      else if payload ! 0 = RESP_CONTACTS_START then
        (if contacts_started t then Inl (ProtocolError ''duplicate contacts start'') else Inr True)
      else if \<not> contacts_started t then Inl (ProtocolError ''contacts record before start'')
      else Inr (contacts_started t))"

text \<open>A response proves that the write it answers has completed.\<close>

definition response_proves_write :: "span \<Rightarrow> broker \<Rightarrow> broker" where
  "response_proves_write now b = (case active b of None \<Rightarrow> b
     | Some t \<Rightarrow> (case upstream_write_id t of None \<Rightarrow> b
       | Some w \<Rightarrow> change_active (\<lambda>t. if t_step t = Command \<and> desc_grammar (t_descriptor t) = Contacts \<and> \<not> contacts_started t
             then t\<lparr>upstream_write_id := None, t_started := now\<rparr> else t\<lparr>upstream_write_id := None\<rparr>)
           (b\<lparr>upstream_writes := AList.delete w (upstream_writes b)\<rparr>)))"

text \<open>The visible reply to the owner, if it is still there: the number of its write.\<close>

definition reply_to_owner :: "transaction \<Rightarrow> bytes \<Rightarrow> int option broker_op" where
  "reply_to_owner t payload = cr_bind (cr_get (session_of (t_owner t))) (\<lambda>s. case s of None \<Rightarrow> cr_return None
     | Some _ \<Rightarrow> cr_then
         (cr_when (t_command t ! 0 = CMD_DEVICE_QUERY \<and> payload ! 0 = RESP_DEVICE_INFO)
           (cr_bind (cr_lift (byte_at (t_command t) 1)) (\<lambda>v.
            cr_modify (change_session (t_owner t) (\<lambda>s. s\<lparr>target_version := v\<rparr>)))))
         (cr_bind (cr_lift (if payload ! 0 = RESP_DEVICE_INFO then downstream_device_info payload else Inr payload))
           (emit (t_owner t))))"

definition complete_response :: "transaction \<Rightarrow> bytes \<Rightarrow> int option \<Rightarrow> span \<Rightarrow> unit broker_op" where
  "complete_response t payload reply_write now = cr_then (record_acceptance t payload now)
     (if scoped t then cr_then (cr_modify (change_active (\<lambda>t. t\<lparr>t_step := Restore\<rparr>))) (start_write default_scope now)
      else if maintenance t \<and> reply_write \<noteq> None
        then cr_modify (change_active (\<lambda>t. t\<lparr>t_step := MaintenanceResult, maintenance_write_id := reply_write\<rparr>))
      else finish_transaction t)"

definition command_response :: "transaction \<Rightarrow> bytes \<Rightarrow> span \<Rightarrow> unit broker_op" where
  "command_response t payload now =
     cr_bind (cr_lift (validate_response (t_descriptor t) payload (Some (t_command t)) (if contacts_started t then 1 else 0))) (\<lambda>disposition.
     cr_then (cr_modify (change_active (\<lambda>t. t\<lparr>response_frames := response_frames t + 1\<rparr>)))
     (if t_owner t = 0 then
        (if payload ! 0 = RESP_ERR then cr_raise (ProtocolError ''internal inbox pop rejected'')
         else cr_then (cr_modify (\<lambda>b. b\<lparr>active := None\<rparr>)) (pop_result t payload))
      else cr_bind (cr_lift (contacts_order t payload)) (\<lambda>started.
        cr_then (cr_modify (change_active (\<lambda>t. t\<lparr>contacts_started := started\<rparr>)))
        (cr_bind (reply_to_owner t payload) (\<lambda>reply_write.
         cr_then (cr_modify (change_active (\<lambda>t. t\<lparr>t_progress := now\<rparr>)))
         (cr_when (disposition = Complete) (complete_response t payload reply_write now)))))))"

definition transaction_response :: "bytes \<Rightarrow> span \<Rightarrow> unit broker_op" where
  "transaction_response payload now = cr_bind (cr_get active) (\<lambda>a. case a of
       None \<Rightarrow> cr_raise (ProtocolError ''ordinary response without owner'')
     | Some t \<Rightarrow> cr_then (cr_modify (response_proves_write now))
         (case t_step t of
            Setup \<Rightarrow> scope_response t payload now
          | Restore \<Rightarrow> scope_response t payload now
          | MaintenanceResult \<Rightarrow> cr_raise (ProtocolError ''ordinary response after maintenance result'')
          | Command \<Rightarrow> command_response t payload now))"

definition broadcast :: "bytes \<Rightarrow> unit broker_op" where
  "broadcast payload = cr_bind (cr_get (\<lambda>b. map fst (sessions b))) (\<lambda>ids. cr_each ids (\<lambda>i. emit_quietly i payload))"

definition result_push_codes :: "byte list" where
  "result_push_codes = [PUSH_LOGIN_SUCCESS, PUSH_LOGIN_FAILURE, PUSH_STATUS_RESPONSE, PUSH_TRACE_DATA,
     PUSH_TELEMETRY_RESPONSE, PUSH_BINARY_RESPONSE, PUSH_PATH_DISCOVERY_RESPONSE]"

text \<open>The self-telemetry test; \<open>payload[2, 6]\<close> and \<open>@self_key[0, 6]\<close> raise when they are too short.\<close>

definition slice :: "bytes \<Rightarrow> nat \<Rightarrow> nat \<Rightarrow> mux_error + bytes" where
  "slice p start count = (if start + count \<le> length p then Inr (take count (drop start p)) else Inl OutOfBoundsError)"

definition self_telemetry :: "bytes \<Rightarrow> bool broker_op" where
  "self_telemetry payload = cr_bind (cr_get (\<lambda>b. (active b, self_key b))) (\<lambda>(a, key). case a of None \<Rightarrow> cr_return False
     | Some t \<Rightarrow> if \<not> (payload ! 0 = PUSH_TELEMETRY_RESPONSE \<and> t_command t ! 0 = CMD_SEND_TELEMETRY_REQ \<and> length (t_command t) = 4)
         then cr_return False
         else cr_bind (cr_lift (slice payload 2 6)) (\<lambda>p. cr_bind (cr_lift (slice key 0 6)) (\<lambda>k. cr_return (p = k))))"

definition push :: "bytes \<Rightarrow> span \<Rightarrow> unit broker_op" where
  "push payload now =
     (if payload ! 0 = PUSH_MSG_WAITING then record_availability_hint
      else if payload ! 0 = PUSH_SEND_CONFIRMED then cr_bind (on_ring (ring_confirm payload)) (\<lambda>_. broadcast payload)
      else if payload ! 0 \<in> set result_push_codes then cr_bind (self_telemetry payload) (\<lambda>self.
        if self then transaction_response payload now
        else cr_bind (on_remote (lease_match payload now)) (\<lambda>owner. case owner of None \<Rightarrow> cr_return ()
          | Some i \<Rightarrow> emit_quietly i payload))
      else broadcast payload)"

section \<open>Events of the runtime\<close>

definition take_actions :: "broker \<Rightarrow> action list \<times> broker" where
  "take_actions b = (actions b, b\<lparr>actions := []\<rparr>)"

definition attach_slot :: "int \<Rightarrow> int \<Rightarrow> unit broker_op" where
  "attach_slot i k = cr_bind (cr_get (\<lambda>b. map_of (dedicated_slots b) k)) (\<lambda>slot. case slot of
       None \<Rightarrow> cr_raise (ArgumentError ''unknown dedicated client slot'')
     | Some slot \<Rightarrow> cr_seq [
         (case slot_session slot of None \<Rightarrow> cr_return ()
          | Some old \<Rightarrow> remove old ''replaced by new dedicated client connection''),
         cr_modify (change_slot k (\<lambda>slot. slot\<lparr>slot_session := Some i\<rparr>))])"

definition deliver_orphan :: "int \<Rightarrow> unit broker_op" where
  "deliver_orphan i = cr_bind (cr_get orphan) (\<lambda>item. case item of None \<Rightarrow> cr_return ()
     | Some item \<Rightarrow> cr_seq [cr_modify (\<lambda>b. b\<lparr>orphan := None\<rparr>), enqueue_multi_client i item])"

definition admit :: "int \<Rightarrow> int option \<Rightarrow> span \<Rightarrow> unit broker_op" where
  "admit i slot now = cr_then (cr_modify (\<lambda>b. b\<lparr>time := now\<rparr>))
     (cr_bind (cr_get (\<lambda>b. failed b \<or> (case active b of None \<Rightarrow> False | Some t \<Rightarrow> maintenance t))) (\<lambda>refused.
      if refused then cr_modify (act [CloseSession i ''upstream unavailable''])
      else cr_seq [
        (case slot of None \<Rightarrow> cr_return () | Some k \<Rightarrow> attach_slot i k),
        cr_modify (\<lambda>b. b\<lparr>sessions := AList.update i (new_session slot) (sessions b), rotation := rotation b @ [i]\<rparr>),
        cr_when (slot = None) (deliver_orphan i),
        cr_bind (cr_get (session_of i)) (\<lambda>s. case s of None \<Rightarrow> cr_raise MissingKeyError
          | Some _ \<Rightarrow> emit_availability_hint i),
        schedule now]))"

definition client_frame :: "int \<Rightarrow> bytes \<Rightarrow> span \<Rightarrow> unit broker_op" where
  "client_frame i payload now = cr_then (cr_modify (\<lambda>b. b\<lparr>time := now\<rparr>))
     (cr_bind (cr_get (\<lambda>b. (failed b, session_of i b))) (\<lambda>(ended, s). if ended then cr_return ()
      else case s of None \<Rightarrow> cr_return ()
      | Some s \<Rightarrow> cr_then (cr_modify (act [CommandPayload i payload]))
         (cr_bind (cr_get (\<lambda>b. command_limit (config b) \<le> length (commands s) + (if sync s \<noteq> None then 1 else 0)
              + (if owner_of b = Some i then 1 else 0))) (\<lambda>full. cr_seq [
            if full then remove i ''command queue overflow''
            else cr_modify (change_session i (\<lambda>s. s\<lparr>commands := commands s @ [\<lparr>cmd_payload = payload, queued_at = now\<rparr>]\<rparr>)),
            schedule now]))))"

definition client_closed :: "int \<Rightarrow> string \<Rightarrow> span \<Rightarrow> unit broker_op" where
  "client_closed i reason now = cr_seq [cr_modify (\<lambda>b. b\<lparr>time := now\<rparr>), remove i reason, schedule now]"

definition upstream_written :: "int \<Rightarrow> span \<Rightarrow> broker \<Rightarrow> broker" where
  "upstream_written w now b = (let b1 = b\<lparr>upstream_writes := AList.delete w (upstream_writes b)\<rparr> in
     case active b of None \<Rightarrow> b1
     | Some t \<Rightarrow> if upstream_write_id t \<noteq> Some w then b1
         else change_active (\<lambda>t. let t1 = t\<lparr>upstream_write_id := None, t_progress := now\<rparr> in
           if t_step t = Command \<and> desc_grammar (t_descriptor t) = Contacts \<and> \<not> contacts_started t
           then t1\<lparr>t_started := now\<rparr> else t1) b1)"

definition client_written :: "int \<Rightarrow> int \<Rightarrow> unit broker_op" where
  "client_written i w = cr_then
     (cr_modify (change_session i (\<lambda>s. s\<lparr>writes := AList.delete w (writes s),
        hint_write_id := if hint_write_id s = Some w then None else hint_write_id s\<rparr>)))
     (cr_bind (cr_get (\<lambda>b. (session_of i b, active b))) (\<lambda>(s, a). case (s, a) of
        (Some _, Some t) \<Rightarrow> cr_when (maintenance t \<and> t_step t = MaintenanceResult \<and> t_owner t = i \<and> maintenance_write_id t = Some w)
          (finish_transaction t)
      | _ \<Rightarrow> cr_return ()))"

definition written :: "int \<Rightarrow> int \<Rightarrow> int \<Rightarrow> span \<Rightarrow> unit broker_op" where
  "written i e w now = cr_bind (cr_get (\<lambda>b. e = epoch b \<and> \<not> failed b)) (\<lambda>current. if \<not> current then cr_return ()
     else cr_seq [if i = 0 then cr_modify (upstream_written w now) else client_written i w, schedule now])"

definition write_failed :: "int \<Rightarrow> int \<Rightarrow> string \<Rightarrow> span \<Rightarrow> unit broker_op" where
  "write_failed i e reason now = cr_bind (cr_get (\<lambda>b. e = epoch b \<and> \<not> failed b)) (\<lambda>current. if \<not> current then cr_return ()
     else cr_then (cr_modify (\<lambda>b. b\<lparr>time := now\<rparr>))
       (if i = 0 then fail_epoch (''upstream write failed: '' @ reason)
        else cr_seq [remove i (''writer failed: '' @ reason), schedule now]))"

definition response_overdue :: "config \<Rightarrow> transaction \<Rightarrow> span \<Rightarrow> bool" where
  "response_overdue c t now \<longleftrightarrow> response_timeout c \<le> now - t_progress t
     \<or> (desc_grammar (t_descriptor t) = Contacts \<and> contacts_timeout c \<le> now - t_started t)"

definition check_active_deadline :: "span \<Rightarrow> bool broker_op" where
  "check_active_deadline now = cr_bind (cr_get (\<lambda>b. (active b, config b))) (\<lambda>(a, c). case a of None \<Rightarrow> cr_return True
     | Some t \<Rightarrow> if t_step t = MaintenanceResult \<or> upstream_write_id t \<noteq> None then cr_return True
         else if response_overdue c t now
         then cr_then (cr_seq [cr_modify (\<lambda>b. b\<lparr>response_debt := Some t\<rparr>), fail_epoch ''uncertain response timeout''])
                (cr_return False)
         else cr_return True)"

definition upstream_payload :: "bytes \<Rightarrow> span \<Rightarrow> unit broker_op" where
  "upstream_payload payload now = cr_bind (check_active_deadline now) (\<lambda>alive. cr_when alive (cr_seq [
     cr_lift (validate_response_shape payload),
     if payload ! 0 \<ge> PUSH_ADVERT then push payload now else transaction_response payload now,
     schedule now]))"

definition upstream_frame :: "bytes \<Rightarrow> span \<Rightarrow> unit broker_op" where
  "upstream_frame payload now = cr_then (cr_modify (\<lambda>b. b\<lparr>time := now\<rparr>))
     (cr_bind (cr_get failed) (\<lambda>ended. if ended then cr_return ()
      else cr_rescue (upstream_payload payload now) fail_epoch))"

definition change_debt :: "(transaction \<Rightarrow> transaction) \<Rightarrow> broker \<Rightarrow> broker" where
  "change_debt f b = b\<lparr>response_debt := map_option f (response_debt b)\<rparr>"

definition contacts_drained :: "transaction \<Rightarrow> bytes \<Rightarrow> mux_error + bool" where
  "contacts_drained t payload =
     (if \<not> (desc_grammar (t_descriptor t) = Contacts \<and> payload ! 0 \<noteq> RESP_ERR) then Inr (contacts_started t)
      else if payload ! 0 = RESP_CONTACTS_START then
        (if contacts_started t then Inl (ProtocolError ''duplicate contacts start in poisoned drain'') else Inr True)
      else if payload ! 0 \<noteq> RESP_END_OF_CONTACTS \<and> \<not> contacts_started t
        then Inl (ProtocolError ''contacts record before start in poisoned drain'')
      else Inr (contacts_started t))"

definition drain_uncertain_frame :: "bytes \<Rightarrow> span \<Rightarrow> bool broker_op" where
  "drain_uncertain_frame payload now = cr_bind (cr_get response_debt) (\<lambda>debt. case debt of None \<Rightarrow> cr_return True
     | Some t \<Rightarrow> cr_then (cr_lift (validate_response_shape payload))
        (if payload ! 0 \<ge> PUSH_ADVERT then cr_then (push payload now) (cr_return False)
         else if t_step t = Setup \<or> t_step t = Restore then
           (if \<not> scope_reply payload then cr_raise (ProtocolError ''unexpected poisoned scope response'')
            else cr_then (cr_modify (\<lambda>b. b\<lparr>response_debt := None\<rparr>)) (cr_return True))
         else cr_bind (cr_lift (validate_response (t_descriptor t) payload (Some (t_command t)) (if contacts_started t then 1 else 0))) (\<lambda>disposition.
           cr_then (cr_modify (change_debt (\<lambda>t. t\<lparr>response_frames := response_frames t + 1\<rparr>)))
           (cr_bind (cr_lift (contacts_drained t payload)) (\<lambda>started.
            cr_then (cr_modify (change_debt (\<lambda>t. t\<lparr>contacts_started := started\<rparr>)))
            (if disposition = Complete then cr_then
               (cr_seq [cr_when (t_owner t = 0 \<and> payload ! 0 \<noteq> RESP_ERR) (pop_result t payload),
                  cr_modify (\<lambda>b. b\<lparr>response_debt := None\<rparr>)]) (cr_return True)
             else cr_return False))))))"

definition tick_session :: "span \<Rightarrow> int \<Rightarrow> unit broker_op" where
  "tick_session now i = cr_bind (cr_get (session_of i)) (\<lambda>s. case s of None \<Rightarrow> cr_return ()
     | Some s \<Rightarrow> if list_ex (\<lambda>(w, deadline). deadline \<le> now) (writes s) then remove i ''output write deadline''
         else (case sync s of None \<Rightarrow> cr_return ()
           | Some wait \<Rightarrow> cr_when (sync_deadline wait \<le> now)
               (cr_seq [cr_modify (clear_sync i), reject i ERR_BAD_STATE])))"

definition expire_leases :: "span \<Rightarrow> broker \<Rightarrow> broker" where
  "expire_leases now b =
     (let b1 = (if rl_command (radio_remote (radio b)) = None then b
                else b\<lparr>radio := (radio b)\<lparr>radio_remote := lease_expire now (radio_remote (radio b))\<rparr>\<rparr>)
      in if (case active b1 of None \<Rightarrow> False | Some t \<Rightarrow> flag Signing t) then b1
         else b1\<lparr>signing := signing_expire now (signing b1)\<rparr>)"

definition poll :: "span \<Rightarrow> unit broker_op" where
  "poll now = cr_bind (cr_get (\<lambda>b. sessions b \<noteq> [] \<and> poll_interval (config b) \<le> now - last_poll b)) (\<lambda>due.
     cr_when due (cr_seq [cr_modify (\<lambda>b. b\<lparr>last_poll := now\<rparr>), notify_all_sessions]))"

definition tick :: "span \<Rightarrow> unit broker_op" where
  "tick now = cr_then (cr_modify (\<lambda>b. b\<lparr>time := now\<rparr>))
     (cr_bind (cr_get failed) (\<lambda>ended. if ended then cr_return ()
      else cr_bind (check_active_deadline now) (\<lambda>alive. cr_when alive
        (cr_bind (cr_get (\<lambda>b. list_ex (\<lambda>(w, deadline). deadline \<le> now) (upstream_writes b))) (\<lambda>stuck.
         if stuck then fail_epoch ''upstream write deadline''
         else cr_seq [
           cr_bind (cr_get (\<lambda>b. map fst (sessions b))) (\<lambda>ids. cr_each ids (tick_session now)),
           cr_modify (expire_leases now),
           poll now,
           schedule now])))))"

datatype event =
    Admit int "int option" span
  | ClientFrame int bytes span
  | ClientClosed int string span
  | Written int int int span
  | WriteFailed int int string span
  | UpstreamFrame bytes span
  | Tick span
  | UpstreamClosed string

fun handle :: "event \<Rightarrow> unit broker_op" where
  "handle (Admit i slot now) = admit i slot now"
| "handle (ClientFrame i payload now) = client_frame i payload now"
| "handle (ClientClosed i reason now) = client_closed i reason now"
| "handle (Written i e w now) = written i e w now"
| "handle (WriteFailed i e reason now) = write_failed i e reason now"
| "handle (UpstreamFrame payload now) = upstream_frame payload now"
| "handle (Tick now) = tick now"
| "handle (UpstreamClosed reason) = fail_epoch reason"

end
