(* ===== verification/Broker_Inv.thy ===== *)
theory Broker_Inv
  imports Broker
begin

text \<open>
  The invariant of the broker, in layers, and the locale of assertions that the client-side
  operations (output, inbox delivery, removal of a session) keep.

  \<open>core l p b\<close> collects what holds in every state. \<open>l\<close> is the command for which the shared leases
  hold a reservation that is not settled yet: \<open>held b\<close> between events, \<open>None\<close> once the companion's
  answer has been recorded. \<open>p\<close> says that the answer of a physical inbox read is being processed,
  so that a waiting client need not be covered by a further request yet.
\<close>

section \<open>Access lemmas\<close>

lemma session_of_change_session: "session_of j (change_session i f b) = (if j = i then map_option f (session_of i b) else session_of j b)"
  by (simp add: session_of_def change_session_def map_of_change_entry)

lemma session_of_delete: "session_of j (b\<lparr>sessions := AList.delete i (sessions b)\<rparr>) = (if j = i then None else session_of j b)"
  by (simp add: session_of_def AList.delete_conv')

lemma session_of_update: "session_of j (b\<lparr>sessions := AList.update i s (sessions b)\<rparr>) = (if j = i then Some s else session_of j b)"
  by (simp add: session_of_def update_conv')

lemma sessions_Nil_iff: "sessions b = [] \<longleftrightarrow> (\<forall>i. session_of i b = None)"
  by (cases "sessions b") (auto simp: session_of_def split: if_splits intro: exI)

lemma session_of_Some_id: "i \<in> set (map fst (sessions b)) \<longleftrightarrow> session_of i b \<noteq> None"
  by (auto simp: session_of_def map_of_eq_None_iff)

lemma change_session_Nil [simp]: "sessions (change_session i f b) = [] \<longleftrightarrow> sessions b = []"
  by (cases "sessions b") (auto simp: change_session_def split: if_splits)

lemma delete_Nil_other: "AList.delete i es = [] \<Longrightarrow> j \<noteq> i \<Longrightarrow> map_of es j = None"
  using AList.delete_conv' [of i es] by (metis fun_upd_other map_of.simps(1))

lemma change_session_absent: "session_of i b = None \<Longrightarrow> change_session i f b = b"
  by (simp add: change_session_def session_of_def change_entry_absent)

lemma session_of_cong: "sessions b = sessions b' \<Longrightarrow> session_of i b = session_of i b'"
  by (simp add: session_of_def)

named_theorems broker_simps \<open>how the state changes act on the fields of the broker\<close>

text \<open>What each change leaves alone.\<close>

lemma change_session_fields [broker_simps]:
  "epoch (change_session i f b) = epoch b" "self_key (change_session i f b) = self_key b"
  "config (change_session i f b) = config b" "active (change_session i f b) = active b"
  "response_debt (change_session i f b) = response_debt b" "actions (change_session i f b) = actions b"
  "failed (change_session i f b) = failed b" "orphan (change_session i f b) = orphan b"
  "dedicated_slots (change_session i f b) = dedicated_slots b" "radio (change_session i f b) = radio b"
  "deduplicator (change_session i f b) = deduplicator b" "rotation (change_session i f b) = rotation b"
  "next_write (change_session i f b) = next_write b" "upstream_writes (change_session i f b) = upstream_writes b"
  "pop_sequence (change_session i f b) = pop_sequence b" "generation (change_session i f b) = generation b"
  "drain_requested (change_session i f b) = drain_requested b" "drain_authorized (change_session i f b) = drain_authorized b"
  "last_poll (change_session i f b) = last_poll b" "time (change_session i f b) = time b"
  "signing (change_session i f b) = signing b" "owner_of (change_session i f b) = owner_of b"
  "map fst (sessions (change_session i f b)) = map fst (sessions b)"
  by (simp_all add: change_session_def owner_of_def)

lemma change_slot_fields [broker_simps]:
  "epoch (change_slot i f b) = epoch b" "self_key (change_slot i f b) = self_key b"
  "config (change_slot i f b) = config b" "active (change_slot i f b) = active b"
  "response_debt (change_slot i f b) = response_debt b" "actions (change_slot i f b) = actions b"
  "failed (change_slot i f b) = failed b" "orphan (change_slot i f b) = orphan b"
  "sessions (change_slot i f b) = sessions b" "radio (change_slot i f b) = radio b"
  "deduplicator (change_slot i f b) = deduplicator b" "rotation (change_slot i f b) = rotation b"
  "next_write (change_slot i f b) = next_write b" "upstream_writes (change_slot i f b) = upstream_writes b"
  "pop_sequence (change_slot i f b) = pop_sequence b" "generation (change_slot i f b) = generation b"
  "drain_requested (change_slot i f b) = drain_requested b" "drain_authorized (change_slot i f b) = drain_authorized b"
  "last_poll (change_slot i f b) = last_poll b" "time (change_slot i f b) = time b"
  "signing (change_slot i f b) = signing b" "owner_of (change_slot i f b) = owner_of b"
  "session_of j (change_slot i f b) = session_of j b"
  "map fst (dedicated_slots (change_slot i f b)) = map fst (dedicated_slots b)"
  by (simp_all add: change_slot_def owner_of_def session_of_def)

lemma act_fields [broker_simps]:
  "epoch (act xs b) = epoch b" "self_key (act xs b) = self_key b"
  "config (act xs b) = config b" "active (act xs b) = active b"
  "response_debt (act xs b) = response_debt b" "actions (act xs b) = actions b @ xs"
  "failed (act xs b) = failed b" "orphan (act xs b) = orphan b"
  "sessions (act xs b) = sessions b" "radio (act xs b) = radio b" "dedicated_slots (act xs b) = dedicated_slots b"
  "deduplicator (act xs b) = deduplicator b" "rotation (act xs b) = rotation b"
  "next_write (act xs b) = next_write b" "upstream_writes (act xs b) = upstream_writes b"
  "pop_sequence (act xs b) = pop_sequence b" "generation (act xs b) = generation b"
  "drain_requested (act xs b) = drain_requested b" "drain_authorized (act xs b) = drain_authorized b"
  "last_poll (act xs b) = last_poll b" "time (act xs b) = time b"
  "signing (act xs b) = signing b" "owner_of (act xs b) = owner_of b" "session_of j (act xs b) = session_of j b"
  by (simp_all add: act_def owner_of_def session_of_def)

lemma change_active_fields [broker_simps]:
  "epoch (change_active f b) = epoch b" "self_key (change_active f b) = self_key b"
  "config (change_active f b) = config b" "active (change_active f b) = map_option f (active b)"
  "response_debt (change_active f b) = response_debt b" "actions (change_active f b) = actions b"
  "failed (change_active f b) = failed b" "orphan (change_active f b) = orphan b"
  "sessions (change_active f b) = sessions b" "radio (change_active f b) = radio b"
  "dedicated_slots (change_active f b) = dedicated_slots b"
  "deduplicator (change_active f b) = deduplicator b" "rotation (change_active f b) = rotation b"
  "next_write (change_active f b) = next_write b" "upstream_writes (change_active f b) = upstream_writes b"
  "pop_sequence (change_active f b) = pop_sequence b" "generation (change_active f b) = generation b"
  "drain_requested (change_active f b) = drain_requested b" "drain_authorized (change_active f b) = drain_authorized b"
  "last_poll (change_active f b) = last_poll b" "time (change_active f b) = time b"
  "signing (change_active f b) = signing b" "session_of j (change_active f b) = session_of j b"
  by (simp_all add: change_active_def session_of_def)

lemma release_slot_fields [broker_simps]:
  "epoch (release_slot i s b) = epoch b" "self_key (release_slot i s b) = self_key b"
  "config (release_slot i s b) = config b" "active (release_slot i s b) = active b"
  "response_debt (release_slot i s b) = response_debt b" "actions (release_slot i s b) = actions b"
  "failed (release_slot i s b) = failed b" "orphan (release_slot i s b) = orphan b"
  "sessions (release_slot i s b) = sessions b" "radio (release_slot i s b) = radio b"
  "deduplicator (release_slot i s b) = deduplicator b" "rotation (release_slot i s b) = rotation b"
  "next_write (release_slot i s b) = next_write b" "upstream_writes (release_slot i s b) = upstream_writes b"
  "pop_sequence (release_slot i s b) = pop_sequence b" "generation (release_slot i s b) = generation b"
  "drain_requested (release_slot i s b) = drain_requested b" "drain_authorized (release_slot i s b) = drain_authorized b"
  "last_poll (release_slot i s b) = last_poll b" "time (release_slot i s b) = time b"
  "signing (release_slot i s b) = signing b" "owner_of (release_slot i s b) = owner_of b"
  "session_of j (release_slot i s b) = session_of j b"
  "map fst (dedicated_slots (release_slot i s b)) = map fst (dedicated_slots b)"
  by (simp_all add: release_slot_def broker_simps split: option.splits)

definition slot_of :: "int \<Rightarrow> broker \<Rightarrow> dedicated_slot option" where
  "slot_of k b = map_of (dedicated_slots b) k"

lemma slot_of_change_slot [broker_simps]:
  "slot_of j (change_slot k f b) = (if j = k then map_option f (slot_of k b) else slot_of j b)"
  by (simp add: slot_of_def change_slot_def map_of_change_entry)

lemma slot_of_cong: "dedicated_slots b = dedicated_slots b' \<Longrightarrow> slot_of k b = slot_of k b'"
  by (simp add: slot_of_def)

lemma detach_fields [broker_simps]:
  "epoch (detach i s r b) = epoch b" "self_key (detach i s r b) = self_key b"
  "config (detach i s r b) = config b" "active (detach i s r b) = active b"
  "response_debt (detach i s r b) = response_debt b" "actions (detach i s r b) = actions b @ [CloseSession i r]"
  "failed (detach i s r b) = failed b" "orphan (detach i s r b) = orphan b"
  "sessions (detach i s r b) = AList.delete i (sessions b)"
  "session_of j (detach i s r b) = (if j = i then None else session_of j b)"
  "radio_ring (radio (detach i s r b)) = radio_ring (radio b)"
  "radio_remote (radio (detach i s r b)) = lease_owner_gone i (radio_remote (radio b))"
  "deduplicator (detach i s r b) = deduplicator b" "rotation (detach i s r b) = filter (\<lambda>j. j \<noteq> i) (rotation b)"
  "next_write (detach i s r b) = next_write b" "upstream_writes (detach i s r b) = upstream_writes b"
  "pop_sequence (detach i s r b) = pop_sequence b" "generation (detach i s r b) = generation b"
  "last_poll (detach i s r b) = last_poll b" "time (detach i s r b) = time b"
  "signing (detach i s r b) = (if owner_of b = Some i then signing b else signing_owner_gone i (signing b))"
  "drain_authorized (detach i s r b) = (drain_authorized b \<and> sessions (detach i s r b) \<noteq> [])"
  "drain_requested (detach i s r b) = (drain_requested b \<and> sessions (detach i s r b) \<noteq> [])"
  "slot_of k (detach i s r b) = slot_of k (release_slot i s b)"
  "map fst (dedicated_slots (detach i s r b)) = map fst (dedicated_slots b)"
  by (auto simp: detach_def broker_simps Let_def session_of_delete owner_of_def session_of_def
        AList.delete_conv' release_slot_def slot_of_def change_slot_def delete_Nil_other split: option.splits)

section \<open>The invariant\<close>

definition item_ok :: "bytes \<Rightarrow> bool" where
  "item_ok p \<longleftrightarrow> validate_response_shape p = Inr ()"

text \<open>The bounds on a session; \<open>owned\<close> says that the transaction in flight is its own.\<close>

definition session_inv :: "config \<Rightarrow> bool \<Rightarrow> session \<Rightarrow> bool" where
  "session_inv c owned s \<longleftrightarrow> length (writes s) \<le> output_frames c \<and> length (inbox s) \<le> inbox_entries c
     \<and> list_all item_ok (inbox s) \<and> list_all (\<lambda>x. cmd_payload x \<noteq> []) (commands s)
     \<and> length (commands s) + of_bool (sync s \<noteq> None) + of_bool owned \<le> command_limit c"

definition slot_inv :: "config \<Rightarrow> dedicated_slot \<Rightarrow> bool" where
  "slot_inv c slot \<longleftrightarrow> length (slot_queue slot) \<le> offline_queue_size c \<and> list_all item_ok (slot_queue slot)"

definition queues_inv :: "broker \<Rightarrow> bool" where
  "queues_inv b \<longleftrightarrow> (\<forall>i s. session_of i b = Some s \<longrightarrow> session_inv (config b) (owner_of b = Some i) s)
     \<and> (\<forall>k slot. slot_of k b = Some slot \<longrightarrow> slot_inv (config b) slot)"

definition structure_inv :: "broker \<Rightarrow> bool" where
  "structure_inv b \<longleftrightarrow> distinct (rotation b) \<and> set (rotation b) = insert 0 {i. session_of i b \<noteq> None}
     \<and> session_of 0 b = None \<and> distinct (map fst (sessions b)) \<and> distinct (map fst (dedicated_slots b))
     \<and> (\<forall>k slot i. slot_of k b = Some slot \<and> slot_session slot = Some i \<longrightarrow>
          (\<exists>s. session_of i b = Some s \<and> session_slot s = Some k))
     \<and> (\<forall>i s k. session_of i b = Some s \<and> session_slot s = Some k \<longrightarrow> slot_of k b \<noteq> None)"

definition env_inv :: "broker \<Rightarrow> bool" where
  "env_inv b \<longleftrightarrow> validate_config (config b) = Inr () \<and> 6 \<le> length (self_key b)
     \<and> (\<forall>item. orphan b = Some item \<longrightarrow> item_ok item) \<and> ring_ok (radio_ring (radio b)) \<and> signing_inv (signing b)"

definition transaction_inv :: "transaction \<Rightarrow> bool" where
  "transaction_inv t \<longleftrightarrow> command_shape_valid (t_command t) \<and> descriptor (t_command t) = Some (t_descriptor t)
     \<and> maintenance t = flag Maintenance t
     \<and> (if t_owner t = 0 then t_command t = [CMD_SYNC_NEXT_MESSAGE] \<and> t_step t = Command
        else t_command t ! 0 \<noteq> CMD_SYNC_NEXT_MESSAGE)
     \<and> (t_step t = MaintenanceResult \<longrightarrow> upstream_write_id t = None \<and> maintenance t)
     \<and> (scoped t \<longrightarrow> flag ScopeSend t) \<and> (t_step t = Setup \<or> t_step t = Restore \<longrightarrow> scoped t)"

definition active_inv :: "broker \<Rightarrow> bool" where
  "active_inv b \<longleftrightarrow> (\<forall>t. active b = Some t \<longrightarrow> transaction_inv t) \<and> (failed b \<longrightarrow> active b = None \<and> sessions b = [])"

definition outstanding_write :: "broker \<Rightarrow> int list" where
  "outstanding_write b = (case active b of None \<Rightarrow> []
     | Some t \<Rightarrow> (case upstream_write_id t of None \<Rightarrow> [] | Some w \<Rightarrow> [w]))"

definition writes_inv :: "broker \<Rightarrow> bool" where
  "writes_inv b \<longleftrightarrow> map fst (upstream_writes b) = outstanding_write b"

definition waiting :: "broker \<Rightarrow> bool" where
  "waiting b \<longleftrightarrow> (\<exists>i s. session_of i b = Some s \<and> sync s \<noteq> None)"

definition wait_inv :: "bool \<Rightarrow> broker \<Rightarrow> bool" where
  "wait_inv p b \<longleftrightarrow> (drain_requested b \<longrightarrow> drain_authorized b) \<and> (drain_authorized b \<longrightarrow> sessions b \<noteq> [])
     \<and> (waiting b \<longrightarrow> drain_authorized b \<and> (drain_requested b \<or> p \<or> owner_of b = Some 0))"

text \<open>The command whose reservations are still open.\<close>

definition held :: "broker \<Rightarrow> (int \<times> bytes) option" where
  "held b = (case active b of None \<Rightarrow> None
     | Some t \<Rightarrow> if t_step t = Setup \<or> t_step t = Command then Some (t_owner t, t_command t) else None)"

definition uses_lease :: "bytes \<Rightarrow> bool" where
  "uses_lease c \<longleftrightarrow> (\<exists>d. descriptor c = Some d \<and> RemoteLease \<in> set (desc_flags d))"

fun leases_for :: "(int \<times> bytes) option \<Rightarrow> span \<Rightarrow> radio_state \<Rightarrow> signing_lease \<Rightarrow> bool" where
  "leases_for None now r sl \<longleftrightarrow> \<not> rl_tentative (radio_remote r)
     \<and> \<not> sl_tentative sl \<and> sl_pending_data sl = None \<and> \<not> sl_finish_pending sl"
| "leases_for (Some (owner, c)) now r sl \<longleftrightarrow>
     rl_tentative (radio_remote r) = uses_lease c
     \<and> (uses_lease c \<longrightarrow> rl_kind (radio_remote r) \<noteq> None \<and> rl_deadline (radio_remote r) = None)
     \<and> (plain_dm c \<longrightarrow> ring_available now (radio_ring r))
     \<and> sl_tentative sl = (c ! 0 = CMD_SIGN_START) \<and> (sl_pending_data sl \<noteq> None) = (c ! 0 = CMD_SIGN_DATA)
     \<and> sl_finish_pending sl = (c ! 0 = CMD_SIGN_FINISH)
     \<and> (c ! 0 \<in> {CMD_SIGN_START, CMD_SIGN_DATA, CMD_SIGN_FINISH} \<longrightarrow> sl_owner sl = Some owner)"

definition lease_inv :: "(int \<times> bytes) option \<Rightarrow> broker \<Rightarrow> bool" where
  "lease_inv l b \<longleftrightarrow> (if failed b then \<not> rl_tentative (radio_remote (radio b))
     else leases_for l (time b) (radio b) (signing b))"

definition core :: "(int \<times> bytes) option \<Rightarrow> bool \<Rightarrow> broker \<Rightarrow> bool" where
  "core l p b \<longleftrightarrow> structure_inv b \<and> queues_inv b \<and> env_inv b \<and> active_inv b \<and> writes_inv b \<and> wait_inv p b \<and> lease_inv l b"

text \<open>Settled (\<open>z\<close>) or open reservations of the transaction in flight.\<close>

definition broker_core :: "bool \<Rightarrow> bool \<Rightarrow> broker \<Rightarrow> bool" where
  "broker_core z p b \<longleftrightarrow> core (if z then None else held b) p b"

definition broker_inv :: "broker \<Rightarrow> bool" where
  "broker_inv b \<longleftrightarrow> broker_core False False b"

lemmas core_defs = core_def structure_inv_def queues_inv_def env_inv_def active_inv_def writes_inv_def wait_inv_def lease_inv_def

lemma core_parts:
  assumes "core l p b"
  shows "structure_inv b" "queues_inv b" "env_inv b" "active_inv b" "writes_inv b" "wait_inv p b" "lease_inv l b"
  using assms by (simp_all add: core_def)

lemma leases_not_tentative: "leases_for None now r sl \<Longrightarrow> \<not> rl_tentative (radio_remote r)"
  by simp

lemma leases_for_later:
  assumes "leases_for l now r sl" "now \<le> now'"
  shows "leases_for l now' r sl"
proof (cases l)
  case (Some x)
  obtain owner c where x: "x = (owner, c)" by fastforce
  have "ring_available now (radio_ring r) \<Longrightarrow> ring_available now' (radio_ring r)"
    using assms(2) by (auto simp: ring_available_def entry_free_def split: option.splits)
  with assms(1) Some x show ?thesis by simp
qed (use assms in simp)

lemma owner_gone_tentative [simp]:
  "rl_tentative (lease_owner_gone i l) = rl_tentative l" "rl_kind (lease_owner_gone i l) = rl_kind l"
  "rl_deadline (lease_owner_gone i l) = rl_deadline l"
  by (simp_all add: lease_owner_gone_def)

lemma signing_inv_owner_gone: "signing_inv s \<Longrightarrow> signing_inv (signing_owner_gone i s)"
  by (simp add: signing_owner_gone_def)

lemma leases_for_owner_gone:
  assumes "leases_for l now r sl" "\<And>owner c. l = Some (owner, c) \<Longrightarrow> c ! 0 \<in> {CMD_SIGN_START, CMD_SIGN_DATA, CMD_SIGN_FINISH} \<Longrightarrow> i \<noteq> owner"
  shows "leases_for l now r (signing_owner_gone i sl)"
proof (cases l)
  case None
  with assms show ?thesis by (auto simp: signing_owner_gone_def signing_clear_def)
next
  case (Some x)
  then obtain owner c where x: "l = Some (owner, c)" by (cases x) auto
  show ?thesis
  proof (cases "sl_owner sl = Some i")
    case True
    with assms x show ?thesis by (auto simp: signing_owner_gone_def signing_clear_def)
  next
    case False
    with assms show ?thesis by (simp add: signing_owner_gone_def)
  qed
qed


section \<open>Failing the epoch\<close>

definition flags_inv :: "broker \<Rightarrow> bool" where
  "flags_inv b \<longleftrightarrow> (drain_requested b \<longrightarrow> drain_authorized b) \<and> (drain_authorized b \<longrightarrow> sessions b \<noteq> [])"

definition slots_inv :: "broker \<Rightarrow> bool" where
  "slots_inv b \<longleftrightarrow> (\<forall>k slot. slot_of k b = Some slot \<longrightarrow> slot_inv (config b) slot)"

definition closing :: "broker \<Rightarrow> bool" where
  "closing b \<longleftrightarrow> structure_inv b \<and> slots_inv b \<and> env_inv b \<and> flags_inv b"

definition closable :: "broker \<Rightarrow> bool" where
  "closable b \<longleftrightarrow> closing b \<and> (rl_tentative (radio_remote (radio b)) \<longrightarrow> rl_kind (radio_remote (radio b)) \<noteq> None
     \<and> (\<exists>t. active b = Some t \<and> flag RemoteLease t \<and> (t_step t = Setup \<or> t_step t = Command)))"

definition ended :: "broker \<Rightarrow> bool" where
  "ended b \<longleftrightarrow> broker_inv b \<and> failed b"

lemma slot_session_cleared [simp]: "slot\<lparr>slot_session := None\<rparr> = slot \<longleftrightarrow> slot_session slot = None"
  by (cases slot) auto

lemma slot_of_release:
  "slot_of k (release_slot i s b) = (if session_slot s = Some k
     then map_option (\<lambda>slot. if slot_session slot = Some i then slot\<lparr>slot_session := None\<rparr> else slot) (slot_of k b)
     else slot_of k b)"
  by (simp add: release_slot_def broker_simps split: option.splits)

lemma structure_detach:
  assumes "structure_inv b" "session_of i b = Some s"
  shows "structure_inv (detach i s r b)"
proof -
  have slots: "\<exists>s'. session_of j (detach i s r b) = Some s' \<and> session_slot s' = Some k"
    if "slot_of k (detach i s r b) = Some slot" "slot_session slot = Some j" for k slot j
  proof -
    have "slot_of k b = Some slot \<and> (j = i \<longrightarrow> session_slot s \<noteq> Some k)"
      using that by (auto simp: detach_fields(24) slot_of_release split: if_splits)
    moreover from this assms(1) that(2) obtain s' where "session_of j b = Some s'" "session_slot s' = Some k"
      unfolding structure_inv_def by blast
    ultimately show ?thesis using assms(2) by (auto simp: broker_simps)
  qed
  have known: "slot_of k (detach i s r b) \<noteq> None" if "slot_of k b \<noteq> None" for k
    using that by (simp add: broker_simps slot_of_release)
  have "distinct (rotation (detach i s r b))" "session_of 0 (detach i s r b) = None"
    "distinct (map fst (sessions (detach i s r b)))" "distinct (map fst (dedicated_slots (detach i s r b)))"
    "set (rotation (detach i s r b)) = insert 0 {j. session_of j (detach i s r b) \<noteq> None}"
    using assms by (auto simp: structure_inv_def broker_simps distinct_delete)
  moreover have "slot_of k (detach i s r b) \<noteq> None"
    if "session_of j (detach i s r b) = Some s'" "session_slot s' = Some k" for j s' k
    using that assms(1) by (intro known) (auto simp: structure_inv_def broker_simps split: if_splits)
  ultimately show ?thesis using slots unfolding structure_inv_def by blast
qed

lemma closing_detach:
  assumes "closing b" "session_of i b = Some s"
  shows "closing (detach i s r b)"
proof -
  have "slot_inv (config b) slot'" if "slot_of k (release_slot i s b) = Some slot'" for k slot'
    using that assms(1)
    by (auto simp: closing_def slots_inv_def slot_inv_def slot_of_release split: if_splits)
  with assms structure_detach [OF _ assms(2), of r] show ?thesis
    by (auto simp: closing_def slots_inv_def env_inv_def flags_inv_def broker_simps signing_inv_owner_gone)
qed

lemma structure_cong:
  assumes "sessions b' = sessions b" "rotation b' = rotation b" "dedicated_slots b' = dedicated_slots b"
  shows "structure_inv b' = structure_inv b"
proof -
  have "session_of i b' = session_of i b" "slot_of k b' = slot_of k b" for i k
    using assms by (simp_all add: session_of_def slot_of_def)
  with assms show ?thesis by (simp only: structure_inv_def)
qed

lemma closing_cong:
  assumes "sessions b' = sessions b" "rotation b' = rotation b" "dedicated_slots b' = dedicated_slots b"
    "config b' = config b" "self_key b' = self_key b" "orphan b' = orphan b"
    "radio_ring (radio b') = radio_ring (radio b)" "signing_inv (signing b')"
    "drain_requested b' = drain_requested b" "drain_authorized b' = drain_authorized b" "closing b"
  shows "closing b'"
proof -
  have "session_of i b' = session_of i b" "slot_of k b' = slot_of k b" for i k
    using assms by (simp_all add: session_of_def slot_of_def)
  moreover have "signing_inv (signing b)" using assms(11) by (simp add: closing_def env_inv_def)
  ultimately have "closing b' = closing b"
    by (simp only: closing_def structure_inv_def slots_inv_def env_inv_def flags_inv_def assms(1-10))
  with assms(11) show ?thesis by simp
qed

lemma closing_signing [simp]: "closing b \<Longrightarrow> signing_inv (signing b)"
  by (simp add: closing_def env_inv_def)

lemma closing_radio:
  "closing b \<Longrightarrow> closing (b\<lparr>radio := (radio b)\<lparr>radio_remote := l\<rparr>\<rparr>)"
  "closing b \<Longrightarrow> closing (b\<lparr>radio := snd (quarantine now d u (radio b))\<rparr>)"
  "closing b \<Longrightarrow> closing (b\<lparr>radio := (snd (quarantine now d u (radio b)))\<lparr>radio_remote := l\<rparr>\<rparr>)"
  by (rule closing_cong [where b = b]; simp add: quarantine_def Let_def)+

lemma quarantine_remote [simp]: "radio_remote (snd (quarantine now d u r)) = radio_remote r"
  "radio_ring (snd (quarantine now d u r)) = radio_ring r"
  by (simp_all add: quarantine_def Let_def)

lemma radio_unchanged: "\<exists>r. b = b\<lparr>radio := r\<rparr>"
  by (rule exI [of _ "radio b"]) simp

lemma preserve_radio_run:
  assumes "closable b"
  shows "\<exists>b'. preserve_radio_uncertainty b = (Inr (), b') \<and> closing b' \<and> \<not> rl_tentative (radio_remote (radio b'))
    \<and> (\<exists>r. b' = b\<lparr>radio := r\<rparr>)"
proof -
  define l where "l = radio_remote (radio b)"
  have c: "closing b" using assms by (simp add: closable_def)
  consider (free) "\<not> rl_tentative l"
    | (open_) t where "active b = Some t" "flag RemoteLease t" "t_step t = Setup \<or> t_step t = Command" "rl_kind l \<noteq> None" "rl_tentative l"
    using assms by (auto simp: closable_def l_def)
  then show ?thesis
  proof cases
    case free
    then show ?thesis using c
      by (cases "active b")
        (auto simp: preserve_radio_uncertainty_def cr_defs on_radio_def on_remote_def returning_def l_def
          lease_rejected_def lease_clear_def closing_radio case_prod_unfold radio_unchanged)
  next
    case open_
    then show ?thesis using c
      by (auto simp: preserve_radio_uncertainty_def cr_defs on_radio_def on_remote_def returning_def l_def
          lease_rejected_def lease_clear_def acceptance_unknown_def closing_radio case_prod_unfold)
  qed
qed


lemma cr_when_return [simp]: "cr_when c (cr_return ()) = cr_return ()"
  by (simp add: cr_when_def)

lemma remove_ended:
  assumes "session_of i b = Some s"
  shows "\<exists>a sl. remove_with (\<lambda>_. cr_return ()) i r b = (Inr (), (detach i s r b)\<lparr>active := a, signing := sl\<rparr>)
    \<and> (a = active b \<or> a = None) \<and> (signing_inv (signing b) \<longrightarrow> signing_inv sl)"
proof -
  define d where "d = detach i s r b"
  have keep: "d = d\<lparr>active := active b, signing := signing d\<rparr>"
    by (simp add: d_def broker_simps)
  have inv: "signing_inv (signing b) \<Longrightarrow> signing_inv (signing d)"
    by (simp add: d_def broker_simps signing_inv_owner_gone)
  show ?thesis
  proof (cases "active b")
    case None
    then have "remove_with (\<lambda>_. cr_return ()) i r b = (Inr (), d)"
      using assms by (simp add: remove_with_def cr_defs d_def broker_simps)
    with keep inv show ?thesis unfolding d_def [symmetric] by metis
  next
    case (Some t)
    show ?thesis
    proof (cases "maintenance t \<and> t_step t = MaintenanceResult \<and> t_owner t = i")
      case True
      then have "remove_with (\<lambda>_. cr_return ()) i r b = (Inr (), d\<lparr>active := None, signing := signing_owner_gone i (signing d)\<rparr>)"
        using assms Some by (auto simp: remove_with_def finish_with_def cr_defs d_def broker_simps session_of_def AList.delete_conv')
      with inv show ?thesis unfolding d_def [symmetric] by (metis signing_inv_owner_gone)
    next
      case False
      then have "remove_with (\<lambda>_. cr_return ()) i r b = (Inr (), d)"
        using assms Some by (auto simp: remove_with_def cr_defs d_def broker_simps)
      with keep inv show ?thesis unfolding d_def [symmetric] by metis
    qed
  qed
qed

abbreviation close_all :: "int list \<Rightarrow> unit broker_op" where
  "close_all ids \<equiv> cr_each ids (\<lambda>i. remove_with (\<lambda>_. cr_return ()) i ''upstream epoch failed'')"

lemma delete_head: "map fst es = i # is \<Longrightarrow> distinct (map fst es) \<Longrightarrow> map fst (AList.delete i es) = is"
  by (cases es) (auto simp: delete_idem)

lemma close_all_run:
  assumes "closing b" "\<not> rl_tentative (radio_remote (radio b))" "ids = map fst (sessions b)"
  shows "\<exists>b'. close_all ids b = (Inr (), b') \<and> closing b' \<and> \<not> rl_tentative (radio_remote (radio b')) \<and> sessions b' = []
    \<and> actions b' = actions b @ map (\<lambda>i. CloseSession i ''upstream epoch failed'') ids
    \<and> failed b' = failed b \<and> response_debt b' = response_debt b \<and> epoch b' = epoch b \<and> orphan b' = orphan b
    \<and> radio_ring (radio b') = radio_ring (radio b) \<and> time b' = time b \<and> next_write b' = next_write b"
  using assms
proof (induction ids arbitrary: b)
  case Nil
  then show ?case by (auto simp: cr_return_def)
next
  case (Cons i ids)
  then obtain s where s: "session_of i b = Some s"
    by (cases "sessions b") (auto simp: session_of_def)
  obtain a sl where r: "remove_with (\<lambda>_. cr_return ()) i ''upstream epoch failed'' b
      = (Inr (), (detach i s ''upstream epoch failed'' b)\<lparr>active := a, signing := sl\<rparr>)" and sl: "signing_inv sl"
    using remove_ended [OF s, of "''upstream epoch failed''"] Cons.prems(1) by (auto simp: closing_def env_inv_def)
  let ?b1 = "(detach i s ''upstream epoch failed'' b)\<lparr>active := a, signing := sl\<rparr>"
  have "closing ?b1"
    by (rule closing_cong [OF _ _ _ _ _ _ _ _ _ _ closing_detach [OF Cons.prems(1) s]]) (simp_all add: sl)
  moreover have "ids = map fst (sessions ?b1)"
    using delete_head [OF Cons.prems(3) [symmetric]] Cons.prems(1) by (simp add: broker_simps closing_def structure_inv_def)
  moreover have "\<not> rl_tentative (radio_remote (radio ?b1))"
    using Cons.prems by (simp add: broker_simps)
  ultimately show ?case
    using Cons.IH [of ?b1] r by (auto simp: broker_simps cr_then_def cr_bind_def)
qed

lemma broker_core_ended:
  assumes "failed b" "broker_core z p b"
  shows "ended b" "broker_core z' p' b"
proof -
  have "active b = None" "sessions b = []" using assms by (auto simp: broker_core_def core_def active_inv_def)
  with assms show "ended b" "broker_core z' p' b"
    by (auto simp: ended_def broker_inv_def broker_core_def core_def wait_inv_def held_def lease_inv_def waiting_def session_of_def)
qed

definition fresh_debt :: "broker \<Rightarrow> transaction option" where
  "fresh_debt b = (case active b of None \<Rightarrow> response_debt b
     | Some t \<Rightarrow> if t_step t \<noteq> MaintenanceResult \<and> response_debt b = None then Some t else response_debt b)"

lemma record_debt_eq: "record_debt b = b\<lparr>response_debt := fresh_debt b\<rparr>"
  by (simp add: record_debt_def fresh_debt_def split: option.splits)

lemma fail_epoch_run:
  assumes "closable b" "\<not> failed b"
  shows "\<exists>b'. fail_epoch reason b = (Inr (), b') \<and> ended b' \<and> response_debt b' = fresh_debt b
    \<and> actions b' = actions b @ map (\<lambda>i. CloseSession i ''upstream epoch failed'') (map fst (sessions b)) @ [EndEpoch (epoch b) reason]
    \<and> orphan b' = orphan b \<and> time b' = time b \<and> next_write b' = next_write b"
proof -
  obtain r where p: "preserve_radio_uncertainty b = (Inr (), b\<lparr>radio := r\<rparr>)" and c: "closing (b\<lparr>radio := r\<rparr>)"
    and nt: "\<not> rl_tentative (radio_remote r)"
    using preserve_radio_run [OF assms(1)] by fastforce
  define b1 where "b1 = b\<lparr>radio := r\<rparr>"
  define b2 where "b2 = b1\<lparr>response_debt := fresh_debt b1, failed := True\<rparr>"
  have debt: "fresh_debt b1 = fresh_debt b" by (cases "active b") (simp_all add: fresh_debt_def b1_def)
  have c2: "closing b2" unfolding b2_def
    by (rule closing_cong [OF _ _ _ _ _ _ _ _ _ _ c]) (use closing_signing [OF c] in \<open>simp_all add: b1_def\<close>)
  have "sessions b1 = sessions b" by (simp add: b1_def)
  then have ids: "map fst (sessions b) = map fst (sessions b2)" by (simp add: b2_def)
  have nt2: "\<not> rl_tentative (radio_remote (radio b2))" using nt by (simp add: b2_def b1_def)
  obtain b3 where run: "close_all (map fst (sessions b)) b2 = (Inr (), b3)" and c3: "closing b3"
    "\<not> rl_tentative (radio_remote (radio b3))" "sessions b3 = []" "failed b3"
    and rest: "actions b3 = actions b2 @ map (\<lambda>i. CloseSession i ''upstream epoch failed'') (map fst (sessions b))"
      "response_debt b3 = response_debt b2" "epoch b3 = epoch b2" "orphan b3 = orphan b2" "time b3 = time b2" "next_write b3 = next_write b2"
    using close_all_run [OF c2 nt2 ids] by (auto simp: b2_def)
  have keep: "actions b1 = actions b" "epoch b1 = epoch b" "orphan b1 = orphan b" "time b1 = time b" "next_write b1 = next_write b" "failed b1 = failed b"
    by (simp_all add: b1_def)
  let ?b4 = "act [EndEpoch (epoch b3) reason] (b3\<lparr>active := None, upstream_writes := []\<rparr>)"
  have "fail_epoch reason b = (Inr (), ?b4)"
    using assms(2) p run \<open>sessions b1 = sessions b\<close>
    by (simp add: fail_epoch_def cr_defs record_debt_eq b2_def b1_def)
  moreover have c4: "closing ?b4"
    by (rule closing_cong [OF _ _ _ _ _ _ _ _ _ _ c3(1)]) (use closing_signing [OF c3(1)] in \<open>simp_all add: broker_simps\<close>)
  have "structure_inv ?b4" "env_inv ?b4" "slots_inv ?b4" using c4 by (simp_all add: closing_def)
  moreover have "broker_inv ?b4"
    using c4 c3(2,3)
    by (auto simp: broker_inv_def broker_core_def core_def closing_def slots_inv_def queues_inv_def active_inv_def
        writes_inv_def outstanding_write_def wait_inv_def flags_inv_def lease_inv_def waiting_def held_def broker_simps
        session_of_def c3(4))
  ultimately show ?thesis using c3(4) rest keep debt
    by (auto simp: ended_def broker_simps b2_def)
qed


section \<open>Assertions about the client side\<close>

text \<open>The state after a frame for client \<open>i\<close> has been queued.\<close>

definition sent_frame :: "int \<Rightarrow> bytes \<Rightarrow> broker \<Rightarrow> broker" where
  "sent_frame i payload b = act [SendFrame i (epoch b) (next_write b + 1) payload]
     (change_session i (\<lambda>s. s\<lparr>writes := AList.update (next_write b + 1) (time b + write_timeout (config b)) (writes s)\<rparr>)
       (b\<lparr>next_write := next_write b + 1\<rparr>))"

lemma emit_eq:
  "emit i payload b = (case session_of i b of None \<Rightarrow> (Inr None, b)
     | Some s \<Rightarrow> if output_frames (config b) \<le> length (writes s)
         then cr_then (remove i ''output queue overflow'') (cr_return None) b
         else (Inr (Some (next_write b + 1)), sent_frame i payload b))"
  by (simp add: emit_def cr_defs fresh_write_def sent_frame_def change_session_def act_def split: option.splits)

text \<open>The items a client would be served from: its own inbox or its slot's queue.\<close>

definition queue_of :: "int \<Rightarrow> broker \<Rightarrow> bytes list" where
  "queue_of i b = (case session_of i b of None \<Rightarrow> []
     | Some s \<Rightarrow> (case session_slot s of None \<Rightarrow> inbox s
       | Some k \<Rightarrow> (case slot_of k b of None \<Rightarrow> [] | Some slot \<Rightarrow> slot_queue slot)))"

lemma downgrade_item_ok: "item_ok p \<Longrightarrow> \<exists>q. downgrade_inbox p v = Inr q"
  by (auto simp: item_ok_def downgrade_inbox_def)

lemma slot_known:
  assumes "structure_inv b" "session_of i b = Some s" "session_slot s = Some k"
  obtains slot where "slot_of k b = Some slot"
proof -
  have "slot_of k b \<noteq> None" using assms unfolding structure_inv_def by blast
  with that show thesis by blast
qed

lemma slot_user:
  assumes "structure_inv b" "slot_of k b = Some slot" "slot_session slot = Some i" "session_of i b = Some s"
  shows "session_slot s = Some k"
proof -
  have "\<exists>s. session_of i b = Some s \<and> session_slot s = Some k"
    using assms(1-3) unfolding structure_inv_def by blast
  with assms(4) show ?thesis by simp
qed

lemma inbox_for_run:
  assumes "structure_inv b" "session_of i b = Some s"
  shows "inbox_for s b = (Inr (queue_of i b), b)"
proof (cases "session_slot s")
  case None
  with assms(2) show ?thesis by (simp add: inbox_for_def queue_of_def cr_defs)
next
  case (Some k)
  with assms obtain slot where "slot_of k b = Some slot" by (rule slot_known)
  with Some assms(2) show ?thesis by (simp add: inbox_for_def queue_of_def cr_defs slot_of_def)
qed

lemma queue_of_items: "structure_inv b \<Longrightarrow> queues_inv b \<Longrightarrow> p \<in> set (queue_of i b) \<Longrightarrow> item_ok p"
  unfolding queue_of_def queues_inv_def session_inv_def slot_inv_def list_all_iff
  by (cases "session_of i b"; cases "session_slot (the (session_of i b))";
      cases "slot_of (the (session_slot (the (session_of i b)))) b") auto

lemma queue_of_change_session:
  assumes "\<And>s. session_slot (f s) = session_slot s" "\<And>s. inbox (f s) = inbox s"
  shows "queue_of j (change_session i f b) = queue_of j b"
proof (cases "session_of j b")
  case None
  then show ?thesis by (auto simp: queue_of_def session_of_change_session)
next
  case (Some s)
  have "slot_of k (change_session i f b) = slot_of k b" for k by (simp add: slot_of_def broker_simps)
  with Some assms show ?thesis by (cases "session_slot s") (auto simp: queue_of_def session_of_change_session)
qed

locale client_assertion =
  fixes P :: "broker \<Rightarrow> bool"
  assumes delivery: "P b \<Longrightarrow> structure_inv b \<and> queues_inv b"
    and removed: "cr_total P (remove i reason) (\<lambda>_. P)"
    and sent: "P b \<Longrightarrow> session_of i b = Some s \<Longrightarrow> length (writes s) < output_frames (config b) \<Longrightarrow> P (sent_frame i payload b)"
    and hinted: "P b \<Longrightarrow> P (change_session i (\<lambda>s. s\<lparr>hint_write_id := w\<rparr>) b)"
    and unsynced: "P b \<Longrightarrow> P (clear_sync i b)"
    and shifted: "P b \<Longrightarrow> P (shift_inbox i s b)"
    and stored: "P b \<Longrightarrow> session_of i b = Some s \<Longrightarrow> length (inbox s) < inbox_entries (config b) \<Longrightarrow> item_ok p \<Longrightarrow>
      P (change_session i (\<lambda>s. s\<lparr>inbox := inbox s @ [p]\<rparr>) b)"
    and slotted: "P b \<Longrightarrow> slot_of k b = Some slot \<Longrightarrow> item_ok p \<Longrightarrow>
      P (change_slot k (\<lambda>_. snd (enqueue_offline p (offline_queue_size (config b)) slot)) b)"
begin

lemma emit_keeps: "cr_total P (emit i payload) (\<lambda>_. P)"
proof (rule cr_hoareI)
  fix b x b' assume "P b" "emit i payload b = (Inr x, b')"
  with sent cr_hoare_Inr [OF removed] show "P b'"
    by (auto simp: emit_eq cr_defs not_le split: option.splits if_splits prod.splits sum.splits)
next
  fix b e b' assume "P b" "emit i payload b = (Inl e, b')"
  with cr_hoare_Inl [OF removed] show False
    by (auto simp: emit_eq cr_defs not_le split: option.splits if_splits prod.splits sum.splits)
qed

lemma emit_quietly_keeps: "cr_total P (emit_quietly i payload) (\<lambda>_. P)"
  unfolding emit_quietly_def by (intro cr_hoare_then cr_hoare_return) (rule emit_keeps, assumption)

lemma reject_keeps: "cr_total P (reject i reason) (\<lambda>_. P)"
  unfolding reject_def by (intro cr_hoare_then cr_hoare_return) (rule emit_keeps, assumption)

lemma hint_keeps: "cr_total P (emit_availability_hint i) (\<lambda>_. P)"
  unfolding emit_availability_hint_def
  by (intro cr_hoare_bind_get cr_hoare_option cr_hoare_if cr_hoare_return
        cr_hoare_bind [where R = "\<lambda>_. P"] cr_hoare_modify hinted cr_pre [OF emit_keeps]) auto

lemma notify_keeps: "cr_total P notify_all_sessions (\<lambda>_. P)"
  unfolding notify_all_sessions_def
  by (rule cr_hoare_bind_get, rule cr_pre [where P' = P], rule cr_hoare_each, rule hint_keeps, simp)

lemma broadcast_keeps: "cr_total P (broadcast payload) (\<lambda>_. P)"
  unfolding broadcast_def
  by (rule cr_hoare_bind_get, rule cr_pre [where P' = P], rule cr_hoare_each, rule emit_quietly_keeps, simp)

lemma deliver_keeps: "cr_total (\<lambda>b. P b \<and> queue_of i b \<noteq> []) (deliver_item i) (\<lambda>_. P)"
proof (rule cr_hoareI)
  fix b r b' assume b: "P b \<and> queue_of i b \<noteq> []"
  then obtain s where s: "session_of i b = Some s" by (auto simp: queue_of_def split: option.splits)
  have st: "structure_inv b" "queues_inv b" using b delivery by auto
  obtain item rest where q: "queue_of i b = item # rest" using b by (cases "queue_of i b") auto
  then have "item_ok item" using queue_of_items [OF st, of item i] by simp
  then obtain p where p: "downgrade_inbox item (target_version s) = Inr p" using downgrade_item_ok by blast
  obtain w b1 where e: "emit i p b = (Inr w, b1)" "P b1"
    using cr_total_returns [OF emit_keeps, of b] b by metis
  have run: "deliver_item i b = (Inr (), if w \<noteq> None then shift_inbox i s b1 else b1)"
    using s p q e inbox_for_run [OF st(1) s] by (simp add: deliver_item_def cr_defs first_of_def)
  show "deliver_item i b = (Inr r, b') \<Longrightarrow> P b'" and "deliver_item i b = (Inl e', b') \<Longrightarrow> False" for e'
    using run e shifted by (auto split: if_splits)
qed

lemma offer_keeps: "cr_total (\<lambda>b. P b \<and> (session_of i b \<noteq> None \<longrightarrow> queue_of i b \<noteq> [])) (offer_item i was_empty) (\<lambda>_. P)"
proof -
  have q: "queue_of i (clear_sync i b) = queue_of i b" for b
    unfolding clear_sync_def by (rule queue_of_change_session) simp_all
  show ?thesis
    unfolding offer_item_def
    by (intro cr_hoare_bind_get cr_hoare_option cr_hoare_if cr_hoare_return cr_hoare_when
          cr_hoare_then [where R = "\<lambda>b. P b \<and> queue_of i b \<noteq> []"] cr_hoare_modify conjI deliver_keeps cr_pre [OF hint_keeps])
      (auto simp: q unsynced)
qed

lemma enqueue_multi_keeps:
  assumes "item_ok payload"
  shows "cr_total (\<lambda>b. P b \<and> (\<forall>s. session_of i b = Some s \<longrightarrow> session_slot s = None)) (enqueue_multi_client i payload) (\<lambda>_. P)"
proof -
  let ?store = "change_session i (\<lambda>s. s\<lparr>inbox := inbox s @ [payload]\<rparr>)"
  have "P (?store b) \<and> (session_of i (?store b) \<noteq> None \<longrightarrow> queue_of i (?store b) \<noteq> [])"
    if "P b" "session_of i b = Some s" "session_slot s = None" "length (inbox s) < inbox_entries (config b)" for b s
    using that assms stored by (auto simp: queue_of_def session_of_change_session)
  then show ?thesis
    unfolding enqueue_multi_client_def
    by (intro cr_hoare_bind_get cr_hoare_option cr_hoare_if cr_hoare_return cr_pre [OF removed]
        cr_hoare_then [OF cr_hoare_modify offer_keeps]) (auto simp: not_le)
qed

lemma fan_out_keeps:
  assumes "item_ok payload"
  shows "cr_total P (fan_out_dedicated payload) (\<lambda>_. P)"
proof -
  have step: "P b' \<and> (result \<noteq> NewMessageDiscarded \<longrightarrow> slot_session slot' = Some i \<longrightarrow> session_of i b' \<noteq> None \<longrightarrow> queue_of i b' \<noteq> [])"
    if "P b" "slot_of k b = Some slot" and e: "enqueue_offline payload (offline_queue_size (config b)) slot = (result, slot')"
      and b': "b' = change_slot k (\<lambda>_. slot') b" for b b' k slot slot' result i
  proof -
    have "P b'" using slotted [OF that(1,2) assms] e b' by simp
    moreover have "queue_of i b' \<noteq> []"
      if "result \<noteq> NewMessageDiscarded" "slot_session slot' = Some i" "session_of i b' \<noteq> None"
    proof -
      have sess: "slot_session slot' = slot_session slot" and q: "slot_queue slot' \<noteq> []"
        using e that(1) by (auto simp: enqueue_offline_def push_offline_def split: if_splits option.splits)
      from that b' obtain s where s: "session_of i b = Some s" by (auto simp: broker_simps)
      have "session_slot s = Some k"
        using slot_user [OF _ \<open>slot_of k b = Some slot\<close> _ s] delivery [OF \<open>P b\<close>] sess that(2) by simp
      then show ?thesis using q s b' \<open>slot_of k b = Some slot\<close> by (auto simp: queue_of_def broker_simps)
    qed
    ultimately show ?thesis by blast
  qed
  have "cr_total P (fan_out_slot payload k) (\<lambda>_. P)" for k
  proof (rule cr_hoareI)
    fix b r b' assume b: "P b"
    show "fan_out_slot payload k b = (Inr r, b') \<Longrightarrow> P b'" and "fan_out_slot payload k b = (Inl e, b') \<Longrightarrow> False" for e
    proof -
      have "case fan_out_slot payload k b of (Inr x, b'') \<Rightarrow> P b'' | (Inl e, b'') \<Rightarrow> False"
      proof (cases "slot_of k b")
        case None
        with b show ?thesis by (simp add: fan_out_slot_def cr_defs slot_of_def)
      next
        case (Some slot)
        obtain result slot' where e: "enqueue_offline payload (offline_queue_size (config b)) slot = (result, slot')" by fastforce
        let ?b = "change_slot k (\<lambda>_. slot') b"
        have run: "fan_out_slot payload k b = cr_when (result \<noteq> NewMessageDiscarded) (case slot_session slot' of None \<Rightarrow> cr_return ()
              | Some i \<Rightarrow> offer_item i (slot_queue slot = [])) ?b"
          using Some e by (simp add: fan_out_slot_def cr_defs slot_of_def)
        show ?thesis
        proof (cases "slot_session slot'")
          case None
          with step [OF b Some e refl] show ?thesis by (simp add: run cr_when_def cr_return_def)
        next
          case (Some i)
          with step [OF b \<open>slot_of k b = Some slot\<close> e refl, of i] offer_keeps [of i "slot_queue slot = []"]
          show ?thesis by (auto simp: run cr_when_def cr_return_def cr_hoare_def)
        qed
      qed
      then show "fan_out_slot payload k b = (Inr r, b') \<Longrightarrow> P b'" and "fan_out_slot payload k b = (Inl e, b') \<Longrightarrow> False" for e
        by simp_all
    qed
  qed
  then show ?thesis
    unfolding fan_out_dedicated_def
    by (intro cr_hoare_bind_get) (rule cr_pre [where P' = P], rule cr_hoare_each, auto)
qed

lemma pop_empty_keeps: "cr_total P (pop_empty t i) (\<lambda>_. P)"
  unfolding pop_empty_def
  by (intro cr_hoare_bind_get cr_hoare_option cr_hoare_return cr_hoare_when cr_hoare_seq_Cons [where R = P]
        cr_hoare_modify cr_hoare_seq_Nil emit_quietly_keeps unsynced) auto

lemma tick_session_keeps: "cr_total P (tick_session now i) (\<lambda>_. P)"
  unfolding tick_session_def
  by (intro cr_hoare_bind_get cr_hoare_option cr_hoare_return cr_hoare_if cr_hoare_when cr_hoare_seq_Cons [where R = P]
        cr_hoare_modify cr_hoare_seq_Nil reject_keeps unsynced cr_pre [OF removed]) auto

end

end
