(* ===== verification/Broker_Steps.thy ===== *)
theory Broker_Steps
  imports Broker_Inv
begin

text \<open>
  The invariant through the operations of the broker: the client side by interpretation of the
  locale \<open>client_assertion\<close>, then scheduling, replies and the events. No operation raises an
  exception that the source does not handle.
\<close>

section \<open>Removing sessions and finishing transactions\<close>

lemma owner_of_detach [broker_simps]: "owner_of (detach i s r b) = owner_of b"
  by (simp add: owner_of_def broker_simps)

lemma held_cong: "active b' = active b \<Longrightarrow> held b' = held b"
  by (simp add: held_def)

lemma waiting_detach: "waiting (detach i s r b) \<Longrightarrow> waiting b"
  by (auto simp: waiting_def broker_simps split: if_splits)

lemma queues_inv_detach:
  assumes "queues_inv b" "session_of i b = Some s"
  shows "queues_inv (detach i s r b)"
proof -
  have "slot_inv (config b) slot'" if "slot_of k (release_slot i s b) = Some slot'" for k slot'
    using that assms(1) by (auto simp: queues_inv_def slot_inv_def slot_of_release split: if_splits)
  with assms show ?thesis by (auto simp: queues_inv_def broker_simps split: if_splits)
qed

lemma waiting_sessions: "waiting b \<Longrightarrow> sessions b \<noteq> []"
  by (auto simp: waiting_def session_of_def)

lemma leases_for_cong:
  "leases_for l now r sl \<Longrightarrow> radio_ring r' = radio_ring r \<Longrightarrow> rl_tentative (radio_remote r') = rl_tentative (radio_remote r) \<Longrightarrow>
    rl_kind (radio_remote r') = rl_kind (radio_remote r) \<Longrightarrow> rl_deadline (radio_remote r') = rl_deadline (radio_remote r) \<Longrightarrow>
    leases_for l now r' sl"
  by (cases l) auto

lemma lease_inv_detach:
  assumes "lease_inv l b" "l = None \<or> l = held b"
  shows "lease_inv l (detach i s r b)"
proof (cases "failed b")
  case True
  with assms show ?thesis by (simp add: lease_inv_def broker_simps)
next
  case False
  then have l: "leases_for l (time b) (radio b) (signing b)" using assms by (simp add: lease_inv_def)
  have "leases_for l (time b) (radio b) (if owner_of b = Some i then signing b else signing_owner_gone i (signing b))"
    using l leases_for_owner_gone [OF l, of i] assms(2)
    by (auto simp: held_def owner_of_def split: option.splits if_splits)
  from leases_for_cong [OF this, of "radio (detach i s r b)"] False show ?thesis
    by (simp add: lease_inv_def broker_simps)
qed

lemma core_detach:
  assumes "core l p b" "l = None \<or> l = held b" "session_of i b = Some s"
  shows "core l p (detach i s r b)"
proof -
  have "wait_inv p (detach i s r b)"
    using core_parts(6) [OF assms(1)] waiting_sessions [of "detach i s r b"] waiting_detach [of i s r b]
    by (auto simp: wait_inv_def broker_simps)
  moreover have "env_inv (detach i s r b)"
    using core_parts(3) [OF assms(1)] by (simp add: env_inv_def broker_simps signing_inv_owner_gone)
  moreover have "active_inv (detach i s r b)" "writes_inv (detach i s r b)"
    using core_parts(4,5) [OF assms(1)] by (auto simp: active_inv_def writes_inv_def outstanding_write_def broker_simps)
  ultimately show ?thesis
    using assms structure_detach [OF _ assms(3)] queues_inv_detach [OF _ assms(3)] lease_inv_detach [OF _ assms(2)]
    by (simp add: core_def)
qed

lemma descriptor_uses_lease: "transaction_inv t \<Longrightarrow> uses_lease (t_command t) = flag RemoteLease t"
  by (auto simp: transaction_inv_def uses_lease_def flag_def)

lemma core_closable:
  assumes "core l p b" "l = None \<or> l = held b" "\<not> failed b"
  shows "closable b"
proof -
  have c: "closing b" using assms(1)
    by (simp add: closing_def core_def queues_inv_def slots_inv_def wait_inv_def flags_inv_def)
  have ln: "leases_for l (time b) (radio b) (signing b)" using core_parts(7) [OF assms(1)] assms(3) by (simp add: lease_inv_def)
  show ?thesis
  proof (cases "rl_tentative (radio_remote (radio b))")
    case False
    with c show ?thesis by (simp add: closable_def)
  next
    case True
    then have "l \<noteq> None" using ln by (cases l) auto
    then obtain t where t: "active b = Some t" "l = Some (t_owner t, t_command t)" "t_step t = Setup \<or> t_step t = Command"
      using assms(2) by (auto simp: held_def split: option.splits if_splits)
    then have "transaction_inv t" using core_parts(4) [OF assms(1)] by (simp add: active_inv_def)
    with True t ln c descriptor_uses_lease show ?thesis by (auto simp: closable_def)
  qed
qed

lemma ended_core: "ended b \<Longrightarrow> broker_core z p b"
  using broker_core_ended(2) by (auto simp: ended_def broker_inv_def)

lemma broker_core_closable: "broker_core z p b \<Longrightarrow> \<not> failed b \<Longrightarrow> closable b"
  using core_closable [of "if z then None else held b" p b] by (auto simp: broker_core_def)

lemma broker_core_detach:
  assumes "broker_core z p b" "session_of i b = Some s"
  shows "broker_core z p (detach i s r b)"
  using assms core_detach [OF _ _ assms(2), of "if z then None else held b" p r]
  by (cases z) (simp_all add: broker_core_def held_cong [of "detach i s r b" b] broker_simps)

lemma fail_epoch_core: "cr_total (broker_core z p) (fail_epoch r) (\<lambda>_. ended)"
proof (rule cr_hoareI)
  fix b x b' assume b: "broker_core z p b" and run: "fail_epoch r b = (Inr x, b')"
  show "ended b'"
  proof (cases "failed b")
    case True
    with b run broker_core_ended(1) show ?thesis by (simp add: fail_epoch_def cr_defs)
  next
    case False
    with b have "closable b" by (rule broker_core_closable)
    from fail_epoch_run [OF this False, of r] run show ?thesis by auto
  qed
next
  fix b e b' assume b: "broker_core z p b" and run: "fail_epoch r b = (Inl e, b')"
  show False
  proof (cases "failed b")
    case True
    with run show False by (simp add: fail_epoch_def cr_defs)
  next
    case False
    with b have "closable b" by (rule broker_core_closable)
    from fail_epoch_run [OF this False, of r] run show ?thesis by auto
  qed
qed

lemma core_idle: "core None p b \<Longrightarrow> active b = None \<Longrightarrow> broker_core z p b"
  by (simp add: broker_core_def held_def)

text \<open>The state in which a transaction with settled reservations leaves the broker.\<close>

definition released :: "transaction \<Rightarrow> broker \<Rightarrow> broker" where
  "released t b = b\<lparr>active := None, signing := (if session_of (t_owner t) b = None
     then signing_owner_gone (t_owner t) (signing b) else signing b)\<rparr>"

lemma core_released:
  assumes "core None p b" "active b = Some t" "upstream_write_id t = None" "t_owner t \<noteq> 0 \<or> p" "\<not> failed b"
  shows "core None p (released t b)"
proof -
  have "session_of i (released t b) = session_of i b" "slot_of k (released t b) = slot_of k b" for i k
    by (simp_all add: released_def session_of_def slot_of_def)
  moreover have "leases_for None (time b) (radio b) (signing b)" using core_parts(7) [OF assms(1)] assms(5) by (simp add: lease_inv_def)
  then have "leases_for None (time b) (radio b) (signing (released t b))"
    using leases_for_owner_gone [of None "time b" "radio b" "signing b" "t_owner t"] by (auto simp: released_def)
  moreover have "owner_of b \<noteq> Some 0 \<or> p" using assms by (auto simp: owner_of_def)
  moreover have less: "session_inv c owned s \<Longrightarrow> session_inv c False s" for c owned s by (auto simp: session_inv_def)
  moreover have "writes_inv (released t b)" "active_inv (released t b)"
    using core_parts(4,5) [OF assms(1)] assms by (auto simp: released_def writes_inv_def outstanding_write_def active_inv_def)
  moreover have "env_inv (released t b)"
    using core_parts(3) [OF assms(1)] by (simp add: released_def env_inv_def signing_inv_owner_gone)
  moreover have "structure_inv (released t b)"
    using core_parts(1) [OF assms(1)] structure_cong [of "released t b" b] by (simp add: released_def)
  moreover have "wait_inv p (released t b)"
    using core_parts(6) [OF assms(1)] \<open>owner_of b \<noteq> Some 0 \<or> p\<close> by (auto simp: released_def wait_inv_def waiting_def session_of_def)
  moreover have "queues_inv (released t b)"
  proof -
    have "\<forall>i s. session_of i b = Some s \<longrightarrow> session_inv (config b) False s"
      using core_parts(2) [OF assms(1)] less unfolding queues_inv_def by blast
    with core_parts(2) [OF assms(1)] calculation(1,2) show ?thesis
      by (simp add: queues_inv_def owner_of_def released_def)
  qed
  ultimately show ?thesis
    by (auto simp: core_def lease_inv_def released_def)
qed

lemma finish_transaction_eq:
  "finish_transaction t b = cr_when (maintenance t) (fail_epoch ''maintenance operation completed'') (released t b)"
  by (auto simp: finish_transaction_def finish_with_def cr_defs released_def session_of_def split: sum.split prod.split)

lemma finish_transaction_core:
  "cr_total (\<lambda>b. core None p b \<and> active b = Some t \<and> upstream_write_id t = None \<and> (t_owner t \<noteq> 0 \<or> p) \<and> \<not> failed b)
     (finish_transaction t) (\<lambda>_ b. broker_core z p b \<and> (ended b \<or> active b = None \<and> \<not> failed b))"
proof -
  have *: "broker_core z p (released t b) \<and> active (released t b) = None \<and> failed (released t b) = failed b"
    if "core None p b \<and> active b = Some t \<and> upstream_write_id t = None \<and> (t_owner t \<noteq> 0 \<or> p) \<and> \<not> failed b" for b
    using core_idle [OF core_released [of p b t]] that by (auto simp: released_def)
  show ?thesis
     
  proof (rule cr_hoareI)
    fix b x b' assume b: "core None p b \<and> active b = Some t \<and> upstream_write_id t = None \<and> (t_owner t \<noteq> 0 \<or> p) \<and> \<not> failed b"
      and run: "finish_transaction t b = (Inr x, b')"
    show "broker_core z p b' \<and> (ended b' \<or> active b' = None \<and> \<not> failed b')"
      using cr_hoare_Inr [OF fail_epoch_core conjunct1 [OF * [OF b]]] run * [OF b] b ended_core
      by (cases "maintenance t") (auto simp: finish_transaction_eq cr_when_def cr_return_def)
  next
    fix b e b' assume b: "core None p b \<and> active b = Some t \<and> upstream_write_id t = None \<and> (t_owner t \<noteq> 0 \<or> p) \<and> \<not> failed b"
      and run: "finish_transaction t b = (Inl e, b')"
    show False
      using cr_hoare_Inl [OF fail_epoch_core conjunct1 [OF * [OF b]]] run
      by (cases "maintenance t") (auto simp: finish_transaction_eq cr_when_def cr_return_def)
  qed
qed

lemma remove_eq:
  "remove i reason b = (case session_of i b of None \<Rightarrow> (Inr (), b)
     | Some s \<Rightarrow> (case active b of None \<Rightarrow> (Inr (), detach i s reason b)
       | Some t \<Rightarrow> if maintenance t \<and> t_step t = MaintenanceResult \<and> t_owner t = i
           then finish_transaction t (detach i s reason b) else (Inr (), detach i s reason b)))"
  by (auto simp: remove_def remove_with_def finish_transaction_def cr_defs broker_simps split: option.splits)

lemma remove_core: "cr_total (broker_core z p) (remove i reason) (\<lambda>_. broker_core z p)"
proof -
  have "case remove i reason b of (Inr x, b') \<Rightarrow> broker_core z p b' | (Inl e, b') \<Rightarrow> False" if b: "broker_core z p b" for b
  proof (cases "session_of i b")
    case None
    with b show ?thesis by (simp add: remove_eq)
  next
    case (Some s)
    let ?d = "detach i s reason b"
    have d: "broker_core z p ?d" using b Some by (rule broker_core_detach)
    show ?thesis
    proof (cases "\<exists>t. active b = Some t \<and> maintenance t \<and> t_step t = MaintenanceResult \<and> t_owner t = i")
      case False
      with d Some show ?thesis by (auto simp: remove_eq split: option.splits)
    next
      case True
      then obtain t where t: "active b = Some t" "maintenance t" "t_step t = MaintenanceResult" "t_owner t = i" by blast
      have core: "core None p ?d" using d t by (cases z) (simp_all add: broker_core_def held_def broker_simps)
      have "i \<noteq> 0" using Some core_parts(1) b unfolding broker_core_def structure_inv_def by fastforce
      moreover have "upstream_write_id t = None" "\<not> failed b"
        using t core_parts(4) b unfolding broker_core_def active_inv_def transaction_inv_def by fastforce+
      ultimately have "case finish_transaction t ?d of (Inr x, b') \<Rightarrow> broker_core z p b' | (Inl e, b') \<Rightarrow> False"
        using finish_transaction_core [of p t z, unfolded cr_hoare_def] core t
        by (fastforce simp: broker_simps split: prod.splits sum.splits)
      with Some t show ?thesis by (simp add: remove_eq)
    qed
  qed
  then show ?thesis by (simp add: cr_hoare_def)
qed


section \<open>The client side keeps the invariant\<close>

lemma structure_change_session:
  assumes "structure_inv b" "\<And>s. session_of i b = Some s \<Longrightarrow> session_slot (f s) = session_slot s"
  shows "structure_inv (change_session i f b)"
proof -
  have slots: "slot_of k (change_session i f b) = slot_of k b" for k by (simp add: slot_of_def broker_simps)
  have ids: "{j. session_of j (change_session i f b) \<noteq> None} = {j. session_of j b \<noteq> None}"
    by (auto simp: session_of_change_session)
  have use: "(\<exists>s. session_of j (change_session i f b) = Some s \<and> session_slot s = Some k)
      = (\<exists>s. session_of j b = Some s \<and> session_slot s = Some k)" for j k
    using assms(2) by (auto simp: session_of_change_session)
  have "session_of 0 (change_session i f b) = None" using assms(1)
    by (auto simp: structure_inv_def session_of_change_session)
  moreover have "slot_of k b \<noteq> None" if "session_of j (change_session i f b) = Some s" "session_slot s = Some k" for j s k
    using that assms(1) use [of j k] unfolding structure_inv_def by blast
  ultimately show ?thesis
    using assms(1) unfolding structure_inv_def slots ids use by (simp add: broker_simps) blast
qed

lemma queues_change_session:
  assumes "queues_inv b" "\<And>s. session_of i b = Some s \<Longrightarrow> session_inv (config b) (owner_of b = Some i) s \<Longrightarrow>
    session_inv (config b) (owner_of b = Some i) (f s)"
  shows "queues_inv (change_session i f b)"
  using assms by (auto simp: queues_inv_def session_of_change_session broker_simps slot_of_def split: if_splits)

lemma core_change_session:
  assumes "core l p b" "\<And>s. session_of i b = Some s \<Longrightarrow> session_slot (f s) = session_slot s \<and> (sync (f s) \<noteq> None \<longrightarrow> sync s \<noteq> None)"
    "\<And>s. session_of i b = Some s \<Longrightarrow> session_inv (config b) (owner_of b = Some i) s \<Longrightarrow> session_inv (config b) (owner_of b = Some i) (f s)"
  shows "core l p (change_session i f b)"
proof -
  have "waiting (change_session i f b) \<Longrightarrow> waiting b"
    using assms(2) by (fastforce simp: waiting_def session_of_change_session split: if_splits)
  then show ?thesis
    using assms structure_change_session [of b i f] queues_change_session [of b i f]
    by (auto simp: core_def env_inv_def active_inv_def writes_inv_def outstanding_write_def wait_inv_def lease_inv_def broker_simps)
qed

lemma broker_core_change_session:
  assumes "broker_core z p b" "\<And>s. session_of i b = Some s \<Longrightarrow> session_slot (f s) = session_slot s \<and> (sync (f s) \<noteq> None \<longrightarrow> sync s \<noteq> None)"
    "\<And>s. session_of i b = Some s \<Longrightarrow> session_inv (config b) (owner_of b = Some i) s \<Longrightarrow> session_inv (config b) (owner_of b = Some i) (f s)"
  shows "broker_core z p (change_session i f b)"
  using assms core_change_session [of "if z then None else held b" p b i f]
  by (cases z) (simp_all add: broker_core_def held_cong [of "change_session i f b" b] broker_simps)

text \<open>Changes outside the sessions, the slots and the shared state.\<close>

lemma core_output:
  assumes "core l p b" "b' = act as (b\<lparr>next_write := n\<rparr>)"
  shows "core l p b'"
proof -
  have "session_of i b' = session_of i b" "slot_of k b' = slot_of k b" for i k
    using assms(2) by (simp_all add: session_of_def slot_of_def broker_simps)
  moreover have "structure_inv b' = structure_inv b"
    using assms(2) by (intro structure_cong) (simp_all add: broker_simps)
  ultimately show ?thesis using assms
    by (simp add: core_def queues_inv_def env_inv_def active_inv_def writes_inv_def outstanding_write_def
        wait_inv_def waiting_def lease_inv_def broker_simps owner_of_def)
qed

lemma broker_core_output: "broker_core z p b \<Longrightarrow> broker_core z p (act as (b\<lparr>next_write := n\<rparr>))"
  by (cases z) (auto simp: broker_core_def held_def broker_simps intro: core_output)

lemma core_act: "core l p b \<Longrightarrow> core l p (act as b)"
  using core_output [of l p b "act as b" as "next_write b"] by simp

lemma broker_core_act: "broker_core z p b \<Longrightarrow> broker_core z p (act as b)"
  using broker_core_output [of z p b as "next_write b"] by simp

lemma length_update_new: "length (AList.update k v es) \<le> Suc (length es)"
  by (induction es) auto

lemma broker_core_sent:
  assumes "broker_core z p b" "session_of i b = Some s" "length (writes s) < output_frames (config b)"
  shows "broker_core z p (sent_frame i payload b)"
proof -
  let ?b = "b\<lparr>next_write := next_write b + 1\<rparr>"
  have "broker_core z p ?b" using broker_core_output [OF assms(1), of "[]"] by (simp add: act_def)
  moreover have "session_of i ?b = Some s" using assms(2) by (simp add: session_of_def)
  ultimately have "broker_core z p (change_session i (\<lambda>s. s\<lparr>writes := AList.update (next_write b + 1) (time b + write_timeout (config b)) (writes s)\<rparr>) ?b)"
    using assms(3) order_trans [OF length_update_new] by (intro broker_core_change_session) (auto simp: session_inv_def Suc_le_eq)
  then show ?thesis unfolding sent_frame_def by (rule broker_core_act)
qed

lemma core_change_slot:
  assumes "core l p b" "\<And>slot. slot_of k b = Some slot \<Longrightarrow> slot_session (f slot) = slot_session slot"
    "\<And>slot. slot_of k b = Some slot \<Longrightarrow> slot_inv (config b) slot \<Longrightarrow> slot_inv (config b) (f slot)"
  shows "core l p (change_slot k f b)"
proof -
  have "structure_inv (change_slot k f b)"
  proof -
    have used: "\<exists>s. session_of i b = Some s \<and> session_slot s = Some j"
      if "slot_of j (change_slot k f b) = Some slot'" "slot_session slot' = Some i" for j slot' i
    proof -
      from that obtain slot where "slot_of j b = Some slot" "slot_session slot = Some i"
        using assms(2) by (auto simp: broker_simps split: if_splits)
      then show ?thesis using core_parts(1) [OF assms(1)] unfolding structure_inv_def by blast
    qed
    have "slot_of j (change_slot k f b) \<noteq> None" if "slot_of j b \<noteq> None" for j
      using that by (auto simp: broker_simps)
    with used core_parts(1) [OF assms(1)] show ?thesis unfolding structure_inv_def by (simp add: broker_simps)
  qed
  moreover have "queues_inv (change_slot k f b)"
    using core_parts(2) [OF assms(1)] assms(3) by (auto simp: queues_inv_def broker_simps split: if_splits)
  ultimately show ?thesis using assms(1)
    by (simp add: core_def env_inv_def active_inv_def writes_inv_def outstanding_write_def
        wait_inv_def waiting_def lease_inv_def broker_simps)
qed

lemma broker_core_change_slot:
  assumes "broker_core z p b" "\<And>slot. slot_of k b = Some slot \<Longrightarrow> slot_session (f slot) = slot_session slot"
    "\<And>slot. slot_of k b = Some slot \<Longrightarrow> slot_inv (config b) slot \<Longrightarrow> slot_inv (config b) (f slot)"
  shows "broker_core z p (change_slot k f b)"
  using assms core_change_slot [of "if z then None else held b" p b k f]
  by (cases z) (simp_all add: broker_core_def held_cong [of "change_slot k f b" b] broker_simps)

lemma list_all_tl: "list_all Q xs \<Longrightarrow> list_all Q (tl xs)"
  by (cases xs) auto

lemma broker_core_shift_inbox: "broker_core z p b \<Longrightarrow> broker_core z p (shift_inbox i s b)"
  by (auto simp: shift_inbox_def session_inv_def slot_inv_def record_delivery_def list_all_tl
      intro!: broker_core_change_session broker_core_change_slot split: option.splits)

lemma enqueue_slot_inv:
  assumes "slot_inv c slot" "item_ok p"
  shows "slot_inv c (snd (enqueue_offline p (offline_queue_size c) slot))"
proof -
  have "set (slot_queue (snd (enqueue_offline p (offline_queue_size c) slot))) \<subseteq> insert p (set (slot_queue slot))"
    using delete_first_subseq [of channel_message_class "slot_queue slot"]
    by (auto simp: enqueue_queue split: option.splits dest: subseq_order.order_trans list_emb_set)
  with assms enqueue_bound [of slot "offline_queue_size c" p] show ?thesis
    by (auto simp: slot_inv_def list_all_iff)
qed

lemma enqueue_slot_session: "slot_session (snd (enqueue_offline p n slot)) = slot_session slot"
  by (auto simp: enqueue_offline_def push_offline_def split: option.splits)

lemma broker_core_client: "client_assertion (broker_core z p)"
proof unfold_locales
  show "structure_inv b \<and> queues_inv b" if "broker_core z p b" for b
    using that by (simp add: broker_core_def core_def)
  show "broker_core z p (sent_frame i payload b)"
    if "broker_core z p b" "session_of i b = Some s" "length (writes s) < output_frames (config b)" for b i s payload
    using that by (rule broker_core_sent)
  show "broker_core z p (change_session i (\<lambda>s. s\<lparr>hint_write_id := w\<rparr>) b)" if "broker_core z p b" for b i w
    using that by (rule broker_core_change_session) (simp_all add: session_inv_def)
  show "broker_core z p (clear_sync i b)" if "broker_core z p b" for b i
    using that unfolding clear_sync_def by (rule broker_core_change_session) (simp_all add: session_inv_def)
  show "broker_core z p (shift_inbox i s b)" if "broker_core z p b" for b i s
    using that by (rule broker_core_shift_inbox)
  show "broker_core z p (change_session i (\<lambda>s. s\<lparr>inbox := inbox s @ [q]\<rparr>) b)"
    if "broker_core z p b" "session_of i b = Some s" "length (inbox s) < inbox_entries (config b)" "item_ok q" for b i s q
    using that by (intro broker_core_change_session) (auto simp: session_inv_def)
  show "broker_core z p (change_slot k (\<lambda>_. snd (enqueue_offline q (offline_queue_size (config b)) slot)) b)"
    if "broker_core z p b" "slot_of k b = Some slot" "item_ok q" for b k slot q
    using that by (intro broker_core_change_slot) (simp_all add: enqueue_slot_inv enqueue_slot_session)
qed (rule remove_core)

interpretation bc: client_assertion "broker_core z p" for z p
  by (rule broker_core_client)

end
