(* ===== verification/Broker_Sched.thy ===== *)
theory Broker_Sched
  imports Broker_Steps
begin

text \<open>
  Scheduling: the local head commands of each client, the rotation and the dispatch. The local
  pass leaves every idle client with a head command that has passed the validator and every local
  rule, which is why the dispatch of the rotation that follows cannot raise.
\<close>

section \<open>A calm broker\<close>

text \<open>Unless a maintenance result is being written, no operation on a client ends the epoch or touches the transaction.\<close>

definition calm :: "broker \<Rightarrow> bool" where
  "calm b \<longleftrightarrow> \<not> failed b \<and> (\<forall>t. active b = Some t \<longrightarrow> \<not> (maintenance t \<and> t_step t = MaintenanceResult))"

definition client_view :: "int \<Rightarrow> broker \<Rightarrow> (command list \<times> pending_sync option \<times> bytes \<times> int option) option" where
  "client_view j b = map_option (\<lambda>s. (commands s, sync s, scope s, session_slot s)) (session_of j b)"

text \<open>What an operation on client \<open>i\<close> leaves alone, and its queue of commands.\<close>

definition local_effect :: "int \<Rightarrow> broker \<Rightarrow> broker \<Rightarrow> bool" where
  "local_effect i b b' \<longleftrightarrow> (\<forall>j. j \<noteq> i \<longrightarrow> client_view j b' = client_view j b)
     \<and> active b' = active b \<and> failed b' = failed b \<and> time b' = time b \<and> config b' = config b
     \<and> radio_ring (radio b') = radio_ring (radio b) \<and> pop_sequence b' = pop_sequence b
     \<and> rl_tentative (radio_remote (radio b')) = rl_tentative (radio_remote (radio b))
     \<and> (rotation b' = rotation b \<or> (session_of i b' = None \<and> rotation b' = filter (\<lambda>j. j \<noteq> i) (rotation b)))
     \<and> (session_of i b = None \<longrightarrow> session_of i b' = None)"

definition queue_is :: "int \<Rightarrow> command list \<Rightarrow> broker \<Rightarrow> bool" where
  "queue_is i cs b \<longleftrightarrow> (\<forall>s. session_of i b = Some s \<longrightarrow> commands s = cs)"

definition local_state :: "int \<Rightarrow> command list \<Rightarrow> broker \<Rightarrow> broker \<Rightarrow> bool" where
  "local_state i cs b0 b \<longleftrightarrow> calm b0 \<and> local_effect i b0 b \<and> queue_is i cs b"

lemma local_effect_refl: "local_effect i b b"
  by (simp add: local_effect_def)

lemma local_effect_trans: "local_effect i b b1 \<Longrightarrow> local_effect i b1 b2 \<Longrightarrow> local_effect i b b2"
  by (auto simp: local_effect_def)

lemma local_effect_calm: "local_effect i b b' \<Longrightarrow> calm b' = calm b"
  by (simp add: local_effect_def calm_def)

lemma emit_calm:
  assumes "calm b"
  obtains "session_of i b = None" "emit i payload b = (Inr None, b)"
  | s where "session_of i b = Some s" "emit i payload b = (Inr (Some (next_write b + 1)), sent_frame i payload b)"
      "length (writes s) < output_frames (config b)"
  | s where "session_of i b = Some s" "emit i payload b = (Inr None, detach i s ''output queue overflow'' b)"
proof (cases "session_of i b")
  case None
  with that(1) show thesis by (simp add: emit_eq)
next
  case (Some s)
  show thesis
  proof (cases "output_frames (config b) \<le> length (writes s)")
    case True
    have "remove i r b = (Inr (), detach i s r b)" for r
      using assms Some by (auto simp: remove_eq calm_def split: option.splits)
    with True Some that(3) show thesis by (simp add: emit_eq cr_defs)
  next
    case False
    with Some that(2) show thesis by (simp add: emit_eq)
  qed
qed

lemma client_view_change_session:
  "client_view j (change_session i f b) = (if j = i then map_option (\<lambda>s. (commands s, sync s, scope s, session_slot s)) (map_option f (session_of i b)) else client_view j b)"
  by (simp add: client_view_def session_of_change_session)

lemma client_view_cong: "sessions b' = sessions b \<Longrightarrow> client_view j b' = client_view j b"
  by (simp add: client_view_def session_of_def)

lemma local_effect_change_session: "local_effect i b (change_session i f b)"
  by (simp add: local_effect_def client_view_change_session broker_simps session_of_change_session)

lemma sent_frame_fields [broker_simps]:
  "active (sent_frame i p b) = active b" "failed (sent_frame i p b) = failed b" "time (sent_frame i p b) = time b"
  "config (sent_frame i p b) = config b" "radio (sent_frame i p b) = radio b" "rotation (sent_frame i p b) = rotation b"
  "pop_sequence (sent_frame i p b) = pop_sequence b" "epoch (sent_frame i p b) = epoch b" "self_key (sent_frame i p b) = self_key b"
  "response_debt (sent_frame i p b) = response_debt b" "orphan (sent_frame i p b) = orphan b" "signing (sent_frame i p b) = signing b"
  "dedicated_slots (sent_frame i p b) = dedicated_slots b" "generation (sent_frame i p b) = generation b"
  "drain_requested (sent_frame i p b) = drain_requested b" "drain_authorized (sent_frame i p b) = drain_authorized b"
  "upstream_writes (sent_frame i p b) = upstream_writes b" "deduplicator (sent_frame i p b) = deduplicator b"
  "actions (sent_frame i p b) = actions b @ [SendFrame i (epoch b) (next_write b + 1) p]"
  by (simp_all add: sent_frame_def broker_simps)

lemma session_of_sent_frame:
  "session_of j (sent_frame i p b) = (if j = i then map_option (\<lambda>s. s\<lparr>writes := AList.update (next_write b + 1)
     (time b + write_timeout (config b)) (writes s)\<rparr>) (session_of i b) else session_of j b)"
  by (simp add: sent_frame_def broker_simps session_of_change_session) (simp add: session_of_def)

lemma local_effect_sent: "local_effect i b (sent_frame i p b)"
  by (auto simp: local_effect_def client_view_def session_of_sent_frame broker_simps)

lemma local_effect_detach: "local_effect i b (detach i s r b)"
  by (auto simp: local_effect_def client_view_def broker_simps)

lemma local_effect_emit: "calm b \<Longrightarrow> local_effect i b (snd (emit i p b)) \<and> (\<exists>w. fst (emit i p b) = Inr w)"
  by (rule emit_calm [of b i p]) (auto simp: local_effect_refl local_effect_sent local_effect_detach)

lemma queue_is_emit: "calm b \<Longrightarrow> queue_is i cs b \<Longrightarrow> queue_is i cs (snd (emit i p b))"
  by (rule emit_calm [of b i p]) (auto simp: queue_is_def session_of_sent_frame broker_simps)

lemma local_state_emit: "cr_total (local_state i cs b0) (emit i p) (\<lambda>_. local_state i cs b0)"
proof -
  have "\<exists>w. fst (emit i p b) = Inr w" "local_state i cs b0 (snd (emit i p b))" if "local_state i cs b0 b" for b
    using that local_effect_emit [of b i p] queue_is_emit [of b i cs p] local_effect_calm [of i b0 b] local_effect_trans [of i b0 b]
    by (auto simp: local_state_def)
  then show ?thesis
    by (intro cr_hoareI) (metis fst_conv snd_conv sum.distinct(1))+
qed

lemma local_state_quiet:
  "cr_total (local_state i cs b0) (emit_quietly i p) (\<lambda>_. local_state i cs b0)"
  "cr_total (local_state i cs b0) (reject i r) (\<lambda>_. local_state i cs b0)"
  unfolding emit_quietly_def reject_def
  by (rule cr_hoare_then [OF local_state_emit cr_hoare_return], assumption)+

lemma local_state_change:
  "local_state i cs b0 b \<Longrightarrow> (\<And>s. commands s = cs \<Longrightarrow> commands (f s) = cs') \<Longrightarrow> local_state i cs' b0 (change_session i f b)"
  using local_effect_trans [OF _ local_effect_change_session]
  by (auto simp: local_state_def queue_is_def session_of_change_session)

lemma local_state_shift: "cr_total (local_state i (c # cs) b0) (shift_command i) (\<lambda>_. local_state i cs b0)"
  unfolding shift_command_def by (rule cr_hoare_modify) (auto intro: local_state_change)

lemma local_state_shift_inbox: "local_state i cs b0 b \<Longrightarrow> local_state i cs b0 (shift_inbox i s b)"
proof (cases "session_slot s")
  case None
  then show "local_state i cs b0 b \<Longrightarrow> ?thesis" by (simp add: shift_inbox_def local_state_change)
next
  case (Some k)
  then have "local_effect i b (shift_inbox i s b)" "\<And>j. session_of j (shift_inbox i s b) = session_of j b"
    by (simp_all add: shift_inbox_def local_effect_def client_view_def broker_simps)
  then show "local_state i cs b0 b \<Longrightarrow> ?thesis"
    using local_effect_trans by (auto simp: local_state_def queue_is_def)
qed

lemma local_state_deliver: "cr_keeps (local_state i cs b0) (deliver_item i)"
  unfolding deliver_item_def inbox_for_def
  by (intro cr_hoare_bind_get cr_hoare_option cr_hoare_return cr_hoare_raise cr_hoare_lift cr_hoare_when cr_hoare_modify
      local_state_shift_inbox cr_hoare_bind [where R = "\<lambda>_. local_state i cs b0"] cr_total_weaken [OF local_state_emit]) auto


section \<open>The local pass\<close>

definition head_passes :: "config \<Rightarrow> bytes \<Rightarrow> bool" where
  "head_passes c payload \<longleftrightarrow> snd (validate_command payload) = None
     \<and> payload ! 0 \<noteq> CMD_SYNC_NEXT_MESSAGE \<and> payload ! 0 \<noteq> CMD_SET_FLOOD_SCOPE_KEY
     \<and> (payload ! 0 = CMD_EXPORT_PRIVATE_KEY \<longrightarrow> private_key_export c)
     \<and> (payload ! 0 = CMD_IMPORT_PRIVATE_KEY \<longrightarrow> private_key_import c)
     \<and> (payload ! 0 = CMD_FACTORY_RESET \<longrightarrow> factory_reset c)"

definition ready :: "config \<Rightarrow> (command list \<times> pending_sync option \<times> bytes \<times> int option) option \<Rightarrow> bool" where
  "ready c v \<longleftrightarrow> (case v of None \<Rightarrow> True | Some (cs, waits, _) \<Rightarrow> waits \<noteq> None \<or> (cs \<noteq> [] \<longrightarrow> head_passes c (cmd_payload (hd cs))))"

definition keeps_local :: "bool \<Rightarrow> int \<Rightarrow> command list \<Rightarrow> broker \<Rightarrow> broker \<Rightarrow> bool" where
  "keeps_local p i cs b0 b \<longleftrightarrow> broker_core False p b \<and> local_state i cs b0 b"

lemma keeps_local_emit: "cr_total (keeps_local p i cs b0) (emit i m) (\<lambda>_. keeps_local p i cs b0)"
  unfolding keeps_local_def by (rule cr_total_conj [OF bc.emit_keeps local_state_emit])

lemma keeps_local_quiet:
  "cr_total (keeps_local p i cs b0) (emit_quietly i m) (\<lambda>_. keeps_local p i cs b0)"
  "cr_total (keeps_local p i cs b0) (reject i r) (\<lambda>_. keeps_local p i cs b0)"
  unfolding keeps_local_def
  by (rule cr_total_conj [OF bc.emit_quietly_keeps local_state_quiet(1)], rule cr_total_conj [OF bc.reject_keeps local_state_quiet(2)])

lemma keeps_local_deliver:
  "cr_total (\<lambda>b. keeps_local p i cs b0 b \<and> queue_of i b \<noteq> []) (deliver_item i) (\<lambda>_. keeps_local p i cs b0)"
  unfolding keeps_local_def by (rule cr_pre [OF cr_total_conj [OF bc.deliver_keeps local_state_deliver]]) auto

lemma keeps_local_change:
  assumes "keeps_local p i cs b0 b" "\<And>s. session_of i b = Some s \<Longrightarrow> session_slot (f s) = session_slot s \<and> (sync (f s) \<noteq> None \<longrightarrow> sync s \<noteq> None)"
    "\<And>s. session_of i b = Some s \<Longrightarrow> session_inv (config b) (owner_of b = Some i) s \<Longrightarrow> session_inv (config b) (owner_of b = Some i) (f s)"
    "\<And>s. commands s = cs \<Longrightarrow> commands (f s) = cs'"
  shows "keeps_local p i cs' b0 (change_session i f b)"
  using assms broker_core_change_session [of False p b i f] local_state_change [of i cs b0 b f cs'] by (simp add: keeps_local_def)

lemma keeps_local_shift: "cr_total (keeps_local p i (c # cs) b0) (shift_command i) (\<lambda>_. keeps_local p i cs b0)"
  unfolding shift_command_def
  by (rule cr_hoare_modify, rule keeps_local_change) (auto simp: session_inv_def list_all_tl)

lemma queue_of_other: "session_of i b = Some s \<Longrightarrow> session_slot s' = session_slot s \<Longrightarrow> inbox s' = inbox s \<Longrightarrow>
    structure_inv b \<Longrightarrow> inbox_for s' b = (Inr (queue_of i b), b)"
  using inbox_for_run [of b i s] by (cases "session_slot s") (simp_all add: inbox_for_def)

lemma core_authorized:
  assumes "core l p b" "session_of i b = Some s" "length (commands s) + 1 + of_bool (owner_of b = Some i) \<le> command_limit (config b)"
  shows "core l p (authorize_drain (change_session i (\<lambda>s. s\<lparr>sync := Some w\<rparr>) b))" (is "core l p ?b'")
proof -
  let ?b = "change_session i (\<lambda>s. s\<lparr>sync := Some w\<rparr>) b"
  note parts = core_parts [OF assms(1)]
  have same: "session_of j ?b' = session_of j ?b" "slot_of k ?b' = slot_of k ?b" for j k
    by (simp_all add: authorize_drain_def session_of_def slot_of_def)
  have "structure_inv ?b" by (rule structure_change_session [OF parts(1)]) simp
  moreover have "queues_inv ?b"
    by (rule queues_change_session [OF parts(2)]) (use assms(2,3) in \<open>auto simp: session_inv_def\<close>)
  moreover have "structure_inv ?b' = structure_inv ?b"
    by (rule structure_cong) (simp_all add: authorize_drain_def)
  moreover have "queues_inv ?b' = queues_inv ?b"
    unfolding queues_inv_def same by (simp add: authorize_drain_def owner_of_def)
  moreover have "sessions b \<noteq> []" using assms(2) by (auto simp: session_of_def)
  then have "wait_inv p ?b'" by (simp add: wait_inv_def authorize_drain_def)
  moreover have "env_inv ?b'" "active_inv ?b'" "writes_inv ?b'" "lease_inv l ?b'"
    using parts(3-5,7)
    by (simp_all add: env_inv_def active_inv_def writes_inv_def outstanding_write_def lease_inv_def authorize_drain_def broker_simps)
  ultimately show ?thesis by (simp add: core_def)
qed

lemma start_waiting:
  assumes "keeps_local p i cs b0 b" "session_of i b = Some s" "length (commands s) + 1 + of_bool (owner_of b = Some i) \<le> command_limit (config b)"
  shows "keeps_local p i cs b0 (authorize_drain (change_session i (\<lambda>s. s\<lparr>sync := Some w\<rparr>) b))" (is "keeps_local p i cs b0 ?b'")
proof -
  have "broker_core False p ?b'"
    using core_authorized [OF _ assms(2,3), of "held b" p w] assms(1)
    by (simp add: keeps_local_def broker_core_def held_def authorize_drain_def broker_simps)
  moreover have "local_effect i b ?b'"
    using local_effect_change_session [of i b "\<lambda>s. s\<lparr>sync := Some w\<rparr>"]
    by (simp add: local_effect_def authorize_drain_def client_view_def session_of_def)
  moreover have "queue_is i cs ?b'"
    using assms(1) by (auto simp: keeps_local_def local_state_def queue_is_def authorize_drain_def session_of_def
        change_session_def map_of_change_entry)
  ultimately show ?thesis
    using assms(1) local_effect_trans by (auto simp: keeps_local_def local_state_def)
qed


lemma local_answer:
  assumes "cr_total (keeps_local p i cs b0) m (\<lambda>_. keeps_local p i cs b0)"
  shows "cr_total (keeps_local p i (c # cs) b0) (cr_then (cr_seq [shift_command i, m]) (cr_return True))
    (\<lambda>go b. go \<and> keeps_local p i cs b0 b)"
  by (intro cr_hoare_then [where R = "keeps_local p i cs b0"] cr_hoare_seq_Cons [where R = "keeps_local p i cs b0"]
      keeps_local_shift assms cr_hoare_seq_Nil cr_hoare_return) auto

text \<open>The outcome of one turn: the command is gone, or the client waits, or its head is for the rotation.\<close>

definition turn_done :: "bool \<Rightarrow> int \<Rightarrow> command \<Rightarrow> command list \<Rightarrow> broker \<Rightarrow> bool \<Rightarrow> broker \<Rightarrow> bool" where
  "turn_done p i c cs b0 go b \<longleftrightarrow> (go \<and> keeps_local p i cs b0 b)
     \<or> (\<not> go \<and> (keeps_local p i cs b0 b \<and> (\<forall>s. session_of i b = Some s \<longrightarrow> sync s \<noteq> None)
          \<or> keeps_local p i (c # cs) b0 b \<and> head_passes (config b) (cmd_payload c)))"

lemma turn_go: "cr_total P m (\<lambda>go b. go \<and> keeps_local p i cs b0 b) \<Longrightarrow> cr_total P m (turn_done p i c cs b0)"
  by (erule cr_post) (simp add: turn_done_def)

lemma keeps_local_structure: "keeps_local p i cs b0 b \<Longrightarrow> structure_inv b"
  by (simp add: keeps_local_def broker_core_def core_def)

lemma keeps_local_session:
  "keeps_local p i cs b0 b \<Longrightarrow> session_of i b = Some s \<Longrightarrow> session_inv (config b) (owner_of b = Some i) s \<and> commands s = cs"
  by (auto simp: keeps_local_def local_state_def queue_is_def broker_core_def core_def queues_inv_def)

lemma sync_turn:
  assumes "keeps_local p i (c # cs) b0 b" "session_of i b = Some s"
  shows "cr_total (\<lambda>b'. b' = b) (cr_then (shift_command i)
            (cr_bind (inbox_for s) (\<lambda>items. if items = []
              then cr_then (cr_modify (\<lambda>b. authorize_drain (change_session i (\<lambda>s. s\<lparr>sync := Some (w b)\<rparr>) b))) (cr_return False)
              else cr_then (deliver_item i) (cr_return True)))) (turn_done p i c cs b0)"
proof -
  let ?b = "change_session i (\<lambda>s. s\<lparr>commands := tl (commands s)\<rparr>) b"
  have k: "keeps_local p i cs b0 ?b"
    using keeps_local_shift [of p i c cs b0, unfolded cr_hoare_def] assms(1) by (simp add: shift_command_def cr_modify_def)
  have s: "session_of i ?b = Some (s\<lparr>commands := tl (commands s)\<rparr>)" using assms(2) by (simp add: session_of_change_session)
  have items: "inbox_for s ?b = (Inr (queue_of i ?b), ?b)"
    using queue_of_other [OF s _ _ keeps_local_structure [OF k], of s] by simp
  have room: "length cs + 1 + of_bool (owner_of ?b = Some i) \<le> command_limit (config ?b)"
    using keeps_local_session [OF assms] by (cases "owner_of b = Some i") (auto simp: session_inv_def broker_simps)
  have wait: "turn_done p i c cs b0 False (authorize_drain (change_session i (\<lambda>s. s\<lparr>sync := Some v\<rparr>) ?b))" for v
    using start_waiting [OF k s, of v] room s keeps_local_session [OF assms]
    by (auto simp: turn_done_def authorize_drain_def session_of_change_session session_of_def change_session_def map_of_change_entry)
  have "cr_total (\<lambda>b'. b' = ?b) (if queue_of i ?b = []
      then cr_then (cr_modify (\<lambda>b. authorize_drain (change_session i (\<lambda>s. s\<lparr>sync := Some (w b)\<rparr>) b))) (cr_return False)
      else cr_then (deliver_item i) (cr_return True)) (turn_done p i c cs b0)"
  proof (rule cr_hoare_if)
    show "cr_total (\<lambda>b'. b' = ?b) (cr_then (cr_modify (\<lambda>b. authorize_drain (change_session i (\<lambda>s. s\<lparr>sync := Some (w b)\<rparr>) b))) (cr_return False))
      (turn_done p i c cs b0)"
      using wait by (simp add: cr_hoare_def cr_defs)
    assume q: "queue_of i ?b \<noteq> []"
    show "cr_total (\<lambda>b'. b' = ?b) (cr_then (deliver_item i) (cr_return True)) (turn_done p i c cs b0)"
      by (intro turn_go cr_hoare_then [where R = "keeps_local p i cs b0"] cr_hoare_return cr_pre [OF keeps_local_deliver]) (use k q in auto)
  qed
  with items show ?thesis
    by (auto simp: cr_hoare_def cr_then_def cr_bind_def shift_command_def cr_modify_def)
qed

lemma local_command_turn:
  assumes "keeps_local p i (c # cs) b0 b" "session_of i b = Some s"
  shows "cr_total (\<lambda>b'. b' = b) (local_command i s c now) (turn_done p i c cs b0)"
proof -
  have k: "cr_total (\<lambda>b'. b' = b) m Q" if "cr_total (keeps_local p i (c # cs) b0) m Q" for m :: "bool broker_op" and Q
    using that assms(1) by (auto simp: cr_hoare_def)
  have ne: "cmd_payload c \<noteq> []" using keeps_local_session [OF assms] by (auto simp: session_inv_def)
  have scope: "cr_total (keeps_local p i cs b0) (cr_seq [cr_modify (change_session i (\<lambda>s. s\<lparr>scope := v\<rparr>)), emit_quietly i m])
    (\<lambda>_. keeps_local p i cs b0)" for v m
    by (intro cr_hoare_seq_Cons [where R = "keeps_local p i cs b0"] cr_hoare_modify cr_hoare_seq_Nil keeps_local_quiet keeps_local_change)
      (auto simp: session_inv_def)
  show ?thesis
  proof (cases "snd (validate_command (cmd_payload c))")
    case (Some reason)
    then show ?thesis
      using ne by (auto simp: local_command_def Let_def byte_at_def simp del: cr_seq.simps
          intro!: k turn_go local_answer cr_hoare_bind [where R = "\<lambda>_. keeps_local p i cs b0"] cr_hoare_lift keeps_local_quiet)
  next
    case None
    show ?thesis
      unfolding local_command_def Let_def None option.case
      by (rule cr_hoare_bind [where R = "\<lambda>x b'. b' = b \<and> x = config b"], rule cr_hoare_get, simp, rule cr_at)
        (auto intro!: cr_hoare_if k turn_go local_answer keeps_local_quiet scope sync_turn [OF assms] cr_hoare_return
          simp: turn_done_def head_passes_def None assms(1) simp del: cr_seq.simps)
  qed
qed


lemma keeps_local_config: "keeps_local p i cs b0 b \<Longrightarrow> config b = config b0 \<and> calm b0 \<and> calm b"
  by (simp add: keeps_local_def local_state_def local_effect_def calm_def)

text \<open>Enough fuel: the loop only ends at an empty queue, at a \<open>break\<close>, or when the client is gone.\<close>

lemma local_commands_ready:
  "length cs \<le> n \<Longrightarrow> cr_total (keeps_local p i cs b0) (local_commands n i now)
     (\<lambda>_ b. \<exists>cs'. keeps_local p i cs' b0 b \<and> ready (config b) (client_view i b))"
proof (induction n arbitrary: cs)
  case 0
  then show ?case
    by (auto intro!: cr_hoare_return exI [of _ "[]"] simp: keeps_local_def local_state_def queue_is_def ready_def client_view_def
        split: option.splits)
next
  case (Suc n)
  show ?case
  proof (rule cr_at)
    fix b assume k: "keeps_local p i cs b0 b"
    show "cr_total (\<lambda>b'. b' = b) (local_commands (Suc n) i now) (\<lambda>_ b. \<exists>cs'. keeps_local p i cs' b0 b \<and> ready (config b) (client_view i b))"
    proof (cases "session_of i b")
      case None
      with k show ?thesis by (auto simp: cr_hoare_def cr_defs ready_def client_view_def)
    next
      case (Some s)
      with k have cs: "commands s = cs" by (auto dest: keeps_local_session)
      show ?thesis
      proof (cases cs)
        case Nil
        with k Some cs show ?thesis by (auto simp: cr_hoare_def cr_defs ready_def client_view_def)
      next
        case (Cons c cs')
        have next_turn: "cr_total (turn_done p i c cs' b0 go) (cr_when go (local_commands n i now))
            (\<lambda>_ b. \<exists>cs'. keeps_local p i cs' b0 b \<and> ready (config b) (client_view i b))" for go
        proof (cases go)
          case True
          have "cr_total (turn_done p i c cs' b0 True) (local_commands n i now)
              (\<lambda>_ b. \<exists>cs'. keeps_local p i cs' b0 b \<and> ready (config b) (client_view i b))"
            by (rule cr_pre [OF Suc.IH [of cs']]) (use Suc.prems Cons in \<open>auto simp: turn_done_def\<close>)
          with True show ?thesis by (simp add: cr_when_def)
        next
          case False
          have "ready (config b) (client_view i b)" if "keeps_local p i (c # cs') b0 b" "head_passes (config b) (cmd_payload c)" for b
            using keeps_local_session [OF that(1)] that(2) by (cases "session_of i b") (auto simp: ready_def client_view_def)
          with False show ?thesis
            by (auto simp: cr_when_def turn_done_def intro!: cr_hoare_return) (auto simp: ready_def client_view_def split: option.splits)
        qed
        have "cr_total (\<lambda>b'. b' = b) (cr_bind (local_command i s c now) (\<lambda>continue. cr_when continue (local_commands n i now)))
            (\<lambda>_ b. \<exists>cs'. keeps_local p i cs' b0 b \<and> ready (config b) (client_view i b))"
          using k Cons Some next_turn by (intro cr_hoare_bind [OF local_command_turn]) auto
        with Some cs Cons show ?thesis by (simp add: cr_hoare_def cr_bind_def cr_get_def)
      qed
    qed
  qed
qed

lemma local_commands_enough:
  assumes "keeps_local p i cs b0 b" "length cs \<le> n"
  shows "local_commands (n + k) i now b = local_commands n i now b"
  using assms
proof (induction n arbitrary: cs b)
  case 0
  then show ?case
    by (cases k; cases "session_of i b") (auto simp: cr_defs dest: keeps_local_session)
next
  case (Suc n)
  show ?case
  proof (cases "session_of i b")
    case None
    then show ?thesis by (simp add: cr_defs)
  next
    case (Some s)
    with Suc.prems have cs: "commands s = cs" by (auto dest: keeps_local_session)
    show ?thesis
    proof (cases cs)
      case Nil
      with Some cs show ?thesis by (simp add: cr_defs)
    next
      case (Cons c cs')
      obtain go b1 where r: "local_command i s c now b = (Inr go, b1)" and t: "turn_done p i c cs' b0 go b1"
        using cr_total_returns [OF local_command_turn, of p i c cs' b0 b s b now] Suc.prems(1) Cons Some by auto
      then have "go \<Longrightarrow> local_commands (n + k) i now b1 = local_commands n i now b1"
        using Suc Cons by (auto simp: turn_done_def)
      with r Some cs Cons show ?thesis by (auto simp: cr_bind_def cr_get_def cr_when_def)
    qed
  qed
qed

lemma keeps_local_start: "broker_core False p b \<Longrightarrow> calm b \<Longrightarrow> session_of i b = Some s \<Longrightarrow> keeps_local p i (commands s) b b"
  by (simp add: keeps_local_def local_state_def local_effect_refl queue_is_def)

definition pass_effect :: "broker \<Rightarrow> broker \<Rightarrow> bool" where
  "pass_effect b0 b \<longleftrightarrow> active b = active b0 \<and> failed b = failed b0 \<and> time b = time b0 \<and> config b = config b0
     \<and> radio_ring (radio b) = radio_ring (radio b0) \<and> pop_sequence b = pop_sequence b0
     \<and> rl_tentative (radio_remote (radio b)) = rl_tentative (radio_remote (radio b0))
     \<and> rotation b = filter (\<lambda>i. i = 0 \<or> session_of i b \<noteq> None) (rotation b0)"

definition passed :: "bool \<Rightarrow> broker \<Rightarrow> int list \<Rightarrow> broker \<Rightarrow> bool" where
  "passed p b0 rest b \<longleftrightarrow> broker_core False p b \<and> calm b \<and> pass_effect b0 b
     \<and> (\<forall>j. j \<notin> set rest \<and> owner_of b \<noteq> Some j \<longrightarrow> ready (config b) (client_view j b))"

lemma pass_effect_refl: "structure_inv b \<Longrightarrow> pass_effect b b"
  by (auto simp: pass_effect_def structure_inv_def intro!: filter_True [symmetric])

lemma client_view_None: "client_view j b = None \<longleftrightarrow> session_of j b = None"
  by (simp add: client_view_def)

lemma pass_effect_local:
  assumes "pass_effect b0 b" "local_effect i b b'" "structure_inv b" "structure_inv b'"
  shows "pass_effect b0 b'"
proof -
  have gone: "session_of j b' \<noteq> None \<longleftrightarrow> session_of j b \<noteq> None" if "j \<noteq> i" for j
    using assms(2) that client_view_None [of j b] client_view_None [of j b'] by (simp add: local_effect_def)
  have r: "rotation b' = rotation b \<or> session_of i b' = None \<and> rotation b' = filter (\<lambda>j. j \<noteq> i) (rotation b)"
    and b: "rotation b = filter (\<lambda>i. i = 0 \<or> session_of i b \<noteq> None) (rotation b0)"
    and here: "session_of i b = None \<longrightarrow> session_of i b' = None"
    using assms(1,2) by (simp_all add: local_effect_def pass_effect_def)
  have "rotation b' = filter (\<lambda>j. j = 0 \<or> session_of j b' \<noteq> None) (rotation b0)"
  proof (cases "session_of i b' = None \<and> session_of i b \<noteq> None")
    case True
    then have "i \<in> set (rotation b)" "i \<noteq> 0" "i \<notin> set (rotation b')"
      using assms(3,4) by (auto simp: structure_inv_def)
    with r have "rotation b' = filter (\<lambda>j. j \<noteq> i) (rotation b)" by auto
    moreover have "(x = 0 \<or> session_of x b' \<noteq> None) = ((x = 0 \<or> session_of x b \<noteq> None) \<and> x \<noteq> i)" for x
      using True gone [of x] \<open>i \<noteq> 0\<close> by (cases "x = i") auto
    ultimately show ?thesis unfolding b by (simp add: filter_filter)
  next
    case False
    then have same: "session_of j b' \<noteq> None \<longleftrightarrow> session_of j b \<noteq> None" for j
      using gone [of j] here False by (cases "j = i") auto
    have "filter (\<lambda>j. j \<noteq> i) (rotation b) = rotation b" if "i \<noteq> 0" "session_of i b' = None"
    proof -
      have "session_of i b = None" using same [of i] that(2) by simp
      then have "i \<notin> set (rotation b)" using assms(3) that(1) by (simp add: structure_inv_def)
      then show ?thesis by (intro filter_True) auto
    qed
    moreover have "i = 0 \<Longrightarrow> rotation b' = rotation b" using r assms(4) by (auto simp: structure_inv_def)
    ultimately have "rotation b' = rotation b" using r by (cases "i = 0") auto
    then show ?thesis unfolding b using same by simp
  qed
  with assms(1,2) show ?thesis by (simp add: pass_effect_def local_effect_def)
qed

lemma local_session_pass: "cr_total (passed p b0 (i # rest)) (local_session now i) (\<lambda>_. passed p b0 rest)"
proof (rule cr_at)
  fix b assume b: "passed p b0 (i # rest) b"
  then have core: "broker_core False p b" "calm b" "structure_inv b" by (simp_all add: passed_def broker_core_def core_def)
  show "cr_total (\<lambda>b'. b' = b) (local_session now i) (\<lambda>_. passed p b0 rest)"
  proof (cases "session_of i b")
    case None
    then have "ready (config b) (client_view i b)" by (simp add: client_view_def ready_def)
    then have "ready (config b) (client_view j b)" if "j \<notin> set rest" "owner_of b \<noteq> Some j" for j
      using b that by (cases "j = i") (auto simp: passed_def)
    with b have "passed p b0 rest b" by (simp add: passed_def)
    with None show ?thesis by (simp add: cr_hoare_def local_session_def cr_defs)
  next
    case (Some s)
    show ?thesis
    proof (cases "sync s \<noteq> None \<or> owner_of b = Some i")
      case True
      then have "ready (config b) (client_view j b)" if "j \<notin> set rest" "owner_of b \<noteq> Some j" for j
        using b that Some by (cases "j = i") (auto simp: passed_def ready_def client_view_def)
      with b have "passed p b0 rest b" by (simp add: passed_def)
      with Some True show ?thesis by (auto simp: cr_hoare_def local_session_def cr_defs)
    next
      case False
      have fin: "passed p b0 rest b'" if k: "keeps_local p i cs b b'" and r: "ready (config b') (client_view i b')" for cs b'
      proof -
        have e: "local_effect i b b'" and s: "broker_core False p b'" "calm b'" "structure_inv b'"
          using k keeps_local_config [OF k] keeps_local_structure [OF k] by (auto simp: keeps_local_def local_state_def)
        have "ready (config b') (client_view j b')" if "j \<notin> set rest" "owner_of b' \<noteq> Some j" for j
          using that r e b by (cases "j = i") (auto simp: local_effect_def passed_def owner_of_def)
        with pass_effect_local [OF _ e core(3) s(3)] b s show ?thesis by (auto simp: passed_def)
      qed
      have "cr_total (\<lambda>b'. b' = b) (local_commands (length (commands s)) i now) (\<lambda>_. passed p b0 rest)"
        by (rule cr_total_weaken [OF local_commands_ready [OF order_refl]]) (use keeps_local_start [OF core(1,2) Some] fin in auto)
      with Some False show ?thesis by (auto simp: cr_hoare_def local_session_def cr_bind_def cr_get_def)
    qed
  qed
qed

lemma absent_ready: "j \<notin> set (map fst (sessions b)) \<Longrightarrow> ready c (client_view j b)"
  by (simp add: client_view_def session_of_def ready_def map_of_eq_None_iff [THEN iffD2])

lemma local_pass:
  "cr_total (\<lambda>b. broker_core False p b \<and> calm b \<and> b = b0)
     (cr_bind (cr_get (\<lambda>b. map fst (sessions b))) (\<lambda>ids. cr_each ids (local_session now))) (\<lambda>_. passed p b0 [])"
proof (rule cr_hoare_bind_get)
  fix ids
  show "cr_total (\<lambda>b. (broker_core False p b \<and> calm b \<and> b = b0) \<and> ids = map fst (sessions b)) (cr_each ids (local_session now)) (\<lambda>_. passed p b0 [])"
    by (rule cr_pre [OF cr_hoare_each_rest [where P = "passed p b0"]], rule local_session_pass)
      (auto simp: passed_def pass_effect_refl broker_core_def core_def intro!: absent_ready)
qed

end
