(* ===== verification/Broker_Dispatch.thy ===== *)
theory Broker_Dispatch
  imports Broker_Sched
begin

text \<open>
  Admission to the shared resources, dispatch, the rotation over the clients, and the whole of
  \<open>schedule\<close>: it keeps the invariant and never raises.
\<close>

section \<open>Facts of the descriptor table\<close>

definition flags_fit :: "byte \<Rightarrow> command_descriptor \<Rightarrow> bool" where
  "flags_fit c d \<longleftrightarrow> (Maintenance \<in> set (desc_flags d) \<longrightarrow> c \<in> {CMD_REBOOT, CMD_IMPORT_PRIVATE_KEY, CMD_FACTORY_RESET})
     \<and> (RemoteLease \<in> set (desc_flags d) \<longrightarrow> c \<in> {CMD_SEND_LOGIN, CMD_SEND_STATUS_REQ, CMD_SEND_TRACE_PATH,
       CMD_SEND_TELEMETRY_REQ, CMD_SEND_BINARY_REQ, CMD_SEND_PATH_DISCOVERY_REQ, CMD_SEND_ANON_REQ})
     \<and> (Signing \<in> set (desc_flags d) \<longleftrightarrow> c \<in> {CMD_SIGN_START, CMD_SIGN_DATA, CMD_SIGN_FINISH})
     \<and> (ScopeSend \<in> set (desc_flags d) \<longrightarrow> c \<notin> {CMD_SIGN_START, CMD_SIGN_DATA, CMD_SIGN_FINISH, CMD_GET_CONTACTS, CMD_REBOOT,
       CMD_IMPORT_PRIVATE_KEY, CMD_FACTORY_RESET, CMD_SYNC_NEXT_MESSAGE, CMD_SET_FLOOD_SCOPE_KEY})
     \<and> (desc_grammar d = Contacts \<longleftrightarrow> c = CMD_GET_CONTACTS)"

lemma table_flags: "list_all (\<lambda>(c, d). flags_fit c d \<and> (c = CMD_SEND_TELEMETRY_REQ \<longrightarrow> RemoteLease \<notin> set (desc_flags d))) DESCRIPTORS"
  by (simp add: DESCRIPTORS_def descr_def flags_fit_def)

lemma descriptor_fits:
  assumes "descriptor c = Some d"
  shows "flags_fit (c ! 0) d" "RemoteLease \<in> set (desc_flags d) \<Longrightarrow> c ! 0 = CMD_SEND_TELEMETRY_REQ \<Longrightarrow> length c \<noteq> 4"
proof -
  consider (table) "(c ! 0, d) \<in> set DESCRIPTORS"
    | (telemetry) "c ! 0 = CMD_SEND_TELEMETRY_REQ" "length c \<noteq> 4"
        "d = descr CMD_SEND_TELEMETRY_REQ ''send_telemetry_req'' Single [RESP_SENT] [RemoteLease, ScopeSend]"
    using assms by (auto simp: descriptor_def split: if_splits option.splits dest!: map_of_SomeD)
  then have "flags_fit (c ! 0) d \<and> (RemoteLease \<in> set (desc_flags d) \<longrightarrow> c ! 0 = CMD_SEND_TELEMETRY_REQ \<longrightarrow> length c \<noteq> 4)"
  proof cases
    case table
    with table_flags show ?thesis by (auto simp: list_all_iff)
  next
    case telemetry
    then show ?thesis by (simp add: flags_fit_def descr_def)
  qed
  then show "flags_fit (c ! 0) d" "RemoteLease \<in> set (desc_flags d) \<Longrightarrow> c ! 0 = CMD_SEND_TELEMETRY_REQ \<Longrightarrow> length c \<noteq> 4" by blast+
qed

lemmas descriptor_flags = descriptor_fits(1) [unfolded flags_fit_def]

lemma plain_dm_flags: "descriptor c = Some d \<Longrightarrow> plain_dm c \<Longrightarrow> RemoteLease \<notin> set (desc_flags d) \<and> Maintenance \<notin> set (desc_flags d)"
  using descriptor_flags [of c d] by (auto simp: plain_dm_def)

lemma lease_opcode:
  assumes "descriptor c = Some d" "RemoteLease \<in> set (desc_flags d)"
  shows "c ! 0 \<notin> {CMD_SIGN_START, CMD_SIGN_DATA, CMD_SIGN_FINISH, CMD_SYNC_NEXT_MESSAGE}"
proof -
  have "c ! 0 = CMD_SEND_LOGIN \<or> c ! 0 = CMD_SEND_STATUS_REQ \<or> c ! 0 = CMD_SEND_TRACE_PATH \<or> c ! 0 = CMD_SEND_TELEMETRY_REQ
    \<or> c ! 0 = CMD_SEND_BINARY_REQ \<or> c ! 0 = CMD_SEND_PATH_DISCOVERY_REQ \<or> c ! 0 = CMD_SEND_ANON_REQ"
    using descriptor_flags [OF assms(1)] assms(2) by simp
  then show ?thesis by (elim disjE) simp_all
qed

lemma maintenance_opcode:
  assumes "descriptor c = Some d" "Maintenance \<in> set (desc_flags d)"
  shows "c ! 0 \<notin> {CMD_SIGN_START, CMD_SIGN_DATA, CMD_SIGN_FINISH}" "RemoteLease \<notin> set (desc_flags d)" "\<not> plain_dm c"
proof -
  have "c ! 0 = CMD_REBOOT \<or> c ! 0 = CMD_IMPORT_PRIVATE_KEY \<or> c ! 0 = CMD_FACTORY_RESET"
    using descriptor_flags [OF assms(1)] assms(2) by simp
  moreover from this show "c ! 0 \<notin> {CMD_SIGN_START, CMD_SIGN_DATA, CMD_SIGN_FINISH}" by (elim disjE) simp_all
  ultimately show "RemoteLease \<notin> set (desc_flags d)" using descriptor_flags [OF assms(1)] by (elim disjE) simp_all
  show "\<not> plain_dm c" using plain_dm_flags [OF assms(1)] assms(2) by blast
qed

lemma shape_lengths:
  assumes "command_shape_valid c"
  shows "c ! 0 = CMD_SEND_LOGIN \<Longrightarrow> 33 \<le> length c" "c ! 0 = CMD_SEND_STATUS_REQ \<Longrightarrow> 33 \<le> length c"
    "c ! 0 = CMD_SEND_TRACE_PATH \<Longrightarrow> 10 < length c"
    "c ! 0 = CMD_SEND_TELEMETRY_REQ \<Longrightarrow> length c = 4 \<or> 36 \<le> length c"
    "c ! 0 = CMD_SEND_BINARY_REQ \<Longrightarrow> 34 \<le> length c" "c ! 0 = CMD_SEND_ANON_REQ \<Longrightarrow> 34 \<le> length c"
    "c ! 0 = CMD_SEND_PATH_DISCOVERY_REQ \<Longrightarrow> 34 \<le> length c" "c ! 0 = CMD_SIGN_DATA \<Longrightarrow> 2 \<le> length c"
    "c ! 0 = CMD_DEVICE_QUERY \<Longrightarrow> 2 \<le> length c" "c ! 0 = CMD_GET_CHANNEL \<Longrightarrow> 2 \<le> length c" "c ! 0 = CMD_GET_STATS \<Longrightarrow> 2 \<le> length c"
  using assms
  by (cases "c = [] \<or> MAX_PAYLOAD < length c"; simp add: command_shape_valid_def Let_def split: if_split_asm)+

lemma classify_shape:
  assumes "command_shape_valid c" "descriptor c = Some d" "RemoteLease \<in> set (desc_flags d)"
  shows "\<exists>k peer tag auth. classify c = Inr (k, peer, tag, auth)"
proof -
  have "c ! 0 = CMD_SEND_LOGIN \<or> c ! 0 = CMD_SEND_STATUS_REQ \<or> c ! 0 = CMD_SEND_TRACE_PATH \<or> c ! 0 = CMD_SEND_TELEMETRY_REQ
    \<or> c ! 0 = CMD_SEND_BINARY_REQ \<or> c ! 0 = CMD_SEND_PATH_DISCOVERY_REQ \<or> c ! 0 = CMD_SEND_ANON_REQ"
    using descriptor_flags [OF assms(2)] assms(3) by simp
  then show ?thesis
    using shape_lengths [OF assms(1)] descriptor_fits(2) [OF assms(2,3)]
    by (elim disjE; simp add: classify_def peer_class_def peer_at_def lease_read_u32_def)
qed

section \<open>Admission\<close>

lemma signing_idle_expire:
  "\<not> sl_tentative sl \<Longrightarrow> sl_pending_data sl = None \<Longrightarrow> \<not> sl_finish_pending sl \<Longrightarrow>
    \<not> sl_tentative (signing_expire now sl) \<and> sl_pending_data (signing_expire now sl) = None \<and> \<not> sl_finish_pending (signing_expire now sl)"
  by (auto simp: signing_expire_def signing_clear_def split: option.splits)

lemma lease_expire_idle: "\<not> rl_tentative l \<Longrightarrow> \<not> rl_tentative (lease_expire now l)"
  by (auto simp: lease_expire_def lease_clear_def split: option.splits)

lemma quarantined_shared [simp]: "radio_remote (snd (quarantined now r)) = radio_remote r" "radio_ring (snd (quarantined now r)) = radio_ring r"
  by (auto simp: quarantined_def split: option.splits)

text \<open>The state of the shared resources after an admission check, and what it decided.\<close>

definition admission_ok :: "int \<Rightarrow> bytes \<Rightarrow> span \<Rightarrow> broker \<Rightarrow> byte option \<Rightarrow> broker \<Rightarrow> bool" where
  "admission_ok owner c now b reason b' \<longleftrightarrow> (\<exists>r sl. b' = b\<lparr>radio := r, signing := sl\<rparr> \<and> radio_ring r = radio_ring (radio b)
     \<and> signing_inv sl \<and> leases_for (if reason = None then Some (owner, c) else None) now r sl)"

lemma leases_for_plain:
  assumes "leases_for None now r sl" "descriptor c = Some d" "RemoteLease \<notin> set (desc_flags d)"
    "c ! 0 \<notin> {CMD_SIGN_START, CMD_SIGN_DATA, CMD_SIGN_FINISH}" "plain_dm c \<longrightarrow> ring_available now (radio_ring r)"
  shows "leases_for (Some (owner, c)) now r sl"
  using assms by (auto simp: uses_lease_def)

lemma reserve_admits:
  assumes "\<not> rl_tentative (radio_remote r)" "\<not> sl_tentative sl" "sl_pending_data sl = None" "\<not> sl_finish_pending sl"
    "command_shape_valid c" "descriptor c = Some d" "RemoteLease \<in> set (desc_flags d)"
  obtains l where "lease_reserve owner c now (radio_remote r) = (Inr False, l)" "\<not> rl_tentative l"
  | l where "lease_reserve owner c now (radio_remote r) = (Inr True, l)" "rl_kind l \<noteq> None"
      "leases_for (Some (owner, c)) now (r\<lparr>radio_remote := l\<rparr>) sl"
proof -
  obtain k peer tag auth where cl: "classify c = Inr (k, peer, tag, auth)" using classify_shape [OF assms(5-7)] by blast
  have ne: "c \<noteq> []" using assms(5) by (auto dest: shape_valid_bounds)
  have sign: "c ! 0 \<notin> {CMD_SIGN_START, CMD_SIGN_DATA, CMD_SIGN_FINISH}" "\<not> plain_dm c"
    using lease_opcode [OF assms(6,7)] plain_dm_flags [OF assms(6)] assms(7) by blast+
  show thesis
  proof (cases "rl_kind (lease_expire now (radio_remote r)) = None")
    case False
    with that(1) lease_expire_idle [OF assms(1), of now] show thesis
      by (simp add: lease_reserve_def lease_occupied_def Let_def)
  next
    case True
    show thesis
      by (rule that(2)) (use True cl ne assms sign in \<open>auto simp: lease_reserve_def lease_occupied_def Let_def uses_lease_def\<close>)
  qed
qed

lemma sign_commands_plain:
  assumes "descriptor c = Some d" "c ! 0 \<in> {CMD_SIGN_START, CMD_SIGN_DATA, CMD_SIGN_FINISH}"
  shows "\<not> plain_dm c" "\<not> uses_lease c" "Maintenance \<notin> set (desc_flags d)" "RemoteLease \<notin> set (desc_flags d)"
  using descriptor_flags [OF assms(1)] assms by (auto simp: plain_dm_def uses_lease_def)

lemma sign_admits:
  assumes "leases_for None now r sl" "signing_inv sl" "command_shape_valid c" "descriptor c = Some d"
  shows "c ! 0 = CMD_SIGN_START \<Longrightarrow> \<exists>ok sl'. signing_start owner c now sl = (Inr ok, sl') \<and> signing_inv sl'
      \<and> leases_for (if ok then Some (owner, c) else None) now r sl'"
    "c ! 0 = CMD_SIGN_DATA \<Longrightarrow> \<exists>a sl'. begin_data owner c now sl = (Inr a, sl') \<and> signing_inv sl'
      \<and> leases_for (if a = Allowed then Some (owner, c) else None) now r sl'"
    "c ! 0 = CMD_SIGN_FINISH \<Longrightarrow> \<exists>a sl'. begin_finish owner c now sl = (Inr a, sl') \<and> signing_inv sl'
      \<and> leases_for (if a = Allowed then Some (owner, c) else None) now r sl'"
proof -
  let ?e = "signing_expire now sl"
  have idle: "\<not> sl_tentative ?e" "sl_pending_data ?e = None" "\<not> sl_finish_pending ?e" "\<not> rl_tentative (radio_remote r)" "signing_inv ?e"
    using assms(1,2) signing_idle_expire [of sl now] by (auto simp: signing_inv_expire)
  have ne: "c \<noteq> []" "c ! 0 = CMD_SIGN_DATA \<Longrightarrow> 2 \<le> length c"
    using assms(3) shape_lengths(8) [OF assms(3)] by (auto dest: shape_valid_bounds)
  note plain = sign_commands_plain [OF assms(4)]
  show "c ! 0 = CMD_SIGN_START \<Longrightarrow> \<exists>ok sl'. signing_start owner c now sl = (Inr ok, sl') \<and> signing_inv sl'
      \<and> leases_for (if ok then Some (owner, c) else None) now r sl'"
  proof -
    assume c: "c ! 0 = CMD_SIGN_START"
    have "require_command c CMD_SIGN_START 1 = Inr ()" using c ne by (cases c) (simp_all add: require_command_def)
    then have eq: "signing_start owner c now sl = (if sl_owner ?e \<noteq> None \<and> sl_owner ?e \<noteq> Some owner then (Inr False, ?e)
        else (Inr True, ?e\<lparr>sl_owner := Some owner, sl_limit := None, sl_accepted := 0, sl_pending_data := None,
             sl_finish_pending := False, sl_tentative := True, sl_last_activity := Some now\<rparr>))"
      by (simp add: signing_start_def Let_def)
    have inv: "signing_inv (snd (signing_start owner c now sl))" using assms(2) by (rule signing_start_inv)
    show ?thesis
    proof (cases "sl_owner ?e \<noteq> None \<and> sl_owner ?e \<noteq> Some owner")
      case True
      with eq idle show ?thesis by (intro exI [of _ False] exI [of _ ?e]) simp
    next
      case False
      with eq inv have "signing_start owner c now sl = (Inr True, snd (signing_start owner c now sl))" by simp
      moreover from False eq have "leases_for (Some (owner, c)) now r (snd (signing_start owner c now sl))"
        using idle plain c by simp
      ultimately show ?thesis using inv by (intro exI [of _ True] exI [of _ "snd (signing_start owner c now sl)"]) simp
    qed
  qed
  show "c ! 0 = CMD_SIGN_DATA \<Longrightarrow> \<exists>a sl'. begin_data owner c now sl = (Inr a, sl') \<and> signing_inv sl'
      \<and> leases_for (if a = Allowed then Some (owner, c) else None) now r sl'"
  proof -
    assume c: "c ! 0 = CMD_SIGN_DATA"
    have lim: "sl_limit ?e = Some m \<Longrightarrow> sl_accepted ?e \<le> m" for m using idle(5) by (auto simp: signing_inv_def)
    show ?thesis
    proof (cases "usable_by owner ?e")
      case False
      with c ne idle show ?thesis by (auto simp: begin_data_def Let_def)
    next
      case True
      then obtain m where m: "sl_limit ?e = Some m" "sl_owner ?e = Some owner" by (auto simp: usable_by_def)
      with True c ne idle plain lim [OF m(1)] begin_data_inv [OF assms(2), of owner c now] show ?thesis
        by (auto simp: begin_data_def Let_def not_less)
    qed
  qed
  show "c ! 0 = CMD_SIGN_FINISH \<Longrightarrow> \<exists>a sl'. begin_finish owner c now sl = (Inr a, sl') \<and> signing_inv sl'
      \<and> leases_for (if a = Allowed then Some (owner, c) else None) now r sl'"
  proof -
    assume c: "c ! 0 = CMD_SIGN_FINISH"
    have "require_command c CMD_SIGN_FINISH 1 = Inr ()" using c ne by (cases c) (simp_all add: require_command_def)
    with begin_finish_inv [OF assms(2), of owner c now] c idle plain show ?thesis
      by (cases "usable_by owner ?e") (auto simp: begin_finish_def Let_def usable_by_def)
  qed
qed


lemma cr_bind_lift_Inr: "cr_bind (cr_lift (Inr x)) f = f x"
  by (rule ext) (simp add: cr_bind_def cr_lift_def)

lemma or_false: "cr_or m n b = (case m b of (Inl e, b') \<Rightarrow> (Inl e, b') | (Inr x, b') \<Rightarrow> if x then (Inr True, b') else n b')"
  by (simp add: cr_or_def cr_bind_def cr_return_def split: prod.split sum.split)

text \<open>Checks that change the shared state without opening a reservation.\<close>

definition check_ok :: "span \<Rightarrow> broker \<Rightarrow> broker \<Rightarrow> bool" where
  "check_ok now b b' \<longleftrightarrow> (\<exists>r sl. b' = b\<lparr>radio := r, signing := sl\<rparr> \<and> radio_ring r = radio_ring (radio b)
     \<and> signing_inv sl \<and> leases_for None now r sl)"

lemma check_okI:
  "b' = b\<lparr>radio := r, signing := sl\<rparr> \<Longrightarrow> radio_ring r = radio_ring (radio b) \<Longrightarrow> signing_inv sl \<Longrightarrow> leases_for None now r sl
    \<Longrightarrow> check_ok now b b'"
  unfolding check_ok_def by blast

lemma admission_okI:
  "b' = b\<lparr>radio := r, signing := sl\<rparr> \<Longrightarrow> radio_ring r = radio_ring (radio b) \<Longrightarrow> signing_inv sl \<Longrightarrow>
    leases_for (if reason = None then Some (owner, c) else None) now r sl \<Longrightarrow> admission_ok owner c now b reason b'"
  unfolding admission_ok_def by blast

lemma check_okE:
  assumes "check_ok now b b'"
  obtains r sl where "b' = b\<lparr>radio := r, signing := sl\<rparr>" "radio_ring r = radio_ring (radio b)" "signing_inv sl" "leases_for None now r sl"
  using assms unfolding check_ok_def by blast

text \<open>A check run on the state of a broker is a check of its shared part.\<close>

lemma shared_check:
  assumes "\<And>r sl. radio_ring r = radio_ring (radio b) \<Longrightarrow> signing_inv sl \<Longrightarrow> leases_for None now r sl \<Longrightarrow>
    \<exists>x r' sl'. m (b\<lparr>radio := r, signing := sl\<rparr>) = (Inr x, b\<lparr>radio := r', signing := sl'\<rparr>) \<and> Q x (b\<lparr>radio := r', signing := sl'\<rparr>)"
  shows "cr_total (check_ok now b) m Q"
proof (rule cr_hoareI)
  fix s x s' assume "check_ok now b s" "m s = (Inr x, s')"
  then show "Q x s'" by (elim check_okE) (use assms in fastforce)
next
  fix s e s' assume "check_ok now b s" "m s = (Inl e, s')"
  then show False by (elim check_okE) (use assms in fastforce)
qed

lemma check_ok_refl: "leases_for None now (radio b) (signing b) \<Longrightarrow> signing_inv (signing b) \<Longrightarrow> check_ok now b b"
  unfolding check_ok_def by (intro exI [of _ "radio b"] exI [of _ "signing b"]) simp

lemma check_quarantined: "cr_total (check_ok now b) (on_radio (quarantined now)) (\<lambda>_. check_ok now b)"
proof (rule shared_check)
  fix r sl assume "radio_ring r = radio_ring (radio b)" "signing_inv sl" "leases_for None now r sl"
  then have "on_radio (quarantined now) (b\<lparr>radio := r, signing := sl\<rparr>) = (Inr (fst (quarantined now r)), b\<lparr>radio := snd (quarantined now r), signing := sl\<rparr>)"
    "check_ok now b (b\<lparr>radio := snd (quarantined now r), signing := sl\<rparr>)"
    by (simp_all add: on_radio_def case_prod_unfold) (rule check_okI [OF refl], auto)
  then show "\<exists>x r' sl'. on_radio (quarantined now) (b\<lparr>radio := r, signing := sl\<rparr>) = (Inr x, b\<lparr>radio := r', signing := sl'\<rparr>)
    \<and> check_ok now b (b\<lparr>radio := r', signing := sl'\<rparr>)" by blast
qed

lemma check_occupied: "cr_total (check_ok now b) (on_remote (returning (lease_occupied now))) (\<lambda>_. check_ok now b)"
proof (rule shared_check)
  fix r sl assume "radio_ring r = radio_ring (radio b)" "signing_inv sl" "leases_for None now r sl"
  then have "on_remote (returning (lease_occupied now)) (b\<lparr>radio := r, signing := sl\<rparr>) = (Inr (rl_kind (lease_expire now (radio_remote r)) \<noteq> None),
      b\<lparr>radio := r\<lparr>radio_remote := lease_expire now (radio_remote r)\<rparr>, signing := sl\<rparr>)"
    "check_ok now b (b\<lparr>radio := r\<lparr>radio_remote := lease_expire now (radio_remote r)\<rparr>, signing := sl\<rparr>)"
    by (simp_all add: on_remote_def returning_def lease_occupied_def Let_def) (rule check_okI [OF refl], auto simp: lease_expire_idle)
  then show "\<exists>x r' sl'. on_remote (returning (lease_occupied now)) (b\<lparr>radio := r, signing := sl\<rparr>) = (Inr x, b\<lparr>radio := r', signing := sl'\<rparr>)
    \<and> check_ok now b (b\<lparr>radio := r', signing := sl'\<rparr>)" by blast
qed

lemma check_signing: "cr_total (check_ok now b) (on_signing (returning (signing_occupied now))) (\<lambda>_. check_ok now b)"
proof (rule shared_check)
  fix r sl assume a: "radio_ring r = radio_ring (radio b)" "signing_inv sl" "leases_for None now r sl"
  then have "on_signing (returning (signing_occupied now)) (b\<lparr>radio := r, signing := sl\<rparr>) = (Inr (sl_owner (signing_expire now sl) \<noteq> None),
      b\<lparr>radio := r, signing := signing_expire now sl\<rparr>)"
    by (simp add: on_signing_def returning_def signing_occupied_def Let_def)
  moreover have "check_ok now b (b\<lparr>radio := r, signing := signing_expire now sl\<rparr>)"
    by (rule check_okI [OF refl]) (use a signing_idle_expire [of sl now] in \<open>auto simp: signing_inv_expire\<close>)
  ultimately show "\<exists>x r' sl'. on_signing (returning (signing_occupied now)) (b\<lparr>radio := r, signing := sl\<rparr>) = (Inr x, b\<lparr>radio := r', signing := sl'\<rparr>)
    \<and> check_ok now b (b\<lparr>radio := r', signing := sl'\<rparr>)" by blast
qed

lemma check_get: "cr_total (check_ok now b) (cr_get f) (\<lambda>_. check_ok now b)"
  by (rule cr_hoare_get)

lemma maintenance_blocked_ok: "cr_total (check_ok now b) (maintenance_blocked now) (\<lambda>_. check_ok now b)"
  unfolding maintenance_blocked_def
  by (rule cr_hoare_or [OF check_get] cr_hoare_or [OF check_quarantined] cr_hoare_or [OF check_occupied] check_signing | assumption)+

lemma dm_blocked_ok:
  "cr_total (check_ok now b) (dm_blocked c now) (\<lambda>blocked b'. check_ok now b b' \<and> (\<not> blocked \<longrightarrow> plain_dm c \<longrightarrow> ring_available now (radio_ring (radio b'))))"
  unfolding dm_blocked_def
  by (intro cr_hoare_if cr_hoare_return cr_hoare_or [OF check_quarantined] cr_hoare_get) auto

lemma admission_of_check: "check_ok now b b' \<Longrightarrow> admission_ok owner c now b (Some r) b'"
  by (erule check_okE, rule admission_okI) simp_all

lemma admission_plain:
  assumes "check_ok now b b'" "descriptor c = Some d" "RemoteLease \<notin> set (desc_flags d)"
    "c ! 0 \<notin> {CMD_SIGN_START, CMD_SIGN_DATA, CMD_SIGN_FINISH}" "plain_dm c \<longrightarrow> ring_available now (radio_ring (radio b'))"
  shows "admission_ok owner c now b None b'"
proof -
  obtain r sl where b': "b' = b\<lparr>radio := r, signing := sl\<rparr>" "radio_ring r = radio_ring (radio b)" "signing_inv sl" "leases_for None now r sl"
    using assms(1) by (rule check_okE)
  show ?thesis
    by (rule admission_okI [OF b'(1-3)]) (use leases_for_plain [OF b'(4) assms(2-4)] assms(5) b'(1) in simp)
qed

lemma lease_refused_ok:
  assumes "command_shape_valid c" "descriptor c = Some d" "RemoteLease \<in> set (desc_flags d)"
  shows "cr_total (check_ok now b) (lease_refused owner c now)
    (\<lambda>refused. admission_ok owner c now b (refused_when ERR_BAD_STATE refused))"
  unfolding lease_refused_def
proof (rule cr_hoare_bind [OF check_quarantined], rule cr_hoare_if)
  fix x show "cr_total (check_ok now b) (cr_return True) (\<lambda>refused. admission_ok owner c now b (refused_when ERR_BAD_STATE refused))"
    by (rule cr_hoare_return) (simp add: refused_when_def admission_of_check)
next
  fix x show "cr_total (check_ok now b) (cr_bind (on_remote (lease_reserve owner c now)) (\<lambda>reserved. if \<not> reserved then cr_return True
       else cr_bind (cr_get (\<lambda>b. rl_kind (radio_remote (radio b)))) (\<lambda>kind. cr_then (cr_lift (not_nil kind)) (cr_return False))))
     (\<lambda>refused. admission_ok owner c now b (refused_when ERR_BAD_STATE refused))"
  proof (rule shared_check)
    fix r sl assume a: "radio_ring r = radio_ring (radio b)" "signing_inv sl" "leases_for None now r sl"
    let ?b = "\<lambda>l. b\<lparr>radio := r\<lparr>radio_remote := l\<rparr>, signing := sl\<rparr>"
    let ?m = "cr_bind (on_remote (lease_reserve owner c now)) (\<lambda>reserved. if \<not> reserved then cr_return True
       else cr_bind (cr_get (\<lambda>b. rl_kind (radio_remote (radio b)))) (\<lambda>kind. cr_then (cr_lift (not_nil kind)) (cr_return False)))"
    have idle: "\<not> rl_tentative (radio_remote r)" "\<not> sl_tentative sl" "sl_pending_data sl = None" "\<not> sl_finish_pending sl"
      using a(3) by auto
    have "\<exists>refused l. ?m (b\<lparr>radio := r, signing := sl\<rparr>) = (Inr refused, ?b l)
        \<and> leases_for (if refused then None else Some (owner, c)) now (r\<lparr>radio_remote := l\<rparr>) sl"
    proof (rule reserve_admits [OF idle assms, of owner now])
      fix l assume "lease_reserve owner c now (radio_remote r) = (Inr False, l)" "\<not> rl_tentative l"
      with idle show ?thesis by (intro exI [of _ True] exI [of _ l]) (simp add: cr_defs on_remote_def)
    next
      fix l assume "lease_reserve owner c now (radio_remote r) = (Inr True, l)" "rl_kind l \<noteq> None"
        "leases_for (Some (owner, c)) now (r\<lparr>radio_remote := l\<rparr>) sl"
      then show ?thesis by (intro exI [of _ False] exI [of _ l]) (auto simp: cr_defs on_remote_def not_nil_def)
    qed
    then obtain refused l where run: "?m (b\<lparr>radio := r, signing := sl\<rparr>) = (Inr refused, ?b l)"
      and l: "leases_for (if refused then None else Some (owner, c)) now (r\<lparr>radio_remote := l\<rparr>) sl" by blast
    have "admission_ok owner c now b (refused_when ERR_BAD_STATE refused) (?b l)"
      by (rule admission_okI [OF refl]; cases refused) (use a l in \<open>simp_all add: refused_when_def\<close>)
    with run show "\<exists>x r' sl'. ?m (b\<lparr>radio := r, signing := sl\<rparr>) = (Inr x, b\<lparr>radio := r', signing := sl'\<rparr>)
        \<and> admission_ok owner c now b (refused_when ERR_BAD_STATE x) (b\<lparr>radio := r', signing := sl'\<rparr>)" by blast
  qed
qed

lemma on_signing_ok:
  assumes "\<And>r sl. leases_for None now r sl \<Longrightarrow> signing_inv sl \<Longrightarrow> \<exists>x sl'. f sl = (Inr x, sl') \<and> signing_inv sl'
      \<and> leases_for (if g x = None then Some (owner, c) else None) now r sl'"
  shows "cr_total (check_ok now b) (cr_bind (on_signing f) (\<lambda>x. cr_return (g x))) (admission_ok owner c now b)"
proof (rule shared_check)
  fix r sl assume a: "radio_ring r = radio_ring (radio b)" "signing_inv sl" "leases_for None now r sl"
  obtain x sl' where f: "f sl = (Inr x, sl')" "signing_inv sl'" "leases_for (if g x = None then Some (owner, c) else None) now r sl'"
    using assms [OF a(3,2)] by blast
  have "admission_ok owner c now b (g x) (b\<lparr>radio := r, signing := sl'\<rparr>)"
    by (rule admission_okI [OF refl]) (use a f in simp_all)
  moreover have "cr_bind (on_signing f) (\<lambda>x. cr_return (g x)) (b\<lparr>radio := r, signing := sl\<rparr>) = (Inr (g x), b\<lparr>radio := r, signing := sl'\<rparr>)"
    using f by (simp add: cr_defs on_signing_def)
  ultimately show "\<exists>x r' sl'. cr_bind (on_signing f) (\<lambda>x. cr_return (g x)) (b\<lparr>radio := r, signing := sl\<rparr>) = (Inr x, b\<lparr>radio := r', signing := sl'\<rparr>)
      \<and> admission_ok owner c now b x (b\<lparr>radio := r', signing := sl'\<rparr>)" by blast
qed

lemma refused_when_None [simp]: "refused_when r x = None \<longleftrightarrow> \<not> x"
  by (simp add: refused_when_def)

lemma admission_reason_None [simp]: "admission_reason a = None \<longleftrightarrow> a = Allowed"
  by (simp add: admission_reason_def split: admission.split)

lemma admission_signing:
  assumes "command_shape_valid c" "descriptor c = Some d"
  shows "c ! 0 = CMD_SIGN_START \<Longrightarrow> cr_total (check_ok now b) (cr_bind (on_signing (signing_start owner c now))
      (\<lambda>started. cr_return (refused_when ERR_BAD_STATE (\<not> started)))) (admission_ok owner c now b)"
    "c ! 0 = CMD_SIGN_DATA \<Longrightarrow> cr_total (check_ok now b) (cr_bind (on_signing (begin_data owner c now))
      (\<lambda>a. cr_return (admission_reason a))) (admission_ok owner c now b)"
    "c ! 0 = CMD_SIGN_FINISH \<Longrightarrow> cr_total (check_ok now b) (cr_bind (on_signing (begin_finish owner c now))
      (\<lambda>a. cr_return (refused_when ERR_BAD_STATE (a \<noteq> Allowed)))) (admission_ok owner c now b)"
  using sign_admits [OF _ _ assms] by (auto intro!: on_signing_ok)

lemma admission_maintenance:
  assumes "descriptor c = Some d" "Maintenance \<in> set (desc_flags d)"
  shows "cr_total (check_ok now b) (cr_bind (maintenance_blocked now) (\<lambda>blocked. cr_return (refused_when ERR_BAD_STATE blocked)))
      (admission_ok owner c now b)"
proof (rule cr_hoare_bind [OF maintenance_blocked_ok], rule cr_hoare_return)
  fix blocked b' assume k: "check_ok now b b'"
  have "RemoteLease \<notin> set (desc_flags d)" "c ! 0 \<notin> {CMD_SIGN_START, CMD_SIGN_DATA, CMD_SIGN_FINISH}" "\<not> plain_dm c"
    by (rule maintenance_opcode [OF assms])+
  with k assms(1) show "admission_ok owner c now b (refused_when ERR_BAD_STATE blocked) b'"
    by (auto simp: refused_when_def intro: admission_of_check admission_plain)
qed

lemma admission_run:
  assumes "command_shape_valid c" "descriptor c = Some d"
  shows "cr_total (check_ok now b) (admission_refusal owner c now) (admission_ok owner c now b)"
proof -
  let ?quiet = "\<lambda>b'. check_ok now b b' \<and> (plain_dm c \<longrightarrow> ring_available now (radio_ring (radio b')))"
  have none: "cr_total ?quiet (cr_return None) (admission_ok owner c now b)"
    if "RemoteLease \<notin> set (desc_flags d)" "c ! 0 \<notin> {CMD_SIGN_START, CMD_SIGN_DATA, CMD_SIGN_FINISH}"
    by (rule cr_hoare_return) (use that assms(2) admission_plain in blast)
  have rest: "cr_total ?quiet (if RemoteLease \<in> set (desc_flags d)
       then cr_bind (lease_refused owner c now) (\<lambda>refused. cr_return (refused_when ERR_BAD_STATE refused))
       else if c ! 0 = CMD_SIGN_START
       then cr_bind (on_signing (signing_start owner c now)) (\<lambda>started. cr_return (refused_when ERR_BAD_STATE (\<not> started)))
       else if c ! 0 = CMD_SIGN_DATA
       then cr_bind (on_signing (begin_data owner c now)) (\<lambda>a. cr_return (admission_reason a))
       else if c ! 0 = CMD_SIGN_FINISH
       then cr_bind (on_signing (begin_finish owner c now)) (\<lambda>a. cr_return (refused_when ERR_BAD_STATE (a \<noteq> Allowed)))
       else cr_return None) (admission_ok owner c now b)"
  proof (intro cr_hoare_if)
    assume "RemoteLease \<in> set (desc_flags d)"
    then show "cr_total ?quiet (cr_bind (lease_refused owner c now) (\<lambda>refused. cr_return (refused_when ERR_BAD_STATE refused))) (admission_ok owner c now b)"
      by (intro cr_hoare_bind [OF cr_pre [OF lease_refused_ok [OF assms]]] cr_hoare_return) auto
  qed (rule cr_pre [OF admission_signing(1) [OF assms]] cr_pre [OF admission_signing(2) [OF assms]]
      cr_pre [OF admission_signing(3) [OF assms]] none; auto)+
  have dm: "cr_total (check_ok now b) (cr_bind (dm_blocked c now) (\<lambda>blocked. if blocked then cr_return (Some ERR_BAD_STATE) else m))
      (admission_ok owner c now b)" if "cr_total ?quiet m (admission_ok owner c now b)" for m
    by (rule cr_hoare_bind [OF dm_blocked_ok], rule cr_hoare_if)
      (auto intro!: cr_hoare_return cr_pre [OF that] simp: admission_of_check)
  show ?thesis
    unfolding admission_refusal_def assms(2) not_nil_def option.case cr_bind_lift_Inr
    by (rule cr_hoare_if [OF admission_maintenance [OF assms(2)] dm [OF rest]], simp)
qed


section \<open>Dispatch\<close>

definition started_write :: "bytes \<Rightarrow> span \<Rightarrow> broker \<Rightarrow> broker" where
  "started_write payload now b = change_active (\<lambda>t. t\<lparr>upstream_write_id := Some (next_write b + 1)\<rparr>)
     (act [SendFrame 0 (epoch b) (next_write b + 1) payload]
       (b\<lparr>next_write := next_write b + 1,
          upstream_writes := AList.update (next_write b + 1) (now + write_timeout (config b)) (upstream_writes b)\<rparr>))"

lemma start_write_eq: "start_write payload now b = (Inr (), started_write payload now b)"
  by (simp add: start_write_def send_upstream_def fresh_write_def cr_defs started_write_def)

text \<open>Only the fields the later parts of the invariant depend on matter.\<close>

lemma queues_cong:
  assumes "sessions b' = sessions b" "dedicated_slots b' = dedicated_slots b" "config b' = config b" "owner_of b' = owner_of b"
  shows "queues_inv b' = queues_inv b"
proof -
  have "session_of i b' = session_of i b" "slot_of k b' = slot_of k b" for i k
    using assms by (simp_all add: session_of_def slot_of_def)
  with assms show ?thesis by (simp only: queues_inv_def)
qed

lemma waiting_cong: "sessions b' = sessions b \<Longrightarrow> waiting b' = waiting b"
  by (simp add: waiting_def session_of_def)

text \<open>Changing the transaction in flight.\<close>

lemma core_change_active:
  assumes "core l p b" "active b = Some t" "transaction_inv (f t)" "t_owner (f t) = t_owner t"
    "upstream_write_id (f t) = upstream_write_id t"
  shows "core l p (change_active f b)"
proof -
  have "owner_of (change_active f b) = owner_of b" using assms(2,4) by (simp add: owner_of_def broker_simps)
  moreover have "structure_inv (change_active f b) = structure_inv b" by (rule structure_cong) (simp_all add: broker_simps)
  moreover have "queues_inv (change_active f b) = queues_inv b" by (rule queues_cong) (use calculation in \<open>simp_all add: broker_simps\<close>)
  moreover have "waiting (change_active f b) = waiting b" by (rule waiting_cong) (simp add: broker_simps)
  ultimately show ?thesis using assms
    by (auto simp: core_def env_inv_def active_inv_def writes_inv_def outstanding_write_def wait_inv_def lease_inv_def broker_simps)
qed

lemma core_started:
  assumes "core l p b" "active b = Some t" "upstream_write_id t = None" "t_step t \<noteq> MaintenanceResult"
  shows "core l p (started_write payload now b)"
proof -
  let ?b = "started_write payload now b"
  have fields: "sessions ?b = sessions b" "rotation ?b = rotation b" "dedicated_slots ?b = dedicated_slots b" "config ?b = config b"
    "owner_of ?b = owner_of b" "self_key ?b = self_key b" "orphan ?b = orphan b" "radio ?b = radio b" "signing ?b = signing b"
    "failed ?b = failed b" "time ?b = time b" "drain_requested ?b = drain_requested b" "drain_authorized ?b = drain_authorized b"
    "active ?b = Some (t\<lparr>upstream_write_id := Some (next_write b + 1)\<rparr>)"
    using assms(2) by (simp_all add: started_write_def broker_simps owner_of_def)
  have "upstream_writes b = []" using core_parts(5) [OF assms(1)] assms(2,3) by (simp add: writes_inv_def outstanding_write_def)
  then have "upstream_writes ?b = [(next_write b + 1, now + write_timeout (config b))]" by (simp add: started_write_def broker_simps)
  moreover have "transaction_inv t \<Longrightarrow> transaction_inv (t\<lparr>upstream_write_id := Some (next_write b + 1)\<rparr>)"
    using assms(4) by (simp add: transaction_inv_def flag_def)
  ultimately show ?thesis
    using assms(1,2) structure_cong [OF fields(1-3)] queues_cong [OF fields(1,3,4,5)] waiting_cong [OF fields(1)]
    by (auto simp: core_def env_inv_def active_inv_def writes_inv_def outstanding_write_def wait_inv_def lease_inv_def fields)
qed

lemma core_activate:
  assumes "core l True b" "active b = None" "transaction_inv t" "upstream_write_id t = None" "\<not> failed b"
    "\<And>s. session_of (t_owner t) b = Some s \<Longrightarrow> length (commands s) + of_bool (sync s \<noteq> None) + 1 \<le> command_limit (config b)"
    "t_owner t = 0 \<or> wait_inv p b"
  shows "core l p (b\<lparr>active := Some t\<rparr>)"
proof -
  let ?b = "b\<lparr>active := Some t\<rparr>"
  have st: "structure_inv ?b = structure_inv b" by (rule structure_cong) simp_all
  have s: "session_of i ?b = session_of i b" "slot_of k ?b = slot_of k b" for i k by (simp_all add: session_of_def slot_of_def)
  have "session_inv (config b) (t_owner t = i) s" if "session_of i b = Some s" for i s
    using core_parts(2) [OF assms(1)] that assms(2) assms(6) [of s] by (auto simp: queues_inv_def session_inv_def owner_of_def)
  then have "queues_inv ?b" using core_parts(2) [OF assms(1)] by (simp add: queues_inv_def s owner_of_def)
  moreover have "wait_inv p ?b" using core_parts(6) [OF assms(1)] assms(2,7) waiting_cong [of ?b b]
    by (auto simp: wait_inv_def owner_of_def)
  ultimately show ?thesis using assms(1-5) st
    by (simp add: core_def env_inv_def active_inv_def writes_inv_def outstanding_write_def lease_inv_def)
qed

lemma normalize_shape: "command_shape_valid c \<Longrightarrow> c ! 0 = CMD_DEVICE_QUERY \<Longrightarrow> \<exists>q. normalize_device_query c v = Inr q"
  using shape_valid_descriptor [of c] by (auto simp: normalize_device_query_def validate_command_def)

definition forwarded :: "bytes \<Rightarrow> bytes" where
  "forwarded c = (if c ! 0 = CMD_DEVICE_QUERY then c[1 := UPSTREAM_APP_TARGET] else c)"

lemma send_command_eq:
  assumes "command_shape_valid (t_command t)"
  shows "send_command t now b = (Inr (), started_write (forwarded (t_command t)) now (change_active (\<lambda>t. t\<lparr>t_step := Command\<rparr>) b))"
proof -
  have "t_command t \<noteq> []" using assms by (auto dest: shape_valid_bounds)
  moreover have "t_command t ! 0 = CMD_DEVICE_QUERY \<Longrightarrow>
      normalize_device_query (t_command t) UPSTREAM_APP_TARGET = Inr ((t_command t)[1 := UPSTREAM_APP_TARGET])"
    using assms shape_valid_descriptor [OF assms] by (auto simp: normalize_device_query_def validate_command_def)
  ultimately show ?thesis
    by (simp add: send_command_def cr_defs byte_at_def start_write_eq forwarded_def)
qed

lemma broker_core_send:
  assumes "broker_core False p b" "active b = Some t" "t_step t = Setup \<or> t_step t = Command" "upstream_write_id t = None" "\<not> failed b"
  shows "\<exists>b'. send_command t now b = (Inr (), b') \<and> broker_core False p b' \<and> active b' \<noteq> None \<and> \<not> failed b'"
proof -
  have inv: "transaction_inv t" and c: "core (held b) p b"
    using assms(1,2) core_parts(4) by (auto simp: broker_core_def active_inv_def)
  let ?b1 = "change_active (\<lambda>t. t\<lparr>t_step := Command\<rparr>) b"
  have "core (held b) p ?b1"
    using inv by (intro core_change_active [OF c assms(2)]) (auto simp: transaction_inv_def flag_def)
  then have "core (held b) p (started_write (forwarded (t_command t)) now ?b1)"
    using assms(2,4) by (intro core_started [where t = "t\<lparr>t_step := Command\<rparr>"]) (simp_all add: broker_simps)
  moreover have "held (started_write (forwarded (t_command t)) now ?b1) = held b"
    using assms(2,3) by (auto simp: held_def started_write_def broker_simps)
  ultimately show ?thesis
    using send_command_eq [of t now b] inv assms(2,5) by (simp add: transaction_inv_def broker_core_def started_write_def broker_simps)
qed

definition dispatchable :: "bool \<Rightarrow> int \<Rightarrow> bytes \<Rightarrow> broker \<Rightarrow> bool" where
  "dispatchable p owner c b \<longleftrightarrow> core (Some (owner, c)) True b \<and> active b = None \<and> \<not> failed b \<and> command_shape_valid c
     \<and> (if owner = 0 then c = [CMD_SYNC_NEXT_MESSAGE] else c ! 0 \<noteq> CMD_SYNC_NEXT_MESSAGE \<and> wait_inv p b)
     \<and> (\<forall>s. session_of owner b = Some s \<longrightarrow> length (commands s) + of_bool (sync s \<noteq> None) + 1 \<le> command_limit (config b))"

definition dispatched_transaction :: "int \<Rightarrow> bytes \<Rightarrow> span \<Rightarrow> int \<Rightarrow> int \<Rightarrow> broker \<Rightarrow> transaction" where
  "dispatched_transaction owner c now pop gen b = (new_transaction owner c (the (descriptor c)) now pop gen)\<lparr>
         had_multi_client := owner = 0 \<and> list_ex (\<lambda>(i, s). \<not> dedicated s) (sessions b),
         job_id := next_write b + 1, maintenance := Maintenance \<in> set (desc_flags (the (descriptor c)))\<rparr>"

definition scope_first :: "int \<Rightarrow> bytes \<Rightarrow> broker \<Rightarrow> bytes option" where
  "scope_first owner c b = (case session_of owner b of None \<Rightarrow> None
     | Some s \<Rightarrow> if ScopeSend \<in> set (desc_flags (the (descriptor c))) \<and> scope s \<noteq> default_scope then Some (scope s) else None)"

lemma dispatch_eq:
  assumes "command_shape_valid c"
  shows "dispatch owner c now pop gen b = (let t = dispatched_transaction owner c now pop gen b;
      b1 = act [DispatchedPayload owner (job_id t) c] (b\<lparr>active := Some t\<rparr>)
    in case scope_first owner c b of
        Some s \<Rightarrow> (Inr (), started_write s now (change_active (\<lambda>t. t\<lparr>t_step := Setup, scoped := True\<rparr>) b1))
      | None \<Rightarrow> (Inr (), started_write (forwarded c) now (change_active (\<lambda>t. t\<lparr>t_step := Command\<rparr>) b1)))"
proof -
  obtain d where d: "descriptor c = Some d" using shape_valid_descriptor [OF assms] by blast
  have s: "session_of owner (act as (b\<lparr>active := x\<rparr>)) = session_of owner b" for as x by (simp add: broker_simps session_of_def)
  show ?thesis
    using assms d s
    by (auto simp: dispatch_def cr_defs not_nil_def dispatched_transaction_def scope_first_def Let_def send_command_eq start_write_eq
        new_transaction_def flag_def split: option.splits)
qed

lemma dispatch_core:
  assumes "dispatchable p owner c b"
  shows "\<exists>b'. dispatch owner c now pop gen b = (Inr (), b') \<and> broker_core False p b' \<and> active b' \<noteq> None \<and> \<not> failed b'"
proof -
  define t where "t = dispatched_transaction owner c now pop gen b"
  have shape: "command_shape_valid c" and own: "if owner = 0 then c = [CMD_SYNC_NEXT_MESSAGE] else c ! 0 \<noteq> CMD_SYNC_NEXT_MESSAGE \<and> wait_inv p b"
    using assms by (simp_all add: dispatchable_def)
  obtain d where d: "descriptor c = Some d" using shape_valid_descriptor [OF shape] by blast
  have t: "transaction_inv t" "t_owner t = owner" "t_command t = c" "t_step t = Command" "upstream_write_id t = None" "t_descriptor t = d"
    using shape d own by (simp_all add: t_def dispatched_transaction_def new_transaction_def transaction_inv_def flag_def)
  let ?b1 = "act [DispatchedPayload owner (job_id t) c] (b\<lparr>active := Some t\<rparr>)"
  have c1: "core (Some (owner, c)) p ?b1"
    using assms t by (intro core_act core_activate) (auto simp: dispatchable_def split: if_splits)
  have a1: "active ?b1 = Some t" "held ?b1 = Some (owner, c)" "failed ?b1 = failed b" using t by (simp_all add: broker_simps held_def)
  have nf: "\<not> failed b" using assms by (simp add: dispatchable_def)
  show ?thesis
  proof (cases "scope_first owner c b")
    case None
    let ?b2 = "change_active (\<lambda>t. t\<lparr>t_step := Command\<rparr>) ?b1"
    have "core (Some (owner, c)) p ?b2"
      using t by (intro core_change_active [OF c1 a1(1)]) (auto simp: transaction_inv_def flag_def)
    then have "core (Some (owner, c)) p (started_write (forwarded c) now ?b2)"
      using a1 t by (intro core_started [where t = "t\<lparr>t_step := Command\<rparr>"]) (simp_all add: broker_simps)
    moreover have "held (started_write (forwarded c) now ?b2) = Some (owner, c)"
      using a1 t by (simp add: held_def started_write_def broker_simps)
    ultimately show ?thesis using None shape nf a1
      by (simp add: dispatch_eq t_def [symmetric] Let_def broker_core_def) (simp add: started_write_def broker_simps)
  next
    case (Some s)
    then have sc: "flag ScopeSend t" using d t by (auto simp: scope_first_def flag_def split: option.splits if_splits)
    have "owner \<noteq> 0"
    proof
      assume "owner = 0"
      then have "c ! 0 = CMD_SYNC_NEXT_MESSAGE" using own by simp
      with descriptor_flags [OF d] sc t show False by (simp add: flag_def)
    qed
    let ?b2 = "change_active (\<lambda>t. t\<lparr>t_step := Setup, scoped := True\<rparr>) ?b1"
    have "core (Some (owner, c)) p ?b2"
      using t sc \<open>owner \<noteq> 0\<close> by (intro core_change_active [OF c1 a1(1)]) (auto simp: transaction_inv_def flag_def)
    then have "core (Some (owner, c)) p (started_write s now ?b2)"
      using a1 t by (intro core_started [where t = "t\<lparr>t_step := Setup, scoped := True\<rparr>"]) (simp_all add: broker_simps)
    moreover have "held (started_write s now ?b2) = Some (owner, c)"
      using a1 t by (simp add: held_def started_write_def broker_simps)
    ultimately show ?thesis using Some shape nf a1
      by (simp add: dispatch_eq t_def [symmetric] Let_def broker_core_def) (simp add: started_write_def broker_simps)
  qed
qed


section \<open>The rotation\<close>

definition rotating :: "span \<Rightarrow> bool \<Rightarrow> nat \<Rightarrow> broker \<Rightarrow> bool" where
  "rotating now p n b \<longleftrightarrow> broker_core False p b \<and> active b = None \<and> \<not> failed b \<and> time b = now \<and> n \<le> length (rotation b)
     \<and> (\<forall>j \<in> set (take n (rotation b)). ready (config b) (client_view j b))
     \<and> (0 \<notin> set (take n (rotation b)) \<longrightarrow> \<not> drain_requested b)"

definition busy :: "bool \<Rightarrow> broker \<Rightarrow> bool" where
  "busy p b \<longleftrightarrow> broker_core False p b \<and> active b \<noteq> None \<and> \<not> failed b"

lemma broker_core_idle: "active b = None \<Longrightarrow> broker_core z p b \<longleftrightarrow> core None p b"
  by (cases z) (simp_all add: broker_core_def held_def)

lemma rotating_core: "rotating now p n b \<Longrightarrow> core None p b"
  by (auto simp: rotating_def broker_core_def held_def)

lemma core_rotate:
  assumes "core l p b" "rotation b = i # os"
  shows "core l p (b\<lparr>rotation := os @ [i]\<rparr>)"
proof -
  let ?b = "b\<lparr>rotation := os @ [i]\<rparr>"
  have s: "session_of j ?b = session_of j b" "slot_of k ?b = slot_of k b" for j k by (simp_all add: session_of_def slot_of_def)
  have "structure_inv ?b"
    using core_parts(1) [OF assms(1)] assms(2) unfolding structure_inv_def s by auto
  moreover have "queues_inv ?b = queues_inv b" by (rule queues_cong) (simp_all add: owner_of_def)
  ultimately show ?thesis using assms(1) waiting_cong [of ?b b]
    by (simp add: core_def env_inv_def active_inv_def writes_inv_def outstanding_write_def wait_inv_def lease_inv_def owner_of_def)
qed

lemma core_shared:
  assumes "core l p b" "\<not> failed b" "ring_ok (radio_ring r)" "signing_inv sl" "leases_for l' (time b) r sl"
  shows "core l' p (b\<lparr>radio := r, signing := sl\<rparr>)"
proof -
  let ?b = "b\<lparr>radio := r, signing := sl\<rparr>"
  have "structure_inv ?b = structure_inv b" by (rule structure_cong) simp_all
  moreover have "queues_inv ?b = queues_inv b" by (rule queues_cong) (simp_all add: owner_of_def)
  ultimately show ?thesis using assms waiting_cong [of ?b b]
    by (simp add: core_def env_inv_def active_inv_def writes_inv_def outstanding_write_def wait_inv_def lease_inv_def owner_of_def)
qed

lemma core_relax: "core l p b \<Longrightarrow> core l True b"
  by (auto simp: core_def wait_inv_def)

lemma head_passes_valid: "head_passes c payload \<Longrightarrow> command_shape_valid payload \<and> (\<exists>d. descriptor payload = Some d)"
  by (auto simp: head_passes_def validate_command_def split: option.splits if_splits)

lemma pop_dispatchable:
  assumes "core None p b" "active b = None" "\<not> failed b" "sessions b \<noteq> []" "drain_requested b"
  shows "dispatchable p 0 [CMD_SYNC_NEXT_MESSAGE] (b\<lparr>drain_requested := False, pop_sequence := n\<rparr>)"
proof -
  let ?b = "b\<lparr>drain_requested := False, pop_sequence := n\<rparr>"
  have shape: "command_shape_valid [CMD_SYNC_NEXT_MESSAGE]" by (simp add: command_shape_valid_def)
  have l: "leases_for (Some (0, [CMD_SYNC_NEXT_MESSAGE])) (time b) (radio b) (signing b)"
  proof -
    obtain d where d: "descriptor [CMD_SYNC_NEXT_MESSAGE] = Some d" using shape_valid_descriptor [OF shape] by blast
    have "RemoteLease \<notin> set (desc_flags d)" using descriptor_flags [OF d] by auto
    with d core_parts(7) [OF assms(1)] assms(3) show ?thesis
      by (intro leases_for_plain) (auto simp: lease_inv_def plain_dm_def)
  qed
  have "structure_inv ?b = structure_inv b" by (rule structure_cong) simp_all
  moreover have "queues_inv ?b = queues_inv b" by (rule queues_cong) (simp_all add: owner_of_def)
  moreover have "session_of 0 ?b = None" using core_parts(1) [OF assms(1)] by (simp add: structure_inv_def session_of_def)
  ultimately show ?thesis using assms(1-4) l shape waiting_cong [of ?b b]
    by (simp add: dispatchable_def core_def env_inv_def active_inv_def writes_inv_def outstanding_write_def wait_inv_def lease_inv_def owner_of_def)
qed

lemma turn_pop:
  assumes "rotating now p (Suc n) b" "rotation b = 0 # os"
  shows "cr_total (\<lambda>b'. b' = b) (rotate_turn now) (\<lambda>d b. if d then busy p b else rotating now p n b)"
proof -
  let ?b = "b\<lparr>rotation := os @ [0]\<rparr>"
  have core: "core None p ?b" using core_rotate [OF rotating_core [OF assms(1)] assms(2)] .
  show ?thesis
  proof (cases "drain_requested b \<and> sessions b \<noteq> []")
    case False
    then have "\<not> drain_requested b" using core_parts(6) [OF rotating_core [OF assms(1)]] by (auto simp: wait_inv_def)
    then have "rotating now p n ?b"
      using assms core by (auto simp: rotating_def broker_core_idle client_view_def session_of_def)
    with False assms(2) show ?thesis by (auto simp: cr_hoare_def rotate_turn_def cr_defs first_of_def)
  next
    case True
    let ?b2 = "?b\<lparr>drain_requested := False, pop_sequence := pop_sequence b + 1\<rparr>"
    have "dispatchable p 0 [CMD_SYNC_NEXT_MESSAGE] ?b2"
      using pop_dispatchable [OF core] assms True by (simp add: rotating_def)
    then obtain b' where "dispatch 0 [CMD_SYNC_NEXT_MESSAGE] now (pop_sequence b + 1) (generation b) ?b2 = (Inr (), b')" "busy p b'"
      using dispatch_core unfolding busy_def by blast
    with True assms(2) show ?thesis by (auto simp: cr_hoare_def rotate_turn_def cr_defs first_of_def)
  qed
qed

lemma reject_calm:
  assumes "broker_core False p b" "active b = None" "\<not> failed b"
  obtains b' where "reject i r b = (Inr (), b')" "broker_core False p b'" "local_effect i b b'" "drain_requested b' \<longrightarrow> drain_requested b"
proof -
  have calm: "calm b" using assms by (simp add: calm_def)
  obtain w b' where e: "emit i [RESP_ERR, r] b = (Inr w, b')"
    using local_effect_emit [OF calm, of i "[RESP_ERR, r]"] by (cases "emit i [RESP_ERR, r] b") auto
  then have "broker_core False p b'" using cr_hoare_Inr [OF bc.emit_keeps assms(1)] by blast
  moreover have "local_effect i b b'" using local_effect_emit [OF calm, of i "[RESP_ERR, r]"] e by simp
  moreover have "drain_requested b' \<longrightarrow> drain_requested b"
    using e by (cases rule: emit_calm [OF calm, of i "[RESP_ERR, r]"]) (auto simp: broker_simps)
  ultimately show thesis using e by (intro that [of b']) (simp_all add: reject_def cr_defs)
qed

lemma turn_client:
  assumes "rotating now p (Suc n) b" "rotation b = i # os" "i \<noteq> 0"
  shows "cr_total (\<lambda>b'. b' = b) (rotate_turn now) (\<lambda>d b. if d then busy p b else rotating now p n b)"
proof -
  let ?b = "b\<lparr>rotation := os @ [i]\<rparr>"
  have core: "core None p ?b" using core_rotate [OF rotating_core [OF assms(1)] assms(2)] .
  have n: "n \<le> length os" "i \<notin> set os" using assms core_parts(1) [OF core] by (auto simp: rotating_def structure_inv_def)
  have ahead: "ready (config b) (client_view j b)" if "j \<in> set (take n os) \<or> j = i" for j
    using assms(1,2) that by (auto simp: rotating_def)
  have view: "client_view j ?b = client_view j b" for j by (simp add: client_view_def session_of_def)
  have idle: "0 \<notin> set (take n os) \<Longrightarrow> \<not> drain_requested b" using assms by (auto simp: rotating_def)
  have stay: "rotating now p n ?b"
    using assms core n ahead view idle by (auto simp: rotating_def broker_core_idle)
  have s_eq: "session_of j ?b = session_of j b" for j by (simp add: session_of_def)
  show ?thesis
  proof (cases "\<exists>s c cs. session_of i b = Some s \<and> sync s = None \<and> commands s = c # cs")
    case False
    then have "rotate_turn now b = (Inr False, ?b)"
      using assms(2,3) s_eq by (auto simp: rotate_turn_def cr_defs first_of_def split: option.splits list.splits)
    with stay show ?thesis by (simp add: cr_hoare_def)
  next
    case True
    then obtain s c cs where s: "session_of i b = Some s" "sync s = None" "commands s = c # cs" by blast
    let ?c = "cmd_payload c"
    let ?b2 = "change_session i (\<lambda>s. s\<lparr>commands := tl (commands s)\<rparr>) ?b"
    have pass: "head_passes (config b) ?c" using ahead [of i] s by (simp add: ready_def client_view_def)
    then obtain d where shape: "command_shape_valid ?c" and d: "descriptor ?c = Some d" using head_passes_valid by blast
    have core2: "core None p ?b2"
      by (rule core_change_session [OF core]) (auto simp: session_inv_def list_all_tl)
    have fields: "active ?b2 = None" "\<not> failed ?b2" "time ?b2 = now" "config ?b2 = config b" "rotation ?b2 = os @ [i]"
      using assms(1) by (simp_all add: rotating_def broker_simps)
    have "check_ok now ?b2 ?b2"
      using core_parts(3,7) [OF core2] fields by (intro check_ok_refl) (simp_all add: lease_inv_def env_inv_def)
    from cr_total_returns [OF admission_run [OF shape d] this, of i] obtain reason b3 where
      run: "admission_refusal i ?c now ?b2 = (Inr reason, b3)" and ok: "admission_ok i ?c now ?b2 reason b3" by blast
    from ok obtain r sl where b3: "b3 = ?b2\<lparr>radio := r, signing := sl\<rparr>" "radio_ring r = radio_ring (radio ?b2)" "signing_inv sl"
      "leases_for (if reason = None then Some (i, ?c) else None) now r sl" unfolding admission_ok_def by blast
    have core3: "core (if reason = None then Some (i, ?c) else None) p b3"
      unfolding b3(1) using b3(2-4) fields core_parts(3) [OF core2] by (intro core_shared [OF core2]) (simp_all add: env_inv_def)
    have f3: "active b3 = None" "\<not> failed b3" "time b3 = now" "config b3 = config b" "rotation b3 = os @ [i]"
      and v3: "\<And>j. session_of j b3 = session_of j ?b2"
      using fields by (simp_all add: b3(1) session_of_def)
    have start: "rotate_turn now b = cr_bind (admit_command i ?c now) (\<lambda>admitted. if \<not> admitted then cr_return False
                   else cr_then (dispatch i ?c now 0 0) (cr_return True)) ?b2"
      using assms(2,3) s s_eq by (simp add: rotate_turn_def cr_defs first_of_def shift_command_def)
    show ?thesis
    proof (cases reason)
      case None
      have sync: "?c ! 0 \<noteq> CMD_SYNC_NEXT_MESSAGE" using pass by (simp add: head_passes_def)
      have room: "length cs + 2 \<le> Suc (command_limit (config b))"
      proof -
        have "session_inv (config ?b) (owner_of ?b = Some i) s"
          using core_parts(2) [OF core] s(1) s_eq [of i] unfolding queues_inv_def by metis
        with s show ?thesis by (simp add: session_inv_def)
      qed
      have "dispatchable p i ?c b3"
        using None core3 core_relax [OF core3] f3 shape sync assms(3) core_parts(6) [OF core3] s room v3 [of i]
        by (auto simp: dispatchable_def session_of_change_session s_eq)
      then obtain b' where "dispatch i ?c now 0 0 b3 = (Inr (), b')" "busy p b'"
        using dispatch_core unfolding busy_def by blast
      with None run start show ?thesis by (simp add: cr_hoare_def admit_command_def cr_defs)
    next
      case (Some r)
      have bc3: "broker_core False p b3" using core3 f3 Some by (simp add: broker_core_idle)
      obtain b4 where rej: "reject i r b3 = (Inr (), b4)" and bc4: "broker_core False p b4" and e: "local_effect i b3 b4"
        and d4: "drain_requested b4 \<longrightarrow> drain_requested b3"
        using reject_calm [OF bc3 f3(1,2)] by blast
      have "filter (\<lambda>j. j \<noteq> i) os = os" using n(2) by (intro filter_True) auto
      then have "rotation b4 = os @ [i] \<or> rotation b4 = os" using e f3(5) by (auto simp: local_effect_def)
      then have rot: "take n (rotation b4) = take n os" "n \<le> length (rotation b4)" using n(1) by auto
      have "client_view j b4 = client_view j b" if "j \<in> set (take n os)" for j
      proof -
        have "j \<noteq> i" using that n(2) by (auto dest: in_set_takeD)
        then have "client_view j b4 = client_view j b3" using e by (simp add: local_effect_def)
        also have "\<dots> = client_view j b" using \<open>j \<noteq> i\<close> v3 [of j] by (simp add: client_view_def session_of_change_session s_eq)
        finally show ?thesis .
      qed
      moreover have "drain_requested b3 = drain_requested b" using b3(1) by (simp add: broker_simps)
      ultimately have "rotating now p n b4"
        using bc4 e f3 rot ahead d4 idle by (auto simp: rotating_def local_effect_def)
      with Some run rej start show ?thesis by (simp add: cr_hoare_def admit_command_def cr_defs)
    qed
  qed
qed

lemma turn_rotates: "cr_total (rotating now p (Suc n)) (rotate_turn now) (\<lambda>d b. if d then busy p b else rotating now p n b)"
proof (rule cr_at)
  fix b assume b: "rotating now p (Suc n) b"
  then obtain i os where "rotation b = i # os" by (cases "rotation b") (auto simp: rotating_def)
  with b turn_pop turn_client show "cr_total (\<lambda>b'. b' = b) (rotate_turn now) (\<lambda>d b. if d then busy p b else rotating now p n b)"
    by (cases "i = 0") blast+
qed

text \<open>After a full round either a transaction is in flight or no inbox read is due.\<close>

definition scheduled :: "bool \<Rightarrow> broker \<Rightarrow> bool" where
  "scheduled p b \<longleftrightarrow> broker_core False p b \<and> (failed b \<or> active b \<noteq> None \<or> \<not> drain_requested b)"

lemma rotate_core: "cr_total (rotating now p n) (rotate n now) (\<lambda>_. scheduled p)"
proof (induction n)
  case 0
  then show ?case by (auto intro: cr_hoare_return simp: rotating_def scheduled_def)
next
  case (Suc n)
  have "cr_total (\<lambda>b. if d then busy p b else rotating now p n b) (cr_when (\<not> d) (rotate n now)) (\<lambda>_. scheduled p)" for d
    using Suc by (cases d) (auto simp: cr_when_def busy_def intro!: cr_hoare_return, simp_all add: scheduled_def)
  then show ?case by (auto intro: cr_hoare_bind [OF turn_rotates])
qed

lemma broker_core_time:
  assumes "broker_core z p b" "time b \<le> now"
  shows "broker_core z p (b\<lparr>time := now\<rparr>)"
proof -
  let ?b = "b\<lparr>time := now\<rparr>"
  have "core l p b \<Longrightarrow> core l p ?b" for l
  proof -
    assume c: "core l p b"
    have "structure_inv ?b = structure_inv b" by (rule structure_cong) simp_all
    moreover have "queues_inv ?b = queues_inv b" by (rule queues_cong) (simp_all add: owner_of_def)
    moreover have "lease_inv l ?b" using core_parts(7) [OF c] assms(2) by (auto simp: lease_inv_def intro: leases_for_later)
    ultimately show ?thesis using c waiting_cong [of ?b b]
      by (simp add: core_def env_inv_def active_inv_def writes_inv_def outstanding_write_def wait_inv_def owner_of_def)
  qed
  with assms show ?thesis by (cases z) (simp_all add: broker_core_def held_def)
qed

lemma schedule_scheduled: "cr_total (\<lambda>b. broker_core False p b \<and> time b \<le> now) (schedule now) (\<lambda>_. scheduled p)"
proof (rule cr_at)
  fix b assume b: "broker_core False p b \<and> time b \<le> now"
  let ?b = "b\<lparr>time := now\<rparr>"
  have core: "broker_core False p ?b" using b broker_core_time by blast
  show "cr_total (\<lambda>b'. b' = b) (schedule now) (\<lambda>_. scheduled p)"
  proof (cases "failed b \<or> (\<exists>t. active b = Some t \<and> maintenance t)")
    case True
    with b core show ?thesis by (auto simp: cr_hoare_def schedule_def cr_defs scheduled_def)
  next
    case False
    then have calm: "calm ?b" by (auto simp: calm_def)
    from cr_total_returns [OF local_pass, of p ?b ?b now] core calm obtain b1 where
      l: "cr_bind (cr_get (\<lambda>b. map fst (sessions b))) (\<lambda>ids. cr_each ids (local_session now)) ?b = (Inr (), b1)"
      and p1: "passed p ?b [] b1" by auto
    show ?thesis
    proof (cases "active b1")
      case (Some t)
      with False l p1 show ?thesis
        by (auto simp: cr_hoare_def schedule_def cr_defs passed_def scheduled_def split: option.splits)
    next
      case None
      have "core None p b1" using p1 None by (simp add: passed_def broker_core_idle)
      then have "0 \<in> set (rotation b1)" by (simp add: core_def structure_inv_def)
      then have "rotating now p (length (rotation b1)) b1"
        using p1 None by (auto simp: rotating_def passed_def pass_effect_def calm_def owner_of_def)
      from cr_total_returns [OF rotate_core this] obtain b2 where "rotate (length (rotation b1)) now b1 = (Inr (), b2)" "scheduled p b2"
        by auto
      with False l None show ?thesis
        by (auto simp: cr_hoare_def schedule_def cr_defs split: option.splits)
    qed
  qed
qed

lemma schedule_core: "cr_total (\<lambda>b. broker_core False p b \<and> time b \<le> now) (schedule now) (\<lambda>_. broker_core False p)"
  by (rule cr_post [OF schedule_scheduled]) (simp add: scheduled_def)

end
