(* ===== verification/Broker_Frame.thy ===== *)
theory Broker_Frame
  imports Broker_Dispatch
begin

text \<open>
  What the operations of the broker leave alone, whatever their outcome. An assertion about the
  settings, the queued commands and the actions handed out is kept by every operation below the
  scheduler if the elementary changes keep it: the locale collects those changes, and its lemmas
  are one per operation. \<open>A\<close> is the set of peers that may be written to, the companion being 0.
\<close>

definition settings_of :: "broker \<Rightarrow> span \<times> int \<times> config \<times> bytes" where
  "settings_of b = (time b, epoch b, config b, self_key b)"

abbreviation fixed :: "span \<times> int \<times> config \<times> bytes \<Rightarrow> broker \<Rightarrow> bool" where
  "fixed x b \<equiv> settings_of b = x"

named_theorems frame_intros \<open>the operations that keep an assertion\<close>

lemmas frame_simps = settings_of_def broker_simps on_radio_def on_ring_def on_remote_def on_signing_def

locale frame_assertion =
  fixes P :: "broker \<Rightarrow> bool" and A :: "int set"
  assumes inner: "P b \<Longrightarrow> settings_of b' = settings_of b \<Longrightarrow> sessions b' = sessions b \<Longrightarrow> actions b' = actions b \<Longrightarrow> P b'"
    and touched: "P b \<Longrightarrow> (\<And>s. commands (f s) = commands s) \<Longrightarrow> P (change_session i f b)"
    and dropped: "P b \<Longrightarrow> P (b\<lparr>sessions := AList.delete i (sessions b)\<rparr>)"
    and sent_to: "P b \<Longrightarrow> j \<in> A \<Longrightarrow> P (act [SendFrame j e w payload] b)"
    and closed_one: "P b \<Longrightarrow> P (act [CloseSession j r] b)"
    and ended_all: "P b \<Longrightarrow> P (act [EndEpoch e r] b)"
begin

lemma inner_modify: "(\<And>b. settings_of (f b) = settings_of b \<and> sessions (f b) = sessions b \<and> actions (f b) = actions b) \<Longrightarrow> cr_keeps P (cr_modify f)"
  by (rule keeps_modify) (blast intro: inner)

lemma on_keeps [frame_intros]:
  "cr_keeps P (on_radio f)" "cr_keeps P (on_ring g)" "cr_keeps P (on_remote h)" "cr_keeps P (on_signing k)"
  by (auto simp: cr_hoare_def on_radio_def on_ring_def on_remote_def on_signing_def settings_of_def
      split: prod.splits sum.splits elim!: inner)

lemma preserve_keeps [frame_intros]: "cr_keeps P preserve_radio_uncertainty"
  unfolding preserve_radio_uncertainty_def by (intro cr_intros frame_intros)

lemma detach_inner:
  "\<exists>b1. detach i s r b = act [CloseSession i r] b1 \<and> settings_of b1 = settings_of b \<and> sessions b1 = AList.delete i (sessions b) \<and> actions b1 = actions b"
proof -
  let ?d = "detach i s r b"
  have "act [CloseSession i r] (?d\<lparr>actions := actions b\<rparr>) = ?d\<lparr>actions := actions ?d\<rparr>"
    by (simp add: act_def detach_fields)
  then show ?thesis by (intro exI [of _ "?d\<lparr>actions := actions b\<rparr>"]) (simp add: settings_of_def broker_simps)
qed

lemma detach_keeps: "P b \<Longrightarrow> P (detach i s r b)"
proof -
  assume "P b"
  obtain b1 where d: "detach i s r b = act [CloseSession i r] b1" "settings_of b1 = settings_of b"
    "sessions b1 = AList.delete i (sessions b)" "actions b1 = actions b" using detach_inner by blast
  have "P b1" by (rule inner [OF dropped [OF \<open>P b\<close>]]) (use d in \<open>simp_all add: settings_of_def\<close>)
  then show ?thesis unfolding d(1) by (rule closed_one)
qed

lemma finish_with_keeps: "(\<And>r. cr_keeps P (fail r)) \<Longrightarrow> cr_keeps P (finish_with fail t)"
  unfolding finish_with_def by (intro cr_intros inner_modify) (auto simp: frame_simps)

lemma remove_with_keeps: "(\<And>r. cr_keeps P (fail r)) \<Longrightarrow> cr_keeps P (remove_with fail i reason)"
  unfolding remove_with_def by (intro cr_intros finish_with_keeps) (auto simp: detach_keeps)

lemma fail_epoch_keeps [frame_intros]: "cr_keeps P (fail_epoch r)"
proof -
  have "P (act [EndEpoch (epoch b) r] (b\<lparr>active := None, upstream_writes := []\<rparr>))" if "P b" for b
    by (rule ended_all, rule inner [OF that]) (simp_all add: settings_of_def)
  then show ?thesis
    unfolding fail_epoch_def
    by (intro cr_intros frame_intros remove_with_keeps) (auto simp: frame_simps record_debt_def elim!: inner split: option.splits)
qed

lemma finish_keeps [frame_intros]: "cr_keeps P (finish_transaction t)"
  unfolding finish_transaction_def by (intro finish_with_keeps frame_intros)

lemma remove_keeps [frame_intros]: "cr_keeps P (remove i r)"
  unfolding remove_def by (intro remove_with_keeps frame_intros)

lemma fresh_keeps [frame_intros]: "cr_keeps P fresh_write"
  unfolding fresh_write_def by (intro cr_intros inner_modify) (simp add: settings_of_def)

lemma emit_keeps:
  assumes "i \<in> A"
  shows "cr_keeps P (emit i p)"
  unfolding emit_def by (intro cr_intros frame_intros) (use assms in \<open>auto intro!: sent_to touched\<close>)

lemma quiet_keeps: "i \<in> A \<Longrightarrow> cr_keeps P (emit_quietly i p)" "i \<in> A \<Longrightarrow> cr_keeps P (reject i r)"
  unfolding emit_quietly_def reject_def by (intro cr_intros emit_keeps; assumption)+

lemma hint_keeps: "i \<in> A \<Longrightarrow> cr_keeps P (emit_availability_hint i)"
  unfolding emit_availability_hint_def by (intro cr_intros emit_keeps) (auto intro!: touched)

lemma start_write_keeps: "0 \<in> A \<Longrightarrow> cr_keeps P (start_write p now)"
proof -
  assume "0 \<in> A"
  then have "P (act [SendFrame 0 (epoch b) w p] (b\<lparr>upstream_writes := u\<rparr>))" if "P b" for b w u
    using \<open>0 \<in> A\<close> by (intro sent_to inner [OF that]) (simp_all add: settings_of_def)
  then show ?thesis
    unfolding start_write_def send_upstream_def
    by (intro cr_intros frame_intros) (auto simp: frame_simps elim!: inner)
qed

lemma send_command_keeps: "0 \<in> A \<Longrightarrow> cr_keeps P (send_command t now)"
  unfolding send_command_def by (intro cr_intros frame_intros inner_modify start_write_keeps) (simp add: frame_simps)

lemma acceptance_keeps [frame_intros]: "cr_keeps P (record_acceptance t p now)"
  unfolding record_acceptance_def Let_def by (intro cr_intros frame_intros)

lemma scope_response_keeps: "0 \<in> A \<Longrightarrow> t_owner t \<in> A \<Longrightarrow> cr_keeps P (scope_response t p now)"
  unfolding scope_response_def by (intro cr_intros frame_intros inner_modify quiet_keeps send_command_keeps) (simp_all add: frame_simps)

lemma reply_keeps: "t_owner t \<in> A \<Longrightarrow> cr_keeps P (reply_to_owner t p)"
  unfolding reply_to_owner_def by (intro cr_intros frame_intros emit_keeps) (auto intro!: touched)

lemma complete_keeps: "0 \<in> A \<Longrightarrow> cr_keeps P (complete_response t p w now)"
  unfolding complete_response_def by (intro cr_intros frame_intros inner_modify start_write_keeps) (simp_all add: frame_simps)

lemma proves_keeps: "cr_keeps P (cr_modify (response_proves_write now))"
  by (rule inner_modify) (simp add: response_proves_write_def frame_simps split: option.splits)

lemma command_response_owner_keeps: "t_owner t \<noteq> 0 \<Longrightarrow> {0, t_owner t} \<subseteq> A \<Longrightarrow> cr_keeps P (command_response t p now)"
proof -
  assume "t_owner t \<noteq> 0" "{0, t_owner t} \<subseteq> A"
  then show ?thesis
    unfolding command_response_def if_not_P [OF \<open>t_owner t \<noteq> 0\<close>]
    by (intro cr_intros frame_intros inner_modify reply_keeps complete_keeps) (simp_all add: frame_simps)
qed

end

text \<open>Assertions that allow a frame to any client.\<close>

locale broad_assertion = frame_assertion P UNIV for P
begin

lemmas to_any [frame_intros] = emit_keeps [OF UNIV_I] quiet_keeps [OF UNIV_I] hint_keeps [OF UNIV_I]
  start_write_keeps [OF UNIV_I] send_command_keeps [OF UNIV_I] complete_keeps [OF UNIV_I]
  scope_response_keeps [OF UNIV_I UNIV_I] reply_keeps [OF UNIV_I]

lemma notify_keeps [frame_intros]: "cr_keeps P notify_all_sessions" "cr_keeps P (broadcast p)"
  unfolding notify_all_sessions_def broadcast_def by (intro cr_intros frame_intros)+

lemma hints_keep [frame_intros]: "cr_keeps P record_availability_hint"
  unfolding record_availability_hint_def by (intro cr_intros frame_intros inner_modify) (simp_all add: frame_simps)

lemma deliver_keeps [frame_intros]: "cr_keeps P (deliver_item i)"
proof -
  have "P (shift_inbox i s b)" if "P b" for s b
    using that by (auto simp: shift_inbox_def frame_simps intro!: touched elim!: inner split: option.splits)
  then show ?thesis unfolding deliver_item_def inbox_for_def by (intro cr_intros frame_intros)
qed

lemma offer_keeps [frame_intros]: "cr_keeps P (offer_item i e)"
  unfolding offer_item_def clear_sync_def by (intro cr_intros frame_intros touched) auto

lemma enqueue_keeps [frame_intros]: "cr_keeps P (enqueue_multi_client i p)"
  unfolding enqueue_multi_client_def by (intro cr_intros frame_intros touched) auto

lemma fan_out_keeps [frame_intros]: "cr_keeps P (fan_out_dedicated p)"
  unfolding fan_out_dedicated_def fan_out_slot_def by (intro cr_intros frame_intros inner_modify) (simp add: frame_simps)

lemma repeated_keeps [frame_intros]: "cr_keeps P (repeated_message p)"
  by (auto simp: cr_hoare_def repeated_message_def settings_of_def elim!: inner split: prod.splits sum.splits if_splits)

lemma pop_result_keeps [frame_intros]: "cr_keeps P (pop_result t p)"
proof -
  have "cr_keeps P (pop_empty t i)" for i
    unfolding pop_empty_def clear_sync_def by (intro cr_intros frame_intros touched) auto
  then show ?thesis
    unfolding pop_result_def
    by (intro cr_intros frame_intros inner_modify) (simp_all add: frame_simps settle_drain_def continue_drain_def Let_def)
qed

lemma command_response_keeps [frame_intros]: "cr_keeps P (command_response t p now)"
  unfolding command_response_def by (intro cr_intros frame_intros inner_modify) (simp_all add: frame_simps)

lemma response_keeps [frame_intros]: "cr_keeps P (transaction_response p now)"
proof -
  have "cr_keeps P (case t_step t of Setup \<Rightarrow> scope_response t p now | Restore \<Rightarrow> scope_response t p now
          | MaintenanceResult \<Rightarrow> cr_raise (ProtocolError m) | Command \<Rightarrow> command_response t p now)" for t m
    by (cases "t_step t") (simp_all add: frame_intros cr_intros)
  then show ?thesis
    unfolding transaction_response_def by (intro cr_intros proves_keeps)
qed

lemma push_keeps [frame_intros]: "cr_keeps P (push p now)"
  unfolding push_def self_telemetry_def by (intro cr_intros frame_intros)

lemma tick_keeps [frame_intros]: "cr_keeps P (tick_session now i)" "cr_keeps P (poll now)"
proof -
  show "cr_keeps P (tick_session now i)"
    unfolding tick_session_def clear_sync_def by (intro cr_intros frame_intros touched) auto
  show "cr_keeps P (poll now)"
    unfolding poll_def by (intro cr_intros frame_intros inner_modify) (simp add: settings_of_def)
qed

lemma expire_keeps [frame_intros]: "cr_keeps P (cr_modify (expire_leases now))"
  by (rule inner_modify) (simp add: expire_leases_def settings_of_def Let_def split: option.splits)

lemma client_written_keeps [frame_intros]: "cr_keeps P (client_written i w)"
  unfolding client_written_def by (intro cr_intros frame_intros touched) auto

lemma upstream_written_keeps [frame_intros]: "cr_keeps P (cr_modify (upstream_written w now))"
  by (rule inner_modify) (simp add: upstream_written_def frame_simps Let_def split: option.splits)

lemma admission_keeps [frame_intros]: "cr_keeps P (admit_command owner c now)"
  unfolding admit_command_def admission_refusal_def maintenance_blocked_def dm_blocked_def lease_refused_def
  by (intro cr_intros frame_intros)

lemma deadline_keeps [frame_intros]: "cr_keeps P (check_active_deadline now)"
  unfolding check_active_deadline_def by (intro cr_intros frame_intros inner_modify) (simp add: settings_of_def)

end

text \<open>The epoch, the settings, the companion's key and, apart from the event that sets it, the clock.\<close>

interpretation fx: broad_assertion "fixed x" for x
  by unfold_locales (auto simp: frame_simps)

lemmas fixed_fail_epoch = fx.fail_epoch_keeps and fixed_finish = fx.finish_keeps and fixed_remove = fx.remove_keeps
  and fixed_hint = fx.hint_keeps [OF UNIV_I] and fixed_enqueue = fx.enqueue_keeps and fixed_reply = fx.reply_keeps [OF UNIV_I]
  and fixed_response = fx.response_keeps and fixed_push = fx.push_keeps and fixed_tick = fx.tick_keeps

lemma fixed_proves: "settings_of (response_proves_write now b) = settings_of b"
  by (simp add: response_proves_write_def frame_simps split: option.splits)

end
