(* ===== verification/Broker_Replies.thy ===== *)
theory Broker_Replies
  imports Broker_Frame
begin

text \<open>
  The companion's replies: a reply to the transaction in flight keeps the invariant, and the only
  exception it can raise is the \<open>ProtocolError\<close> for an answer the protocol does not allow.
\<close>

section \<open>The client side while a transaction is in flight\<close>

text \<open>
  \<open>steady z p a ids\<close>: the invariant with \<open>a\<close> as the transaction in flight, no maintenance result
  being written, and none of the clients \<open>ids\<close> on a dedicated port. No operation on a client
  changes it.
\<close>

definition steady :: "bool \<Rightarrow> bool \<Rightarrow> transaction option \<Rightarrow> int list \<Rightarrow> broker \<Rightarrow> bool" where
  "steady z p a ids b \<longleftrightarrow> broker_core z p b \<and> calm b \<and> active b = a
     \<and> (\<forall>i \<in> set ids. \<forall>s. session_of i b = Some s \<longrightarrow> session_slot s = None)"

lemma steady_cong:
  assumes "steady z p a ids b" "broker_core z p b'" "failed b' = failed b" "active b' = active b"
    "\<And>i s'. session_of i b' = Some s' \<Longrightarrow> \<exists>s. session_of i b = Some s \<and> session_slot s' = session_slot s"
  shows "steady z p a ids b'"
  using assms unfolding steady_def calm_def by metis

lemma steady_change_session:
  assumes "steady z p a ids b" "broker_core z p (change_session i f b)" "\<And>s. session_slot (f s) = session_slot s"
  shows "steady z p a ids (change_session i f b)"
  by (rule steady_cong [OF assms(1,2)]) (auto simp: broker_simps session_of_change_session assms(3) split: if_splits)

lemma steady_client: "client_assertion (steady z p a ids)"
proof
  note core = bc.removed bc.sent bc.hinted bc.unsynced bc.shifted bc.stored bc.slotted
  have k: "broker_core z p b" "calm b" if "steady z p a ids b" for b using that by (simp_all add: steady_def)
  show "structure_inv b \<and> queues_inv b" if "steady z p a ids b" for b by (rule bc.delivery [OF k(1) [OF that]])
  show "cr_total (steady z p a ids) (remove i reason) (\<lambda>_. steady z p a ids)" for i reason
  proof (rule cr_at)
    fix b assume b: "steady z p a ids b"
    show "cr_total (\<lambda>b'. b' = b) (remove i reason) (\<lambda>_. steady z p a ids)"
    proof (cases "session_of i b")
      case None
      with b show ?thesis by (simp add: cr_hoare_def remove_eq)
    next
      case (Some s)
      have "remove i reason b = (Inr (), detach i s reason b)"
        using Some k(2) [OF b] by (auto simp: remove_eq calm_def split: option.splits)
      moreover have "steady z p a ids (detach i s reason b)"
        by (rule steady_cong [OF b broker_core_detach [OF k(1) [OF b] Some]]) (auto simp: broker_simps split: if_splits)
      ultimately show ?thesis by (simp add: cr_hoare_def)
    qed
  qed
  show "steady z p a ids (sent_frame i payload b)"
    if "steady z p a ids b" "session_of i b = Some s" "length (writes s) < output_frames (config b)" for b i s payload
    by (rule steady_cong [OF that(1) core(2) [OF k(1) [OF that(1)] that(2,3)]])
      (auto simp: broker_simps session_of_sent_frame split: if_splits)
  show "steady z p a ids (change_session i (\<lambda>s. s\<lparr>hint_write_id := w\<rparr>) b)" if "steady z p a ids b" for b i w
    by (rule steady_change_session [OF that core(3) [OF k(1) [OF that]]]) simp
  show "steady z p a ids (clear_sync i b)" if "steady z p a ids b" for b i
    using steady_change_session [OF that, of i "\<lambda>s. s\<lparr>sync := None\<rparr>"] core(4) [OF k(1) [OF that]] by (simp add: clear_sync_def)
  show "steady z p a ids (shift_inbox i s b)" if "steady z p a ids b" for b i s
    by (rule steady_cong [OF that core(5) [OF k(1) [OF that]]])
      (auto simp: shift_inbox_def broker_simps session_of_change_session split: option.splits if_splits)
  show "steady z p a ids (change_session i (\<lambda>s. s\<lparr>inbox := inbox s @ [q]\<rparr>) b)"
    if "steady z p a ids b" "session_of i b = Some s" "length (inbox s) < inbox_entries (config b)" "item_ok q" for b i s q
    by (rule steady_change_session [OF that(1) core(6) [OF k(1) [OF that(1)] that(2-4)]]) simp
  show "steady z p a ids (change_slot k (\<lambda>_. snd (enqueue_offline q (offline_queue_size (config b)) slot)) b)"
    if "steady z p a ids b" "slot_of k b = Some slot" "item_ok q" for b k slot q
    by (rule steady_cong [OF that(1) core(7) [OF k(1) [OF that(1)] that(2,3)]]) (auto simp: broker_simps)
qed

interpretation sc: client_assertion "steady z p a ids" for z p a ids
  by (rule steady_client)

lemma steady_core: "steady z p a ids b \<Longrightarrow> broker_core z p b"
  by (simp add: steady_def)

section \<open>The answer of a physical inbox read\<close>

lemma core_same:
  assumes "core l p b" "sessions b' = sessions b" "rotation b' = rotation b" "dedicated_slots b' = dedicated_slots b"
    "config b' = config b" "self_key b' = self_key b" "radio b' = radio b" "signing b' = signing b" "active b' = active b"
    "failed b' = failed b" "upstream_writes b' = upstream_writes b" "time b' = time b"
    "\<And>item. orphan b' = Some item \<Longrightarrow> item_ok item" "wait_inv p b \<Longrightarrow> wait_inv p' b'"
  shows "core l p' b'"
proof -
  have o: "owner_of b' = owner_of b" by (simp add: owner_of_def assms)
  show ?thesis
    using assms structure_cong [OF assms(2-4)] queues_cong [OF assms(2,4,5) o]
    by (simp add: core_def env_inv_def active_inv_def writes_inv_def outstanding_write_def lease_inv_def)
qed

lemma core_orphan: "core l p b \<Longrightarrow> orphan b = Some item \<Longrightarrow> item_ok item"
  by (simp add: core_def env_inv_def)

lemma core_continue:
  assumes "core None True b" "active b = None"
  shows "core None False (continue_drain b)"
  by (rule core_same [OF assms(1)])
    (use assms core_orphan [OF assms(1)] in \<open>auto simp: continue_drain_def wait_inv_def waiting_cong waiting_def session_of_def owner_of_def\<close>)

lemma waiting_iff: "distinct (map fst (sessions b)) \<Longrightarrow> waiting b \<longleftrightarrow> list_ex (\<lambda>(i, s). sync s \<noteq> None) (sessions b)"
  by (force simp: waiting_def session_of_def list_ex_iff)

lemma core_settle:
  assumes "core None True b" "active b = None"
  shows "core None False (settle_drain t b)"
proof -
  have d: "distinct (map fst (sessions b))" using core_parts(1) [OF assms(1)] by (simp add: structure_inv_def)
  have w: "waiting (settle_drain t b) = waiting b" by (rule waiting_cong) (simp add: settle_drain_def Let_def)
  show ?thesis
    by (rule core_same [OF assms(1)])
      (use core_orphan [OF assms(1)] w waiting_iff [OF d] waiting_sessions [of b] in \<open>auto simp: settle_drain_def Let_def wait_inv_def\<close>)
qed

lemma drain_fields [simp]: "active (continue_drain b) = active b" "failed (continue_drain b) = failed b"
    "active (settle_drain t b) = active b" "failed (settle_drain t b) = failed b"
  by (simp_all add: continue_drain_def settle_drain_def Let_def)

lemma steady_idle: "steady z p None ids b \<longleftrightarrow> core None p b \<and> \<not> failed b \<and> active b = None
     \<and> (\<forall>i \<in> set ids. \<forall>s. session_of i b = Some s \<longrightarrow> session_slot s = None)"
  by (auto simp: steady_def broker_core_idle calm_def)

lemma multi_clients_plain: "distinct (map fst (sessions b)) \<Longrightarrow> i \<in> set (multi_clients b) \<Longrightarrow> session_of i b = Some s \<Longrightarrow> session_slot s = None"
proof -
  assume a: "distinct (map fst (sessions b))" "i \<in> set (multi_clients b)" "session_of i b = Some s"
  then obtain s' where "(i, s') \<in> set (sessions b)" "\<not> dedicated s'" by (auto simp: multi_clients_def)
  with a(1,3) show "session_slot s = None" by (simp add: session_of_def dedicated_def)
qed

lemma repeated_steady: "cr_total (steady z p None ids) (repeated_message q) (\<lambda>_. steady z p None ids)"
proof (rule cr_at)
  fix b assume b: "steady z p None ids b"
  have "steady z p None ids (b\<lparr>deduplicator := h\<rparr>)" for h
    using b core_same [of None p b "b\<lparr>deduplicator := h\<rparr>" p] core_orphan [of None p b]
    by (auto simp: steady_idle session_of_def wait_inv_def waiting_def owner_of_def)
  with b show "cr_total (\<lambda>b'. b' = b) (repeated_message q) (\<lambda>_. steady z p None ids)"
    by (auto simp: cr_hoare_def repeated_message_def split: prod.split)
qed

lemma enqueue_all_steady:
  assumes "item_ok q"
  shows "cr_total (steady z p a ids) (cr_each ids (\<lambda>i. enqueue_multi_client i q)) (\<lambda>_. steady z p a ids)"
  by (rule cr_hoare_each) (rule cr_pre [OF sc.enqueue_multi_keeps [OF assms]], auto simp: steady_def)

lemma pop_result_core:
  assumes "item_ok q"
  shows "cr_total (steady z True None []) (pop_result t q) (\<lambda>_ b. core None False b \<and> active b = None \<and> \<not> failed b)"
proof -
  let ?done = "\<lambda>_ b. core None False b \<and> active b = None \<and> \<not> failed b"
  have continue: "cr_total (steady z True None ids) (cr_modify continue_drain) ?done" for ids
    by (rule cr_hoare_modify) (simp add: steady_idle core_continue)
  have empty: "cr_total (steady z True None []) (cr_seq [cr_bind (cr_get (\<lambda>b. map fst (sessions b))) (\<lambda>ids. cr_each ids (pop_empty t)),
       cr_modify (settle_drain t)]) ?done"
  proof (rule cr_hoare_seq_Cons [where R = "steady z True None []"])
    show "cr_total (steady z True None []) (cr_bind (cr_get (\<lambda>b. map fst (sessions b))) (\<lambda>ids. cr_each ids (pop_empty t)))
      (\<lambda>_. steady z True None [])"
      by (rule cr_hoare_bind_get, rule cr_pre [where P' = "steady z True None []"], rule cr_hoare_each, rule sc.pop_empty_keeps, simp)
    show "cr_total (steady z True None []) (cr_seq [cr_modify (settle_drain t)]) ?done"
      by (rule cr_hoare_seq_Cons [OF cr_hoare_modify cr_hoare_seq_Nil [where P = "?done ()"]]) (simp_all add: steady_idle core_settle)
  qed
  have multi: "cr_total (steady z True None []) (cr_bind (cr_get multi_clients) (\<lambda>ids.
       if ids = [] \<and> had_multi_client t then cr_modify (\<lambda>b. b\<lparr>orphan := Some q\<rparr>)
       else cr_each ids (\<lambda>i. enqueue_multi_client i q))) (\<lambda>_. steady z True None [])"
  proof (intro cr_hoare_bind_get cr_hoare_if)
    fix ids
    show "cr_total (\<lambda>b. steady z True None [] b \<and> ids = multi_clients b) (cr_modify (\<lambda>b. b\<lparr>orphan := Some q\<rparr>)) (\<lambda>_. steady z True None [])"
    proof (rule cr_hoare_modify)
      fix b assume b: "steady z True None [] b \<and> ids = multi_clients b"
      have "core None True (b\<lparr>orphan := Some q\<rparr>)"
        by (rule core_same [of None True b]) (use b assms in \<open>auto simp: steady_idle wait_inv_def waiting_def session_of_def owner_of_def\<close>)
      with b show "steady z True None [] (b\<lparr>orphan := Some q\<rparr>)" by (simp add: steady_idle)
    qed
    show "cr_total (\<lambda>b. steady z True None [] b \<and> ids = multi_clients b) (cr_each ids (\<lambda>i. enqueue_multi_client i q)) (\<lambda>_. steady z True None [])"
    proof (rule cr_total_weaken [OF enqueue_all_steady [OF assms]])
      fix b assume b: "steady z True None [] b \<and> ids = multi_clients b"
      then have "distinct (map fst (sessions b))" by (auto simp: steady_idle core_def structure_inv_def)
      with b multi_clients_plain show "steady z True None ids b" by (auto simp: steady_idle)
    qed (simp add: steady_def)
  qed
  show ?thesis
    unfolding pop_result_def
    by (rule cr_hoare_if [OF empty], rule cr_hoare_bind [OF repeated_steady], rule cr_hoare_if [OF continue],
        rule cr_hoare_seq_Cons [OF sc.fan_out_keeps [OF assms]], rule cr_hoare_seq_Cons [OF multi],
        rule cr_hoare_seq_Cons [OF continue], rule cr_hoare_seq_Nil)
qed


section \<open>The answer to the command in flight\<close>

text \<open>What the validator lets through as an answer to \<open>t\<close>.\<close>

definition answers :: "transaction \<Rightarrow> bytes \<Rightarrow> bool" where
  "answers t q \<longleftrightarrow> q \<noteq> [] \<and> (if q ! 0 = RESP_ERR then length q = 2 else q ! 0 \<in> set (desc_success (t_descriptor t)) \<and> item_ok q)"

lemma validate_response_answers: "validate_response (t_descriptor t) q c phase = Inr d \<Longrightarrow> answers t q"
  by (auto simp: validate_response_def answers_def item_ok_def Let_def split: if_splits sum.splits)

lemma validate_response_error: "validate_response desc q c phase = Inl e \<Longrightarrow> \<exists>m. e = ProtocolError m"
  by (auto simp: validate_response_def validate_response_shape_def Let_def split: if_splits sum.splits option.splits)

lemma shape_error: "validate_response_shape q = Inl e \<Longrightarrow> \<exists>m. e = ProtocolError m"
  by (auto simp: validate_response_shape_def split: if_splits)

lemma item_ok_lengths:
  assumes "item_ok q"
  shows "q ! 0 = RESP_SENT \<Longrightarrow> length q = 10" "q ! 0 = RESP_SIGN_START \<Longrightarrow> length q = 6" "q ! 0 = RESP_SIGNATURE \<Longrightarrow> length q = 65"
    "q ! 0 = RESP_OK \<Longrightarrow> length q = 1" "q ! 0 = PUSH_SEND_CONFIRMED \<Longrightarrow> length q = 9"
  using assms by (simp_all add: item_ok_def validate_response_shape_def response_shape_ok_def Let_def split: if_splits)

definition answers_fit :: "byte \<Rightarrow> command_descriptor \<Rightarrow> bool" where
  "answers_fit c d \<longleftrightarrow> (c = CMD_SIGN_START \<longrightarrow> desc_success d = [RESP_SIGN_START]) \<and> (c = CMD_SIGN_DATA \<longrightarrow> desc_success d = [RESP_OK])
     \<and> (c = CMD_SIGN_FINISH \<longrightarrow> desc_success d = [RESP_SIGNATURE])"

lemma table_answers: "list_all (\<lambda>(c, d). answers_fit c d) DESCRIPTORS"
  by (simp add: DESCRIPTORS_def descr_def answers_fit_def)

lemma descriptor_answers:
  assumes "descriptor c = Some d"
  shows "answers_fit (c ! 0) d"
proof -
  consider (table) "(c ! 0, d) \<in> set DESCRIPTORS" | (telemetry) "c ! 0 = CMD_SEND_TELEMETRY_REQ"
    using assms by (auto simp: descriptor_def split: if_splits option.splits dest!: map_of_SomeD)
  then show ?thesis
    by cases (use table_answers in \<open>auto simp: list_all_iff answers_fit_def\<close>)
qed

lemma ring_accepts:
  assumes "ring_ok r" "length q = 10" "q ! 0 = RESP_SENT" "ring_available now r"
  obtains r' where "ring_accepted q now r = (Inr (), r')" "ring_ok r'"
proof (cases "u32_at q 2 = 0")
  case True
  with assms that [of r] show thesis by (simp add: ring_accepted_def require_payload_def sent_fields)
next
  case False
  with assms show thesis
    by (intro that [of "snd (ring_accepted q now r)"])
      (simp_all add: ring_accepted_def require_payload_def sent_fields, simp add: ring_ok_def)
qed

lemma lease_accepts:
  assumes "rl_tentative l" "rl_kind l \<noteq> None" "length q = 10" "q ! 0 = RESP_SENT"
  obtains l' where "lease_accepted q now l = (Inr (), l')" "\<not> rl_tentative l'" "rl_kind l' = rl_kind l"
  using assms by (auto simp: lease_accepted_def require_payload_def sent_fields Let_def intro: that)

lemma start_answers:
  assumes "signing_inv sl" "sl_tentative sl" "sl_owner sl \<noteq> None" "length q = 6" "q ! 0 = RESP_SIGN_START"
  shows "\<exists>sl'. accepted_start q now sl = (Inr (), sl') \<and> signing_inv sl' \<and> \<not> sl_tentative sl'
    \<and> sl_pending_data sl' = sl_pending_data sl \<and> sl_finish_pending sl' = sl_finish_pending sl"
  using assms accepted_start_inv [OF assms(1), of q now]
  by (auto simp: accepted_start_def require_payload_def lease_read_u32_def split: if_splits)

lemma data_answers:
  assumes "signing_inv sl" "sl_pending_data sl \<noteq> None" "(length q = 1 \<and> q ! 0 = RESP_OK) \<or> (length q = 2 \<and> q ! 0 = RESP_ERR)"
  shows "\<exists>sl'. data_response q now sl = (Inr (), sl') \<and> signing_inv sl' \<and> (sl_tentative sl' \<longrightarrow> sl_tentative sl)
    \<and> sl_pending_data sl' = None \<and> (sl_finish_pending sl' \<longrightarrow> sl_finish_pending sl)"
proof -
  have "q \<noteq> []" using assms(3) by auto
  with assms data_response_inv [OF assms(1), of q now] show ?thesis
    by (auto simp: data_response_def validate_ok_or_err_def Let_def signing_clear_def split: if_splits)
qed

lemma finish_answers:
  assumes "signing_inv sl" "sl_finish_pending sl" "(length q = 65 \<and> q ! 0 = RESP_SIGNATURE) \<or> (length q = 2 \<and> q ! 0 = RESP_ERR)"
  shows "\<exists>sl'. finish_response q now sl = (Inr (), sl') \<and> signing_inv sl' \<and> (sl_tentative sl' \<longrightarrow> sl_tentative sl)
    \<and> (sl_pending_data sl' \<noteq> None \<longrightarrow> sl_pending_data sl \<noteq> None) \<and> \<not> sl_finish_pending sl'"
proof -
  have "q \<noteq> []" using assms(3) by auto
  with assms finish_response_inv [OF assms(1), of q now] show ?thesis
    by (auto simp: finish_response_def validate_ok_or_err_def require_payload_def first_is_def Let_def signing_clear_def split: if_splits)
qed


text \<open>Recording the answer settles every reservation of the command.\<close>

definition settled :: "broker \<Rightarrow> broker \<Rightarrow> bool" where
  "settled b b' \<longleftrightarrow> (\<exists>r sl. b' = b\<lparr>radio := r, signing := sl\<rparr> \<and> ring_ok (radio_ring r) \<and> signing_inv sl \<and> leases_for None (time b) r sl)"

lemma settledI:
  "b' = b\<lparr>radio := r, signing := sl\<rparr> \<Longrightarrow> ring_ok (radio_ring r) \<Longrightarrow> signing_inv sl \<Longrightarrow> leases_for None (time b) r sl \<Longrightarrow> settled b b'"
  unfolding settled_def by blast

lemma acceptance_settles:
  assumes "transaction_inv t" "answers t q" "leases_for (Some (t_owner t, t_command t)) now (radio b) (signing b)"
    "ring_ok (radio_ring (radio b))" "signing_inv (signing b)"
  shows "\<exists>b'. record_acceptance t q now b = (Inr (), b') \<and> settled b b'"
proof -
  define c where "c = t_command t"
  have d: "descriptor c = Some (t_descriptor t)" using assms(1) by (simp add: transaction_inv_def c_def)
  note flags = descriptor_flags [OF d] and succ = descriptor_answers [OF d, unfolded answers_fit_def]
  have uses: "uses_lease c = flag RemoteLease t" using descriptor_uses_lease [OF assms(1)] by (simp add: c_def)
  have lf: "leases_for (Some (t_owner t, c)) now (radio b) (signing b)" using assms(3) by (simp add: c_def)
  have ok: "q ! 0 = RESP_ERR \<and> length q = 2 \<or> q ! 0 \<in> set (desc_success (t_descriptor t)) \<and> item_ok q"
    using assms(2) by (auto simp: answers_def split: if_splits)
  have keep: "settled b b" if "\<not> uses_lease c" "c ! 0 \<notin> {CMD_SIGN_START, CMD_SIGN_DATA, CMD_SIGN_FINISH}"
    by (rule settledI [where b' = b and b = b and r = "radio b" and sl = "signing b"]) (use lf assms(4,5) that in simp_all)
  consider (dm) "plain_dm c" "q ! 0 = RESP_SENT" | (lease) "flag RemoteLease t" "\<not> (plain_dm c \<and> q ! 0 = RESP_SENT)"
    | (start) "c ! 0 = CMD_SIGN_START" | (data) "c ! 0 = CMD_SIGN_DATA" | (finish) "c ! 0 = CMD_SIGN_FINISH"
    | (other) "\<not> flag RemoteLease t" "\<not> (plain_dm c \<and> q ! 0 = RESP_SENT)" "c ! 0 \<notin> {CMD_SIGN_START, CMD_SIGN_DATA, CMD_SIGN_FINISH}" by blast
  then show ?thesis
  proof cases
    case dm
    then have "length q = 10" using ok item_ok_lengths(1) by auto
    then obtain r where r: "ring_accepted q now (radio_ring (radio b)) = (Inr (), r)" "ring_ok r"
      using ring_accepts [OF assms(4)] dm lf by auto
    have "\<not> uses_lease c" "c ! 0 \<notin> {CMD_SIGN_START, CMD_SIGN_DATA, CMD_SIGN_FINISH}"
      using dm plain_dm_flags [OF d] d by (auto simp: uses_lease_def plain_dm_def)
    with lf r assms(5) have "settled b (b\<lparr>radio := (radio b)\<lparr>radio_ring := r\<rparr>\<rparr>)"
      by (intro settledI [where r = "(radio b)\<lparr>radio_ring := r\<rparr>" and sl = "signing b"]) simp_all
    with dm r show ?thesis by (simp add: record_acceptance_def c_def [symmetric] on_ring_def)
  next
    case lease
    then have "RemoteLease \<in> set (desc_flags (t_descriptor t))" by (simp add: flag_def)
    then have sign: "c ! 0 \<notin> {CMD_SIGN_START, CMD_SIGN_DATA, CMD_SIGN_FINISH}" using flags by fastforce
    have idle: "\<not> sl_tentative (signing b)" "sl_pending_data (signing b) = None" "\<not> sl_finish_pending (signing b)"
      using lf sign by auto
    have set: "settled b (b\<lparr>radio := (radio b)\<lparr>radio_remote := l\<rparr>\<rparr>)" if "\<not> rl_tentative l" for l
      by (rule settledI [where r = "(radio b)\<lparr>radio_remote := l\<rparr>" and sl = "signing b"]) (simp_all add: idle that assms(4,5))
    show ?thesis
    proof (cases "q ! 0 = RESP_SENT")
      case True
      then have "length q = 10" using ok item_ok_lengths(1) by auto
      moreover have "rl_tentative (radio_remote (radio b))" "rl_kind (radio_remote (radio b)) \<noteq> None" using lf lease uses by simp_all
      ultimately obtain l where l: "lease_accepted q now (radio_remote (radio b)) = (Inr (), l)" "\<not> rl_tentative l"
        "rl_kind l = rl_kind (radio_remote (radio b))" using True lease_accepts by metis
      then obtain k where k: "rl_kind l = Some k" using lf lease uses by auto
      have "record_acceptance t q now b = (Inr (), b\<lparr>radio := (radio b)\<lparr>radio_remote := l\<rparr>\<rparr>)"
        using True lease l(1) k by (auto simp: record_acceptance_def c_def [symmetric] on_remote_def cr_defs not_nil_def)
      with set [OF l(2)] show ?thesis by blast
    next
      case False
      with lease set [of lease_clear] show ?thesis
        by (simp add: record_acceptance_def c_def [symmetric] on_remote_def returning_def lease_rejected_def lease_clear_def)
    qed
  next
    case start
    note plain = sign_commands_plain [OF d]
    have u: "\<not> uses_lease c" "\<not> flag RemoteLease t" "\<not> plain_dm c" using plain start by (auto simp: flag_def)
    have set: "settled b (b\<lparr>signing := sl\<rparr>)" if "signing_inv sl" "\<not> sl_tentative sl" "sl_pending_data sl = None" "\<not> sl_finish_pending sl" for sl
      by (rule settledI [where r = "radio b" and sl = sl]) (use lf assms(4,5) u that in simp_all)
    show ?thesis
    proof (cases "q ! 0 = RESP_SIGN_START")
      case True
      with ok have "length q = 6" using item_ok_lengths(2) by auto
      with True start lf start_answers [OF assms(5), of q now] obtain sl where
        "accepted_start q now (signing b) = (Inr (), sl)" "signing_inv sl" "\<not> sl_tentative sl" "sl_pending_data sl = None" "\<not> sl_finish_pending sl"
        by auto
      with True start u set [of sl] show ?thesis by (simp add: record_acceptance_def c_def [symmetric] on_signing_def)
    next
      case False
      with start u set [of "signing_clear (signing b)"] show ?thesis
        by (simp add: record_acceptance_def c_def [symmetric] on_signing_def returning_def rejected_start_def) (simp add: signing_clear_def)
    qed
  next
    case data
    note plain = sign_commands_plain [OF d]
    have u: "\<not> uses_lease c" "\<not> flag RemoteLease t" "\<not> plain_dm c" using plain data by (auto simp: flag_def)
    have "(length q = 1 \<and> q ! 0 = RESP_OK) \<or> (length q = 2 \<and> q ! 0 = RESP_ERR)"
      using ok succ data item_ok_lengths(4) by auto
    with data_answers [OF assms(5), of q now] lf data obtain sl where sl:
      "data_response q now (signing b) = (Inr (), sl)" "signing_inv sl" "\<not> sl_tentative sl" "sl_pending_data sl = None" "\<not> sl_finish_pending sl"
      by auto
    have "settled b (b\<lparr>signing := sl\<rparr>)"
      by (rule settledI [where r = "radio b" and sl = sl]) (use lf assms(4,5) u sl in simp_all)
    with data u sl show ?thesis by (simp add: record_acceptance_def c_def [symmetric] on_signing_def)
  next
    case finish
    note plain = sign_commands_plain [OF d]
    have u: "\<not> uses_lease c" "\<not> flag RemoteLease t" "\<not> plain_dm c" using plain finish by (auto simp: flag_def)
    have "(length q = 65 \<and> q ! 0 = RESP_SIGNATURE) \<or> (length q = 2 \<and> q ! 0 = RESP_ERR)"
      using ok succ finish item_ok_lengths(3) by auto
    with finish_answers [OF assms(5), of q now] lf finish obtain sl where sl:
      "finish_response q now (signing b) = (Inr (), sl)" "signing_inv sl" "\<not> sl_tentative sl" "sl_pending_data sl = None" "\<not> sl_finish_pending sl"
      by auto
    have "settled b (b\<lparr>signing := sl\<rparr>)"
      by (rule settledI [where r = "radio b" and sl = sl]) (use lf assms(4,5) u sl in simp_all)
    with finish u sl show ?thesis by (simp add: record_acceptance_def c_def [symmetric] on_signing_def)
  next
    case other
    with keep uses show ?thesis by (auto simp: record_acceptance_def c_def [symmetric] cr_return_def)
  qed
qed


text \<open>The reply handlers read the transaction they were called with, whose counters may lag behind the one in flight.\<close>

definition same_job :: "transaction \<Rightarrow> transaction \<Rightarrow> bool" where
  "same_job t t' \<longleftrightarrow> t_owner t = t_owner t' \<and> t_command t = t_command t' \<and> t_descriptor t = t_descriptor t'
     \<and> scoped t = scoped t' \<and> maintenance t = maintenance t' \<and> t_pop_sequence t = t_pop_sequence t'
     \<and> t_generation t = t_generation t' \<and> had_multi_client t = had_multi_client t'"

lemma same_job_finish: "same_job t t' \<Longrightarrow> finish_transaction t = finish_transaction t'"
  by (simp add: same_job_def finish_transaction_def finish_with_def cong: if_cong)

lemma same_job_acceptance: "same_job t t' \<Longrightarrow> record_acceptance t q now = record_acceptance t' q now"
  by (simp add: same_job_def record_acceptance_def flag_def cong: if_cong)

lemma same_job_complete: "same_job t t' \<Longrightarrow> complete_response t q w now = complete_response t' q w now"
  using same_job_finish [of t t'] same_job_acceptance [of t t'] by (simp add: same_job_def complete_response_def cong: if_cong)

lemma same_job_send: "same_job t t' \<Longrightarrow> send_command t now = send_command t' now"
  by (simp add: same_job_def send_command_def cong: if_cong)

lemma steady_job: "steady z p (Some t) ids b \<Longrightarrow> transaction_inv t"
  by (cases z) (auto simp: steady_def broker_core_def core_def active_inv_def)

lemma steady_change_active:
  assumes "steady z p (Some t) [] b" "transaction_inv (f t)" "t_owner (f t) = t_owner t" "t_command (f t) = t_command t"
    "t_step (f t) = t_step t" "upstream_write_id (f t) = upstream_write_id t" "maintenance (f t) = maintenance t"
  shows "steady z p (Some (f t)) [] (change_active f b)"
proof -
  have a: "active b = Some t" and c: "core (if z then None else held b) p b" using assms(1) by (simp_all add: steady_def broker_core_def)
  have "held (change_active f b) = held b" using a assms(3-5) by (simp add: held_def broker_simps)
  with core_change_active [where f = f, OF c a assms(2,3,6)] a assms show ?thesis
    by (cases z) (simp_all add: steady_def broker_core_def calm_def broker_simps)
qed

lemma core_settled:
  assumes "core l p b" "\<not> failed b" "settled b b'"
  shows "core None p b'" "active b' = active b" "failed b' = failed b" "time b' = time b"
proof -
  obtain r sl where b': "b' = b\<lparr>radio := r, signing := sl\<rparr>" and ok: "ring_ok (radio_ring r)" "signing_inv sl" "leases_for None (time b) r sl"
    using assms(3) unfolding settled_def by blast
  show "core None p b'" unfolding b' by (rule core_shared [OF assms(1,2) ok])
  show "active b' = active b" "failed b' = failed b" "time b' = time b" by (simp_all add: b')
qed

lemma start_write_settled:
  assumes "core None p b" "active b = Some t" "upstream_write_id t = None" "t_step t = Restore" "\<not> failed b"
  shows "start_write q now b = (Inr (), started_write q now b)" "broker_core z p (started_write q now b)"
proof -
  have "held (started_write q now b) = None" using assms(2,4) by (simp add: held_def started_write_def broker_simps)
  with core_started [OF assms(1-3)] assms(4) show "broker_core z p (started_write q now b)" by (simp add: broker_core_def)
qed (rule start_write_eq)

lemma complete_response_core:
  assumes "answers t q" "t_step t = Command" "upstream_write_id t = None" "t_owner t \<noteq> 0"
  shows "cr_total (\<lambda>b. steady False p (Some t) [] b \<and> time b = now) (complete_response t q w now) (\<lambda>_. broker_core False p)"
proof (rule cr_at)
  fix b assume b: "steady False p (Some t) [] b \<and> time b = now"
  then have a: "active b = Some t" "\<not> failed b" and c: "core (Some (t_owner t, t_command t)) p b" and inv: "transaction_inv t"
    using assms(2) steady_job [of False p t "[]" b] by (auto simp: steady_def broker_core_def held_def calm_def)
  have "leases_for (Some (t_owner t, t_command t)) now (radio b) (signing b)"
    using core_parts(7) [OF c] a b by (simp add: lease_inv_def)
  from acceptance_settles [OF inv assms(1) this] core_parts(3) [OF c]
  obtain b1 where run: "record_acceptance t q now b = (Inr (), b1)" and set: "settled b b1"
    unfolding env_inv_def by blast
  note c1 = core_settled [OF c a(2) set]
  let ?go = "if scoped t then cr_then (cr_modify (change_active (\<lambda>t. t\<lparr>t_step := Restore\<rparr>))) (start_write default_scope now)
      else if maintenance t \<and> w \<noteq> None
        then cr_modify (change_active (\<lambda>t. t\<lparr>t_step := MaintenanceResult, maintenance_write_id := w\<rparr>))
      else finish_transaction t"
  have "cr_total (\<lambda>b'. b' = b1) ?go (\<lambda>_. broker_core False p)"
  proof (intro cr_hoare_if)
    assume sc: "scoped t"
    let ?b2 = "change_active (\<lambda>t. t\<lparr>t_step := Restore\<rparr>) b1"
    have "core None p ?b2" using inv sc assms(4) a c1 by (intro core_change_active [OF c1(1)]) (auto simp: transaction_inv_def flag_def)
    then have "broker_core False p (started_write default_scope now ?b2)"
      using a c1 assms(3) by (intro start_write_settled [where t = "t\<lparr>t_step := Restore\<rparr>"]) (simp_all add: broker_simps)
    then show "cr_total (\<lambda>b'. b' = b1) (cr_then (cr_modify (change_active (\<lambda>t. t\<lparr>t_step := Restore\<rparr>))) (start_write default_scope now))
      (\<lambda>_. broker_core False p)" by (simp add: cr_hoare_def cr_defs start_write_eq)
  next
    assume m: "\<not> scoped t" "maintenance t \<and> w \<noteq> None"
    let ?b2 = "change_active (\<lambda>t. t\<lparr>t_step := MaintenanceResult, maintenance_write_id := w\<rparr>) b1"
    have "core None p ?b2" using inv m assms(3,4) a c1 by (intro core_change_active [OF c1(1)]) (auto simp: transaction_inv_def flag_def)
    then have "broker_core False p ?b2" using a c1 by (simp add: broker_core_def held_def broker_simps)
    then show "cr_total (\<lambda>b'. b' = b1) (cr_modify (change_active (\<lambda>t. t\<lparr>t_step := MaintenanceResult, maintenance_write_id := w\<rparr>)))
      (\<lambda>_. broker_core False p)" by (simp add: cr_hoare_def cr_defs)
  next
    show "cr_total (\<lambda>b'. b' = b1) (finish_transaction t) (\<lambda>_. broker_core False p)"
      by (rule cr_total_weaken [OF finish_transaction_core]) (use c1 a assms in auto)
  qed
  then show "cr_total (\<lambda>b'. b' = b) (complete_response t q w now) (\<lambda>_. broker_core False p)"
    by (simp add: cr_hoare_def complete_response_def cr_then_Inr [where m = "record_acceptance t q now", OF run])
qed


section \<open>A reply to the transaction in flight\<close>

text \<open>The exception of a refused reply, with the invariant of the state it leaves.\<close>

definition refused :: "mux_error \<Rightarrow> broker \<Rightarrow> bool" where
  "refused e b \<longleftrightarrow> (\<exists>m. e = ProtocolError m) \<and> (\<exists>z p. broker_core z p b)"

lemma refusedI: "e = ProtocolError m \<Longrightarrow> broker_core z p b \<Longrightarrow> refused e b"
  unfolding refused_def by blast

lemma device_reply_ok: "item_ok q \<Longrightarrow> q ! 0 = RESP_DEVICE_INFO \<Longrightarrow> \<exists>r. downstream_device_info q = Inr r"
  by (auto simp: downstream_device_info_def validate_device_info_def item_ok_def validate_response_shape_def response_shape_ok_def
      Let_def split: if_splits sum.splits)

lemma target_version_steady: "steady z p a ids b \<Longrightarrow> steady z p a ids (change_session i (\<lambda>s. s\<lparr>target_version := v\<rparr>) b)"
  by (rule steady_change_session, assumption, rule broker_core_change_session)
    (auto simp: steady_def session_inv_def)

lemma reply_to_owner_steady:
  assumes "item_ok q" "command_shape_valid (t_command t)"
  shows "cr_total (steady z p a []) (reply_to_owner t q) (\<lambda>_. steady z p a [])"
proof -
  have v: "t_command t ! 0 = CMD_DEVICE_QUERY \<Longrightarrow> 1 < length (t_command t)" using shape_lengths(9) [OF assms(2)] by simp
  show ?thesis
    unfolding reply_to_owner_def
    by (intro cr_hoare_bind_get cr_hoare_option cr_hoare_return cr_hoare_then [where R = "steady z p a []"] cr_hoare_when
        cr_hoare_bind [where R = "\<lambda>_. steady z p a []"] cr_hoare_lift cr_hoare_modify target_version_steady sc.emit_keeps)
      (use v device_reply_ok [OF assms(1)] in \<open>auto simp: byte_at_def split: if_splits\<close>)
qed

lemma contacts_order_error: "contacts_order t q = Inl e \<Longrightarrow> \<exists>m. e = ProtocolError m"
  by (auto simp: contacts_order_def split: if_splits)


lemma steady_modify:
  assumes "transaction_inv t \<Longrightarrow> transaction_inv (f t)" "t_owner (f t) = t_owner t" "t_command (f t) = t_command t"
    "t_step (f t) = t_step t" "upstream_write_id (f t) = upstream_write_id t" "maintenance (f t) = maintenance t"
  shows "cr_hoare (\<lambda>b. steady z p (Some t) [] b \<and> time b = now \<and> F) (cr_modify (change_active f))
    (\<lambda>_ b. steady z p (Some (f t)) [] b \<and> time b = now \<and> F) E"
  by (rule cr_hoare_modify) (use assms steady_job in \<open>auto intro!: steady_change_active simp: broker_simps\<close>)

lemma core_resettle: "core l p b \<Longrightarrow> \<not> failed b \<Longrightarrow> leases_for l' (time b) (radio b) (signing b) \<Longrightarrow> core l' p b"
  using core_shared [of l p b "radio b" "signing b" l'] by (simp add: core_def env_inv_def)

lemma pop_leaves:
  assumes "steady False False (Some t) [] b" "t_owner t = 0" "upstream_write_id t = None"
  shows "steady False True None [] (b\<lparr>active := None\<rparr>)"
proof -
  let ?b = "b\<lparr>active := None\<rparr>"
  have a: "active b = Some t" "\<not> failed b" "held b = Some (0, [CMD_SYNC_NEXT_MESSAGE])" "owner_of b = Some 0"
    using assms steady_job [OF assms(1)] by (auto simp: steady_def calm_def held_def transaction_inv_def owner_of_def)
  have c: "core (Some (0, [CMD_SYNC_NEXT_MESSAGE])) False b" using assms(1) a by (simp add: steady_def broker_core_def)
  have "\<not> flag RemoteLease t"
    using lease_opcode [of "t_command t" "t_descriptor t"] steady_job [OF assms(1)] assms(2) by (auto simp: transaction_inv_def flag_def)
  then have "\<not> uses_lease [CMD_SYNC_NEXT_MESSAGE]"
    using descriptor_uses_lease [OF steady_job [OF assms(1)]] steady_job [OF assms(1)] assms(2) by (simp add: transaction_inv_def)
  then have "leases_for None (time b) (radio b) (signing b)" using core_parts(7) [OF c] a by (simp add: lease_inv_def)
  with c a have c1: "core None False b" by - (rule core_resettle)
  have s: "session_of i ?b = session_of i b" "slot_of k ?b = slot_of k b" for i k by (simp_all add: session_of_def slot_of_def)
  have less: "session_inv c owned s \<Longrightarrow> session_inv c False s" for c owned s by (auto simp: session_inv_def)
  have "\<forall>i s. session_of i b = Some s \<longrightarrow> session_inv (config b) False s"
    using core_parts(2) [OF c1] less unfolding queues_inv_def by blast
  then have "queues_inv ?b" using core_parts(2) [OF c1] by (simp add: queues_inv_def s owner_of_def)
  moreover have "structure_inv ?b = structure_inv b" by (rule structure_cong) simp_all
  ultimately have "core None True ?b"
    using c1 a assms(3) waiting_cong [of ?b b]
    by (auto simp: core_def env_inv_def active_inv_def writes_inv_def outstanding_write_def wait_inv_def lease_inv_def)
  with a show ?thesis by (simp add: steady_idle)
qed

lemma command_response_core:
  assumes "item_ok q" "t_step t = Command" "upstream_write_id t = None"
  shows "cr_hoare (\<lambda>b. steady False False (Some t) [] b \<and> time b = now) (command_response t q now) (\<lambda>_. broker_inv) refused"
proof (rule cr_at)
  fix b assume b: "steady False False (Some t) [] b \<and> time b = now"
  then have inv: "transaction_inv t" and core: "broker_core False False b"
    using steady_job [of False False t "[]" b] by (auto simp: steady_def)
  show "cr_hoare (\<lambda>b'. b' = b) (command_response t q now) (\<lambda>_. broker_inv) refused"
    unfolding command_response_def
  proof (rule cr_hoare_bind)
    let ?v = "validate_response (t_descriptor t) q (Some (t_command t)) (if contacts_started t then 1 else 0)"
    show "cr_hoare (\<lambda>b'. b' = b) (cr_lift ?v) (\<lambda>d b'. b' = b \<and> ?v = Inr d) refused"
      using core validate_response_error by (intro cr_hoare_lift) (auto simp: refused_def)
    fix d
    let ?t1 = "t\<lparr>response_frames := response_frames t + 1\<rparr>"
    have job: "transaction_inv (t\<lparr>response_frames := n\<rparr>)" "transaction_inv (t\<lparr>response_frames := n, contacts_started := s\<rparr>)"
      "transaction_inv (t\<lparr>response_frames := n, contacts_started := s, t_progress := x\<rparr>)" for n s x
      using inv by (auto simp: transaction_inv_def flag_def)
    have count: "cr_hoare (\<lambda>b'. b' = b \<and> ?v = Inr d) (cr_modify (change_active (\<lambda>t. t\<lparr>response_frames := response_frames t + 1\<rparr>)))
        (\<lambda>_ b'. steady False False (Some ?t1) [] b' \<and> time b' = now \<and> ?v = Inr d) refused"
      by (rule cr_pre [OF steady_modify]) (use b job in auto)
    show "cr_hoare (\<lambda>b'. b' = b \<and> ?v = Inr d) (cr_then (cr_modify (change_active (\<lambda>t. t\<lparr>response_frames := response_frames t + 1\<rparr>)))
     (if t_owner t = 0 then
        (if q ! 0 = RESP_ERR then cr_raise (ProtocolError ''internal inbox pop rejected'')
         else cr_then (cr_modify (\<lambda>b. b\<lparr>active := None\<rparr>)) (pop_result t q))
      else cr_bind (cr_lift (contacts_order t q)) (\<lambda>started.
        cr_then (cr_modify (change_active (\<lambda>t. t\<lparr>contacts_started := started\<rparr>)))
        (cr_bind (reply_to_owner t q) (\<lambda>reply_write.
         cr_then (cr_modify (change_active (\<lambda>t. t\<lparr>t_progress := now\<rparr>)))
         (cr_when (d = Complete) (complete_response t q reply_write now))))))) (\<lambda>_. broker_inv) refused"
    proof (rule cr_hoare_then [OF count], intro cr_hoare_if)
      show "cr_hoare (\<lambda>b'. steady False False (Some ?t1) [] b' \<and> time b' = now \<and> ?v = Inr d)
          (cr_raise (ProtocolError ''internal inbox pop rejected'')) (\<lambda>_. broker_inv) refused"
        by (rule cr_hoare_raise) (auto simp: refused_def steady_def)
    next
      assume own: "t_owner t = 0"
      show "cr_hoare (\<lambda>b'. steady False False (Some ?t1) [] b' \<and> time b' = now \<and> ?v = Inr d)
          (cr_then (cr_modify (\<lambda>b. b\<lparr>active := None\<rparr>)) (pop_result t q)) (\<lambda>_. broker_inv) refused"
        by (rule cr_hoare_then [OF cr_hoare_modify cr_total_weaken [OF pop_result_core [OF assms(1)]]])
          (use own assms(3) in \<open>auto intro: pop_leaves simp: broker_inv_def broker_core_idle\<close>)
    next
      assume own: "t_owner t \<noteq> 0"
      let ?t2 = "\<lambda>s. ?t1\<lparr>contacts_started := s\<rparr>"
      let ?t3 = "\<lambda>s. ?t1\<lparr>contacts_started := s, t_progress := now\<rparr>"
      let ?in = "\<lambda>t b'. steady False False (Some t) [] b' \<and> time b' = now \<and> ?v = Inr d"
      have order: "cr_hoare (?in ?t1) (cr_lift (contacts_order t q)) (\<lambda>s. ?in ?t1) refused"
        using contacts_order_error by (intro cr_hoare_lift) (auto simp: refused_def steady_def)
      have start: "cr_hoare (?in ?t1) (cr_modify (change_active (\<lambda>t. t\<lparr>contacts_started := s\<rparr>))) (\<lambda>_. ?in (?t2 s)) refused" for s
        by (rule cr_weaken [OF steady_modify [where t = ?t1 and f = "\<lambda>t. t\<lparr>contacts_started := s\<rparr>"]]) (use job(2) in auto)
      have reply: "cr_hoare (?in (?t2 s)) (reply_to_owner t q) (\<lambda>_. ?in (?t2 s)) refused" for s
      proof -
        have "cr_total (\<lambda>b. steady False False (Some (?t2 s)) [] b \<and> fixed (now, e, c, k) b) (reply_to_owner t q)
            (\<lambda>_ b. steady False False (Some (?t2 s)) [] b \<and> fixed (now, e, c, k) b)" for e c k
          by (rule cr_total_conj [OF reply_to_owner_steady fixed_reply]) (use assms(1) inv in \<open>auto simp: transaction_inv_def\<close>)
        then show ?thesis by (fastforce simp: cr_hoare_def settings_of_def split: prod.splits sum.splits)
      qed
      have progress: "cr_hoare (?in (?t2 s)) (cr_modify (change_active (\<lambda>t. t\<lparr>t_progress := now\<rparr>))) (\<lambda>_. ?in (?t3 s)) refused" for s
        by (rule cr_weaken [OF steady_modify [where t = "?t2 s" and f = "\<lambda>t. t\<lparr>t_progress := now\<rparr>"]]) (use job(3) in auto)
      have complete: "cr_hoare (?in (?t3 s)) (cr_when (d = Complete) (complete_response t q w now)) (\<lambda>_. broker_inv) refused" for s w
      proof (rule cr_hoare_when)
        have eq: "complete_response t q w now = complete_response (?t3 s) q w now" by (rule same_job_complete) (simp add: same_job_def)
        show "cr_hoare (?in (?t3 s)) (complete_response t q w now) (\<lambda>_. broker_inv) refused"
        proof (cases "?v = Inr d")
          case True
          then have "answers (?t3 s) q" using validate_response_answers by (auto simp: answers_def)
          then show ?thesis
            unfolding eq by (rule cr_total_weaken [OF complete_response_core [where p = False]])
              (use assms(2,3) own in \<open>auto simp: broker_inv_def\<close>)
        qed (simp add: cr_hoare_def)
      qed (simp add: broker_inv_def steady_def)
      show "cr_hoare (?in ?t1) (cr_bind (cr_lift (contacts_order t q)) (\<lambda>started.
        cr_then (cr_modify (change_active (\<lambda>t. t\<lparr>contacts_started := started\<rparr>)))
        (cr_bind (reply_to_owner t q) (\<lambda>reply_write.
         cr_then (cr_modify (change_active (\<lambda>t. t\<lparr>t_progress := now\<rparr>)))
         (cr_when (d = Complete) (complete_response t q reply_write now)))))) (\<lambda>_. broker_inv) refused"
        by (rule cr_hoare_bind [OF order], rule cr_hoare_then [OF start], rule cr_hoare_bind [OF reply],
            rule cr_hoare_then [OF progress], rule complete)
    qed
  qed
qed


section \<open>Answers to the scope commands\<close>

lemma scope_opcode:
  assumes "descriptor c = Some d" "ScopeSend \<in> set (desc_flags d)"
  shows "c ! 0 \<notin> {CMD_SIGN_START, CMD_SIGN_DATA, CMD_SIGN_FINISH}"
  using descriptor_flags [OF assms(1)] assms(2) by simp

lemma scope_refused:
  assumes "steady False p (Some t) [] b" "t_step t = Setup"
  shows "cr_total (\<lambda>b'. b' = b) (cr_when (flag RemoteLease t) (on_remote (returning (\<lambda>l. ((), lease_rejected l)))))
    (\<lambda>_ b'. core None p b' \<and> active b' = Some t \<and> \<not> failed b')"
proof -
  have a: "active b = Some t" "\<not> failed b" "held b = Some (t_owner t, t_command t)"
    using assms by (simp_all add: steady_def calm_def held_def)
  have c: "core (Some (t_owner t, t_command t)) p b" using assms(1) a by (simp add: steady_def broker_core_def)
  have inv: "transaction_inv t" using assms(1) by (rule steady_job)
  then have "t_command t ! 0 \<notin> {CMD_SIGN_START, CMD_SIGN_DATA, CMD_SIGN_FINISH}"
    using assms(2) by (intro scope_opcode [of "t_command t" "t_descriptor t"]) (auto simp: transaction_inv_def flag_def)
  then have sign: "\<not> sl_tentative (signing b)" "sl_pending_data (signing b) = None" "\<not> sl_finish_pending (signing b)"
    and lease: "rl_tentative (radio_remote (radio b)) = flag RemoteLease t"
    using core_parts(7) [OF c] a descriptor_uses_lease [OF inv] by (simp_all add: lease_inv_def)
  show ?thesis
  proof (cases "flag RemoteLease t")
    case False
    with c a sign lease core_resettle [OF c, of None] show ?thesis by (simp add: cr_hoare_def cr_defs)
  next
    case True
    have "core None p (b\<lparr>radio := (radio b)\<lparr>radio_remote := lease_clear\<rparr>, signing := signing b\<rparr>)"
      by (rule core_shared [OF c a(2)]) (use core_parts(3) [OF c] sign in \<open>simp_all add: env_inv_def lease_clear_def\<close>)
    with True a show ?thesis by (simp add: cr_hoare_def cr_defs on_remote_def returning_def lease_rejected_def)
  qed
qed

lemma finish_transaction_inv:
  assumes "same_job t t'" "upstream_write_id t' = None" "t_owner t' \<noteq> 0"
  shows "cr_total (\<lambda>b. core None False b \<and> active b = Some t' \<and> \<not> failed b) (finish_transaction t) (\<lambda>_. broker_inv)"
  unfolding same_job_finish [OF assms(1)]
  by (rule cr_total_weaken [OF finish_transaction_core [where z = False and p = False]]) (use assms in \<open>auto simp: broker_inv_def\<close>)

lemma scope_response_core:
  assumes "t_step t = Setup \<or> t_step t = Restore" "upstream_write_id t = None"
  shows "cr_hoare (steady False False (Some t) []) (scope_response t q now) (\<lambda>_. broker_inv) refused"
proof (rule cr_at)
  fix b assume b: "steady False False (Some t) [] b"
  then have inv: "transaction_inv t" by (rule steady_job)
  have own: "t_owner t \<noteq> 0" using inv assms(1) by (auto simp: transaction_inv_def)
  let ?t = "t\<lparr>t_progress := now\<rparr>"
  let ?s = "steady False False (Some ?t) []"
  have job: "same_job t ?t" "transaction_inv ?t" "flag RemoteLease t = flag RemoteLease ?t"
    using inv by (auto simp: same_job_def transaction_inv_def flag_def)
  have progress: "cr_hoare (\<lambda>b'. b' = b) (cr_modify (change_active (\<lambda>t. t\<lparr>t_progress := now\<rparr>))) (\<lambda>_. ?s) refused"
    by (rule cr_weaken [OF steady_modify [where t = t and f = "\<lambda>t. t\<lparr>t_progress := now\<rparr>" and now = "time b" and F = True]]) (use job b in auto)
  let ?mid = "\<lambda>b. core None False b \<and> active b = Some ?t \<and> \<not> failed b"
  have setup_err: "cr_hoare ?s (cr_seq [cr_when (flag RemoteLease t) (on_remote (returning (\<lambda>l. ((), lease_rejected l)))),
             emit_quietly (t_owner t) q, finish_transaction t]) (\<lambda>_. broker_inv) refused" if st: "t_step t = Setup"
  proof -
    have "cr_hoare ?s (cr_when (flag RemoteLease ?t) (on_remote (returning (\<lambda>l. ((), lease_rejected l))))) (\<lambda>_. steady True False (Some ?t) []) refused"
      by (rule cr_at, rule cr_total_weaken [OF scope_refused]) (use st in \<open>auto simp: steady_def broker_core_def calm_def\<close>)
    moreover have "cr_hoare (steady True False (Some ?t) []) (emit_quietly (t_owner t) q) (\<lambda>_. ?mid) refused"
      by (rule cr_total_weaken [OF sc.emit_quietly_keeps [where z = True and p = False and a = "Some ?t" and ids = "[]"]])
        (auto simp: steady_def broker_core_def calm_def)
    moreover have "cr_hoare ?mid (finish_transaction t) (\<lambda>_. broker_inv) refused"
      by (rule cr_total_weaken [OF finish_transaction_inv [OF job(1)]]) (use assms(2) own in auto)
    ultimately show ?thesis unfolding job(3) by (blast intro: cr_hoare_seq_Cons cr_hoare_seq_Nil)
  qed
  have setup_ok: "cr_hoare ?s (send_command t now) (\<lambda>_. broker_inv) refused" if st: "t_step t = Setup"
    unfolding same_job_send [OF job(1)]
  proof (rule cr_at)
    fix b1 assume "?s b1"
    with st assms(2) obtain b2 where "send_command ?t now b1 = (Inr (), b2)" "broker_inv b2"
      using broker_core_send [of False b1 ?t now] by (auto simp: steady_def calm_def broker_inv_def)
    then show "cr_hoare (\<lambda>b'. b' = b1) (send_command ?t now) (\<lambda>_. broker_inv) refused" by (simp add: cr_hoare_def)
  qed
  have restored: "cr_hoare ?s (finish_transaction t) (\<lambda>_. broker_inv) refused" if st: "t_step t = Restore"
    by (rule cr_total_weaken [OF finish_transaction_inv [OF job(1)]])
      (use st assms(2) own in \<open>auto simp: steady_def broker_core_def held_def calm_def\<close>)
  have bad: "cr_hoare P (cr_raise (ProtocolError m)) (\<lambda>_. broker_inv) refused" if "\<And>b. P b \<Longrightarrow> broker_core False False b" for P m
    by (rule cr_hoare_raise) (use that in \<open>auto simp: refused_def\<close>)
  show "cr_hoare (\<lambda>b'. b' = b) (scope_response t q now) (\<lambda>_. broker_inv) refused"
    unfolding scope_response_def
    by (intro cr_hoare_if cr_hoare_then [OF progress] bad setup_err setup_ok restored)
      (use b assms(1) in \<open>auto simp: steady_def\<close>)
qed

lemma response_proves_write_core:
  assumes "broker_inv b" "active b = Some t" "\<not> failed b"
  shows "\<exists>t'. active (response_proves_write now b) = Some t' \<and> upstream_write_id t' = None \<and> t_step t' = t_step t
    \<and> broker_inv (response_proves_write now b) \<and> \<not> failed (response_proves_write now b)"
proof (cases "upstream_write_id t")
  case None
  with assms show ?thesis by (simp add: response_proves_write_def)
next
  case (Some w)
  let ?f = "\<lambda>t. if t_step t = Command \<and> desc_grammar (t_descriptor t) = Contacts \<and> \<not> contacts_started t
             then t\<lparr>upstream_write_id := None, t_started := now\<rparr> else t\<lparr>upstream_write_id := None\<rparr>"
  let ?b = "response_proves_write now b"
  have b: "?b = change_active ?f (b\<lparr>upstream_writes := AList.delete w (upstream_writes b)\<rparr>)"
    using assms(2) Some by (simp add: response_proves_write_def)
  have c: "core (held b) False b" using assms(1) by (simp add: broker_inv_def broker_core_def)
  have f: "sessions ?b = sessions b" "rotation ?b = rotation b" "dedicated_slots ?b = dedicated_slots b" "config ?b = config b"
    "owner_of ?b = owner_of b" "self_key ?b = self_key b" "orphan ?b = orphan b" "radio ?b = radio b" "signing ?b = signing b"
    "failed ?b = failed b" "time ?b = time b" "drain_requested ?b = drain_requested b" "drain_authorized ?b = drain_authorized b"
    "active ?b = Some (?f t)" "upstream_writes ?b = AList.delete w (upstream_writes b)" "held ?b = held b"
    using assms(2) by (simp_all add: b broker_simps owner_of_def held_def)
  have "map fst (upstream_writes b) = [w]"
    using core_parts(5) [OF c] assms(2) Some by (simp add: writes_inv_def outstanding_write_def)
  then have "upstream_writes ?b = []" unfolding f by (cases "upstream_writes b") auto
  moreover have "transaction_inv (?f t)"
    using core_parts(4) [OF c] assms(2) by (auto simp: active_inv_def transaction_inv_def flag_def)
  ultimately have "core (held b) False ?b"
    using c assms(3) structure_cong [OF f(1-3)] queues_cong [OF f(1,3,4,5)] waiting_cong [OF f(1)]
    by (simp add: core_def env_inv_def active_inv_def writes_inv_def outstanding_write_def wait_inv_def lease_inv_def f)
  then show ?thesis using f assms(3) by (intro exI [of _ "?f t"]) (simp add: broker_inv_def broker_core_def)
qed

lemma transaction_response_core:
  assumes "item_ok q"
  shows "cr_hoare (\<lambda>b. broker_inv b \<and> \<not> failed b \<and> time b = now) (transaction_response q now) (\<lambda>_. broker_inv) refused"
proof (rule cr_at)
  fix b assume b: "broker_inv b \<and> \<not> failed b \<and> time b = now"
  show "cr_hoare (\<lambda>b'. b' = b) (transaction_response q now) (\<lambda>_. broker_inv) refused"
  proof (cases "active b")
    case None
    with b show ?thesis by (auto simp: cr_hoare_def transaction_response_def cr_defs refused_def broker_inv_def)
  next
    case (Some t)
    let ?b = "response_proves_write now b"
    obtain t' where t': "active ?b = Some t'" "upstream_write_id t' = None" "t_step t' = t_step t" "broker_inv ?b" "\<not> failed ?b"
      using response_proves_write_core [of b t now] b Some by blast
    have job: "same_job t t'" "contacts_started t = contacts_started t'"
      using t'(1) Some by (auto simp: response_proves_write_def broker_simps same_job_def split: option.splits if_splits)
    have time: "time ?b = now" using fixed_proves [of now b] b by (simp add: settings_of_def)
    show ?thesis
    proof (cases "t_step t = MaintenanceResult")
      case True
      with Some t'(4) show ?thesis by (auto simp: cr_hoare_def transaction_response_def cr_defs refused_def broker_inv_def)
    next
      case False
      then have steady: "steady False False (Some t') [] ?b" using t' by (simp add: steady_def broker_inv_def calm_def)
      note eqs = job(1) [unfolded same_job_def, THEN conjunct1] job(1) [unfolded same_job_def, THEN conjunct2, THEN conjunct1]
      have reply: "reply_to_owner t = reply_to_owner t'" by (rule ext) (unfold reply_to_owner_def eqs, rule refl)
      have "contacts_order t q = contacts_order t' q" "settle_drain t = settle_drain t'" "t_pop_sequence t = t_pop_sequence t'" "t_step t = t_step t'"
        "t_descriptor t = t_descriptor t'" "had_multi_client t = had_multi_client t'" "flag RemoteLease t = flag RemoteLease t'"
        using job t'(3) by (simp_all add: fun_eq_iff settle_drain_def Let_def same_job_def contacts_order_def flag_def)
      note same = eqs this reply job(2) same_job_send [OF job(1)] same_job_finish [OF job(1)] same_job_complete [OF job(1)]
      have "pop_empty t = pop_empty t'" by (rule ext) (unfold pop_empty_def same, rule refl)
      then have "pop_result t q = pop_result t' q" unfolding pop_result_def same by simp
      note pop = this
      have "command_response t q now = command_response t' q now" "scope_response t q now = scope_response t' q now"
        unfolding command_response_def scope_response_def same pop by (rule refl)+
      then have run: "transaction_response q now b = (case t_step t' of Command \<Rightarrow> command_response t' q now ?b | _ \<Rightarrow> scope_response t' q now ?b)"
        using Some False t'(3) by (simp add: transaction_response_def cr_defs split: step.split)
      show ?thesis
      proof (cases "t_step t' = Command")
        case True
        with command_response_core [OF assms True t'(2), of now] run steady time show ?thesis
          by (simp add: cr_hoare_def)
      next
        case step: False
        then have "t_step t' = Setup \<or> t_step t' = Restore" using False t'(3) by (cases "t_step t'") auto
        with scope_response_core [OF this t'(2), of q now] run steady show ?thesis
          by (auto simp: cr_hoare_def)
      qed
    qed
  qed
qed

end
