(* ===== verification/Broker_Events.thy ===== *)
theory Broker_Events
  imports Broker_Replies
begin

text \<open>
  The events of the runtime: the companion's pushes and frames, the clients' frames, the completion
  and failure of writes, the admission and the end of a client, and the clock. Every one of them
  keeps the invariant, and no exception escapes to the runtime.
\<close>

section \<open>Time\<close>

text \<open>Between the first statement of an event, which sets the clock, and its last, which schedules.\<close>

definition at_time :: "span \<Rightarrow> broker \<Rightarrow> bool" where
  "at_time now b \<longleftrightarrow> broker_inv b \<and> time b = now"

lemma timed:
  assumes "cr_hoare P m (\<lambda>_. broker_inv) E" "\<And>x. cr_keeps (fixed x) m" "\<And>b. P b \<Longrightarrow> time b = now"
  shows "cr_hoare P m (\<lambda>_. at_time now) E"
proof (rule cr_hoareI)
  fix b x b' assume b: "P b" "m b = (Inr x, b')"
  then have "settings_of b' = settings_of b" using cr_hoare_Inr [OF assms(2) [of "settings_of b"], of b] by blast
  with b assms(3) cr_hoare_Inr [OF assms(1)] show "at_time now b'" by (simp add: at_time_def settings_of_def)
next
  fix b e b' assume "P b" "m b = (Inl e, b')"
  then show "E e b'" by (rule cr_hoare_Inl [OF assms(1)])
qed

lemma schedule_at: "cr_total (at_time now) (schedule now) (\<lambda>_. broker_inv)"
  by (rule cr_total_weaken [OF schedule_core [where p = False]]) (simp_all add: at_time_def broker_inv_def)

lemma set_time: "broker_inv b \<Longrightarrow> time b \<le> now \<Longrightarrow> at_time now (b\<lparr>time := now\<rparr>)"
  by (simp add: at_time_def broker_inv_def broker_core_time)

lemma broker_client: "client_assertion broker_inv"
  unfolding broker_inv_def [abs_def] by (rule broker_core_client)

interpretation ic: client_assertion broker_inv
  by (rule broker_client)

section \<open>Pushes\<close>

lemma record_hint_inv: "cr_total broker_inv record_availability_hint (\<lambda>_. broker_inv)"
  unfolding record_availability_hint_def
proof (intro cr_hoare_seq_Cons [where R = broker_inv] cr_hoare_modify cr_hoare_seq_Nil)
  fix b assume b: "broker_inv b"
  then have c: "core (held b) False b" by (simp add: broker_inv_def broker_core_def)
  have "core (held b) False (b\<lparr>generation := generation b + 1\<rparr>)"
    by (rule core_same [OF c]) (use core_orphan [OF c] in \<open>auto simp: wait_inv_def waiting_def session_of_def owner_of_def\<close>)
  then show "broker_inv (b\<lparr>generation := generation b + 1\<rparr>)" by (simp add: broker_inv_def broker_core_def held_def)
  have "core (held b) False (b\<lparr>drain_requested := True\<rparr>)" if "drain_authorized b"
    by (rule core_same [OF c]) (use that core_orphan [OF c] in \<open>auto simp: wait_inv_def waiting_def session_of_def owner_of_def\<close>)
  with b show "broker_inv (if drain_authorized b then b\<lparr>drain_requested := True\<rparr> else b)"
    by (simp add: broker_inv_def broker_core_def held_def)
qed (rule ic.notify_keeps, assumption)

lemma broker_inv_shared:
  assumes "broker_inv b" "\<not> failed b" "ring_ok (radio_ring r)" "leases_for (held b) (time b) r (signing b)"
  shows "broker_inv (b\<lparr>radio := r\<rparr>)"
proof -
  have c: "core (held b) False b" using assms(1) by (simp add: broker_inv_def broker_core_def)
  have "core (held b) False (b\<lparr>radio := r, signing := signing b\<rparr>)"
    by (rule core_shared [OF c assms(2,3) _ assms(4)]) (use core_parts(3) [OF c] in \<open>simp add: env_inv_def\<close>)
  then show ?thesis by (simp add: broker_inv_def broker_core_def held_def)
qed

lemma broker_inv_leases:
  assumes "broker_inv b" "\<not> failed b"
  shows "leases_for (held b) (time b) (radio b) (signing b)" "ring_ok (radio_ring (radio b))" "6 \<le> length (self_key b)"
proof -
  have c: "core (held b) False b" using assms(1) by (simp add: broker_inv_def broker_core_def)
  show "leases_for (held b) (time b) (radio b) (signing b)" using core_parts(7) [OF c] assms(2) by (simp add: lease_inv_def)
  show "ring_ok (radio_ring (radio b))" "6 \<le> length (self_key b)" using core_parts(3) [OF c] by (simp_all add: env_inv_def)
qed

lemma leases_for_ring:
  assumes "leases_for l now r sl" "ring_available now (radio_ring r) \<Longrightarrow> ring_available now ring"
  shows "leases_for l now (r\<lparr>radio_ring := ring\<rparr>) sl"
  using assms by (cases l) auto

text \<open>A confirmation only frees slots of the ring.\<close>

lemma confirm_ring:
  assumes "ring_ok r" "length q = 9" "q ! 0 = PUSH_SEND_CONFIRMED"
  obtains x r' where "ring_confirm q r = (Inr x, r')" "ring_ok r'" "\<And>now. ring_available now r \<Longrightarrow> ring_available now r'"
proof -
  obtain x r' where run: "ring_confirm q r = (Inr x, r')" and r': "r' = r\<lparr>ring_slots := map (\<lambda>entry.
      if settles (u32_at q 1) entry then map_option (\<lambda>e. e\<lparr>ring_settled := True\<rparr>) entry else entry) (ring_slots r)\<rparr>"
    using assms(2,3) by (auto simp: ring_confirm_def require_payload_def lease_read_u32_def)
  have "ring_ok r'" using assms(1) by (simp add: r' ring_ok_def)
  moreover have "ring_available now r'" if "ring_available now r" for now
    using that assms(1) by (auto simp: r' ring_available_def ring_ok_def entry_free_def settles_def split: option.splits)
  ultimately show thesis using run that by blast
qed

lemma leases_for_lease:
  assumes "leases_for l now r sl" "\<not> rl_tentative (radio_remote r)" "\<not> rl_tentative x"
  shows "leases_for l now (r\<lparr>radio_remote := x\<rparr>) sl"
  using assms by (cases l) auto

lemma result_push_lengths:
  assumes "item_ok q" "q ! 0 \<in> set result_push_codes"
  shows "q ! 0 = PUSH_BINARY_RESPONSE \<and> 6 \<le> length q \<or> q ! 0 = PUSH_TRACE_DATA \<and> 12 \<le> length q
    \<or> q ! 0 \<noteq> PUSH_BINARY_RESPONSE \<and> q ! 0 \<noteq> PUSH_TRACE_DATA \<and> 8 \<le> length q"
proof -
  have shape: "response_shape_ok q" using assms(1) by (auto simp: item_ok_def validate_response_shape_def split: if_splits)
  consider "q ! 0 = PUSH_LOGIN_SUCCESS" | "q ! 0 = PUSH_LOGIN_FAILURE" | "q ! 0 = PUSH_STATUS_RESPONSE" | "q ! 0 = PUSH_TRACE_DATA"
    | "q ! 0 = PUSH_TELEMETRY_RESPONSE" | "q ! 0 = PUSH_BINARY_RESPONSE" | "q ! 0 = PUSH_PATH_DISCOVERY_RESPONSE"
    using assms(2) by (auto simp: result_push_codes_def)
  then show ?thesis
    by cases (use shape in \<open>auto simp: response_shape_ok_def Let_def path_discovery_response_valid_def trace_response_valid_def split: if_splits\<close>)
qed

lemma lease_matches_ok:
  assumes "item_ok q" "q ! 0 \<in> set result_push_codes"
  shows "\<exists>m. lease_matches kind q l = Inr m"
  using result_push_lengths [OF assms]
  by (cases kind) (simp_all add: lease_matches_def matching_peer_def first_is_def, auto)

lemma lease_match_run:
  assumes "item_ok q" "q ! 0 \<in> set result_push_codes" "leases_for l now' r sl"
  shows "\<exists>x l'. lease_match q now (radio_remote r) = (Inr x, l') \<and> leases_for l now' (r\<lparr>radio_remote := l'\<rparr>) sl"
proof -
  let ?l = "radio_remote r" and ?e = "lease_expire now (radio_remote r)"
  note ok = lease_matches_ok [OF assms(1,2)]
  show ?thesis
  proof (cases "rl_tentative ?l")
    case True
    then have "uses_lease (snd (the l))" "l \<noteq> None" using assms(3) by (cases l; auto)+
    then have "rl_deadline ?l = None" "rl_kind ?l \<noteq> None" using assms(3) by (cases l; auto)+
    then have "?e = ?l" by (simp add: lease_expire_def)
    with True assms(3) show ?thesis by (auto simp: lease_match_def Let_def split: option.split)
  next
    case False
    then have e: "\<not> rl_tentative ?e" by (rule lease_expire_idle)
    have c: "\<not> rl_tentative lease_clear" by (simp add: lease_clear_def)
    show ?thesis
    proof (cases "rl_kind ?e")
      case None
      with leases_for_lease [OF assms(3) False e] show ?thesis by (simp add: lease_match_def Let_def)
    next
      case (Some kind)
      obtain m where "lease_matches kind q ?e = Inr m" using ok by blast
      with Some e leases_for_lease [OF assms(3) False e] leases_for_lease [OF assms(3) False c] show ?thesis
        by (cases m) (auto simp: lease_match_def Let_def)
    qed
  qed
qed


definition going :: "span \<Rightarrow> broker \<Rightarrow> bool" where
  "going now b \<longleftrightarrow> broker_inv b \<and> \<not> failed b \<and> time b = now"

lemma active_transaction: "broker_inv b \<Longrightarrow> active b = Some t \<Longrightarrow> transaction_inv t"
  by (auto simp: broker_inv_def broker_core_def core_def active_inv_def)

lemma self_telemetry_run:
  assumes "going now b" "item_ok q"
  shows "\<exists>x. self_telemetry q b = (Inr x, b)"
proof (cases "active b")
  case None
  then have "self_telemetry q b = (Inr False, b)" by (simp add: self_telemetry_def cr_defs)
  then show ?thesis by blast
next
  case (Some t)
  show ?thesis
  proof (cases "q ! 0 = PUSH_TELEMETRY_RESPONSE \<and> t_command t ! 0 = CMD_SEND_TELEMETRY_REQ \<and> length (t_command t) = 4")
    case True
    then have "8 \<le> length q" using result_push_lengths [OF assms(2)] by (simp add: result_push_codes_def)
    moreover have "6 \<le> length (self_key b)" using assms(1) by (intro broker_inv_leases(3)) (simp_all add: going_def)
    ultimately show ?thesis using True Some by (simp add: self_telemetry_def cr_defs slice_def)
  next
    case False
    with Some show ?thesis by (auto simp: self_telemetry_def cr_defs)
  qed
qed

lemma push_core:
  assumes "item_ok q"
  shows "cr_hoare (going now) (push q now) (\<lambda>_. broker_inv) refused"
proof -
  have hint: "cr_hoare (going now) record_availability_hint (\<lambda>_. broker_inv) refused"
    by (rule cr_total_weaken [OF record_hint_inv]) (simp_all add: going_def)
  have cast: "cr_hoare (going now) (broadcast q) (\<lambda>_. broker_inv) refused"
    by (rule cr_total_weaken [OF ic.broadcast_keeps]) (simp_all add: going_def)
  have confirmed: "cr_hoare (going now) (cr_bind (on_ring (ring_confirm q)) (\<lambda>_. broadcast q)) (\<lambda>_. broker_inv) refused"
    if code: "q ! 0 = PUSH_SEND_CONFIRMED"
  proof (rule cr_hoare_bind [where R = "\<lambda>_. broker_inv"])
    show "cr_hoare (going now) (on_ring (ring_confirm q)) (\<lambda>_. broker_inv) refused"
    proof (rule cr_at)
      fix b assume b: "going now b"
      then have i: "broker_inv b" "\<not> failed b" by (simp_all add: going_def)
      note l = broker_inv_leases [OF i]
      obtain x r where r: "ring_confirm q (radio_ring (radio b)) = (Inr x, r)" "ring_ok r"
        "\<And>now. ring_available now (radio_ring (radio b)) \<Longrightarrow> ring_available now r"
        using confirm_ring [OF l(2) item_ok_lengths(5) [OF assms code] code] by blast
      have "broker_inv (b\<lparr>radio := (radio b)\<lparr>radio_ring := r\<rparr>\<rparr>)"
        by (rule broker_inv_shared [OF i]) (use r leases_for_ring [OF l(1) r(3)] in simp_all)
      with r show "cr_hoare (\<lambda>b'. b' = b) (on_ring (ring_confirm q)) (\<lambda>_. broker_inv) refused" by (simp add: cr_hoare_def on_ring_def)
    qed
    show "cr_hoare broker_inv (broadcast q) (\<lambda>_. broker_inv) refused" by (rule cr_total_weaken [OF ic.broadcast_keeps])
  qed
  have matched: "cr_hoare (going now) (cr_bind (on_remote (lease_match q now)) (\<lambda>owner. case owner of None \<Rightarrow> cr_return ()
          | Some i \<Rightarrow> emit_quietly i q)) (\<lambda>_. broker_inv) refused" if code: "q ! 0 \<in> set result_push_codes"
  proof (rule cr_hoare_bind [where R = "\<lambda>_. broker_inv"])
    show "cr_hoare (going now) (on_remote (lease_match q now)) (\<lambda>_. broker_inv) refused"
    proof (rule cr_at)
      fix b assume b: "going now b"
      then have i: "broker_inv b" "\<not> failed b" by (simp_all add: going_def)
      note l = broker_inv_leases [OF i]
      obtain x r where r: "lease_match q now (radio_remote (radio b)) = (Inr x, r)"
        "leases_for (held b) (time b) ((radio b)\<lparr>radio_remote := r\<rparr>) (signing b)"
        using lease_match_run [OF assms code l(1)] by blast
      have "broker_inv (b\<lparr>radio := (radio b)\<lparr>radio_remote := r\<rparr>\<rparr>)"
        by (rule broker_inv_shared [OF i]) (use r l in simp_all)
      with r show "cr_hoare (\<lambda>b'. b' = b) (on_remote (lease_match q now)) (\<lambda>_. broker_inv) refused" by (simp add: cr_hoare_def on_remote_def)
    qed
    fix owner
    show "cr_hoare broker_inv (case owner of None \<Rightarrow> cr_return () | Some i \<Rightarrow> emit_quietly i q) (\<lambda>_. broker_inv) refused"
      by (intro cr_hoare_option cr_hoare_return cr_total_weaken [OF ic.emit_quietly_keeps])
  qed
  have result: "cr_hoare (going now) (cr_bind (self_telemetry q) (\<lambda>self. if self then transaction_response q now
        else cr_bind (on_remote (lease_match q now)) (\<lambda>owner. case owner of None \<Rightarrow> cr_return ()
          | Some i \<Rightarrow> emit_quietly i q))) (\<lambda>_. broker_inv) refused" if "q ! 0 \<in> set result_push_codes"
  proof (rule cr_hoare_bind [where R = "\<lambda>_. going now"])
    show "cr_hoare (going now) (self_telemetry q) (\<lambda>_. going now) refused"
      by (rule cr_hoareI) (use self_telemetry_run [OF _ assms] in fastforce)+
    show "cr_hoare (going now) (if self then transaction_response q now
        else cr_bind (on_remote (lease_match q now)) (\<lambda>owner. case owner of None \<Rightarrow> cr_return ()
          | Some i \<Rightarrow> emit_quietly i q)) (\<lambda>_. broker_inv) refused" for self
      by (rule cr_hoare_if [OF cr_pre [OF transaction_response_core [OF assms]] matched [OF that]]) (simp add: going_def)
  qed
  show ?thesis unfolding push_def by (intro cr_hoare_if hint confirmed result cast)
qed

section \<open>A frame of the companion\<close>

lemma fail_epoch_inv: "cr_total (\<lambda>b. \<exists>z p. broker_core z p b) (fail_epoch r) (\<lambda>_ b. broker_inv b \<and> failed b)"
  by (intro cr_pre_ex cr_total_weaken [OF fail_epoch_core]) (auto simp: ended_def)

lemma debt_inv: "broker_inv b \<Longrightarrow> broker_inv (b\<lparr>response_debt := x\<rparr>)"
proof -
  assume b: "broker_inv b"
  then have c: "core (held b) False b" by (simp add: broker_inv_def broker_core_def)
  have "core (held b) False (b\<lparr>response_debt := x\<rparr>)"
    by (rule core_same [OF c]) (use core_orphan [OF c] in \<open>auto simp: wait_inv_def waiting_def session_of_def owner_of_def\<close>)
  then show ?thesis by (simp add: broker_inv_def broker_core_def held_def)
qed

lemma deadline_inv: "cr_total (going now) (check_active_deadline now) (\<lambda>alive b. broker_inv b \<and> (alive \<longrightarrow> going now b) \<and> (\<not> alive \<longrightarrow> failed b))"
proof -
  let ?Q = "\<lambda>alive b. broker_inv b \<and> (alive \<longrightarrow> going now b) \<and> (\<not> alive \<longrightarrow> failed b)"
  have "cr_total (going now) (cr_then (cr_seq [cr_modify (\<lambda>b. b\<lparr>response_debt := Some t\<rparr>), fail_epoch r]) (cr_return False)) ?Q" for t r
  proof (rule cr_hoare_then)
    show "cr_total (going now) (cr_seq [cr_modify (\<lambda>b. b\<lparr>response_debt := Some t\<rparr>), fail_epoch r]) (\<lambda>_ b. broker_inv b \<and> failed b)"
      by (rule cr_hoare_seq_Cons [where R = broker_inv], rule cr_hoare_modify, simp add: going_def debt_inv,
          rule cr_hoare_seq_Cons [OF cr_total_weaken [OF fail_epoch_inv] cr_hoare_seq_Nil [where P = "\<lambda>b. broker_inv b \<and> failed b"]])
        (auto simp: broker_inv_def)
    show "cr_total (\<lambda>b. broker_inv b \<and> failed b) (cr_return False) ?Q" by (rule cr_hoare_return) simp
  qed
  then have *: "cr_total (\<lambda>b. going now b \<and> F b) (cr_then (cr_seq [cr_modify (\<lambda>b. b\<lparr>response_debt := Some t\<rparr>), fail_epoch r]) (cr_return False)) ?Q"
    for t r F by (rule cr_pre) simp
  have stay: "cr_total (\<lambda>b. going now b \<and> F b) (cr_return True) ?Q" for F by (rule cr_hoare_return) (simp add: going_def)
  show ?thesis
    unfolding check_active_deadline_def
    by (rule cr_hoare_bind_get, simp only: split_beta) (intro cr_hoare_option cr_hoare_if stay *)
qed


lemma upstream_payload_core: "cr_hoare (going now) (upstream_payload q now) (\<lambda>_. broker_inv) refused"
proof -
  have alive: "cr_hoare (going now) (check_active_deadline now)
      (\<lambda>alive b. broker_inv b \<and> (alive \<longrightarrow> going now b) \<and> (\<not> alive \<longrightarrow> failed b)) refused"
    by (rule cr_total_weaken [OF deadline_inv])
  show ?thesis
    unfolding upstream_payload_def
  proof (rule cr_hoare_bind [OF alive])
  fix alive
  let ?P = "\<lambda>b. broker_inv b \<and> (alive \<longrightarrow> going now b) \<and> (\<not> alive \<longrightarrow> failed b)"
  let ?ok = "\<lambda>b. going now b \<and> item_ok q"
  have valid: "cr_hoare (going now) (cr_lift (validate_response_shape q)) (\<lambda>_. ?ok) refused"
    using shape_error by (intro cr_hoare_lift) (auto simp: item_ok_def refused_def going_def broker_inv_def)
  have body: "cr_hoare ?ok (if q ! 0 \<ge> PUSH_ADVERT then push q now else transaction_response q now) (\<lambda>_. at_time now) refused"
  proof (cases "item_ok q")
    case True
    have t: "going now b \<Longrightarrow> time b = now" for b by (simp add: going_def)
    have "cr_hoare (going now) (push q now) (\<lambda>_. at_time now) refused"
      by (rule timed [OF push_core [OF True] fixed_push t])
    moreover have "cr_hoare (going now) (transaction_response q now) (\<lambda>_. at_time now) refused"
      by (rule timed [OF cr_pre [OF transaction_response_core [OF True]] fixed_response t]) (simp_all add: going_def)
    ultimately show ?thesis by (simp add: True)
  qed (simp add: cr_hoare_def)
  have "cr_hoare (going now) (cr_seq [cr_lift (validate_response_shape q),
     if q ! 0 \<ge> PUSH_ADVERT then push q now else transaction_response q now, schedule now]) (\<lambda>_. broker_inv) refused"
    by (rule cr_hoare_seq_Cons [OF valid], rule cr_hoare_seq_Cons [OF body],
        rule cr_hoare_seq_Cons [OF cr_total_weaken [OF schedule_at] cr_hoare_seq_Nil [where P = broker_inv]])
  then show "cr_hoare ?P (cr_when alive (cr_seq [cr_lift (validate_response_shape q),
     if q ! 0 \<ge> PUSH_ADVERT then push q now else transaction_response q now, schedule now])) (\<lambda>_. broker_inv) refused"
    by (cases alive) (auto intro: cr_pre cr_hoare_return simp: cr_when_def)
  qed
qed

text \<open>The state in which an event starts.\<close>

definition before :: "span \<Rightarrow> broker \<Rightarrow> bool" where
  "before now b \<longleftrightarrow> broker_inv b \<and> time b \<le> now"

lemma upstream_frame_core: "cr_total (before now) (upstream_frame q now) (\<lambda>_. broker_inv)"
proof -
  have clock: "cr_total (before now) (cr_modify (\<lambda>b. b\<lparr>time := now\<rparr>)) (\<lambda>_. at_time now)"
    by (rule cr_hoare_modify) (simp add: before_def set_time)
  have "cr_total (going now) (cr_rescue (upstream_payload q now) fail_epoch) (\<lambda>_. broker_inv)"
    by (rule cr_hoare_rescue [OF upstream_payload_core], rule cr_total_weaken [OF fail_epoch_inv]) (auto simp: refused_def)
  then have "cr_total (at_time now) (cr_bind (cr_get failed) (\<lambda>over. if over then cr_return ()
      else cr_rescue (upstream_payload q now) fail_epoch)) (\<lambda>_. broker_inv)"
    by (intro cr_hoare_bind_get cr_hoare_if cr_hoare_return) (auto simp: at_time_def going_def elim: cr_pre)
  then show ?thesis unfolding upstream_frame_def by (rule cr_hoare_then [OF clock])
qed

section \<open>The clients' events\<close>

text \<open>A change of the state or of a client, and then a scheduling pass.\<close>

lemma then_schedule:
  assumes "cr_total (before now) m (\<lambda>_. broker_inv)" "\<And>x. cr_keeps (fixed x) m"
  shows "cr_total (before now) (cr_seq [m, schedule now]) (\<lambda>_. broker_inv)"
proof (rule cr_hoare_seq_Cons [where R = "before now"])
  show "cr_total (before now) m (\<lambda>_. before now)"
  proof (rule cr_at)
    fix b assume b: "before now b"
    have "cr_total (\<lambda>b'. b' = b) m (\<lambda>_. at_time (time b))"
      by (rule timed [OF cr_pre [OF assms(1)] assms(2)]) (use b in auto)
    with b show "cr_total (\<lambda>b'. b' = b) m (\<lambda>_. before now)" by (auto intro: cr_post simp: at_time_def before_def)
  qed
  show "cr_total (before now) (cr_seq [schedule now]) (\<lambda>_. broker_inv)"
    by (rule cr_hoare_seq_Cons [OF cr_total_weaken [OF schedule_core [where p = False]] cr_hoare_seq_Nil [where P = broker_inv]])
      (simp_all add: before_def broker_inv_def)
qed

lemma clock_first: "cr_total (before now) m Q \<Longrightarrow> cr_total (before now) (cr_then (cr_modify (\<lambda>b. b\<lparr>time := now\<rparr>)) m) Q"
  by (rule cr_hoare_then [OF cr_hoare_modify]) (auto simp: before_def dest: set_time simp: at_time_def)

lemma clock_first_seq: "cr_total (before now) (cr_seq ms) Q \<Longrightarrow> cr_total (before now) (cr_seq (cr_modify (\<lambda>b. b\<lparr>time := now\<rparr>) # ms)) Q"
  by (simp add: clock_first)

lemma before_inv: "before now b \<Longrightarrow> broker_inv b"
  by (simp add: before_def)

lemma removed_before: "cr_total (before now) (remove i r) (\<lambda>_. broker_inv)"
  by (rule cr_pre [OF ic.removed before_inv])

lemma client_closed_core: "cr_total (before now) (client_closed i r now) (\<lambda>_. broker_inv)"
  unfolding client_closed_def by (intro clock_first_seq then_schedule removed_before fixed_remove)

lemma broker_inv_act: "broker_inv b \<Longrightarrow> broker_inv (act as b)"
  by (simp add: broker_inv_def broker_core_act)

lemma queue_command_inv:
  assumes "broker_inv b" "session_of i b = Some s" "q \<noteq> []"
    "length (commands s) + (if sync s \<noteq> None then 1 else 0) + (if owner_of b = Some i then 1 else 0) < command_limit (config b)"
  shows "broker_inv (change_session i (\<lambda>s. s\<lparr>commands := commands s @ [\<lparr>cmd_payload = q, queued_at = now\<rparr>]\<rparr>) b)"
  unfolding broker_inv_def
  by (rule broker_core_change_session [OF assms(1) [unfolded broker_inv_def]]) (use assms(2-4) in \<open>auto simp: session_inv_def\<close>)

lemma client_frame_core:
  assumes "q \<noteq> []"
  shows "cr_total (before now) (client_frame i q now) (\<lambda>_. broker_inv)"
proof -
  let ?queue = "cr_modify (change_session i (\<lambda>s. s\<lparr>commands := commands s @ [\<lparr>cmd_payload = q, queued_at = now\<rparr>]\<rparr>))"
  have act: "before now (act as b)" if "before now b" for as b
    using that by (simp add: before_def broker_inv_act broker_simps)
  have step: "cr_total (\<lambda>b. before now b \<and> session_of i b = Some s) (cr_bind (cr_get (\<lambda>b. command_limit (config b) \<le> length (commands s)
        + (if sync s \<noteq> None then 1 else 0) + (if owner_of b = Some i then 1 else 0))) (\<lambda>full. cr_seq [
            if full then remove i ''command queue overflow'' else ?queue, schedule now])) (\<lambda>_. broker_inv)" for s
  proof (rule cr_at)
    fix b assume b: "before now b \<and> session_of i b = Some s"
    let ?full = "command_limit (config b) \<le> length (commands s) + (if sync s \<noteq> None then 1 else 0) + (if owner_of b = Some i then 1 else 0)"
    have "cr_total (\<lambda>b'. b' = b) (if ?full then remove i ''command queue overflow'' else ?queue) (\<lambda>_. at_time (time b))"
    proof (cases ?full)
      case True
      show ?thesis
        unfolding if_P [OF True] by (rule timed [OF cr_pre [OF removed_before [of now]] fixed_remove]) (use b in auto)
    next
      case False
      with b assms queue_command_inv [of b i s q now] show ?thesis
        by (auto intro!: cr_hoare_modify simp: at_time_def broker_simps before_def)
    qed
    then have "cr_total (\<lambda>b'. b' = b) (if ?full then remove i ''command queue overflow'' else ?queue) (\<lambda>_. before now)"
      by (rule cr_post) (use b in \<open>auto simp: at_time_def before_def\<close>)
    moreover have "cr_total (before now) (cr_seq [schedule now]) (\<lambda>_. broker_inv)"
      by (rule cr_hoare_seq_Cons [OF cr_total_weaken [OF schedule_core [where p = False]] cr_hoare_seq_Nil [where P = broker_inv]])
        (simp_all add: before_def broker_inv_def)
    ultimately have "cr_total (\<lambda>b'. b' = b) (cr_seq [if ?full then remove i ''command queue overflow'' else ?queue, schedule now]) (\<lambda>_. broker_inv)"
      by (rule cr_hoare_seq_Cons)
    then show "cr_total (\<lambda>b'. b' = b) (cr_bind (cr_get (\<lambda>b. command_limit (config b) \<le> length (commands s)
        + (if sync s \<noteq> None then 1 else 0) + (if owner_of b = Some i then 1 else 0))) (\<lambda>full. cr_seq [
            if full then remove i ''command queue overflow'' else ?queue, schedule now])) (\<lambda>_. broker_inv)"
      by (simp add: cr_hoare_def cr_bind_def cr_get_def)
  qed
  show ?thesis
    unfolding client_frame_def
  proof (rule clock_first, rule cr_hoare_bind_get, rule cr_at)
    fix x b assume x: "before now b \<and> x = (failed b, session_of i b)"
    show "cr_total (\<lambda>b'. b' = b) (case x of (over, s) \<Rightarrow> if over then cr_return () else case s of None \<Rightarrow> cr_return ()
      | Some s \<Rightarrow> cr_then (cr_modify (act [CommandPayload i q])) (cr_bind (cr_get (\<lambda>b. command_limit (config b) \<le> length (commands s)
        + (if sync s \<noteq> None then 1 else 0) + (if owner_of b = Some i then 1 else 0))) (\<lambda>full. cr_seq [
            if full then remove i ''command queue overflow'' else ?queue, schedule now]))) (\<lambda>_. broker_inv)"
      unfolding x [THEN conjunct2] prod.case
      by (intro cr_hoare_if cr_hoare_option cr_hoare_return cr_hoare_then [OF cr_hoare_modify step])
        (use x in \<open>auto simp: before_inv act broker_simps\<close>)
  qed
qed


section \<open>Completion and failure of writes\<close>

lemma upstream_written_inv:
  assumes "broker_inv b" "\<not> failed b"
  shows "broker_inv (upstream_written w now b)"
proof -
  have c: "core (held b) False b" using assms(1) by (simp add: broker_inv_def broker_core_def)
  have keys: "map fst (upstream_writes b) = outstanding_write b" using core_parts(5) [OF c] by (simp add: writes_inv_def)
  show ?thesis
  proof (cases "\<exists>t. active b = Some t \<and> upstream_write_id t = Some w")
    case False
    then have "w \<notin> set (map fst (upstream_writes b))" unfolding keys
      by (cases "active b"; cases "upstream_write_id (the (active b))") (auto simp: outstanding_write_def)
    then have "AList.delete w (upstream_writes b) = upstream_writes b" by (simp add: delete_idem)
    then have "upstream_written w now b = b" using False by (auto simp: upstream_written_def Let_def split: option.splits)
    with assms show ?thesis by simp
  next
    case True
    then obtain t where t: "active b = Some t" "upstream_write_id t = Some w" by blast
    let ?f = "\<lambda>t. let t1 = t\<lparr>upstream_write_id := None, t_progress := now\<rparr> in
           if t_step t = Command \<and> desc_grammar (t_descriptor t) = Contacts \<and> \<not> contacts_started t
           then t1\<lparr>t_started := now\<rparr> else t1"
    let ?b = "upstream_written w now b"
    have b: "?b = change_active ?f (b\<lparr>upstream_writes := AList.delete w (upstream_writes b)\<rparr>)"
      using t by (simp add: upstream_written_def Let_def)
    have f: "sessions ?b = sessions b" "rotation ?b = rotation b" "dedicated_slots ?b = dedicated_slots b" "config ?b = config b"
      "owner_of ?b = owner_of b" "self_key ?b = self_key b" "orphan ?b = orphan b" "radio ?b = radio b" "signing ?b = signing b"
      "failed ?b = failed b" "time ?b = time b" "drain_requested ?b = drain_requested b" "drain_authorized ?b = drain_authorized b"
      "active ?b = Some (?f t)" "upstream_writes ?b = AList.delete w (upstream_writes b)" "held ?b = held b"
      using t by (simp_all add: b broker_simps owner_of_def held_def Let_def)
    have "map fst (upstream_writes b) = [w]" using keys t by (simp add: outstanding_write_def)
    then have "upstream_writes ?b = []" unfolding f by (cases "upstream_writes b") auto
    moreover have "transaction_inv (?f t)" "upstream_write_id (?f t) = None"
      using active_transaction [OF assms(1) t(1)] by (auto simp: transaction_inv_def flag_def Let_def)
    ultimately have "core (held b) False ?b"
      using c assms(2) structure_cong [OF f(1-3)] queues_cong [OF f(1,3,4,5)] waiting_cong [OF f(1)]
      by (simp add: core_def env_inv_def active_inv_def writes_inv_def outstanding_write_def wait_inv_def lease_inv_def f)
    then show ?thesis by (simp add: broker_inv_def broker_core_def f(16))
  qed
qed

lemma length_delete_le: "length (AList.delete k es) \<le> length es"
  by (simp add: AList.delete_eq)

lemma client_written_inv: "cr_total (\<lambda>b. broker_inv b \<and> \<not> failed b) (client_written i w) (\<lambda>_. broker_inv)"
  unfolding client_written_def
proof (rule cr_hoare_then [OF cr_hoare_modify])
  let ?f = "\<lambda>s. s\<lparr>writes := AList.delete w (writes s), hint_write_id := if hint_write_id s = Some w then None else hint_write_id s\<rparr>"
  fix b assume b: "broker_inv b \<and> \<not> failed b"
  have "session_inv c owned s \<Longrightarrow> session_inv c owned (?f s)" for c owned s
    using length_delete_le [of w "writes s"] by (auto simp: session_inv_def)
  then show "broker_inv (change_session i ?f b) \<and> \<not> failed (change_session i ?f b)"
    using b broker_core_change_session [of False False b i ?f] by (auto simp: broker_inv_def broker_simps)
next
  have fin: "cr_total (\<lambda>b. broker_inv b \<and> \<not> failed b \<and> active b = Some t) (finish_transaction t) (\<lambda>_. broker_inv)"
    if "t_step t = MaintenanceResult" for t
  proof (rule cr_at)
    fix b assume b: "broker_inv b \<and> \<not> failed b \<and> active b = Some t"
    then have "transaction_inv t" using active_transaction by blast
    then have "upstream_write_id t = None" "t_owner t \<noteq> 0" using that by (auto simp: transaction_inv_def)
    then show "cr_total (\<lambda>b'. b' = b) (finish_transaction t) (\<lambda>_. broker_inv)"
      by (intro cr_pre [OF finish_transaction_inv [of t t]])
        (use b that in \<open>auto simp: same_job_def broker_inv_def broker_core_def held_def\<close>)
  qed
  show "cr_total (\<lambda>b. broker_inv b \<and> \<not> failed b) (cr_bind (cr_get (\<lambda>b. (session_of i b, active b))) (\<lambda>(s, a). case (s, a) of
        (Some _, Some t) \<Rightarrow> cr_when (maintenance t \<and> t_step t = MaintenanceResult \<and> t_owner t = i \<and> maintenance_write_id t = Some w)
          (finish_transaction t)
      | _ \<Rightarrow> cr_return ())) (\<lambda>_. broker_inv)"
  proof (rule cr_hoare_bind_get)
    fix x
    show "cr_total (\<lambda>b. (broker_inv b \<and> \<not> failed b) \<and> x = (session_of i b, active b)) (case x of (s, a) \<Rightarrow> case (s, a) of
        (Some _, Some t) \<Rightarrow> cr_when (maintenance t \<and> t_step t = MaintenanceResult \<and> t_owner t = i \<and> maintenance_write_id t = Some w)
          (finish_transaction t)
      | _ \<Rightarrow> cr_return ()) (\<lambda>_. broker_inv)"
      by (cases x; cases "fst x"; cases "snd x") (auto intro!: cr_hoare_return cr_hoare_when cr_pre [OF fin])
  qed
qed

lemma fixed_written: "cr_keeps (fixed x) (if i = 0 then cr_modify (upstream_written w now) else client_written i w)"
  by (intro cr_intros frame_intros)

lemma written_core: "cr_total (before now) (written i e w now) (\<lambda>_. broker_inv)"
proof -
  let ?m = "if i = 0 then cr_modify (upstream_written w now) else client_written i w"
  have "cr_total (\<lambda>b. before now b \<and> \<not> failed b) ?m (\<lambda>_. broker_inv)"
    by (rule cr_hoare_if, rule cr_hoare_modify, simp add: before_def upstream_written_inv)
      (rule cr_pre [OF client_written_inv], simp add: before_def)
  then have m: "cr_total (\<lambda>b. before now b \<and> \<not> failed b) ?m (\<lambda>_. before now)"
    unfolding cr_hoare_def using fixed_written [of _ i w now]
    by (fastforce simp: cr_hoare_def before_def settings_of_def split: prod.splits sum.splits)
  have s: "cr_total (before now) (cr_seq [schedule now]) (\<lambda>_. broker_inv)"
    by (rule cr_hoare_seq_Cons [OF cr_total_weaken [OF schedule_core [where p = False]] cr_hoare_seq_Nil [where P = broker_inv]])
      (simp_all add: before_def broker_inv_def)
  show ?thesis
    unfolding written_def
    by (intro cr_hoare_bind_get cr_hoare_if cr_hoare_return cr_pre [OF cr_hoare_seq_Cons [OF m s]]) (auto simp: before_def)
qed

lemma before_exists: "before now b \<Longrightarrow> \<exists>z p. broker_core z p b"
  by (auto simp: before_def broker_inv_def)

lemma fail_before: "cr_total (before now) (fail_epoch r) (\<lambda>_. broker_inv)"
  by (rule cr_total_weaken [OF fail_epoch_inv before_exists]) auto

lemma write_failed_core: "cr_total (before now) (write_failed i e r now) (\<lambda>_. broker_inv)"
proof -
  have m: "cr_total (before now) (cr_then (cr_modify (\<lambda>b. b\<lparr>time := now\<rparr>)) (if i = 0 then fail_epoch (''upstream write failed: '' @ r)
        else cr_seq [remove i (''writer failed: '' @ r), schedule now])) (\<lambda>_. broker_inv)"
    by (intro clock_first cr_hoare_if fail_before then_schedule removed_before fixed_remove)
  show ?thesis
    unfolding write_failed_def by (intro cr_hoare_bind_get cr_hoare_if cr_hoare_return cr_pre [OF m]) (auto simp: before_def)
qed

section \<open>The clock\<close>

lemma leases_for_signing_expire:
  assumes "leases_for l now r sl" "\<And>owner c. l = Some (owner, c) \<Longrightarrow> c ! 0 \<notin> {CMD_SIGN_START, CMD_SIGN_DATA, CMD_SIGN_FINISH}"
  shows "leases_for l now r (signing_expire now' sl)"
proof (cases l)
  case None
  with assms(1) signing_idle_expire [of sl now'] show ?thesis by simp
next
  case (Some x)
  obtain owner c where x: "x = (owner, c)" by fastforce
  with assms Some signing_idle_expire [of sl now'] show ?thesis by simp
qed

lemma leases_for_expire:
  assumes "leases_for l now r sl"
  shows "leases_for l now (r\<lparr>radio_remote := lease_expire now' (radio_remote r)\<rparr>) sl"
proof (cases "rl_tentative (radio_remote r)")
  case False
  then show ?thesis by (intro leases_for_lease [OF assms False] lease_expire_idle)
next
  case True
  then have "rl_deadline (radio_remote r) = None" using assms by (cases l) auto
  then have "lease_expire now' (radio_remote r) = radio_remote r" by (simp add: lease_expire_def)
  with assms show ?thesis by simp
qed

lemma expire_leases_inv:
  assumes "broker_inv b"
  shows "broker_inv (expire_leases now b)"
proof -
  have c: "core (held b) False b" using assms by (simp add: broker_inv_def broker_core_def)
  have s: "signing_inv (signing b)" "ring_ok (radio_ring (radio b))" using core_parts(3) [OF c] by (simp_all add: env_inv_def)
  define r where "r = (if rl_command (radio_remote (radio b)) = None then radio b
    else (radio b)\<lparr>radio_remote := lease_expire now (radio_remote (radio b))\<rparr>)"
  define sl where "sl = (if (case active b of None \<Rightarrow> False | Some t \<Rightarrow> flag Signing t) then signing b else signing_expire now (signing b))"
  let ?b = "b\<lparr>radio := r, signing := sl\<rparr>"
  have eq: "expire_leases now b = b\<lparr>radio := r, signing := sl\<rparr>"
    by (auto simp: expire_leases_def Let_def r_def sl_def split: option.splits)
  have inv: "signing_inv sl" "ring_ok (radio_ring r)" using s by (auto simp: sl_def r_def signing_inv_expire)
  have h: "held (b\<lparr>radio := r, signing := sl\<rparr>) = held b" by (simp add: held_def)
  show ?thesis
  proof (cases "failed b")
    case True
    then have "\<not> rl_tentative (radio_remote (radio b))" using core_parts(7) [OF c] by (simp add: lease_inv_def)
    then have "\<not> rl_tentative (radio_remote r)" using lease_expire_idle by (simp add: r_def)
    moreover have "structure_inv ?b = structure_inv b" by (rule structure_cong) simp_all
    moreover have "queues_inv ?b = queues_inv b" by (rule queues_cong) (simp_all add: owner_of_def)
    moreover have "wait_inv False ?b = wait_inv False b" using waiting_cong [of ?b b] by (simp add: wait_inv_def owner_of_def)
    ultimately have "core (held b) False ?b"
      using c inv True
      by (simp add: core_def env_inv_def active_inv_def writes_inv_def outstanding_write_def lease_inv_def)
    then show ?thesis by (simp add: eq broker_inv_def broker_core_def h)
  next
    case False
    then have "leases_for (held b) (time b) (radio b) (signing b)" using core_parts(7) [OF c] by (simp add: lease_inv_def)
    then have l: "leases_for (held b) (time b) r (signing b)" using leases_for_expire by (simp add: r_def)
    have "leases_for (held b) (time b) r sl"
    proof (cases "sl = signing b")
      case expired: False
      have "cmd ! 0 \<notin> {CMD_SIGN_START, CMD_SIGN_DATA, CMD_SIGN_FINISH}" if "held b = Some (owner, cmd)" for owner cmd
      proof -
        obtain t where t: "active b = Some t" "t_command t = cmd" using \<open>held b = Some (owner, cmd)\<close> by (auto simp: held_def split: option.splits if_splits)
        have "\<not> flag Signing t" using expired t(1) by (auto simp: sl_def split: if_splits)
        with active_transaction [OF assms t(1)] t(2) descriptor_flags [of cmd "t_descriptor t"] show ?thesis
          by (simp add: transaction_inv_def flag_def)
      qed
      then have "leases_for (held b) (time b) r (signing_expire now (signing b))" by (rule leases_for_signing_expire [OF l])
      with l show ?thesis by (simp add: sl_def)
    qed (use l in simp)
    then have "core (held b) False (b\<lparr>radio := r, signing := sl\<rparr>)" by (rule core_shared [OF c False inv(2,1)])
    then show ?thesis by (simp add: eq broker_inv_def broker_core_def h)
  qed
qed

lemma poll_inv: "cr_total broker_inv (poll now) (\<lambda>_. broker_inv)"
  unfolding poll_def
proof (intro cr_hoare_bind_get cr_hoare_when cr_hoare_seq_Cons [where R = broker_inv] cr_hoare_modify cr_hoare_seq_Nil ic.notify_keeps)
  fix due and b assume "broker_inv b \<and> due = (sessions b \<noteq> [] \<and> poll_interval (config b) \<le> now - last_poll b)"
  then have b: "broker_inv b" and c: "core (held b) False b" by (simp_all add: broker_inv_def broker_core_def)
  have "core (held b) False (b\<lparr>last_poll := now\<rparr>)"
    by (rule core_same [OF c]) (use core_orphan [OF c] in \<open>auto simp: wait_inv_def waiting_def session_of_def owner_of_def\<close>)
  then show "broker_inv (b\<lparr>last_poll := now\<rparr>)" by (simp add: broker_inv_def broker_core_def held_def)
qed auto

lemma tick_core: "cr_total (before now) (tick now) (\<lambda>_. broker_inv)"
proof -
  have keep: "cr_total (at_time now) m (\<lambda>_. at_time now)" if "cr_total broker_inv m (\<lambda>_. broker_inv)" "\<And>x. cr_keeps (fixed x) m" for m :: "unit broker_op"
    by (rule timed [OF cr_pre [OF that(1)] that(2)]) (simp_all add: at_time_def)
  have sess: "cr_total broker_inv (cr_bind (cr_get (\<lambda>b. map fst (sessions b))) (\<lambda>ids. cr_each ids (tick_session now))) (\<lambda>_. broker_inv)"
    by (rule cr_hoare_bind_get, rule cr_pre [where P' = broker_inv], rule cr_hoare_each, rule ic.tick_session_keeps, simp)
  have work: "cr_total (at_time now) (cr_seq [cr_bind (cr_get (\<lambda>b. map fst (sessions b))) (\<lambda>ids. cr_each ids (tick_session now)),
           cr_modify (expire_leases now), poll now, schedule now]) (\<lambda>_. broker_inv)"
  proof (rule cr_hoare_seq_Cons [where R = "at_time now"], rule_tac [2] cr_hoare_seq_Cons [where R = "at_time now"],
      rule_tac [3] cr_hoare_seq_Cons [where R = "at_time now"], rule_tac [4] cr_hoare_seq_Cons [OF schedule_at cr_hoare_seq_Nil])
    show "cr_total (at_time now) (cr_bind (cr_get (\<lambda>b. map fst (sessions b))) (\<lambda>ids. cr_each ids (tick_session now))) (\<lambda>_. at_time now)"
      by (rule keep [OF sess]) (intro cr_intros frame_intros)
    show "cr_total (at_time now) (poll now) (\<lambda>_. at_time now)" by (rule keep [OF poll_inv fixed_tick(2)])
    note fx.expire_keeps [of _ now]
    then show "cr_total (at_time now) (cr_modify (expire_leases now)) (\<lambda>_. at_time now)"
      by (rule keep [rotated]) (rule cr_hoare_modify, rule expire_leases_inv)
  qed
  have alive: "cr_total (going now) (cr_bind (cr_get (\<lambda>b. list_ex (\<lambda>(w, deadline). deadline \<le> now) (upstream_writes b))) (\<lambda>stuck.
         if stuck then fail_epoch ''upstream write deadline'' else cr_seq [
           cr_bind (cr_get (\<lambda>b. map fst (sessions b))) (\<lambda>ids. cr_each ids (tick_session now)),
           cr_modify (expire_leases now), poll now, schedule now])) (\<lambda>_. broker_inv)"
    by (intro cr_hoare_bind_get cr_hoare_if cr_pre [OF work] cr_pre [OF fail_before [where now = now]]) (auto simp: going_def at_time_def before_def)
  show ?thesis
    unfolding tick_def
  proof (rule cr_hoare_then [where R = "at_time now"], rule cr_hoare_modify, simp add: before_def set_time,
      intro cr_hoare_bind_get cr_hoare_if cr_hoare_return)
    fix over
    assume "\<not> over"
    have d: "cr_total (\<lambda>b. at_time now b \<and> over = failed b) (check_active_deadline now)
        (\<lambda>alive b. broker_inv b \<and> (alive \<longrightarrow> going now b) \<and> (\<not> alive \<longrightarrow> failed b))"
      by (rule cr_pre [OF deadline_inv]) (use \<open>\<not> over\<close> in \<open>auto simp: at_time_def going_def\<close>)
    show "cr_total (\<lambda>b. at_time now b \<and> over = failed b) (cr_bind (check_active_deadline now) (\<lambda>alive. cr_when alive
        (cr_bind (cr_get (\<lambda>b. list_ex (\<lambda>(w, deadline). deadline \<le> now) (upstream_writes b))) (\<lambda>stuck.
         if stuck then fail_epoch ''upstream write deadline'' else cr_seq [
           cr_bind (cr_get (\<lambda>b. map fst (sessions b))) (\<lambda>ids. cr_each ids (tick_session now)),
           cr_modify (expire_leases now), poll now, schedule now])))) (\<lambda>_. broker_inv)"
      by (rule cr_hoare_bind [OF d], rule cr_hoare_when, rule cr_pre [OF alive]) auto
  qed (simp add: at_time_def)
qed


section \<open>A new client\<close>

text \<open>The client \<open>i\<close> once it has a session, on a shared port or on the slot \<open>k\<close>.\<close>

definition joined :: "int \<Rightarrow> int option \<Rightarrow> broker \<Rightarrow> broker" where
  "joined i slot b = b\<lparr>sessions := AList.update i (new_session slot) (sessions b), rotation := rotation b @ [i]\<rparr>"

definition taken :: "int \<Rightarrow> int option \<Rightarrow> broker \<Rightarrow> broker" where
  "taken i slot b = (case slot of None \<Rightarrow> b | Some k \<Rightarrow> change_slot k (\<lambda>slot. slot\<lparr>slot_session := Some i\<rparr>) b)"

lemma session_of_joined: "session_of j (joined i slot b) = (if j = i then Some (new_session slot) else session_of j b)"
  by (simp add: joined_def session_of_def update_conv')

lemma slot_of_taken: "slot_of k (joined i slot (taken i slot b)) = (if slot = Some k
    then map_option (\<lambda>slot. slot\<lparr>slot_session := Some i\<rparr>) (slot_of k b) else slot_of k b)"
  by (auto simp: joined_def taken_def slot_of_def change_slot_def map_of_change_entry split: option.splits)

lemma validate_config_positive:
  assumes "validate_config c = Inr ()"
  shows "0 < command_limit c" "0 < inbox_entries c" "0 < output_frames c" "0 < offline_queue_size c"
  using assms by (auto simp: validate_config_def Let_def split: if_splits)

lemma joined_core:
  assumes "core l p b" "\<not> failed b" "i \<noteq> 0" "session_of i b = None" "\<And>k. slot = Some k \<Longrightarrow> \<exists>s. slot_of k b = Some s \<and> slot_session s = None"
  shows "core l p (joined i slot (taken i slot b))"
proof -
  let ?b = "joined i slot (taken i slot b)"
  have f: "config ?b = config b" "active ?b = active b" "failed ?b = failed b" "self_key ?b = self_key b" "orphan ?b = orphan b"
    "radio ?b = radio b" "signing ?b = signing b" "time ?b = time b" "drain_requested ?b = drain_requested b"
    "drain_authorized ?b = drain_authorized b" "upstream_writes ?b = upstream_writes b" "rotation ?b = rotation b @ [i]"
    "sessions ?b = AList.update i (new_session slot) (sessions b)" "map fst (dedicated_slots ?b) = map fst (dedicated_slots b)" "owner_of ?b = owner_of b"
    by (simp_all add: joined_def taken_def broker_simps owner_of_def split: option.splits)
  have s: "session_of j ?b = (if j = i then Some (new_session slot) else session_of j b)" for j
    using session_of_joined [of j i slot "taken i slot b"] by (simp add: taken_def broker_simps split: option.splits)
  note k = slot_of_taken [of _ i slot b]
  have st: "structure_inv b" using core_parts(1) [OF assms(1)] .
  have "structure_inv ?b"
  proof -
    have "i \<notin> set (rotation b)" using st assms(3,4) by (auto simp: structure_inv_def)
    moreover have "\<exists>s. session_of j ?b = Some s \<and> session_slot s = Some k'"
      if a: "slot_of k' ?b = Some sl" "slot_session sl = Some j" for k' sl j
    proof (cases "slot = Some k'")
      case True
      then obtain s' where "slot_of k' b = Some s'" "sl = s'\<lparr>slot_session := Some i\<rparr>"
        using a(1) k [of k'] by (cases "slot_of k' b") auto
      then have "j = i" using a(2) by simp
      then show ?thesis using True s [of j] by (simp add: new_session_def)
    next
      case False
      then have "slot_of k' b = Some sl" using a k [of k'] by simp
      then obtain s' where "session_of j b = Some s'" "session_slot s' = Some k'" using st a(2) unfolding structure_inv_def by blast
      then show ?thesis using s [of j] assms(4) by (cases "j = i") auto
    qed
    moreover have "slot_of k' ?b \<noteq> None" if "session_of j ?b = Some s'" "session_slot s' = Some k'" for j s' k'
    proof (cases "j = i")
      case True
      then have "slot = Some k'" using that s [of j] by (auto simp: new_session_def)
      then show ?thesis using assms(5) [of k'] k [of k'] by auto
    next
      case False
      then have "slot_of k' b \<noteq> None" using that s [of j] st unfolding structure_inv_def by auto
      then show ?thesis using k [of k'] by simp
    qed
    moreover have "distinct (rotation ?b)" "session_of 0 ?b = None" "distinct (map fst (sessions ?b))"
      "distinct (map fst (dedicated_slots ?b))" "set (rotation ?b) = insert 0 {j. session_of j ?b \<noteq> None}"
      using st assms(3,4) \<open>i \<notin> set (rotation b)\<close> by (auto simp: structure_inv_def f s distinct_update)
    ultimately show ?thesis unfolding structure_inv_def by blast
  qed
  moreover have "queues_inv ?b"
  proof -
    have "0 < command_limit (config b)"
      using core_parts(3) [OF assms(1)] validate_config_positive(1) by (auto simp: env_inv_def)
    then have "session_inv (config b) o' (new_session slot)" for o' by (simp add: session_inv_def new_session_def)
    moreover have "slot_inv (config b) sl" if sl: "slot_of k' ?b = Some sl" for k' sl
    proof -
      obtain sl0 where "slot_of k' b = Some sl0" "slot_queue sl = slot_queue sl0" using sl k [of k'] by (auto split: if_splits)
      moreover from this have "slot_inv (config b) sl0" using core_parts(2) [OF assms(1)] unfolding queues_inv_def by blast
      ultimately show ?thesis by (simp add: slot_inv_def)
    qed
    ultimately show ?thesis using core_parts(2) [OF assms(1)] by (simp add: queues_inv_def s f)
  qed
  moreover have "wait_inv p ?b"
  proof -
    have "waiting ?b \<Longrightarrow> waiting b" by (auto simp: waiting_def s new_session_def split: if_splits)
    moreover have "sessions ?b \<noteq> []" unfolding f by (cases "sessions b") auto
    ultimately show ?thesis using core_parts(6) [OF assms(1)] by (auto simp: wait_inv_def f)
  qed
  ultimately show ?thesis using assms(1,2)
    by (simp add: core_def env_inv_def active_inv_def writes_inv_def outstanding_write_def lease_inv_def f)
qed

text \<open>A dedicated slot is taken over from the client that still holds it.\<close>

lemma attach_slot_run:
  assumes "broker_inv b" "calm b" "slot_of k b \<noteq> None" "session_of i b = None"
  shows "\<exists>b1. attach_slot i k b = (Inr (), taken i (Some k) b1) \<and> broker_inv b1 \<and> calm b1 \<and> session_of i b1 = None
    \<and> (\<exists>s. slot_of k b1 = Some s \<and> slot_session s = None) \<and> settings_of b1 = settings_of b \<and> active b1 = active b"
proof -
  obtain sl where sl: "slot_of k b = Some sl" using assms(3) by blast
  show ?thesis
  proof (cases "slot_session sl")
    case None
    with sl assms show ?thesis
      by (intro exI [of _ b]) (simp add: attach_slot_def cr_defs slot_of_def taken_def)
  next
    case (Some old)
    have st: "structure_inv b" using assms(1) by (simp add: broker_inv_def broker_core_def core_def)
    then obtain s where s: "session_of old b = Some s" "session_slot s = Some k"
      using sl Some unfolding structure_inv_def by blast
    let ?b1 = "detach old s ''replaced by new dedicated client connection'' b"
    have rem: "remove old ''replaced by new dedicated client connection'' b = (Inr (), ?b1)"
      using s assms(2) by (auto simp: remove_eq calm_def split: option.splits)
    have "attach_slot i k b = (Inr (), taken i (Some k) ?b1)"
      using sl Some rem by (simp add: attach_slot_def cr_defs slot_of_def taken_def)
    moreover have "broker_inv ?b1" using assms(1) s(1) by (simp add: broker_inv_def broker_core_detach)
    moreover have "\<exists>s. slot_of k ?b1 = Some s \<and> slot_session s = None"
      using sl Some s(2) by (simp add: broker_simps slot_of_release)
    ultimately show ?thesis using assms(2,4) by (intro exI [of _ ?b1]) (auto simp: calm_def broker_simps settings_of_def)
  qed
qed

text \<open>The client just admitted gets the message no client was there for: its inbox and its output have room.\<close>

lemma fresh_enqueue:
  assumes "session_of i b = Some (new_session None)" "0 < inbox_entries (config b)" "0 < output_frames (config b)"
  shows "\<exists>b'. enqueue_multi_client i q b = (Inr (), b') \<and> session_of i b' \<noteq> None"
proof -
  let ?b = "change_session i (\<lambda>s. s\<lparr>inbox := inbox s @ [q]\<rparr>) b"
  have s: "session_of i ?b = Some ((new_session None)\<lparr>inbox := [q]\<rparr>)"
    using assms(1) by (simp add: session_of_change_session new_session_def)
  have e: "emit i [PUSH_MSG_WAITING] ?b = (Inr (Some (next_write ?b + 1)), sent_frame i [PUSH_MSG_WAITING] ?b)"
    using s assms(3) by (simp add: emit_eq new_session_def broker_simps)
  have "emit_availability_hint i ?b = (Inr (), change_session i (\<lambda>s. s\<lparr>hint_write_id := Some (next_write ?b + 1)\<rparr>) (sent_frame i [PUSH_MSG_WAITING] ?b))"
    using s e by (simp add: emit_availability_hint_def cr_defs new_session_def)
  moreover have "enqueue_multi_client i q b = emit_availability_hint i ?b"
    using assms(1,2) s by (simp add: enqueue_multi_client_def offer_item_def cr_defs new_session_def split: prod.splits sum.splits)
  moreover have "session_of i (sent_frame i [PUSH_MSG_WAITING] ?b) \<noteq> None" unfolding session_of_sent_frame s by simp
  ultimately show ?thesis by (simp add: session_of_change_session)
qed


lemma orphan_run:
  assumes "broker_inv b" "session_of i b = Some (new_session None)"
  shows "\<exists>b'. deliver_orphan i b = (Inr (), b') \<and> broker_inv b' \<and> session_of i b' \<noteq> None \<and> settings_of b' = settings_of b"
proof (cases "orphan b")
  case None
  with assms show ?thesis by (simp add: deliver_orphan_def cr_defs)
next
  case (Some q)
  let ?b = "b\<lparr>orphan := None\<rparr>"
  have c: "core (held b) False b" using assms(1) by (simp add: broker_inv_def broker_core_def)
  have "core (held b) False ?b" by (rule core_same [OF c]) (auto simp: wait_inv_def waiting_def session_of_def owner_of_def)
  then have inv: "broker_inv ?b" by (simp add: broker_inv_def broker_core_def held_def)
  have s: "session_of i ?b = Some (new_session None)" using assms(2) by (simp add: session_of_def)
  have pos: "0 < inbox_entries (config ?b)" "0 < output_frames (config ?b)"
    using core_parts(3) [OF c] validate_config_positive [of "config b"] by (simp_all add: env_inv_def)
  obtain b' where run: "enqueue_multi_client i q ?b = (Inr (), b')" "session_of i b' \<noteq> None" using fresh_enqueue [OF s pos] by blast
  have "item_ok q" using core_orphan [OF c Some] .
  from cr_hoare_Inr [OF ic.enqueue_multi_keeps [OF this] _ run(1)] have "broker_inv b'" by (simp add: inv s new_session_def)
  moreover have "settings_of b' = settings_of ?b"
    using cr_hoare_Inr [OF fixed_enqueue [of "settings_of ?b" i q] refl run(1)] .
  ultimately show ?thesis using Some run by (simp add: deliver_orphan_def cr_defs settings_of_def)
qed

definition admissible :: "int \<Rightarrow> int option \<Rightarrow> broker \<Rightarrow> bool" where
  "admissible i slot b \<longleftrightarrow> i \<noteq> 0 \<and> session_of i b = None \<and> (case slot of None \<Rightarrow> True | Some k \<Rightarrow> k \<in> set (map fst (dedicated_slots b)))"

lemma broker_inv_joined:
  assumes "broker_inv b" "\<not> failed b" "i \<noteq> 0" "session_of i b = None" "\<And>k. slot = Some k \<Longrightarrow> \<exists>s. slot_of k b = Some s \<and> slot_session s = None"
  shows "broker_inv (joined i slot (taken i slot b))" "settings_of (joined i slot (taken i slot b)) = settings_of b"
    "session_of i (joined i slot (taken i slot b)) = Some (new_session slot)"
proof -
  have "active (joined i slot (taken i slot b)) = active b" by (simp add: joined_def taken_def broker_simps split: option.splits)
  then have "held (joined i slot (taken i slot b)) = held b" by (rule held_cong)
  with assms joined_core [of "held b" False b i slot] show "broker_inv (joined i slot (taken i slot b))"
    by (simp add: broker_inv_def broker_core_def)
qed (simp_all add: session_of_joined, simp add: joined_def taken_def settings_of_def broker_simps split: option.splits)

lemma admit_core: "cr_total (\<lambda>b. before now b \<and> admissible i slot b) (admit i slot now) (\<lambda>_. broker_inv)"
proof (rule cr_at)
  fix b assume b: "before now b \<and> admissible i slot b"
  let ?b = "b\<lparr>time := now\<rparr>"
  have t: "at_time now ?b" using b by (simp add: before_def set_time)
  then have inv: "broker_inv ?b" by (simp add: at_time_def)
  have ad: "i \<noteq> 0" "session_of i ?b = None" using b by (simp_all add: admissible_def session_of_def)
  let ?refused = "failed b \<or> (case active b of None \<Rightarrow> False | Some t \<Rightarrow> maintenance t)"
  show "cr_total (\<lambda>b'. b' = b) (admit i slot now) (\<lambda>_. broker_inv)"
  proof (cases ?refused)
    case True
    with broker_inv_act [OF inv] show ?thesis by (simp add: cr_hoare_def admit_def cr_defs)
  next
    case False
    then have calm: "calm ?b" by (auto simp: calm_def split: option.splits)
    obtain b1 where b1: "(case slot of None \<Rightarrow> cr_return () | Some k \<Rightarrow> attach_slot i k) ?b = (Inr (), taken i slot b1)"
      "broker_inv b1" "calm b1" "session_of i b1 = None" "\<And>k. slot = Some k \<Longrightarrow> \<exists>s. slot_of k b1 = Some s \<and> slot_session s = None"
      "settings_of b1 = settings_of ?b"
    proof (cases slot)
      case None
      then show thesis using inv calm ad(2) by (intro that [of ?b]) (simp_all add: cr_return_def taken_def)
    next
      case (Some k)
      then have "k \<in> fst ` set (dedicated_slots b)" using b by (simp add: admissible_def)
      then have "slot_of k ?b \<noteq> None" by (simp add: slot_of_def map_of_eq_None_iff)
      with attach_slot_run [OF inv calm this ad(2)] Some show thesis by (auto intro: that)
    qed
    let ?j = "joined i slot (taken i slot b1)"
    have nf: "\<not> failed b1" using b1(3) by (simp add: calm_def)
    have j: "broker_inv ?j" "settings_of ?j = settings_of b1" "session_of i ?j = Some (new_session slot)"
      using broker_inv_joined [OF b1(2) nf ad(1) b1(4)] b1(5) by blast+
    have orph: "\<exists>b2. cr_when (slot = None) (deliver_orphan i) ?j = (Inr (), b2) \<and> broker_inv b2 \<and> session_of i b2 \<noteq> None \<and> settings_of b2 = settings_of ?j"
    proof (cases slot)
      case None
      then show ?thesis using orphan_run [of ?j i] j(1,3) by (simp add: cr_when_def)
    next
      case (Some k)
      then show ?thesis using j by (intro exI [of _ ?j]) (simp add: cr_when_def cr_return_def)
    qed
    then obtain b2 where b2: "cr_when (slot = None) (deliver_orphan i) ?j = (Inr (), b2)" "broker_inv b2" "session_of i b2 \<noteq> None"
      "settings_of b2 = settings_of ?j" by blast
    then have "time b2 = now" using j(2) b1(6) by (simp add: settings_of_def)
    then have "at_time now b2" using b2(2) by (simp add: at_time_def)
    have hint: "cr_total (at_time now) (emit_availability_hint i) (\<lambda>_. at_time now)"
      by (rule timed [OF cr_pre [OF ic.hint_keeps] fixed_hint]) (simp_all add: at_time_def)
    have "cr_total (\<lambda>b'. b' = b2) (cr_seq [emit_availability_hint i, schedule now]) (\<lambda>_. broker_inv)"
      by (rule cr_pre [OF cr_hoare_seq_Cons [OF hint cr_hoare_seq_Cons [OF schedule_at cr_hoare_seq_Nil [where P = broker_inv]]]])
        (use \<open>at_time now b2\<close> in auto)
    moreover have "admit i slot now b = cr_seq [emit_availability_hint i, schedule now] b2"
    proof -
      obtain s2 where "session_of i b2 = Some s2" using b2(3) by blast
      with False b1(1) b2(1) show ?thesis
        by (simp add: admit_def cr_defs joined_def split: option.splits)
    qed
    ultimately show ?thesis by (simp add: cr_hoare_def)
  qed
qed

section \<open>Every event\<close>

text \<open>What the runtime guarantees of the events it hands over.\<close>

fun event_ok :: "event \<Rightarrow> broker \<Rightarrow> bool" where
  "event_ok (Admit i slot now) b \<longleftrightarrow> time b \<le> now \<and> admissible i slot b"
| "event_ok (ClientFrame i payload now) b \<longleftrightarrow> time b \<le> now \<and> payload \<noteq> []"
| "event_ok (ClientClosed i reason now) b \<longleftrightarrow> time b \<le> now"
| "event_ok (Written i e w now) b \<longleftrightarrow> time b \<le> now"
| "event_ok (WriteFailed i e reason now) b \<longleftrightarrow> time b \<le> now"
| "event_ok (UpstreamFrame payload now) b \<longleftrightarrow> time b \<le> now"
| "event_ok (Tick now) b \<longleftrightarrow> time b \<le> now"
| "event_ok (UpstreamClosed reason) b \<longleftrightarrow> True"

lemma handle_core: "cr_total (\<lambda>b. broker_inv b \<and> event_ok e b) (handle e) (\<lambda>_. broker_inv)"
proof (cases e)
  case (Admit i slot now)
  then show ?thesis using cr_pre [OF admit_core] by (auto simp: before_def)
next
  case (ClientFrame i payload now)
  then show ?thesis by (cases "payload = []") (auto simp: cr_hoare_def [of "\<lambda>_. False"] before_def intro: cr_pre [OF client_frame_core])
next
  case (UpstreamClosed reason)
  then show ?thesis by (auto intro!: cr_total_weaken [OF fail_epoch_inv] simp: broker_inv_def)
qed (auto simp: before_def intro: cr_pre [OF client_closed_core] cr_pre [OF written_core] cr_pre [OF write_failed_core]
    cr_pre [OF upstream_frame_core] cr_pre [OF tick_core])

end
