(* ===== verification/Broker_Fifo.thy ===== *)
theory Broker_Fifo
  imports Broker_Events "HOL-Library.Sublist"
begin

text \<open>
  Runs of the broker over a list of events, with the actions the runtime takes after each, and the
  order of a client's commands: in every run, whatever goes wrong in it, the commands dispatched
  for a client followed by those still queued are a subsequence of those received from it.
\<close>

section \<open>Runs\<close>

fun play :: "event list \<Rightarrow> broker \<Rightarrow> action list \<times> broker" where
  "play [] b = ([], b)"
| "play (e # es) b = (case take_actions (snd (handle e b)) of (out, b1) \<Rightarrow> (case play es b1 of (rest, b2) \<Rightarrow> (out @ rest, b2)))"

fun run_ok :: "event list \<Rightarrow> broker \<Rightarrow> bool" where
  "run_ok [] b \<longleftrightarrow> True"
| "run_ok (e # es) b \<longleftrightarrow> event_ok e b \<and> run_ok es (snd (take_actions (snd (handle e b))))"

fun outcomes :: "event list \<Rightarrow> broker \<Rightarrow> (mux_error + unit) list" where
  "outcomes [] b = []"
| "outcomes (e # es) b = fst (handle e b) # outcomes es (snd (take_actions (snd (handle e b))))"

lemma take_actions_inv: "broker_inv b \<Longrightarrow> broker_inv (snd (take_actions b))"
proof -
  assume "broker_inv b"
  then have c: "core (held b) False b" by (simp add: broker_inv_def broker_core_def)
  have "core (held b) False (b\<lparr>actions := []\<rparr>)"
    by (rule core_same [OF c]) (use core_orphan [OF c] in \<open>auto simp: wait_inv_def waiting_def session_of_def owner_of_def\<close>)
  then show ?thesis by (simp add: take_actions_def broker_inv_def broker_core_def held_def)
qed

lemma play_inv: "broker_inv b \<Longrightarrow> run_ok es b \<Longrightarrow> broker_inv (snd (play es b)) \<and> list_all (\<lambda>r. r = Inr ()) (outcomes es b)"
proof (induction es arbitrary: b)
  case (Cons e es)
  then have "broker_inv b \<and> event_ok e b" by simp
  from cr_total_returns [OF handle_core this] obtain b1 where "handle e b = (Inr (), b1)" "broker_inv b1" by (metis old.unit.exhaust)
  moreover from this take_actions_inv have "broker_inv (snd (take_actions b1))" by blast
  ultimately show ?case using Cons.IH [of "snd (take_actions b1)"] Cons.prems
    by (simp split: prod.splits) (metis snd_conv)
qed simp

section \<open>The log\<close>

fun received :: "int \<Rightarrow> action list \<Rightarrow> bytes list" where
  "received i [] = []"
| "received i (CommandPayload j payload # log) = (if j = i then payload # received i log else received i log)"
| "received i (_ # log) = received i log"

fun dispatched :: "int \<Rightarrow> action list \<Rightarrow> bytes list" where
  "dispatched i [] = []"
| "dispatched i (DispatchedPayload j job payload # log) = (if j = i then payload # dispatched i log else dispatched i log)"
| "dispatched i (_ # log) = dispatched i log"

lemma received_append [simp]: "received i (xs @ ys) = received i xs @ received i ys"
  by (induction i xs rule: received.induct) auto

lemma dispatched_append [simp]: "dispatched i (xs @ ys) = dispatched i xs @ dispatched i ys"
  by (induction i xs rule: dispatched.induct) auto

definition waiting_commands :: "int \<Rightarrow> broker \<Rightarrow> bytes list" where
  "waiting_commands i b = (case session_of i b of None \<Rightarrow> [] | Some s \<Rightarrow> map cmd_payload (commands s))"

lemma waiting_commands_cong: "sessions b' = sessions b \<Longrightarrow> waiting_commands i b' = waiting_commands i b"
  by (simp add: waiting_commands_def session_of_def)

text \<open>\<open>x i\<close> are commands taken from the queue of client \<open>i\<close> and not dispatched yet; \<open>h\<close> the log so far.\<close>

definition fifo :: "(int \<Rightarrow> bytes list) \<Rightarrow> action list \<Rightarrow> broker \<Rightarrow> bool" where
  "fifo x h b \<longleftrightarrow> (\<forall>i. i \<noteq> 0 \<longrightarrow> subseq (dispatched i (h @ actions b) @ x i @ waiting_commands i b) (received i (h @ actions b)))"

abbreviation ordered :: "action list \<Rightarrow> broker \<Rightarrow> bool" where
  "ordered \<equiv> fifo (\<lambda>_. [])"

lemma fifo_weaken:
  assumes "fifo x h b" "\<And>i. i \<noteq> 0 \<Longrightarrow> subseq (x' i @ waiting_commands i b') (x i @ waiting_commands i b)" "actions b' = actions b"
  shows "fifo x' h b'"
  unfolding fifo_def
proof (intro allI impI)
  fix i :: int assume i: "i \<noteq> 0"
  have "subseq (dispatched i (h @ actions b) @ x' i @ waiting_commands i b') (dispatched i (h @ actions b) @ x i @ waiting_commands i b)"
    using assms(2) [OF i] by (simp only: subseq_append')
  also have "subseq \<dots> (received i (h @ actions b))" using assms(1) i unfolding fifo_def by blast
  finally show "subseq (dispatched i (h @ actions b') @ x' i @ waiting_commands i b') (received i (h @ actions b'))" by (simp add: assms(3))
qed

interpretation ff: broad_assertion "fifo x h" for x h
proof unfold_locales
  show "fifo x h b'" if "fifo x h b" "settings_of b' = settings_of b" "sessions b' = sessions b" "actions b' = actions b" for b b'
    using that waiting_commands_cong [of b' b] by (simp add: fifo_def)
  show "fifo x h (change_session i f b)" if "fifo x h b" "\<And>s. commands (f s) = commands s" for b i f
  proof (rule fifo_weaken [OF that(1)])
    show "subseq (x j @ waiting_commands j (change_session i f b)) (x j @ waiting_commands j b)" for j
      using that(2) by (cases "session_of i b") (auto simp: waiting_commands_def session_of_change_session)
  qed (simp add: broker_simps)
  show "fifo x h (b\<lparr>sessions := AList.delete i (sessions b)\<rparr>)" if "fifo x h b" for b i
    by (rule fifo_weaken [OF that]) (auto simp: waiting_commands_def session_of_delete split: option.split)
qed (auto simp: fifo_def waiting_commands_def broker_simps)

section \<open>Scheduling keeps the order\<close>

lemma fifo_drop:
  assumes "fifo x h b" "\<And>s. session_of i b = Some s \<Longrightarrow> subseq (map cmd_payload (commands (f s))) (map cmd_payload (commands s))"
  shows "fifo x h (change_session i f b)"
proof (rule fifo_weaken [OF assms(1)])
  show "subseq (x j @ waiting_commands j (change_session i f b)) (x j @ waiting_commands j b)" for j
    unfolding subseq_append'
    using assms(2) by (cases "session_of i b") (auto simp: waiting_commands_def session_of_change_session)
qed (simp add: broker_simps)

lemma subseq_tl: "subseq (tl xs) xs"
  by (cases xs) auto

lemma shift_keeps [frame_intros]: "cr_keeps (fifo x h) (shift_command i)"
  unfolding shift_command_def by (rule keeps_modify, rule fifo_drop) (auto simp: map_tl subseq_tl)

lemma fifo_shift:
  assumes "session_of i b = Some s" "commands s = c # cs" "ordered h b"
  shows "fifo ((\<lambda>_. [])(i := [cmd_payload c])) h (change_session i (\<lambda>s. s\<lparr>commands := tl (commands s)\<rparr>) b)"
  by (rule fifo_weaken [OF assms(3)]) (auto simp: waiting_commands_def session_of_change_session assms(1,2) broker_simps)

lemma fifo_pending: "fifo x h b \<Longrightarrow> ordered h b"
  by (rule fifo_weaken) auto

lemma fifo_dispatched:
  assumes "fifo ((\<lambda>_. [])(i := [c])) h b"
  shows "ordered h (act [DispatchedPayload i job c] b)"
  unfolding fifo_def
proof (intro allI impI)
  fix j :: int assume "j \<noteq> 0"
  with assms have "subseq (dispatched j (h @ actions b) @ ((\<lambda>_. [])(i := [c])) j @ waiting_commands j b) (received j (h @ actions b))"
    unfolding fifo_def by blast
  then show "subseq (dispatched j (h @ actions (act [DispatchedPayload i job c] b)) @ [] @ waiting_commands j (act [DispatchedPayload i job c] b))
      (received j (h @ actions (act [DispatchedPayload i job c] b)))"
    by (auto simp: broker_simps waiting_commands_def)
qed

lemma dispatch_fifo: "cr_hoare (fifo ((\<lambda>_. [])(i := [c])) h) (dispatch i c now pop gen) (\<lambda>_. ordered h) (\<lambda>_. ordered h)"
  unfolding dispatch_def
proof (rule cr_hoare_bind [where R = "\<lambda>_. fifo ((\<lambda>_. [])(i := [c])) h"], rule cr_hoare_lift, assumption, rule fifo_pending, assumption)
  fix d
  have *: "ordered h (act [DispatchedPayload i j c] (b\<lparr>active := t\<rparr>))" if "fifo ((\<lambda>_. [])(i := [c])) h b" for b j t
    by (rule fifo_dispatched, rule ff.inner [OF that]) (simp_all add: settings_of_def)
  show "cr_hoare (fifo ((\<lambda>_. [])(i := [c])) h) (cr_bind (cr_get (\<lambda>b. (new_transaction i c d now pop gen)\<lparr>
         had_multi_client := i = 0 \<and> list_ex (\<lambda>(i, s). \<not> dedicated s) (sessions b),
         job_id := next_write b + 1, maintenance := Maintenance \<in> set (desc_flags d)\<rparr>)) (\<lambda>t.
     cr_then (cr_modify (\<lambda>b. act [DispatchedPayload i (job_id t) c] (b\<lparr>active := Some t\<rparr>)))
     (cr_bind (cr_get (session_of i)) (\<lambda>s. case s of
         Some s \<Rightarrow> if flag ScopeSend t \<and> scope s \<noteq> default_scope
           then cr_then (cr_modify (change_active (\<lambda>t. t\<lparr>t_step := Setup, scoped := True\<rparr>))) (start_write (scope s) now)
           else send_command t now
       | None \<Rightarrow> send_command t now)))) (\<lambda>_. ordered h) (\<lambda>_. ordered h)"
    by (rule cr_hoare_bind_get, rule cr_hoare_then [where R = "ordered h"], rule cr_hoare_modify, erule conjunct1 [THEN *],
        intro cr_intros ff.to_any ff.inner_modify) (simp add: frame_simps)
qed

lemma local_command_fifo [frame_intros]: "cr_keeps (fifo x h) (local_command i s c now)"
proof -
  have drain: "fifo x h (authorize_drain b)" if "fifo x h b" for b
    by (rule ff.inner [OF that]) (simp_all add: authorize_drain_def settings_of_def)
  show ?thesis
    unfolding local_command_def Let_def inbox_for_def by (intro cr_intros frame_intros drain fifo_drop) auto
qed

lemma local_commands_fifo [frame_intros]: "cr_keeps (fifo x h) (local_commands n i now)"
proof (induction n)
  case 0
  show ?case by (simp add: cr_intros)
next
  case (Suc n)
  then show ?case unfolding local_commands.simps by (intro cr_intros frame_intros)
qed

lemma rotate_turn_fifo: "cr_keeps (ordered h) (rotate_turn now)"
proof -
  have pop: "cr_keeps (ordered h) (dispatch 0 c now pop gen)" for c pop gen
  proof (rule cr_weaken [OF dispatch_fifo])
    show "fifo ((\<lambda>_. [])(0 := [c])) h b" if "ordered h b" for b using that by (simp add: fifo_def)
  qed
  have client: "cr_keeps (ordered h) (cr_bind (cr_get (session_of i)) (\<lambda>s. case s of None \<Rightarrow> cr_return False
        | Some s \<Rightarrow> if sync s \<noteq> None then cr_return False
            else (case commands s of [] \<Rightarrow> cr_return False
              | command # _ \<Rightarrow> cr_then (shift_command i)
                  (cr_bind (admit_command i (cmd_payload command) now) (\<lambda>admitted. if \<not> admitted then cr_return False
                   else cr_then (dispatch i (cmd_payload command) now 0 0) (cr_return True))))))" for i
  proof (rule cr_hoare_bind_get, intro cr_hoare_option cr_hoare_if cr_hoare_list cr_hoare_return)
    fix x and s :: session and c cs assume x: "x = Some s" "commands s = c # cs"
    let ?p = "fifo ((\<lambda>_. [])(i := [cmd_payload c])) h"
    have "cr_hoare (\<lambda>b. ordered h b \<and> x = session_of i b) (shift_command i) (\<lambda>_. ?p) (\<lambda>_. ordered h)"
      unfolding shift_command_def by (rule cr_hoare_modify, rule fifo_shift) (use x in auto)
    moreover have "cr_hoare ?p (admit_command i (cmd_payload c) now) (\<lambda>_. ?p) (\<lambda>_. ordered h)"
      by (rule cr_weaken [where P' = ?p, OF ff.admission_keeps]) (auto intro: fifo_pending)
    moreover have "cr_hoare ?p (if \<not> a then cr_return False else cr_then (dispatch i (cmd_payload c) now 0 0) (cr_return True))
        (\<lambda>_. ordered h) (\<lambda>_. ordered h)" for a
      by (intro cr_hoare_if cr_hoare_return cr_hoare_then [OF dispatch_fifo]) (auto intro: fifo_pending)
    ultimately show "cr_hoare (\<lambda>b. ordered h b \<and> x = session_of i b) (cr_then (shift_command i)
        (cr_bind (admit_command i (cmd_payload c) now) (\<lambda>admitted. if \<not> admitted then cr_return False
          else cr_then (dispatch i (cmd_payload c) now 0 0) (cr_return True)))) (\<lambda>_. ordered h) (\<lambda>_. ordered h)"
      by (blast intro: cr_hoare_then cr_hoare_bind)
  qed auto
  show ?thesis
    unfolding rotate_turn_def by (intro cr_intros pop client ff.inner_modify) (auto elim!: ff.inner simp: settings_of_def)
qed

lemma fifo_clock: "fifo x h b \<Longrightarrow> fifo x h (b\<lparr>time := now\<rparr>)"
  by (simp add: fifo_def waiting_commands_def session_of_def)

lemma schedule_fifo [frame_intros]: "cr_keeps (ordered h) (schedule now)"
proof -
  have "cr_keeps (ordered h) (rotate n now)" for n
    by (induction n) (auto intro!: cr_intros rotate_turn_fifo)
  then show ?thesis
    unfolding schedule_def local_session_def by (intro cr_intros frame_intros fifo_clock)
qed

section \<open>Every event keeps the order\<close>

lemma client_frame_fifo: "cr_keeps (ordered h) (client_frame i q now)"
proof -
  let ?new = "\<lambda>b. \<forall>j. j \<noteq> 0 \<longrightarrow> subseq (dispatched j (h @ actions b) @ waiting_commands j b @ (if j = i then [q] else [])) (received j (h @ actions b))"
  have arrive: "?new (act [CommandPayload i q] b)" if "ordered h b" for b
  proof (intro allI impI)
    fix j :: int assume "j \<noteq> 0"
    with that have s: "subseq (dispatched j (h @ actions b) @ waiting_commands j b) (received j (h @ actions b))" by (simp add: fifo_def)
    let ?more = "if j = i then [q] else []"
    have "subseq ((dispatched j (h @ actions b) @ waiting_commands j b) @ ?more) (received j (h @ actions b) @ ?more)"
      using s by (simp only: subseq_append)
    then show "subseq (dispatched j (h @ actions (act [CommandPayload i q] b)) @ waiting_commands j (act [CommandPayload i q] b) @ ?more)
        (received j (h @ actions (act [CommandPayload i q] b)))"
      by (simp add: broker_simps waiting_commands_def split: if_splits)
  qed
  have weak: "ordered h b" if "?new b" for b
    unfolding fifo_def
  proof (intro allI impI)
    fix j :: int assume "j \<noteq> 0"
    then have "subseq (dispatched j (h @ actions b) @ waiting_commands j b @ (if j = i then [q] else [])) (received j (h @ actions b))"
      using that by blast
    moreover have "subseq (dispatched j (h @ actions b) @ [] @ waiting_commands j b)
        (dispatched j (h @ actions b) @ waiting_commands j b @ (if j = i then [q] else []))"
      unfolding subseq_append' append_Nil by (rule prefix_imp_subseq) simp
    ultimately show "subseq (dispatched j (h @ actions b) @ [] @ waiting_commands j b) (received j (h @ actions b))"
      by (rule subseq_order.order_trans [rotated])
  qed
  have store: "ordered h (change_session i (\<lambda>s. s\<lparr>commands := commands s @ [\<lparr>cmd_payload = q, queued_at = now\<rparr>]\<rparr>) b)" if "?new b" for b
  proof (cases "session_of i b")
    case None
    then show ?thesis using weak [OF that] by (simp add: change_session_absent)
  next
    case (Some s)
    have "waiting_commands j (change_session i (\<lambda>s. s\<lparr>commands := commands s @ [\<lparr>cmd_payload = q, queued_at = now\<rparr>]\<rparr>) b)
        = waiting_commands j b @ (if j = i then [q] else [])" for j
      using Some by (simp add: waiting_commands_def session_of_change_session)
    with that show ?thesis by (simp add: fifo_def broker_simps)
  qed
  have step: "cr_hoare ?new (cr_bind (cr_get g) (\<lambda>full. cr_seq [
            if full then remove i r
            else cr_modify (change_session i (\<lambda>s. s\<lparr>commands := commands s @ [\<lparr>cmd_payload = q, queued_at = now\<rparr>]\<rparr>)),
            schedule now])) (\<lambda>_. ordered h) (\<lambda>_. ordered h)" for g r
    by (rule cr_hoare_bind_get, rule cr_hoare_seq_Cons [where R = "ordered h"], intro cr_hoare_if cr_hoare_modify cr_pre [OF ff.remove_keeps])
      (auto intro!: weak store frame_intros cr_intros)
  show ?thesis
    unfolding client_frame_def
    by (intro cr_intros fifo_clock cr_hoare_then [where R = ?new, OF cr_hoare_modify step] arrive)
qed

lemma ordered_joined: "ordered h b \<Longrightarrow> ordered h (b\<lparr>sessions := AList.update i (new_session slot) (sessions b), rotation := r\<rparr>)"
proof (rule fifo_weaken)
  show "subseq ([] @ waiting_commands j (b\<lparr>sessions := AList.update i (new_session slot) (sessions b), rotation := r\<rparr>)) ([] @ waiting_commands j b)" for j
    by (simp add: waiting_commands_def session_of_def update_conv' new_session_def split: option.split)
qed auto

lemma admit_fifo: "cr_keeps (ordered h) (admit i slot now)"
  unfolding admit_def attach_slot_def deliver_orphan_def
  by (intro cr_intros frame_intros fifo_clock ordered_joined ff.closed_one)
    (auto elim!: ff.inner simp: frame_simps)

lemma upstream_frame_fifo: "cr_keeps (ordered h) (upstream_frame q now)"
  unfolding upstream_frame_def upstream_payload_def by (intro cr_intros frame_intros fifo_clock)

lemma tick_fifo: "cr_keeps (ordered h) (tick now)"
  unfolding tick_def by (intro cr_intros frame_intros fifo_clock)

lemma handle_fifo: "cr_keeps (ordered h) (handle e)"
proof (cases e)
  case (Written i e' w now)
  show ?thesis unfolding Written handle.simps written_def by (intro cr_intros frame_intros)
next
  case (WriteFailed i e' r now)
  show ?thesis unfolding WriteFailed handle.simps write_failed_def by (intro cr_intros frame_intros fifo_clock)
next
  case (ClientClosed i r now)
  show ?thesis unfolding ClientClosed handle.simps client_closed_def by (intro cr_intros frame_intros fifo_clock)
next
  case (UpstreamClosed r)
  then show ?thesis by (simp add: frame_intros)
qed (simp_all add: client_frame_fifo admit_fifo upstream_frame_fifo tick_fifo)

lemma play_fifo: "ordered h b \<Longrightarrow> play es b = (log, b') \<Longrightarrow> ordered (h @ log) b'"
proof (induction es arbitrary: h b log)
  case (Cons e es)
  let ?b1 = "snd (handle e b)"
  have "ordered h ?b1" using cr_keeps_snd [OF handle_fifo] Cons.prems(1) .
  then have "ordered (h @ actions ?b1) (?b1\<lparr>actions := []\<rparr>)" by (simp add: fifo_def waiting_commands_def session_of_def)
  moreover obtain rest b2 where "play es (?b1\<lparr>actions := []\<rparr>) = (rest, b2)" by fastforce
  moreover have "log = actions ?b1 @ rest" "b' = b2" using Cons.prems(2) calculation(2) by (simp_all add: take_actions_def)
  ultimately show ?case using Cons.IH by fastforce
qed simp

end
