(* ===== verification/Broker_Drain.thy ===== *)
theory Broker_Drain
  imports Broker_Fifo
begin

text \<open>
  The epoch after its failure: it has no client and no transaction, and the frames the companion
  still sends only serve to see the end of the answer that was outstanding (\<open>response_debt\<close>).
\<close>

lemma ended_fields:
  assumes "ended b"
  shows "failed b" "active b = None" "sessions b = []" "\<not> drain_authorized b" "\<not> drain_requested b" "upstream_writes b = []"
    "\<not> rl_tentative (radio_remote (radio b))" "core None False b"
proof -
  have f: "failed b" and i: "broker_inv b" using assms by (simp_all add: ended_def)
  then have a: "active b = None" "sessions b = []" by (auto simp: broker_inv_def broker_core_def core_def active_inv_def)
  have c: "core None False b" using i a by (simp add: broker_inv_def broker_core_idle)
  show "failed b" "active b = None" "sessions b = []" "core None False b" by fact+
  show "\<not> drain_authorized b" "\<not> drain_requested b" using core_parts(6) [OF c] a by (auto simp: wait_inv_def)
  show "upstream_writes b = []" using core_parts(5) [OF c] a by (simp add: writes_inv_def outstanding_write_def)
  show "\<not> rl_tentative (radio_remote (radio b))" using core_parts(7) [OF c] f by (simp add: lease_inv_def)
qed

lemma ended_cong:
  assumes "ended b" "sessions b' = []" "rotation b' = rotation b" "dedicated_slots b' = dedicated_slots b" "config b' = config b"
    "self_key b' = self_key b" "failed b'" "active b' = None" "upstream_writes b' = []" "\<not> drain_authorized b'" "\<not> drain_requested b'"
    "ring_ok (radio_ring (radio b'))" "signing_inv (signing b')" "\<not> rl_tentative (radio_remote (radio b'))"
    "\<And>item. orphan b' = Some item \<Longrightarrow> item_ok item"
  shows "ended b'"
proof -
  note e = ended_fields [OF assms(1)]
  have o: "owner_of b' = owner_of b" by (simp add: owner_of_def e(2) assms(8))
  have s: "sessions b' = sessions b" by (simp add: e(3) assms(2))
  have "core None False b'"
    using e assms(2-15) structure_cong [OF s assms(3,4)] queues_cong [OF s assms(4,5) o]
    by (simp add: core_def env_inv_def active_inv_def writes_inv_def outstanding_write_def lease_inv_def wait_inv_def waiting_def session_of_def)
  then show ?thesis using assms(7,8) by (simp add: ended_def broker_inv_def broker_core_idle)
qed

lemma ended_env: "ended b \<Longrightarrow> ring_ok (radio_ring (radio b)) \<and> signing_inv (signing b) \<and> 6 \<le> length (self_key b)
    \<and> (\<forall>item. orphan b = Some item \<longrightarrow> item_ok item)"
  using ended_fields(8) [of b] by (auto simp: core_def env_inv_def)

text \<open>The failed epoch with the answer \<open>d\<close> still outstanding.\<close>

definition owing :: "transaction option \<Rightarrow> broker \<Rightarrow> bool" where
  "owing d b \<longleftrightarrow> ended b \<and> response_debt b = d"

lemma owing_cong:
  assumes "owing d b" "response_debt b' = response_debt b" "sessions b' = []" "rotation b' = rotation b" "dedicated_slots b' = dedicated_slots b"
    "config b' = config b" "self_key b' = self_key b" "failed b'" "active b' = None" "upstream_writes b' = []" "\<not> drain_authorized b'"
    "\<not> drain_requested b'" "ring_ok (radio_ring (radio b'))" "signing_inv (signing b')" "\<not> rl_tentative (radio_remote (radio b'))"
    "\<And>item. orphan b' = Some item \<Longrightarrow> item_ok item"
  shows "owing d b'"
  using assms ended_cong [of b b'] by (simp add: owing_def)

lemma owing_fields:
  assumes "owing d b"
  shows "failed b" "active b = None" "sessions b = []" "\<not> drain_authorized b" "\<not> drain_requested b" "upstream_writes b = []"
    "\<not> rl_tentative (radio_remote (radio b))" "response_debt b = d"
  using assms ended_fields [of b] by (auto simp: owing_def)

lemma owing_env: "owing d b \<Longrightarrow> ring_ok (radio_ring (radio b)) \<and> signing_inv (signing b) \<and> 6 \<le> length (self_key b)
    \<and> (\<forall>item. orphan b = Some item \<longrightarrow> item_ok item)"
  using ended_env [of b] by (simp add: owing_def)

lemma owing_client: "client_assertion (owing d)"
proof
  have none: "session_of i b = None" if "owing d b" for i b using owing_fields(3) [OF that] by (simp add: session_of_def)
  have slot: "owing d (change_slot k f b)" if "owing d b" "\<And>slot. slot_of k b = Some slot \<Longrightarrow> slot_session (f slot) = slot_session slot"
    "\<And>slot. slot_of k b = Some slot \<Longrightarrow> slot_inv (config b) slot \<Longrightarrow> slot_inv (config b) (f slot)" for b k f
    using that broker_core_change_slot [of False False b k f] by (simp add: owing_def ended_def broker_inv_def broker_simps)
  show "structure_inv b \<and> queues_inv b" if "owing d b" for b using ic.delivery [of b] that by (simp add: owing_def ended_def)
  show "cr_total (owing d) (remove i reason) (\<lambda>_. owing d)" for i reason
    by (rule cr_at) (simp add: cr_hoare_def remove_eq none)
  show "owing d (sent_frame i payload b)" if "owing d b" "session_of i b = Some s" for b i s payload
    using that none by simp
  show "owing d (change_session i (\<lambda>s. s\<lparr>hint_write_id := w\<rparr>) b)" if "owing d b" for b i w
    using that none by (simp add: change_session_absent)
  show "owing d (clear_sync i b)" if "owing d b" for b i
    using that none by (simp add: clear_sync_def change_session_absent)
  show "owing d (shift_inbox i s b)" if "owing d b" for b i s
    using that ic.shifted [of b i s] by (auto simp: owing_def ended_def shift_inbox_def broker_simps split: option.splits)
  show "owing d (change_session i (\<lambda>s. s\<lparr>inbox := inbox s @ [q]\<rparr>) b)" if "owing d b" for b i q
    using that none by (simp add: change_session_absent)
  show "owing d (change_slot k (\<lambda>_. snd (enqueue_offline q (offline_queue_size (config b)) slot)) b)"
    if "owing d b" "slot_of k b = Some slot" "item_ok q" for b k slot q
    using that ic.slotted [of b k slot q] by (simp add: owing_def ended_def broker_simps)
qed

interpretation ec: client_assertion "owing d" for d
  by (rule owing_client)

section \<open>Pushes and inbox reads after the failure\<close>

lemma owing_radio: "owing d b \<Longrightarrow> ring_ok (radio_ring r) \<Longrightarrow> \<not> rl_tentative (radio_remote r) \<Longrightarrow> owing d (b\<lparr>radio := r\<rparr>)"
  by (rule owing_cong [of _ b]) (simp_all add: owing_fields owing_env)

lemma push_ended:
  assumes "item_ok q"
  shows "cr_total (owing d) (push q now) (\<lambda>_. owing d)"
proof -
  have hint: "cr_total (owing d) record_availability_hint (\<lambda>_. owing d)"
  proof -
    have "owing d (b\<lparr>generation := n\<rparr>)" if "owing d b" for b n
      by (rule owing_cong [OF that]) (use that in \<open>simp_all add: owing_fields owing_env\<close>)
    then show ?thesis
      unfolding record_availability_hint_def
      by (intro cr_hoare_seq_Cons [where R = "owing d"] cr_hoare_modify cr_hoare_seq_Nil ec.notify_keeps) (simp_all add: owing_fields)
  qed
  have confirmed: "cr_total (owing d) (on_ring (ring_confirm q)) (\<lambda>_. owing d)" if code: "q ! 0 = PUSH_SEND_CONFIRMED"
  proof (rule cr_at)
    fix b assume b: "owing d b"
    obtain x r where r: "ring_confirm q (radio_ring (radio b)) = (Inr x, r)" "ring_ok r"
      using confirm_ring [OF _ item_ok_lengths(5) [OF assms code] code] owing_env [OF b] by metis
    then have "owing d (b\<lparr>radio := (radio b)\<lparr>radio_ring := r\<rparr>\<rparr>)" using b by (intro owing_radio) (simp_all add: owing_fields)
    with r show "cr_total (\<lambda>b'. b' = b) (on_ring (ring_confirm q)) (\<lambda>_. owing d)" by (simp add: cr_hoare_def on_ring_def)
  qed
  have matched: "cr_total (owing d) (on_remote (lease_match q now)) (\<lambda>_. owing d)" if code: "q ! 0 \<in> set result_push_codes"
  proof (rule cr_at)
    fix b assume b: "owing d b"
    have free: "leases_for None 0 (radio b) (new_signing 0)" using owing_fields(7) [OF b] by (simp add: new_signing_def)
    then obtain x l where l: "lease_match q now (radio_remote (radio b)) = (Inr x, l)" "\<not> rl_tentative l"
      using lease_match_run [OF assms code free, of now] by auto
    then have "owing d (b\<lparr>radio := (radio b)\<lparr>radio_remote := l\<rparr>\<rparr>)" using b by (intro owing_radio) (simp_all add: owing_env)
    with l show "cr_total (\<lambda>b'. b' = b) (on_remote (lease_match q now)) (\<lambda>_. owing d)" by (simp add: cr_hoare_def on_remote_def)
  qed
  have self: "cr_total (owing d) (self_telemetry q) (\<lambda>x b. owing d b \<and> \<not> x)"
    by (rule cr_at) (simp add: cr_hoare_def self_telemetry_def cr_defs owing_fields)
  have result: "cr_total (owing d) (cr_bind (self_telemetry q) (\<lambda>self. if self then transaction_response q now
        else cr_bind (on_remote (lease_match q now)) (\<lambda>owner. case owner of None \<Rightarrow> cr_return ()
          | Some i \<Rightarrow> emit_quietly i q))) (\<lambda>_. owing d)" if "q ! 0 \<in> set result_push_codes"
  proof (rule cr_hoare_bind [OF self])
    fix x
    have "cr_total (owing d) (cr_bind (on_remote (lease_match q now)) (\<lambda>owner. case owner of None \<Rightarrow> cr_return ()
          | Some i \<Rightarrow> emit_quietly i q)) (\<lambda>_. owing d)"
      by (rule cr_hoare_bind [OF matched [OF that]]) (intro cr_hoare_option cr_hoare_return ec.emit_quietly_keeps)
    then show "cr_total (\<lambda>b. owing d b \<and> \<not> x) (if x then transaction_response q now
        else cr_bind (on_remote (lease_match q now)) (\<lambda>owner. case owner of None \<Rightarrow> cr_return ()
          | Some i \<Rightarrow> emit_quietly i q)) (\<lambda>_. owing d)"
      by (cases x) (auto simp: cr_hoare_def [of "\<lambda>_. False"])
  qed
  show ?thesis
    unfolding push_def
    by (intro cr_hoare_if hint result ec.broadcast_keeps cr_hoare_bind [OF confirmed ec.broadcast_keeps])
qed

lemma pop_result_ended:
  assumes "item_ok q"
  shows "cr_total (owing d) (pop_result t q) (\<lambda>_. owing d)"
proof -
  have drain: "owing d (settle_drain t b)" "owing d (continue_drain b)" if b: "owing d b" for b
  proof -
    have off: "owing d (b\<lparr>drain_authorized := False, drain_requested := False\<rparr>)" "owing d (b\<lparr>drain_requested := False\<rparr>)"
      by (rule owing_cong [OF b]; simp add: owing_fields [OF b] owing_env [OF b])+
    then show "owing d (settle_drain t b)" "owing d (continue_drain b)"
      by (simp_all add: settle_drain_def continue_drain_def owing_fields(3) [OF b])
  qed
  have none: "session_of i b = None" if "owing d b" for i b using owing_fields(3) [OF that] by (simp add: session_of_def)
  have rep: "cr_total (owing d) (repeated_message q) (\<lambda>_. owing d)"
  proof (rule cr_at)
    fix b assume b: "owing d b"
    have "owing d (b\<lparr>deduplicator := h\<rparr>)" for h
      by (rule owing_cong [OF b]) (use b in \<open>simp_all add: owing_fields owing_env\<close>)
    with b show "cr_total (\<lambda>b'. b' = b) (repeated_message q) (\<lambda>_. owing d)"
      by (auto simp: cr_hoare_def repeated_message_def split: prod.split)
  qed
  have multi: "cr_total (owing d) (cr_bind (cr_get multi_clients) (\<lambda>ids.
       if ids = [] \<and> had_multi_client t then cr_modify (\<lambda>b. b\<lparr>orphan := Some q\<rparr>)
       else cr_each ids (\<lambda>i. enqueue_multi_client i q))) (\<lambda>_. owing d)"
  proof (intro cr_hoare_bind_get cr_hoare_if)
    fix ids
    show "cr_total (\<lambda>b. owing d b \<and> ids = multi_clients b) (cr_modify (\<lambda>b. b\<lparr>orphan := Some q\<rparr>)) (\<lambda>_. owing d)"
    proof (rule cr_hoare_modify)
      fix b assume b: "owing d b \<and> ids = multi_clients b"
      then have e: "owing d b" by simp
      show "owing d (b\<lparr>orphan := Some q\<rparr>)"
        by (rule owing_cong [OF e]) (use assms in \<open>simp_all add: owing_fields [OF e] owing_env [OF e]\<close>)
    qed
    show "cr_total (\<lambda>b. owing d b \<and> ids = multi_clients b) (cr_each ids (\<lambda>i. enqueue_multi_client i q)) (\<lambda>_. owing d)"
      by (rule cr_pre [where P' = "owing d"], rule cr_hoare_each, rule cr_pre [OF ec.enqueue_multi_keeps [OF assms]]) (auto simp: none)
  qed
  have empty: "cr_total (owing d) (cr_bind (cr_get (\<lambda>b. map fst (sessions b))) (\<lambda>ids. cr_each ids (pop_empty t))) (\<lambda>_. owing d)"
    by (rule cr_hoare_bind_get, rule cr_pre [where P' = "owing d"], rule cr_hoare_each, rule ec.pop_empty_keeps, simp)
  have modify: "cr_total (owing d) (cr_modify (settle_drain t)) (\<lambda>_. owing d)" "cr_total (owing d) (cr_modify continue_drain) (\<lambda>_. owing d)"
    by (rule cr_hoare_modify, erule drain)+
  have nil: "cr_total (owing d) (cr_seq []) (\<lambda>_. owing d)" by (rule cr_hoare_seq_Nil)
  show ?thesis
    unfolding pop_result_def
    by (rule cr_hoare_if [OF cr_hoare_seq_Cons [OF empty cr_hoare_seq_Cons [OF modify(1) nil]] cr_hoare_bind [OF rep]])
      (intro cr_hoare_if modify(2) cr_hoare_seq_Cons [OF ec.fan_out_keeps [OF assms]] cr_hoare_seq_Cons [OF multi] cr_hoare_seq_Cons [OF modify(2) nil])
qed

end
