(* ===== verification/Broker_Props.thy ===== *)
theory Broker_Props
  imports Broker_Drain
begin

text \<open>
  What the broker promises: no event raises, every bound of the configuration holds, a waiting
  client is always served, commands stay in order and within the policy, replies reach their owner
  only, and a failed epoch ends completely and hands clean leftovers to the next one.
\<close>

section \<open>A fresh broker\<close>

definition leftovers_ok :: "config \<Rightarrow> (int \<times> dedicated_slot) list \<Rightarrow> radio_state \<Rightarrow> bytes option \<Rightarrow> bool" where
  "leftovers_ok c slots r left \<longleftrightarrow> distinct (map fst slots) \<and> list_all (\<lambda>(k, slot). slot_inv c slot \<and> slot_session slot = None) slots
     \<and> ring_ok (radio_ring r) \<and> \<not> rl_tentative (radio_remote r) \<and> (case left of None \<Rightarrow> True | Some item \<Rightarrow> item_ok item)"

lemma new_broker_inv:
  assumes "validate_config c = Inr ()" "6 \<le> length key" "leftovers_ok c slots r left"
  shows "broker_inv (new_broker e key c now left slots r h)"
proof -
  let ?b = "new_broker e key c now left slots r h"
  have s: "session_of i ?b = None" for i by (simp add: session_of_def new_broker_def)
  have slot: "slot_inv c sl \<and> slot_session sl = None" if "slot_of k ?b = Some sl" for k sl
  proof -
    have "(k, sl) \<in> set slots" using that by (auto simp: slot_of_def new_broker_def dest: map_of_SomeD)
    with assms(3) show ?thesis by (auto simp: leftovers_ok_def list_all_iff)
  qed
  have f: "rotation ?b = [0]" "sessions ?b = []" "dedicated_slots ?b = slots" "config ?b = c" "active ?b = None" "upstream_writes ?b = []"
    "radio ?b = r" "orphan ?b = left" "self_key ?b = key" "\<not> failed ?b" "\<not> drain_requested ?b" "\<not> drain_authorized ?b" "signing ?b = new_signing (signing_timeout c)"
    by (simp_all add: new_broker_def)
  have "structure_inv ?b" using s assms(3) slot by (auto simp: structure_inv_def f leftovers_ok_def)
  moreover have "queues_inv ?b" using s slot by (simp add: queues_inv_def f)
  moreover have "env_inv ?b" using assms by (auto simp: env_inv_def f leftovers_ok_def signing_inv_new split: option.splits)
  moreover have "lease_inv None ?b" using assms(3) by (simp add: lease_inv_def f leftovers_ok_def) (simp add: new_signing_def)
  ultimately show ?thesis
    by (simp add: broker_inv_def broker_core_idle core_def active_inv_def writes_inv_def outstanding_write_def wait_inv_def waiting_def f s)
qed

definition example_broker :: broker where
  "example_broker = new_broker 1 (replicate 32 7) default_config 0 None [] new_radio_state new_dedup"

lemma example_leftovers: "leftovers_ok default_config [] new_radio_state None" "validate_config default_config = Inr ()"
  by (simp_all add: leftovers_ok_def new_radio_state_def ring_ok_new lease_clear_def validate_config_def default_config_def
      milliseconds_def seconds_def Let_def)

lemma example_inv: "broker_inv example_broker" "time example_broker = 0"
  unfolding example_broker_def by (rule new_broker_inv) (simp_all add: example_leftovers, simp add: new_broker_def)

definition example_events :: "event list" where
  "example_events = [Admit 4 None 1000, ClientFrame 4 [CMD_GET_DEVICE_TIME] 2000, Written 0 1 2 3000,
     UpstreamFrame [RESP_CURRENT_TIME, 1, 2, 3, 4] 4000, UpstreamClosed ''closed'']"

lemma example_run: "run_ok example_events example_broker"
  by code_simp

section \<open>No exception, and every bound\<close>

text \<open>C2. Whatever happens on its connections, the broker handles the event without an exception and
  keeps its invariant: the rotation holds every client exactly once, every queue is within its
  configured bound, at most the write of the transaction in flight is outstanding upstream, and the
  shared leases agree with the command in flight.\<close>

theorem broker_never_raises:
  assumes "broker_inv b" "event_ok e b"
  shows "\<exists>b'. handle e b = (Inr (), b') \<and> broker_inv b'"
  using cr_total_returns [OF handle_core, of b e] assms by (metis old.unit.exhaust)

theorem broker_never_raises_witness:
  "\<exists>b'. handle (Admit 4 None 1000) example_broker = (Inr (), b') \<and> broker_inv b'"
  by (rule broker_never_raises)
    (simp_all add: example_inv, simp add: admissible_def example_broker_def new_broker_def session_of_def)

text \<open>C12. In every run from a fresh broker no event raises and no queue ever exceeds its budget: the
  frames a client has not written yet, its inbox, its commands including the one in flight and an
  inbox wait, each dedicated slot's history, and one write to the companion.\<close>

theorem broker_run_bounds:
  assumes "validate_config c = Inr ()" "6 \<le> length key" "leftovers_ok c slots r left"
    "run_ok es (new_broker e key c now left slots r h)" "play es (new_broker e key c now left slots r h) = (log, b)"
  shows "list_all (\<lambda>r. r = Inr ()) (outcomes es (new_broker e key c now left slots r h))
    \<and> (\<forall>i s. session_of i b = Some s \<longrightarrow> length (writes s) \<le> output_frames (config b) \<and> length (inbox s) \<le> inbox_entries (config b)
      \<and> length (commands s) + of_bool (sync s \<noteq> None) + of_bool (owner_of b = Some i) \<le> command_limit (config b))
    \<and> (\<forall>k slot. slot_of k b = Some slot \<longrightarrow> length (slot_queue slot) \<le> offline_queue_size (config b))
    \<and> length (upstream_writes b) \<le> 1"
proof (intro conjI)
  have p: "broker_inv b \<and> list_all (\<lambda>r. r = Inr ()) (outcomes es (new_broker e key c now left slots r h))"
    using play_inv [OF new_broker_inv [OF assms(1-3)] assms(4)] assms(5) by simp
  then show "list_all (\<lambda>r. r = Inr ()) (outcomes es (new_broker e key c now left slots r h))" by blast
  have c: "core (held b) False b" using p by (simp add: broker_inv_def broker_core_def)
  show "\<forall>i s. session_of i b = Some s \<longrightarrow> length (writes s) \<le> output_frames (config b) \<and> length (inbox s) \<le> inbox_entries (config b)
      \<and> length (commands s) + of_bool (sync s \<noteq> None) + of_bool (owner_of b = Some i) \<le> command_limit (config b)"
    using core_parts(2) [OF c] unfolding queues_inv_def session_inv_def by blast
  show "\<forall>k slot. slot_of k b = Some slot \<longrightarrow> length (slot_queue slot) \<le> offline_queue_size (config b)"
    using core_parts(2) [OF c] unfolding queues_inv_def slot_inv_def by blast
  have "map fst (upstream_writes b) = outstanding_write b" using core_parts(5) [OF c] by (simp add: writes_inv_def)
  then have "length (upstream_writes b) = length (outstanding_write b)" by (metis length_map)
  then show "length (upstream_writes b) \<le> 1" by (simp add: outstanding_write_def split: option.split)
qed

theorem broker_run_bounds_witness:
  "list_all (\<lambda>r. r = Inr ()) (outcomes example_events example_broker)"
  using broker_run_bounds [of default_config "replicate 32 7" "[]" new_radio_state None example_events 1 0 new_dedup
      "fst (play example_events example_broker)" "snd (play example_events example_broker)"] example_run
  by (simp add: example_leftovers flip: example_broker_def)

section \<open>Waiting clients are served\<close>

text \<open>C5. Once the broker has scheduled, a client that waits for a message is never left alone: unless
  the epoch has failed, a transaction is in flight, whose end schedules again, and an inbox read is
  in flight or due.\<close>

theorem waiting_client_served:
  assumes "broker_inv b" "time b \<le> now" "schedule now b = (r, b')" "waiting b'" "\<not> failed b'"
  shows "r = Inr () \<and> active b' \<noteq> None \<and> (drain_requested b' \<or> owner_of b' = Some 0)"
proof (intro conjI)
  from cr_total_returns [OF schedule_scheduled [of False now], of b] assms(1,2)
  obtain x where x: "schedule now b = (Inr x, b')" "scheduled False b'"
    using assms(3) by (auto simp: broker_inv_def)
  then show "r = Inr ()" using assms(3) by simp
  have "core (held b') False b'" using x(2) by (simp add: scheduled_def broker_core_def)
  from core_parts(6) [OF this] assms(4) show d: "drain_requested b' \<or> owner_of b' = Some 0" by (simp add: wait_inv_def)
  then show "active b' \<noteq> None" using x(2) assms(5) by (auto simp: scheduled_def owner_of_def)
qed

definition waiting_events :: "event list" where
  "waiting_events = [Admit 4 None 1000, ClientFrame 4 [CMD_SYNC_NEXT_MESSAGE] 2000]"

theorem waiting_client_served_witness:
  "active (snd (schedule 3000 (snd (play waiting_events example_broker)))) \<noteq> None"
proof -
  let ?b = "snd (play waiting_events example_broker)"
  have run: "run_ok waiting_events example_broker \<and> time ?b \<le> 3000 \<and> \<not> failed (snd (schedule 3000 ?b))" by code_simp
  have "case session_of 4 (snd (schedule 3000 ?b)) of None \<Rightarrow> False | Some s \<Rightarrow> sync s \<noteq> None" by code_simp
  then have w: "waiting (snd (schedule 3000 ?b))" unfolding waiting_def by (auto split: option.splits)
  have "broker_inv ?b" using play_inv [OF example_inv(1)] run by blast
  then show ?thesis using waiting_client_served [of ?b 3000 "fst (schedule 3000 ?b)" "snd (schedule 3000 ?b)"] run w by simp
qed

section \<open>Order of commands\<close>

lemma play_taken: "play es b = (log, b') \<Longrightarrow> actions b = [] \<Longrightarrow> actions b' = []"
  by (induction es arbitrary: b log) (auto simp: take_actions_def split: prod.splits)

text \<open>C3. First in, first out: whatever events a broker sees and however they end, the commands
  dispatched for a client, followed by those it still has queued, are a subsequence of the commands
  received from it. None is invented, repeated or overtaken; what is missing was answered locally or
  refused.\<close>

theorem commands_in_order:
  assumes "play es (new_broker e key c now left slots r h) = (log, b)" "i \<noteq> 0"
  shows "subseq (dispatched i log @ waiting_commands i b) (received i log)"
proof -
  have "ordered [] (new_broker e key c now left slots r h)"
    by (simp add: fifo_def new_broker_def waiting_commands_def session_of_def)
  from play_fifo [OF this assms(1)] assms(2) have "ordered log b" by simp
  moreover have "actions b = []" by (rule play_taken [OF assms(1)]) (simp add: new_broker_def)
  ultimately show ?thesis using assms(2) by (simp add: fifo_def)
qed


definition queueing_events :: "event list" where
  "queueing_events = [Admit 4 None 1000, ClientFrame 4 [CMD_GET_DEVICE_TIME] 2000, ClientFrame 4 [CMD_GET_BATT_AND_STORAGE] 2500]"

theorem commands_in_order_witness:
  "subseq [[CMD_GET_DEVICE_TIME], [CMD_GET_BATT_AND_STORAGE]] (received 4 (fst (play queueing_events example_broker)))"
proof -
  have "dispatched 4 (fst (play queueing_events example_broker)) = [[CMD_GET_DEVICE_TIME]]
    \<and> waiting_commands 4 (snd (play queueing_events example_broker)) = [[CMD_GET_BATT_AND_STORAGE]]"
    by code_simp
  then show ?thesis
    using commands_in_order [of queueing_events 1 "replicate 32 7" default_config 0 None "[]" new_radio_state new_dedup
        "fst (play queueing_events example_broker)" "snd (play queueing_events example_broker)" 4]
    by (simp flip: example_broker_def)
qed

section \<open>Policy\<close>

text \<open>What may be dispatched: the broker's own inbox read, or a client's command that the validator
  accepts, that is not one of the two commands the broker serves itself, and that the settings allow.\<close>

definition permitted :: "config \<Rightarrow> action \<Rightarrow> bool" where
  "permitted c a = (case a of DispatchedPayload owner job payload \<Rightarrow>
     if owner = 0 then payload = [CMD_SYNC_NEXT_MESSAGE] else head_passes c payload | _ \<Rightarrow> True)"

definition within_policy :: "config \<Rightarrow> broker \<Rightarrow> bool" where
  "within_policy c b \<longleftrightarrow> config b = c \<and> list_all (permitted c) (actions b)"

interpretation pl: broad_assertion "within_policy c" for c
  by unfold_locales (auto simp: within_policy_def permitted_def settings_of_def broker_simps)

lemma dispatch_permitted:
  assumes "permitted c (DispatchedPayload owner 0 payload)"
  shows "cr_keeps (within_policy c) (dispatch owner payload now pop gen)"
proof -
  have "within_policy c (act [DispatchedPayload owner j payload] (b\<lparr>active := t\<rparr>))" if "within_policy c b" for b j t
    using that assms by (simp add: within_policy_def permitted_def broker_simps)
  then show ?thesis
    unfolding dispatch_def by (intro cr_intros pl.to_any pl.inner_modify) (simp_all add: frame_simps)
qed

lemma shift_permitted: "cr_keeps (within_policy c) (shift_command i)"
  unfolding shift_command_def by (rule keeps_modify) (simp add: within_policy_def broker_simps)

lemma rotate_turn_permitted:
  "cr_hoare (\<lambda>b. rotating now p (Suc n) b \<and> within_policy c b) (rotate_turn now) (\<lambda>_. within_policy c) (\<lambda>_ _. True)"
proof (rule cr_at)
  fix b assume b: "rotating now p (Suc n) b \<and> within_policy c b"
  obtain i os where r: "rotation b = i # os" using b by (cases "rotation b") (auto simp: rotating_def)
  have turn: "cr_keeps (within_policy c) (cr_modify (\<lambda>b. b\<lparr>rotation := os @ [i]\<rparr>))"
    by (rule pl.inner_modify) (simp add: settings_of_def)
  let ?b = "b\<lparr>rotation := os @ [i]\<rparr>"
  have k: "within_policy c ?b" using b by (simp add: within_policy_def)
  show "cr_hoare (\<lambda>b'. b' = b) (rotate_turn now) (\<lambda>_. within_policy c) (\<lambda>_ _. True)"
  proof (cases "i = 0")
    case True
    have "cr_keeps (within_policy c) (cr_bind (cr_get (\<lambda>b. drain_requested b \<and> sessions b \<noteq> [])) (\<lambda>pop. if \<not> pop then cr_return False
        else cr_then (cr_modify (\<lambda>b. b\<lparr>drain_requested := False, pop_sequence := pop_sequence b + 1\<rparr>))
          (cr_bind (cr_get (\<lambda>b. (pop_sequence b, generation b))) (\<lambda>(pop, gen).
           cr_then (dispatch 0 [CMD_SYNC_NEXT_MESSAGE] now pop gen) (cr_return True)))))"
      by (intro cr_intros dispatch_permitted pl.inner_modify) (simp_all add: permitted_def settings_of_def)
    then show ?thesis using True r k by (simp add: rotate_turn_def cr_defs first_of_def cr_hoare_def split: prod.splits sum.splits)
  next
    case False
    have "cr_hoare (\<lambda>b'. b' = ?b) (cr_bind (cr_get (session_of i)) (\<lambda>s. case s of None \<Rightarrow> cr_return False
        | Some s \<Rightarrow> if sync s \<noteq> None then cr_return False
            else (case commands s of [] \<Rightarrow> cr_return False
              | command # _ \<Rightarrow> cr_then (shift_command i)
                  (cr_bind (admit_command i (cmd_payload command) now) (\<lambda>admitted. if \<not> admitted then cr_return False
                   else cr_then (dispatch i (cmd_payload command) now 0 0) (cr_return True)))))) (\<lambda>_. within_policy c) (\<lambda>_ _. True)"
    proof (rule cr_hoare_bind_get, intro cr_hoare_option cr_hoare_if cr_hoare_list cr_hoare_return)
      fix x and s :: session and cmd cs assume x: "x = Some s" "\<not> sync s \<noteq> None" "commands s = cmd # cs"
      show "cr_hoare (\<lambda>b'. b' = ?b \<and> x = session_of i b') (cr_then (shift_command i)
                  (cr_bind (admit_command i (cmd_payload cmd) now) (\<lambda>admitted. if \<not> admitted then cr_return False
                   else cr_then (dispatch i (cmd_payload cmd) now 0 0) (cr_return True)))) (\<lambda>_. within_policy c) (\<lambda>_ _. True)"
      proof (cases "x = session_of i b")
        case True
        have "ready (config b) (client_view i b)" using b r by (auto simp: rotating_def)
        then have "head_passes (config b) (cmd_payload cmd)" using True x by (simp add: ready_def client_view_def split: option.splits)
        then have "permitted c (DispatchedPayload i 0 (cmd_payload cmd))" using b False by (simp add: permitted_def within_policy_def)
        then have "cr_keeps (within_policy c) (cr_then (shift_command i)
                  (cr_bind (admit_command i (cmd_payload cmd) now) (\<lambda>admitted. if \<not> admitted then cr_return False
                   else cr_then (dispatch i (cmd_payload cmd) now 0 0) (cr_return True))))"
          by (intro cr_intros shift_permitted pl.admission_keeps dispatch_permitted)
        then show ?thesis by (rule cr_weaken) (use k in auto)
      qed (auto simp: cr_hoare_def session_of_def)
    qed (use k in auto)
    then show ?thesis using False r by (simp add: rotate_turn_def cr_defs first_of_def cr_hoare_def split: prod.splits sum.splits)
  qed
qed

lemma rotate_permitted:
  "cr_hoare (\<lambda>b. rotating now p n b \<and> within_policy c b) (rotate n now) (\<lambda>_. within_policy c) (\<lambda>_ _. True)"
proof (induction n)
  case 0
  show ?case by (auto intro: cr_hoare_return)
next
  case (Suc n)
  have turn: "cr_hoare (\<lambda>b. rotating now p (Suc n) b \<and> within_policy c b) (rotate_turn now)
      (\<lambda>d b. (if d then busy p b else rotating now p n b) \<and> within_policy c b) (\<lambda>_ _. True)"
    by (rule cr_weaken [OF cr_conj [OF turn_rotates rotate_turn_permitted]]) auto
  have "cr_hoare (\<lambda>b. (if d then busy p b else rotating now p n b) \<and> within_policy c b) (cr_when (\<not> d) (rotate n now))
      (\<lambda>_. within_policy c) (\<lambda>_ _. True)" for d
    using Suc by (cases d) (auto simp: cr_when_def intro: cr_hoare_return)
  then show ?case unfolding rotate.simps by (rule cr_hoare_bind [OF turn])
qed

lemma local_permitted: "cr_keeps (within_policy c) (local_session now i)"
proof -
  have drain: "within_policy c (authorize_drain b)" if "within_policy c b" for b
    by (rule pl.inner [OF that]) (simp_all add: authorize_drain_def settings_of_def)
  have one: "cr_keeps (within_policy c) (local_command i s cmd now)" for s cmd
    unfolding local_command_def Let_def inbox_for_def
    by (intro cr_intros frame_intros drain shift_permitted pl.touched) auto
  have "cr_keeps (within_policy c) (local_commands n i now)" for n
    by (induction n) (auto intro!: cr_intros one)
  then show ?thesis unfolding local_session_def by (intro cr_intros)
qed


lemma schedule_still:
  "failed b \<or> (\<exists>t. active b = Some t \<and> maintenance t) \<Longrightarrow> schedule now b = (Inr (), if failed b then b else b\<lparr>time := now\<rparr>)"
  by (auto simp: schedule_def cr_defs)

text \<open>C13. The scheduler, the only caller of \<open>dispatch\<close>, forwards to the companion nothing outside the
  policy: every command it dispatches passed the validator at that moment, is not an inbox read or a
  scope command of a client, and is not a private-key or factory-reset command the settings forbid;
  under the owner number 0 it dispatches only the broker's own inbox read.\<close>

theorem schedule_within_policy:
  assumes "broker_inv b" "time b \<le> now" "actions b = []" "schedule now b = (Inr (), b')"
    "DispatchedPayload owner job payload \<in> set (actions b')"
  shows "if owner = 0 then payload = [CMD_SYNC_NEXT_MESSAGE] else head_passes (config b) payload"
proof -
  have start: "within_policy (config b) (b\<lparr>time := now\<rparr>)" using assms(3) by (simp add: within_policy_def)
  have local: "cr_keeps (within_policy (config b)) (cr_bind (cr_get (\<lambda>b. map fst (sessions b))) (\<lambda>ids. cr_each ids (local_session now)))"
    by (intro cr_intros local_permitted)
  have "within_policy (config b) b'"
  proof (cases "failed b \<or> (\<exists>t. active b = Some t \<and> maintenance t)")
    case True
    then have "actions b' = [] \<and> config b' = config b" using assms(3,4) by (auto simp: schedule_still split: if_splits)
    then show ?thesis by (simp add: within_policy_def)
  next
    case False
    let ?b = "b\<lparr>time := now\<rparr>"
    have calm: "calm ?b" and core: "broker_core False False ?b"
      using False assms(1,2) by (auto simp: calm_def broker_inv_def broker_core_time)
    from cr_total_returns [OF local_pass, of False ?b ?b now] core calm obtain b1 where
      l: "cr_bind (cr_get (\<lambda>b. map fst (sessions b))) (\<lambda>ids. cr_each ids (local_session now)) ?b = (Inr (), b1)"
      and p1: "passed False ?b [] b1" by auto
    have w1: "within_policy (config b) b1" using cr_hoare_Inr [OF local start l] .
    show ?thesis
    proof (cases "active b1")
      case (Some t)
      with False l assms(4) w1 show ?thesis by (auto simp: schedule_def cr_defs split: option.splits)
    next
      case None
      have "core None False b1" using p1 None by (simp add: passed_def broker_core_idle)
      then have "0 \<in> set (rotation b1)" by (simp add: core_def structure_inv_def)
      then have r: "rotating now False (length (rotation b1)) b1"
        using p1 None by (auto simp: rotating_def passed_def pass_effect_def calm_def owner_of_def)
      have "rotate (length (rotation b1)) now b1 = (Inr (), b')"
        using False l None assms(4) by (auto simp: schedule_def cr_defs split: option.splits prod.splits sum.splits)
      from cr_hoare_Inr [OF rotate_permitted _ this] r w1 show ?thesis by blast
    qed
  qed
  then show ?thesis using assms(5) by (force simp: within_policy_def list_all_iff permitted_def)
qed

definition queued_broker :: broker where
  "queued_broker = example_broker\<lparr>sessions := [(4, (new_session None)\<lparr>commands := [\<lparr>cmd_payload = [CMD_GET_BATT_AND_STORAGE], queued_at = 0\<rparr>]\<rparr>)],
     rotation := [0, 4]\<rparr>"

lemma queued_session: "session_of i queued_broker = (if i = 4 then Some ((new_session None)\<lparr>commands := [\<lparr>cmd_payload = [CMD_GET_BATT_AND_STORAGE], queued_at = 0\<rparr>]\<rparr>) else None)"
  by (simp add: session_of_def queued_broker_def)

lemma queued_broker_inv: "broker_inv queued_broker"
proof -
  let ?b = queued_broker and ?e = example_broker
  have e: "core None False ?e" "active ?e = None"
    using example_inv(1) by (simp_all add: broker_inv_def broker_core_idle example_broker_def new_broker_def)
  have f: "dedicated_slots ?b = []" "config ?b = default_config" "active ?b = None" "rotation ?b = [0, 4]" "upstream_writes ?b = []"
    "\<not> failed ?b" "\<not> drain_requested ?b" "\<not> drain_authorized ?b" "orphan ?b = None" "radio ?b = new_radio_state" "self_key ?b = self_key ?e"
    "signing ?b = signing ?e" "config ?b = config ?e" "orphan ?b = orphan ?e" "radio ?b = radio ?e"
    by (simp_all add: queued_broker_def example_broker_def new_broker_def)
  have s: "slot_of k ?b = None" for k by (simp add: slot_of_def f)
  have "map fst (sessions ?b) = [4]" by (simp add: queued_broker_def)
  then have "structure_inv ?b" using s by (auto simp: structure_inv_def f queued_session new_session_def)
  moreover have "queues_inv ?b" using s by (simp add: queues_inv_def queued_session f session_inv_def new_session_def default_config_def owner_of_def)
  moreover have "env_inv ?b" using core_parts(3) [OF e(1)] unfolding env_inv_def f(11-15) .
  moreover have "lease_inv None ?b" using core_parts(7) [OF e(1)] f(6) by (simp add: lease_inv_def f(12,15) example_broker_def new_broker_def)
  ultimately show ?thesis
    by (simp add: broker_inv_def broker_core_idle core_def active_inv_def writes_inv_def outstanding_write_def wait_inv_def waiting_def f queued_session new_session_def)
qed

theorem schedule_within_policy_witness:
  "DispatchedPayload 4 1 [CMD_GET_BATT_AND_STORAGE] \<in> set (actions (snd (schedule 2000 queued_broker)))
    \<and> head_passes default_config [CMD_GET_BATT_AND_STORAGE]"
proof -
  let ?b = queued_broker
  have x: "time ?b = 0" "actions ?b = []" "config ?b = default_config"
    by (simp_all add: queued_broker_def example_broker_def new_broker_def)
  have "DispatchedPayload 4 1 [CMD_GET_BATT_AND_STORAGE] \<in> set (actions (snd (schedule 2000 ?b))) \<and> fst (schedule 2000 ?b) = Inr ()"
    by code_simp
  then have d: "DispatchedPayload 4 1 [CMD_GET_BATT_AND_STORAGE] \<in> set (actions (snd (schedule 2000 ?b)))"
    and r: "schedule 2000 ?b = (Inr (), snd (schedule 2000 ?b))" by (simp_all add: prod_eq_iff)
  have "time ?b \<le> 2000" using x by simp
  from schedule_within_policy [OF queued_broker_inv this x(2) r d] d x(3) show ?thesis by simp
qed

section \<open>Replies\<close>

definition addressed :: "int set \<Rightarrow> action \<Rightarrow> bool" where
  "addressed A a = (case a of SendFrame j e w payload \<Rightarrow> j \<in> A | CloseSession j r \<Rightarrow> True | EndEpoch e r \<Rightarrow> True | _ \<Rightarrow> False)"

definition grown :: "(action \<Rightarrow> bool) \<Rightarrow> action list \<Rightarrow> broker \<Rightarrow> bool" where
  "grown Q as b \<longleftrightarrow> (\<exists>new. actions b = as @ new \<and> list_all Q new)"

lemma grownI: "actions b = as @ new \<Longrightarrow> list_all Q new \<Longrightarrow> grown Q as b"
  by (auto simp: grown_def)

interpretation ad: frame_assertion "grown (addressed A) as" A for A as
proof unfold_locales
  show "grown (addressed A) as (act [SendFrame j e w payload] b)" if "grown (addressed A) as b" "j \<in> A" for b j e w payload
    using that by (auto simp: grown_def addressed_def broker_simps)
qed (auto simp: grown_def addressed_def broker_simps)

text \<open>C8. A reply reaches its owner only: while the command of client \<open>i\<close> is in flight, the companion's
  answer makes the broker send frames to that client and to the companion (its next command, or the
  restored scope), and to no other client, whatever the answer is and however the step ends.\<close>

theorem reply_only_to_owner:
  assumes "active b = Some t" "t_owner t \<noteq> 0" "transaction_response payload now b = (r, b')"
  shows "\<exists>new. actions b' = actions b @ new
    \<and> (\<forall>j e w q. SendFrame j e w q \<in> set new \<longrightarrow> j = 0 \<or> j = t_owner t)"
proof -
  let ?A = "{0, t_owner t}"
  have step: "cr_keeps (grown (addressed ?A) (actions b)) (case t_step t of Setup \<Rightarrow> scope_response t payload now
        | Restore \<Rightarrow> scope_response t payload now | MaintenanceResult \<Rightarrow> cr_raise (ProtocolError m)
        | Command \<Rightarrow> command_response t payload now)" for m
    using assms(2)
    by (cases "t_step t") (auto intro!: ad.scope_response_keeps ad.command_response_owner_keeps cr_intros)
  have "cr_hoare (\<lambda>b'. b' = b) (transaction_response payload now) (\<lambda>_. grown (addressed ?A) (actions b)) (\<lambda>_. grown (addressed ?A) (actions b))"
    unfolding transaction_response_def
  proof (rule cr_hoare_bind_get)
    fix x
    show "cr_hoare (\<lambda>b'. b' = b \<and> x = active b') (case x of None \<Rightarrow> cr_raise (ProtocolError ''ordinary response without owner'')
     | Some t \<Rightarrow> cr_then (cr_modify (response_proves_write now))
         (case t_step t of
            Setup \<Rightarrow> scope_response t payload now
          | Restore \<Rightarrow> scope_response t payload now
          | MaintenanceResult \<Rightarrow> cr_raise (ProtocolError ''ordinary response after maintenance result'')
          | Command \<Rightarrow> command_response t payload now)) (\<lambda>_. grown (addressed ?A) (actions b)) (\<lambda>_. grown (addressed ?A) (actions b))"
    proof (cases "x = Some t")
      case True
      have g: "grown (addressed ?A) (actions b) b" by (rule grownI [of _ _ "[]"]) simp_all
      show ?thesis
        unfolding True option.case
        by (rule cr_weaken [OF cr_keeps_then [OF ad.proves_keeps step]]) (use g in auto)
    qed (use assms(1) in \<open>auto simp: cr_hoare_def\<close>)
  qed
  then have "grown (addressed ?A) (actions b) b'"
    using assms(3) by (cases r) (auto simp: cr_hoare_def)
  then obtain new where "actions b' = actions b @ new" "list_all (addressed ?A) new" by (auto simp: grown_def)
  then show ?thesis by (intro exI [of _ new]) (fastforce simp: list_all_iff addressed_def)
qed

theorem reply_only_to_owner_witness:
  "\<exists>new. actions (snd (transaction_response [RESP_CURRENT_TIME, 1, 2, 3, 4] 3000 (snd (play queueing_events example_broker)))) =
     actions (snd (play queueing_events example_broker)) @ new \<and> (\<forall>j e w q. SendFrame j e w q \<in> set new \<longrightarrow> j = 0 \<or> j = 4)"
proof -
  let ?b = "snd (play queueing_events example_broker)"
  have "owner_of ?b = Some 4" by code_simp
  then obtain t where "active ?b = Some t" "t_owner t = 4" by (auto simp: owner_of_def)
  then show ?thesis
    using reply_only_to_owner [of ?b t "[RESP_CURRENT_TIME, 1, 2, 3, 4]" 3000 "fst (transaction_response [RESP_CURRENT_TIME, 1, 2, 3, 4] 3000 ?b)"
        "snd (transaction_response [RESP_CURRENT_TIME, 1, 2, 3, 4] 3000 ?b)"] by simp
qed

section \<open>The end of an epoch\<close>

text \<open>C14. Failing the epoch is complete and happens once: every client is closed exactly once, in order,
  then the end of the epoch is announced; nothing stays in flight, the shared resources hold no open
  reservation, the answer still owed by the companion is recorded, and the message no client was
  there for is kept for the next epoch.\<close>

theorem epoch_ends_completely:
  assumes "broker_inv b" "\<not> failed b"
  shows "\<exists>b'. fail_epoch reason b = (Inr (), b') \<and> broker_inv b' \<and> failed b' \<and> sessions b' = [] \<and> active b' = None
    \<and> upstream_writes b' = [] \<and> \<not> rl_tentative (radio_remote (radio b'))
    \<and> actions b' = actions b @ map (\<lambda>i. CloseSession i ''upstream epoch failed'') (map fst (sessions b)) @ [EndEpoch (epoch b) reason]
    \<and> orphan b' = orphan b
    \<and> response_debt b' = (case active b of None \<Rightarrow> response_debt b
        | Some t \<Rightarrow> if t_step t \<noteq> MaintenanceResult \<and> response_debt b = None then Some t else response_debt b)"
proof -
  have "closable b" using broker_core_closable assms by (simp add: broker_inv_def)
  from fail_epoch_run [OF this assms(2), of reason] obtain b' where
    "fail_epoch reason b = (Inr (), b')" "ended b'" "response_debt b' = fresh_debt b" "orphan b' = orphan b"
    "actions b' = actions b @ map (\<lambda>i. CloseSession i ''upstream epoch failed'') (map fst (sessions b)) @ [EndEpoch (epoch b) reason]"
    by blast
  then show ?thesis using ended_fields [of b'] by (auto simp: ended_def fresh_debt_def)
qed

theorem epoch_ends_completely_witness:
  "\<exists>b'. fail_epoch ''closed'' example_broker = (Inr (), b') \<and> actions b' = [EndEpoch 1 ''closed'']"
  using epoch_ends_completely [OF example_inv(1), of "''closed''"]
  by (auto simp: example_broker_def new_broker_def)

text \<open>A failed epoch is inert: no later event changes anything but the clock, except that a client
  that arrives is told to close.\<close>

theorem failed_epoch_inert:
  assumes "broker_inv b" "failed b"
  shows "\<exists>now'. handle e b = (Inr (), (case e of Admit i slot now \<Rightarrow> act [CloseSession i ''upstream unavailable''] (b\<lparr>time := now'\<rparr>)
    | _ \<Rightarrow> b\<lparr>time := now'\<rparr>))"
proof -
  have s: "session_of i (b\<lparr>time := n\<rparr>) = None" for i n using ended_fields(3) [of b] assms by (simp add: ended_def session_of_def)
  have sch: "schedule n (b\<lparr>time := m\<rparr>) = (Inr (), b\<lparr>time := m\<rparr>)" for n m using assms(2) by (simp add: schedule_still)
  have rem: "remove i x (b\<lparr>time := n\<rparr>) = (Inr (), b\<lparr>time := n\<rparr>)" for i x n using s by (simp add: remove_def remove_with_def cr_defs)
  have quiet: "handle e b = (Inr (), b\<lparr>time := time b\<rparr>)" if "e = Written i k w now \<or> e = WriteFailed i k r now \<or> e = UpstreamClosed r" for i k w now r
    using that assms(2) by (auto simp: written_def write_failed_def fail_epoch_def cr_defs)
  show ?thesis
  proof (cases e)
    case (Admit i slot now)
    then show ?thesis using assms(2) by (intro exI [of _ now]) (simp add: admit_def cr_defs)
  next
    case (ClientFrame i p now)
    then show ?thesis using assms(2) by (intro exI [of _ now]) (simp add: client_frame_def cr_defs)
  next
    case (ClientClosed i r now)
    then show ?thesis by (intro exI [of _ now]) (simp add: client_closed_def cr_defs sch rem)
  next
    case (UpstreamFrame p now)
    then show ?thesis using assms(2) by (intro exI [of _ now]) (simp add: upstream_frame_def cr_defs)
  next
    case (Tick now)
    then show ?thesis using assms(2) by (intro exI [of _ now]) (simp add: tick_def cr_defs)
  qed (rule exI [of _ "time b"], use quiet in simp)+
qed

theorem failed_epoch_inert_witness:
  "\<exists>now'. snd (handle (Tick 5) (snd (fail_epoch [] example_broker))) = (snd (fail_epoch [] example_broker))\<lparr>time := now'\<rparr>"
proof -
  have "closable example_broker \<and> \<not> failed example_broker"
    using broker_core_closable example_inv(1) by (simp add: broker_inv_def example_broker_def new_broker_def)
  then obtain b' where b': "fail_epoch [] example_broker = (Inr (), b')" "broker_inv b'" "failed b'"
    using fail_epoch_run [of example_broker "[]"] by (auto simp: ended_def)
  then show ?thesis using failed_epoch_inert [OF b'(2,3), of "Tick 5"] by auto
qed

end
