(* ===== verification/Broker_Epochs.thy ===== *)
theory Broker_Epochs
  imports Broker_Props
begin

text \<open>
  One epoch of the broker after another: the recursive equation of \<open>fail_epoch\<close>, the answer that
  never comes, the answer still owed when an epoch has failed, and the state the next broker
  inherits.
\<close>

section \<open>The recursion of the source\<close>

text \<open>Below an epoch that has failed, \<open>fail_epoch\<close> returns at once, so the sessions are closed by
  the very method \<open>remove\<close> that calls it.\<close>

lemma fail_epoch_failed: "failed b \<Longrightarrow> fail_epoch reason b = (Inr (), b)"
  by (simp add: fail_epoch_def cr_defs)

lemma remove_failed:
  assumes "failed b"
  shows "remove i reason b = remove_with (\<lambda>_. cr_return ()) i reason b"
  using assms
  by (auto simp: remove_def remove_with_def finish_with_def cr_defs fail_epoch_failed broker_simps split: option.splits)

lemma remove_stays_failed: "failed b \<Longrightarrow> \<exists>b'. remove_with (\<lambda>_. cr_return ()) i reason b = (Inr (), b') \<and> failed b'"
  by (auto simp: remove_with_def finish_with_def cr_defs broker_simps split: option.splits)

lemma close_failed: "failed b \<Longrightarrow> cr_each ids (\<lambda>i. remove i reason) b = cr_each ids (\<lambda>i. remove_with (\<lambda>_. cr_return ()) i reason) b"
proof (induction ids arbitrary: b)
  case (Cons i ids)
  then obtain b1 where "remove_with (\<lambda>_. cr_return ()) i reason b = (Inr (), b1)" "failed b1"
    using remove_stays_failed by blast
  with Cons show ?case by (simp add: cr_then_def cr_bind_def remove_failed)
qed simp

lemma fail_epoch_recursive:
  "fail_epoch reason = cr_bind (cr_get failed) (\<lambda>already. if already then cr_return () else cr_seq [
     preserve_radio_uncertainty,
     cr_modify record_debt,
     cr_modify (\<lambda>b. b\<lparr>failed := True\<rparr>),
     cr_bind (cr_get (\<lambda>b. map fst (sessions b))) (\<lambda>ids. cr_each ids (\<lambda>i. remove i ''upstream epoch failed'')),
     cr_modify (\<lambda>b. act [EndEpoch (epoch b) reason] (b\<lparr>active := None, upstream_writes := []\<rparr>))])"
  by (rule ext) (simp add: fail_epoch_def cr_defs close_failed split: prod.splits sum.splits)

section \<open>The answer that never comes\<close>

lemma close_uncertainty: "cr_keeps (\<lambda>b. uncertain_until (radio b) = u) (close_all ids)"
proof -
  have "uncertain_until (radio (detach i s r b)) = uncertain_until (radio b)" for i s r b
    by (auto simp: detach_def release_slot_def broker_simps Let_def split: option.splits)
  then show ?thesis
    unfolding remove_with_def finish_with_def by (intro cr_intros) (simp_all add: owner_of_def)
qed

lemma fail_epoch_quarantine:
  assumes "active b = Some t" "t_step t = Command" "flag RemoteLease t \<or> plain_dm (t_command t)" "\<not> failed b"
    "fail_epoch reason b = (Inr (), b')" "later < time b + radio_uncertainty_timeout (config b)"
  shows "fst (quarantined later (radio b'))"
proof -
  define u where "u = fst (quarantine (time b) (radio_uncertainty_timeout (config b)) (plain_dm (t_command t)) (radio b))"
  have late: "time b + radio_uncertainty_timeout (config b) \<le> u" by (auto simp: u_def quarantine_def Let_def split: option.splits)
  have run: "cr_hoare (\<lambda>b'. b' = b) preserve_radio_uncertainty (\<lambda>_ b'. uncertain_until (radio b') = Some u \<and> \<not> failed b') (\<lambda>_ _. True)"
    using assms(1-4)
    by (auto simp: cr_hoare_def preserve_radio_uncertainty_def cr_defs on_radio_def on_remote_def quarantine_def u_def Let_def
        split: prod.splits sum.splits)
  let ?K = "\<lambda>b. uncertain_until (radio b) = Some u"
  have "cr_keeps ?K (cr_seq [cr_modify record_debt, cr_modify (\<lambda>b. b\<lparr>failed := True\<rparr>),
     cr_bind (cr_get (\<lambda>b. map fst (sessions b))) close_all,
     cr_modify (\<lambda>b. act [EndEpoch (epoch b) reason] (b\<lparr>active := None, upstream_writes := []\<rparr>))])"
    by (intro cr_intros close_uncertainty) (simp_all add: record_debt_eq broker_simps)
  then have "cr_hoare (\<lambda>b'. b' = b) (cr_seq [preserve_radio_uncertainty, cr_modify record_debt, cr_modify (\<lambda>b. b\<lparr>failed := True\<rparr>),
     cr_bind (cr_get (\<lambda>b. map fst (sessions b))) close_all,
     cr_modify (\<lambda>b. act [EndEpoch (epoch b) reason] (b\<lparr>active := None, upstream_writes := []\<rparr>))]) (\<lambda>_. ?K) (\<lambda>_ _. True)"
    by (intro cr_hoare_seq_Cons [OF run]) (erule cr_weaken; simp)
  from cr_hoare_Inr [OF this refl] assms(4,5) have "?K b'" by (simp add: fail_epoch_def cr_defs)
  then show ?thesis using late assms(6) by (simp add: quarantined_def)
qed

text \<open>C6. The companion's answer is overdue: the next tick, and likewise any frame that still arrives,
  ends the epoch and records the answer as owed, so a late answer is never taken for the answer to
  another command; and after a command that may have used the radio, the shared radio resources stay
  blocked for the configured time.\<close>

theorem overdue_answer_ends_epoch:
  assumes "broker_inv b" "time b \<le> now" "active b = Some t" "t_step t \<noteq> MaintenanceResult" "upstream_write_id t = None"
    "response_overdue (config b) t now"
  shows "upstream_frame payload now b = tick now b
    \<and> (\<exists>b'. tick now b = (Inr (), b') \<and> broker_inv b' \<and> failed b' \<and> response_debt b' = Some t
      \<and> actions b' = actions b @ map (\<lambda>i. CloseSession i ''upstream epoch failed'') (map fst (sessions b))
          @ [EndEpoch (epoch b) ''uncertain response timeout'']
      \<and> (t_step t = Command \<and> (flag RemoteLease t \<or> plain_dm (t_command t)) \<longrightarrow>
          (\<forall>later < now + radio_uncertainty_timeout (config b). fst (quarantined later (radio b')))))"
proof -
  let ?b = "b\<lparr>time := now, response_debt := Some t\<rparr>"
  have nf: "\<not> failed b" using ended_fields(2) [of b] assms(1,3) by (auto simp: ended_def)
  have "broker_inv (b\<lparr>time := now\<rparr>)" using assms(1,2) by (simp add: broker_inv_def broker_core_time)
  then have "broker_inv ?b" using debt_inv by simp
  then have "closable ?b" using broker_core_closable nf by (simp add: broker_inv_def)
  from fail_epoch_run [OF this, of "''uncertain response timeout''"] nf obtain b' where
    run: "fail_epoch ''uncertain response timeout'' ?b = (Inr (), b')" and e: "ended b'" "response_debt b' = fresh_debt ?b"
    and a: "actions b' = actions b @ map (\<lambda>i. CloseSession i ''upstream epoch failed'') (map fst (sessions b))
          @ [EndEpoch (epoch b) ''uncertain response timeout'']"
    by auto
  have "check_active_deadline now (b\<lparr>time := now\<rparr>) = (Inr False, b')"
    using assms(3-6) run by (simp add: check_active_deadline_def cr_defs)
  then have "tick now b = (Inr (), b') \<and> upstream_frame payload now b = (Inr (), b')"
    using nf by (simp add: tick_def upstream_frame_def upstream_payload_def cr_defs)
  moreover have "fst (quarantined later (radio b'))"
    if "t_step t = Command \<and> (flag RemoteLease t \<or> plain_dm (t_command t))" "later < now + radio_uncertainty_timeout (config b)" for later
    by (rule fail_epoch_quarantine [OF _ _ _ _ run, of t]) (use assms(3) that nf in simp_all)
  ultimately show ?thesis using e a assms(3) by (auto simp: ended_def fresh_debt_def)
qed

definition silent_events :: "event list" where
  "silent_events = [Admit 4 None 1000, ClientFrame 4 ([CMD_SEND_TXT_MSG, 0, 0, 1, 2, 3, 4, 1, 2, 3, 4, 5, 6, 65]) 2000, Written 0 1 2 3000]"

theorem overdue_answer_ends_epoch_witness:
  "\<exists>b'. tick (seconds 60) (snd (play silent_events example_broker)) = (Inr (), b') \<and> failed b' \<and> fst (quarantined (seconds 60) (radio b'))"
proof -
  let ?b = "snd (play silent_events example_broker)"
  have run: "run_ok silent_events example_broker \<and> time ?b \<le> seconds 60 \<and> seconds 60 < seconds 60 + radio_uncertainty_timeout (config ?b)
    \<and> (case active ?b of None \<Rightarrow> False | Some t \<Rightarrow> t_step t = Command \<and> upstream_write_id t = None \<and> plain_dm (t_command t)
        \<and> response_overdue (config ?b) t (seconds 60))" by code_simp
  then obtain t where t: "active ?b = Some t" "t_step t = Command" "upstream_write_id t = None" "plain_dm (t_command t)"
    "response_overdue (config ?b) t (seconds 60)" by (auto split: option.splits)
  have "broker_inv ?b" using play_inv [OF example_inv(1)] run by blast
  then obtain b' where b': "tick (seconds 60) ?b = (Inr (), b')" "failed b'"
    and q: "\<forall>later < seconds 60 + radio_uncertainty_timeout (config ?b). fst (quarantined later (radio b'))"
    using overdue_answer_ends_epoch [of ?b "seconds 60" t] run t by auto
  have "fst (quarantined (seconds 60) (radio b'))" using q run by blast
  with b' show ?thesis by blast
qed

section \<open>The answer still owed\<close>

definition owes :: "broker \<Rightarrow> bool" where
  "owes b \<longleftrightarrow> ended b \<and> response_debt b \<noteq> None"

definition drained :: "bool \<Rightarrow> broker \<Rightarrow> bool" where
  "drained complete b \<longleftrightarrow> ended b \<and> (complete \<longleftrightarrow> response_debt b = None)"

definition still_owes :: "mux_error \<Rightarrow> broker \<Rightarrow> bool" where
  "still_owes e b \<longleftrightarrow> owes b \<and> (\<exists>message. e = ProtocolError message)"

lemmas owes_defs = owes_def drained_def still_owes_def

abbreviation drains :: "bool broker_op \<Rightarrow> bool" where
  "drains m \<equiv> cr_hoare owes m drained still_owes"

lemma owes_owing: "owes b \<longleftrightarrow> (\<exists>t. owing (Some t) b)"
  by (auto simp: owes_def owing_def)

lemma ended_debt:
  assumes "ended b"
  shows "ended (b\<lparr>response_debt := x\<rparr>)"
  by (rule ended_cong [OF assms]) (use assms in \<open>simp_all add: ended_fields ended_env\<close>)

lemma drain_settle: "drains (cr_then (cr_modify (\<lambda>b. b\<lparr>response_debt := None\<rparr>)) (cr_return True))"
  by (rule cr_hoare_then [where R = "\<lambda>b. ended b \<and> response_debt b = None"])
    (auto intro!: cr_hoare_modify cr_hoare_return ended_debt simp: owes_defs)

lemma drain_more: "drains (cr_return False)"
  by (rule cr_hoare_return) (auto simp: owes_defs)

lemma drain_count: "cr_hoare owes (cr_modify (change_debt f)) (\<lambda>_. owes) still_owes"
  by (rule cr_hoare_modify) (auto simp: owes_def change_debt_def ended_debt)

lemma drain_lift: "(\<And>e. r = Inl e \<Longrightarrow> \<exists>m. e = ProtocolError m) \<Longrightarrow> cr_hoare owes (cr_lift r) (\<lambda>x b. owes b \<and> r = Inr x) still_owes"
  by (intro cr_hoare_lift) (auto simp: owes_defs)

lemma drain_owing: "(\<And>t. cr_total (owing (Some t)) m (\<lambda>_. owing (Some t))) \<Longrightarrow> cr_hoare owes m (\<lambda>_. owes) still_owes"
  by (force simp: cr_hoare_def owes_owing split: prod.splits sum.splits)

lemma drain_push: "item_ok q \<Longrightarrow> drains (cr_then (push q now) (cr_return False))"
  by (rule cr_hoare_then [OF drain_owing [OF push_ended] drain_more])

lemma drain_end:
  assumes "item_ok q"
  shows "drains (if complete then cr_then (cr_seq [cr_when pop (pop_result t q), cr_modify (\<lambda>b. b\<lparr>response_debt := None\<rparr>)]) (cr_return True)
    else cr_return False)"
proof (rule cr_hoare_if [OF _ drain_more])
  have "cr_hoare owes (cr_when pop (pop_result t q)) (\<lambda>_. owes) still_owes"
    by (rule cr_hoare_when [OF drain_owing [OF pop_result_ended [OF assms]]]) simp
  then have "cr_hoare owes (cr_seq [cr_when pop (pop_result t q), cr_modify (\<lambda>b. b\<lparr>response_debt := None\<rparr>)])
      (\<lambda>_ b. ended b \<and> response_debt b = None) still_owes"
    by (rule cr_hoare_seq_Cons, intro cr_hoare_seq_Cons [where R = "\<lambda>b. ended b \<and> response_debt b = None"] cr_hoare_seq_Nil cr_hoare_modify)
      (auto simp: owes_def ended_debt)
  then show "drains (cr_then (cr_seq [cr_when pop (pop_result t q), cr_modify (\<lambda>b. b\<lparr>response_debt := None\<rparr>)]) (cr_return True))"
    by (rule cr_hoare_then) (auto intro: cr_hoare_return simp: drained_def)
qed

lemma drain_ordinary:
  assumes "item_ok q"
  shows "drains (cr_bind (cr_lift (validate_response (t_descriptor t) q command phase)) (\<lambda>disposition.
           cr_then (cr_modify (change_debt (\<lambda>t. t\<lparr>response_frames := response_frames t + 1\<rparr>)))
           (cr_bind (cr_lift (contacts_drained t q)) (\<lambda>started.
            cr_then (cr_modify (change_debt (\<lambda>t. t\<lparr>contacts_started := started\<rparr>)))
            (if disposition = Complete then cr_then (cr_seq [cr_when pop (pop_result t q),
                  cr_modify (\<lambda>b. b\<lparr>response_debt := None\<rparr>)]) (cr_return True)
             else cr_return False)))))"
proof -
  have order: "contacts_drained t q = Inl e \<Longrightarrow> \<exists>m. e = ProtocolError m" for e by (auto simp: contacts_drained_def split: if_splits)
  show ?thesis
    by (rule cr_hoare_bind [OF cr_post [OF drain_lift [OF validate_response_error]]], assumption, erule conjunct1,
        rule cr_hoare_then [OF drain_count], rule cr_hoare_bind [OF cr_post [OF drain_lift [OF order]]], assumption, erule conjunct1,
        rule cr_hoare_then [OF drain_count drain_end [OF assms]])
qed

lemma drain_scope: "drains (if \<not> scope_reply q then cr_raise (ProtocolError m)
    else cr_then (cr_modify (\<lambda>b. b\<lparr>response_debt := None\<rparr>)) (cr_return True))"
  by (intro cr_hoare_if drain_settle cr_hoare_raise) (auto simp: owes_defs)

lemma drain_uncertain: "drains (drain_uncertain_frame q now)"
proof -
  have valid: "cr_hoare owes (cr_lift (validate_response_shape q)) (\<lambda>_ b. item_ok q \<and> owes b) still_owes"
    by (rule cr_post [OF drain_lift [OF shape_error]]) (auto simp: item_ok_def)
  show ?thesis
    unfolding drain_uncertain_frame_def
  proof (rule cr_hoare_bind_get, rule cr_hoare_option)
    fix x
    show "cr_hoare (\<lambda>b. owes b \<and> x = response_debt b) (cr_return True) drained still_owes" if "x = None"
      by (rule cr_hoare_return) (use that in \<open>auto simp: owes_def\<close>)
    show "cr_hoare (\<lambda>b. owes b \<and> x = response_debt b) (cr_then (cr_lift (validate_response_shape q))
        (if q ! 0 \<ge> PUSH_ADVERT then cr_then (push q now) (cr_return False)
         else if t_step t = Setup \<or> t_step t = Restore then
           (if \<not> scope_reply q then cr_raise (ProtocolError ''unexpected poisoned scope response'')
            else cr_then (cr_modify (\<lambda>b. b\<lparr>response_debt := None\<rparr>)) (cr_return True))
         else cr_bind (cr_lift (validate_response (t_descriptor t) q (Some (t_command t)) (if contacts_started t then 1 else 0))) (\<lambda>disposition.
           cr_then (cr_modify (change_debt (\<lambda>t. t\<lparr>response_frames := response_frames t + 1\<rparr>)))
           (cr_bind (cr_lift (contacts_drained t q)) (\<lambda>started.
            cr_then (cr_modify (change_debt (\<lambda>t. t\<lparr>contacts_started := started\<rparr>)))
            (if disposition = Complete then cr_then
               (cr_seq [cr_when (t_owner t = 0 \<and> q ! 0 \<noteq> RESP_ERR) (pop_result t q),
                  cr_modify (\<lambda>b. b\<lparr>response_debt := None\<rparr>)]) (cr_return True)
             else cr_return False)))))) drained still_owes" for t
      by (rule cr_pre [OF cr_hoare_then [OF valid]], rule cr_pre_fact, intro cr_hoare_if drain_push drain_scope drain_ordinary) auto
  qed
qed


definition overdue_events :: "bytes \<Rightarrow> event list" where
  "overdue_events command = [Admit 4 None 1000, ClientFrame 4 command 2000, Written 0 1 2 3000, Tick (seconds 60)]"

definition owing_broker :: "bytes \<Rightarrow> broker" where
  "owing_broker command = snd (play (overdue_events command) example_broker)"

lemma owing_broker:
  assumes "run_ok (overdue_events command) example_broker" "failed (owing_broker command)" "response_debt (owing_broker command) \<noteq> None"
  obtains t where "ended (owing_broker command)" "response_debt (owing_broker command) = Some t"
  using assms play_inv [OF example_inv(1) assms(1)] by (auto simp: owing_broker_def ended_def)


text \<open>Once the epoch has failed, no push settles the answer still owed: in particular a client's request
  for the telemetry of the companion itself, whose only answer is the telemetry push, stays owed when that
  very push arrives late.\<close>

theorem push_never_settles_debt:
  assumes "ended b" "response_debt b = Some t" "validate_response_shape payload = Inr ()" "PUSH_ADVERT \<le> payload ! 0"
  shows "\<exists>b'. drain_uncertain_frame payload now b = (Inr False, b') \<and> ended b' \<and> response_debt b' = Some t"
proof -
  have "cr_total (owing (Some t)) (push payload now) (\<lambda>_. owing (Some t))"
    by (rule push_ended) (use assms(3) in \<open>simp add: item_ok_def\<close>)
  moreover have "owing (Some t) b" using assms by (simp add: owing_def)
  ultimately obtain b' where "push payload now b = (Inr (), b')" "owing (Some t) b'"
    using cr_total_returns by (metis old.unit.exhaust)
  then show ?thesis using assms by (auto simp: drain_uncertain_frame_def cr_defs owing_def)
qed

section \<open>The next epoch\<close>

text \<open>C16. What a failed epoch leaves behind is a sound start for the next one: the slots' queues within
  their bound and attached to nobody, the radio leases without an open reservation, and the message
  no client has read yet.\<close>

theorem next_epoch_inherits:
  assumes "broker_inv b" "failed b" "6 \<le> length key"
  shows "broker_inv (new_broker e key (config b) now (orphan b) (dedicated_slots b) (radio b) (deduplicator b))"
proof -
  have en: "ended b" using assms by (simp add: ended_def)
  have c: "core None False b" "sessions b = []" using ended_fields [OF en] by auto
  have slots: "slot_inv (config b) slot \<and> slot_session slot = None" if m: "(k, slot) \<in> set (dedicated_slots b)" for k slot
  proof -
    have d: "distinct (map fst (dedicated_slots b))" using core_parts(1) [OF c(1)] by (simp add: structure_inv_def)
    then have s: "slot_of k b = Some slot" using m by (simp add: slot_of_def)
    have "slot_session slot = None"
    proof (cases "slot_session slot")
      case (Some i)
      then have "session_of i b \<noteq> None" using core_parts(1) [OF c(1)] s unfolding structure_inv_def by blast
      then show ?thesis by (simp add: session_of_def c(2))
    qed
    moreover have "slot_inv (config b) slot" using core_parts(2) [OF c(1)] s unfolding queues_inv_def by blast
    ultimately show ?thesis by blast
  qed
  show ?thesis
    by (rule new_broker_inv)
      (use core_parts(1,3) [OF c(1)] ended_fields(7) [OF en] assms(3) slots in
        \<open>auto simp: leftovers_ok_def structure_inv_def env_inv_def list_all_iff split: option.splits\<close>)
qed


theorem next_epoch_inherits_witness:
  "broker_inv (new_broker 2 (replicate 32 7) (config (owing_broker [CMD_GET_DEVICE_TIME])) (seconds 70) (orphan (owing_broker [CMD_GET_DEVICE_TIME]))
     (dedicated_slots (owing_broker [CMD_GET_DEVICE_TIME])) (radio (owing_broker [CMD_GET_DEVICE_TIME])) (deduplicator (owing_broker [CMD_GET_DEVICE_TIME])))"
proof -
  let ?c = "[CMD_GET_DEVICE_TIME]"
  have "run_ok (overdue_events ?c) example_broker \<and> failed (owing_broker ?c) \<and> response_debt (owing_broker ?c) \<noteq> None" by code_simp
  then obtain t where "ended (owing_broker ?c)" using owing_broker by blast
  then show ?thesis by (intro next_epoch_inherits) (simp_all add: ended_def)
qed

end
