(* ===== verification/Spec2Isabelle.thy ===== *)
theory Spec2Isabelle
  imports Frame_Codec Protocol Startup Inbox_Store Leases Fake_Companion Frame_Relay Live_Client Live_Dedicated Live_Pair
    Live_Simulation Script_Trace Readiness Mux_Process Live_Remote Live_Signing Live_Scope Live_Small Live_Reconnect Broker_Epochs
begin

text \<open>
  This development verifies the program meshcore-tcp-mux: a multiplexer (Crystal, under
  \<open>src/src/meshcore_tcp_mux\<close>) that shares one companion radio between several TCP clients, and the
  Python programs under \<open>src/scripts\<close> that check it on loopback and on real radios.
\<close>

section \<open>The mux starts against the fake companion\<close>

definition probe_payloads :: "bytes list" where
  "probe_payloads = replicate 5 (CMD_APP_START # replicate 7 0 @ ascii ''meshcore-tcp-mux'')
     @ [[CMD_DEVICE_QUERY, UPSTREAM_APP_TARGET]]"

lemma startup_probes_payloads: "startup_probes = map Inr probe_payloads"
  by (simp add: startup_probes_def probe_payloads_def startup_app_start_def app_start_payload_def
      device_query_payload_def ascii_def numeral_eq_Suc)

lemma fake_app_starts:
  assumes "fake_writer c \<noteq> None" "self_info = Inr info" "p \<noteq> []" "p ! 0 = CMD_APP_START" "length info < 65536"
  shows "\<exists>k. py_for (replicate n p) fake_command c = (Inr (replicate n ()), c\<lparr>fake_commands := k,
      fake_written := fake_written c @ concat (map (envelope 0x3E) (replicate n info))\<rparr>)"
  using assms(1)
proof (induction n arbitrary: c)
  case 0
  show ?case by (intro exI [of _ "fake_commands c"]) (simp add: py_return_def)
next
  case (Suc n)
  let ?c = "c\<lparr>fake_commands := fake_commands (count_command (p ! 0) c), fake_written := fake_written c @ envelope 0x3E info\<rparr>"
  have "fake_command p c = (Inr (), ?c)"
    using assms(3-5) Suc.prems by (simp add: fake_command_def py_then_def py_bind_def py_modify_def
        fake_send_connected fake_answer_def count_command_def assms(2))
  moreover obtain k where "py_for (replicate n p) fake_command ?c = (Inr (replicate n ()), ?c\<lparr>fake_commands := k,
      fake_written := fake_written ?c @ concat (map (envelope 0x3E) (replicate n info))\<rparr>)"
    using Suc.IH [of ?c] Suc.prems by auto
  ultimately show ?case by (intro exI [of _ k]) (simp add: py_bind_def py_return_def)
qed

lemma py_for_snoc:
  "py_for xs f c = (Inr ys, c1) \<Longrightarrow> f x c1 = (Inr y, c2) \<Longrightarrow> py_for (xs @ [x]) f c = (Inr (ys @ [y]), c2)"
  by (induction xs arbitrary: c ys) (auto simp: py_bind_def py_return_def split: prod.splits sum.splits)

lemma fake_probe_run:
  assumes "self_info = Inr info" "length info = 72" "device_info level tail = Inr dev" "length dev \<le> 176"
  defines "replies \<equiv> replicate 5 info @ [dev]"
  shows "\<exists>c1 c2. py_for probe_payloads fake_command ((FakeCompanion_init level tail)\<lparr>fake_writer := Some connection\<rparr>) = (Inr (replicate 6 ()), c1)
    \<and> fake_written c1 = concat (map (envelope 0x3E) replies)
    \<and> fake_command [CMD_SET_FLOOD_SCOPE_KEY, 0] c1 = (Inr (), c2)
    \<and> fake_written c2 = concat (map (envelope 0x3E) (replies @ [[RESP_OK]]))"
proof -
  let ?fresh = "(FakeCompanion_init level tail)\<lparr>fake_writer := Some connection\<rparr>" and ?q = "[CMD_DEVICE_QUERY, UPSTREAM_APP_TARGET]"
  let ?start = "CMD_APP_START # replicate 7 0 @ ascii ''meshcore-tcp-mux''"
  obtain k where k: "py_for (replicate 5 ?start) fake_command ?fresh
      = (Inr (replicate 5 ()), ?fresh\<lparr>fake_commands := k, fake_written := concat (map (envelope 0x3E) (replicate 5 info))\<rparr>)"
    using fake_app_starts [of ?fresh info ?start 5] assms(1,2) by (auto simp: FakeCompanion_init_def)
  let ?c = "?fresh\<lparr>fake_commands := k, fake_written := concat (map (envelope 0x3E) (replicate 5 info))\<rparr>"
  obtain k' where k': "fake_command ?q ?c = (Inr (), ?c\<lparr>fake_commands := k', query_targets := [UPSTREAM_APP_TARGET],
      fake_written := concat (map (envelope 0x3E) replies)\<rparr>)"
    using assms(3,4) unfolding replies_def by (simp add: fake_command_def py_then_def py_bind_def py_modify_def py_get_def
        fake_send_connected fake_answer_def count_command_def FakeCompanion_init_def)
  let ?probed = "?c\<lparr>fake_commands := k', query_targets := [UPSTREAM_APP_TARGET], fake_written := concat (map (envelope 0x3E) replies)\<rparr>"
  have "replicate 5 () @ [()] = replicate 6 ()" by (simp add: numeral_eq_Suc)
  then have "py_for probe_payloads fake_command ?fresh = (Inr (replicate 6 ()), ?probed)"
    using py_for_snoc [OF k k'] unfolding probe_payloads_def by (simp only:)
  moreover obtain k'' where "fake_command [CMD_SET_FLOOD_SCOPE_KEY, 0] ?probed = (Inr (), ?probed\<lparr>fake_commands := k'',
      fake_written := concat (map (envelope 0x3E) (replies @ [[RESP_OK]]))\<rparr>)"
    by (simp add: fake_command_def py_then_def py_bind_def py_modify_def fake_send_connected fake_answer_def count_command_def)
  ultimately show ?thesis by (intro exI [of _ ?probed] exI conjI) (assumption | simp)+
qed

lemma startup_accepts:
  assumes "validate_self_info info = Inr key" "validate_device_info dev = Inr level" "dev \<noteq> []" "dev ! 0 = RESP_DEVICE_INFO" "arrival < t0 + timeout"
  shows "\<exists>s. startup_run (new_startup t0 timeout) (map (\<lambda>p. (p, arrival)) ((replicate 5 info @ [dev]) @ [[RESP_OK]]))
        = ([[CMD_SET_FLOOD_SCOPE_KEY, 0]], Inr s)
    \<and> startup_ready s \<and> startup.self_key s = Some key \<and> upstream_protocol_level s = Some level
    \<and> exposed_protocol_level s = Some (min level MAX_EXPOSED_PROTOCOL_LEVEL)"
proof -
  have "\<exists>s. startup_run (new_startup t0 timeout) ([] @ map (\<lambda>p. (p, arrival)) ((replicate 5 info @ [dev]) @ [[RESP_OK]]))
        = ([[CMD_SET_FLOOD_SCOPE_KEY, 0]], Inr s)
    \<and> startup_ready s \<and> startup.self_key s = Some key \<and> device_info_record s = Some dev \<and> upstream_protocol_level s = Some level
    \<and> exposed_protocol_level s = Some (min level MAX_EXPOSED_PROTOCOL_LEVEL)"
    using assms(5) by (intro startup_run_crosses [OF _ _ assms(1,2)]) (auto simp: list_all_iff)
  then show ?thesis unfolding append_Nil by blast
qed

text \<open>C1. The mux starts against the fake companion, whatever firmware level from 13 to 255 it simulates
  and whatever future tail of at most 94 bytes it appends: its answers to the mux's six probes and
  to the scope reset are whole frames for the mux's decoder, and fed to the startup state machine
  they end in readiness with the companion's key, its level, and the exposed level capped at 14.\<close>

theorem startup_with_fake_companion:
  assumes "13 \<le> level" "level < 256" "length tail \<le> 94" "arrival < t0 + timeout"
  shows "\<exists>ps replies c1 c2 s. startup_probes = map Inr ps
    \<and> py_for ps fake_command ((FakeCompanion_init level tail)\<lparr>fake_writer := Some connection\<rparr>) = (Inr (replicate 6 ()), c1)
    \<and> parse_stream COMPANION_TO_CLIENT_MARKER (fake_written c1) = (replies, Inr [])
    \<and> fake_command [CMD_SET_FLOOD_SCOPE_KEY, 0] c1 = (Inr (), c2)
    \<and> parse_stream COMPANION_TO_CLIENT_MARKER (fake_written c2) = (replies @ [[RESP_OK]], Inr [])
    \<and> startup_run (new_startup t0 timeout) (map (\<lambda>p. (p, arrival)) (replies @ [[RESP_OK]]))
        = ([[CMD_SET_FLOOD_SCOPE_KEY, 0]], Inr s)
    \<and> startup_ready s \<and> startup.self_key s = Some (map of_nat [0..<32])
    \<and> upstream_protocol_level s = Some (of_nat level)
    \<and> exposed_protocol_level s = Some (min (of_nat level) MAX_EXPOSED_PROTOCOL_LEVEL)"
proof -
  obtain info where info: "self_info = Inr info" "length info = 72" "validate_self_info info = Inr (map of_nat [0..<32])"
    by (simp add: self_info_def Let_def validate_self_info_def)
  obtain dev where dev: "device_info level tail = Inr dev" "length dev = 82 + length tail" "dev ! 0 = RESP_DEVICE_INFO"
      "dev ! 1 = of_nat level"
    using device_info_ok [OF assms(2), of tail] by auto
  have "(of_nat level :: byte) \<ge> 13" using assms(1,2) by (simp add: word_le_nat_alt unat_of_nat)
  then have vdev: "validate_device_info dev = Inr (of_nat level)" using dev assms(3) by (simp add: validate_device_info_def not_less)
  let ?replies = "replicate 5 info @ [dev]"
  have parsed: "parse_stream COMPANION_TO_CLIENT_MARKER (concat (map (envelope 0x3E) fs)) = (fs, Inr [])"
    if "set fs \<subseteq> set (?replies @ [[RESP_OK]])" for fs
    using parse_envelopes [of fs "0x3E"] that info dev assms(3)
    by (force simp: COMPANION_TO_CLIENT_MARKER_def MAX_PAYLOAD_SIZE_def list_all_iff)
  have "length dev \<le> 176" using dev(2) assms(3) by simp
  then obtain c1 c2 where c: "py_for probe_payloads fake_command ((FakeCompanion_init level tail)\<lparr>fake_writer := Some connection\<rparr>) = (Inr (replicate 6 ()), c1)"
    "fake_written c1 = concat (map (envelope 0x3E) ?replies)" "fake_command [CMD_SET_FLOOD_SCOPE_KEY, 0] c1 = (Inr (), c2)"
    "fake_written c2 = concat (map (envelope 0x3E) (?replies @ [[RESP_OK]]))"
    using fake_probe_run [OF info(1,2) dev(1), of connection] by blast
  have "dev \<noteq> []" using dev(2) by auto
  then obtain s where "startup_run (new_startup t0 timeout) (map (\<lambda>p. (p, arrival)) (?replies @ [[RESP_OK]])) = ([[CMD_SET_FLOOD_SCOPE_KEY, 0]], Inr s)"
    "startup_ready s" "startup.self_key s = Some (map of_nat [0..<32])" "upstream_protocol_level s = Some (of_nat level)"
    "exposed_protocol_level s = Some (min (of_nat level) MAX_EXPOSED_PROTOCOL_LEVEL)"
    using startup_accepts [OF info(3) vdev _ dev(3) assms(4)] by blast
  then show ?thesis using startup_probes_payloads c parsed [of ?replies] parsed [of "?replies @ [[RESP_OK]]"]
    by (intro exI [of _ probe_payloads] exI [of _ ?replies] exI [of _ c1] exI [of _ c2] exI [of _ s] conjI) (simp_all del: map_append map_replicate)
qed

theorem startup_with_fake_companion_witness:
  "\<exists>s. exposed_protocol_level s = Some MAX_EXPOSED_PROTOCOL_LEVEL \<and> startup_ready s
     \<and> (\<exists>fs (c :: fake_companion). fake_written c \<noteq> [] \<and> parse_stream COMPANION_TO_CLIENT_MARKER (fake_written c) = (fs, Inr [])
          \<and> startup_run (new_startup 0 15) (map (\<lambda>p. (p, 5)) fs) = ([[CMD_SET_FLOOD_SCOPE_KEY, 0]], Inr s))"
proof -
  obtain replies s and c2 :: fake_companion where r:
    "parse_stream COMPANION_TO_CLIENT_MARKER (fake_written c2) = (replies @ [[RESP_OK]], Inr [])"
    "startup_run (new_startup 0 15) (map (\<lambda>p. (p, 5)) (replies @ [[RESP_OK]])) = ([[CMD_SET_FLOOD_SCOPE_KEY, 0]], Inr s)"
    "startup_ready s" "exposed_protocol_level s = Some (min (of_nat 200) MAX_EXPOSED_PROTOCOL_LEVEL)"
    using startup_with_fake_companion [of 200 "[1, 2, 3]" 5 0 15 7] by (simp del: map_append) blast
  have "fake_written c2 \<noteq> []"
  proof
    assume "fake_written c2 = []"
    with r(1) show False by (simp add: parse_stream.simps)
  qed
  moreover have "min (of_nat 200) MAX_EXPOSED_PROTOCOL_LEVEL = MAX_EXPOSED_PROTOCOL_LEVEL" by simp
  ultimately show ?thesis using r by metis
qed

end
